(* ===== verification/Prelude.thy ===== *)
theory Prelude
  imports Main "HOL-Library.Word"
begin

text \<open>
  The vocabulary every component of the JatOS model shares.

  \<^item> Machine integers: \<open>u8\<close>, \<open>u16\<close>, \<open>u32\<close> are words of that width, so arithmetic wraps
    as it does in the C code.
  \<^item> Undefined behaviour is a value: an operation whose C text indexes an array out of its
    bounds, dereferences a null pointer or overruns an object returns \<open>Inl\<close> of a
    \<open>fault\<close>; a defined execution returns \<open>Inr\<close>. \<open>bindE\<close> sequences such operations.
  \<^item> C \<open>for\<close> loops with \<open>continue\<close>, \<open>break\<close> and \<open>return\<close> are \<open>forE\<close> over the
    list of values the loop counter takes; the body says how it leaves the iteration.
  \<^item> A byte-addressed memory is a function from 32-bit addresses to bytes; \<open>mem_read\<close> and
    \<open>mem_write\<close> access a run of consecutive bytes, with addresses that wrap at 2 to the 32.
\<close>

unbundle bit_operations_syntax

section \<open>Types\<close>

type_synonym u8 = "8 word"
type_synonym u16 = "16 word"
type_synonym u32 = "32 word"

type_synonym mem = "u32 \<Rightarrow> u8"

datatype fault =
    Out_Of_Bounds   \<comment> \<open>array index outside the array\<close>
  | Null_Pointer    \<comment> \<open>dereference of NULL\<close>
  | Stack_Smash     \<comment> \<open>write past a stack object\<close>
  | Page_Fault      \<comment> \<open>access to an unmapped virtual page\<close>
  | Kernel_Access   \<comment> \<open>access, through a pointer a program passed, to the kernel's own page\<close>
  | Image_Overrun   \<comment> \<open>block access beyond the storage\<close>

type_synonym 'a res = "fault + 'a"

named_theorems arr_simps \<open>evaluation of bounds-checked array accesses\<close>
named_theorems geometry \<open>the numeric constants of the program\<close>

section \<open>Sequencing of operations that may fault\<close>

definition bindE :: "'a res \<Rightarrow> ('a \<Rightarrow> 'b res) \<Rightarrow> 'b res" where
  "bindE m f = (case m of Inl e \<Rightarrow> Inl e | Inr x \<Rightarrow> f x)"

lemma bindE_simps [simp]:
  "bindE (Inl e) f = Inl e"
  "bindE (Inr x) f = f x"
  by (simp_all add: bindE_def)

lemma bindE_eq_Inr: "bindE m f = Inr y \<longleftrightarrow> (\<exists>x. m = Inr x \<and> f x = Inr y)"
  by (cases m) auto

lemma bindE_eq_Inl: "bindE m f = Inl e \<longleftrightarrow> m = Inl e \<or> (\<exists>x. m = Inr x \<and> f x = Inl e)"
  by (cases m) auto

text \<open>The same for operations that may also not return.\<close>

definition bindO :: "('a res) option \<Rightarrow> ('a \<Rightarrow> ('b res) option) \<Rightarrow> ('b res) option" where
  "bindO r f = (case r of None \<Rightarrow> None | Some (Inl e) \<Rightarrow> Some (Inl e) | Some (Inr x) \<Rightarrow> f x)"

lemma bindO_simps [simp]:
  "bindO None f = None"
  "bindO (Some (Inl e)) f = Some (Inl e)"
  "bindO (Some (Inr x)) f = f x"
  by (simp_all add: bindO_def)

lemma bindO_eq: "bindO r f = Some (Inr y) \<longleftrightarrow> (\<exists>x. r = Some (Inr x) \<and> f x = Some (Inr y))"
  by (auto simp: bindO_def split: option.splits sum.splits)

lemma bindO_bind: "bindO r f = Option.bind r (\<lambda>x. case x of Inl e \<Rightarrow> Some (Inl e) | Inr y \<Rightarrow> f y)"
  by (simp add: bindO_def split: option.split sum.split)

lemma bindO_mono [partial_function_mono]:
  assumes "mono_option B" and "\<And>y. mono_option (\<lambda>f. C y f)"
  shows "mono_option (\<lambda>f. bindO (B f) (\<lambda>y. C y f))"
proof -
  have "mono_option (\<lambda>f. case y of Inl e \<Rightarrow> Some (Inl e) | Inr y \<Rightarrow> C y f)" for y
    using assms(2) by (cases y) (simp_all add: option.const_mono)
  then show ?thesis unfolding bindO_bind using assms(1) by (intro bind_mono) auto
qed

section \<open>Bounds-checked arrays\<close>

definition arr_get :: "'a list \<Rightarrow> nat \<Rightarrow> 'a res" where
  "arr_get xs i = (if i < length xs then Inr (xs ! i) else Inl Out_Of_Bounds)"

definition arr_set :: "'a list \<Rightarrow> nat \<Rightarrow> 'a \<Rightarrow> 'a list res" where
  "arr_set xs i v = (if i < length xs then Inr (xs[i := v]) else Inl Out_Of_Bounds)"

lemma arr_get_ok [arr_simps]: "i < length xs \<Longrightarrow> arr_get xs i = Inr (xs ! i)"
  by (simp add: arr_get_def)

lemma arr_get_oob [arr_simps]: "\<not> i < length xs \<Longrightarrow> arr_get xs i = Inl Out_Of_Bounds"
  by (simp add: arr_get_def)

lemma arr_set_ok [arr_simps]: "i < length xs \<Longrightarrow> arr_set xs i v = Inr (xs[i := v])"
  by (simp add: arr_set_def)

lemma arr_set_oob [arr_simps]: "\<not> i < length xs \<Longrightarrow> arr_set xs i v = Inl Out_Of_Bounds"
  by (simp add: arr_set_def)

lemma arr_get_eq_Inr: "arr_get xs i = Inr v \<longleftrightarrow> i < length xs \<and> v = xs ! i"
  by (auto simp: arr_get_def)

lemma arr_set_eq_Inr: "arr_set xs i v = Inr ys \<longleftrightarrow> i < length xs \<and> ys = xs[i := v]"
  by (auto simp: arr_set_def)

section \<open>Counted loops\<close>

text \<open>How an iteration ends: fall through to the next one, \<open>break\<close>, or \<open>return\<close>.\<close>

datatype ('s, 'r) ctl = Next 's | Brk 's | Ret 'r

fun forE :: "('i \<Rightarrow> 's \<Rightarrow> (('s, 'r) ctl) res) \<Rightarrow> 'i list \<Rightarrow> 's \<Rightarrow> (('s, 'r) ctl) res" where
  "forE body [] s = Inr (Next s)"
| "forE body (i # ks) s =
     bindE (body i s) (\<lambda>c. case c of Next s' \<Rightarrow> forE body ks s' | Brk s' \<Rightarrow> Inr (Brk s') | Ret r \<Rightarrow> Inr (Ret r))"

lemma forE_skip:
  assumes "\<And>i. i \<in> set xs \<Longrightarrow> body i s = Inr (Next s)"
  shows "forE body (xs @ ys) s = forE body ys s"
  using assms by (induction xs) auto

lemma forE_invariant:
  assumes "forE body xs s = Inr c" and "P s"
    and "\<And>i s c. i \<in> set xs \<Longrightarrow> P s \<Longrightarrow> body i s = Inr c \<Longrightarrow>
           (case c of Next s' \<Rightarrow> P s' | Brk s' \<Rightarrow> Q s' | Ret r \<Rightarrow> R r)"
  shows "case c of Next s' \<Rightarrow> P s' | Brk s' \<Rightarrow> Q s' | Ret r \<Rightarrow> R r"
  using assms
proof (induction xs arbitrary: s)
  case Nil
  then show ?case by auto
next
  case (Cons i xs)
  from Cons.prems(1) obtain d where d: "body i s = Inr d"
    by (auto simp: bindE_eq_Inr)
  have st: "case d of Next s' \<Rightarrow> P s' | Brk s' \<Rightarrow> Q s' | Ret r \<Rightarrow> R r"
    by (rule Cons.prems(3) [of i s d]) (simp_all add: Cons.prems(2) d)
  show ?case
  proof (cases d)
    case (Next s')
    with st have "P s'" by simp
    moreover have "forE body xs s' = Inr c" using Cons.prems(1) d Next by simp
    ultimately show ?thesis using Cons.IH Cons.prems(3) by (metis list.set_intros(2))
  next
    case (Brk s')
    with Cons.prems(1) d st show ?thesis by auto
  next
    case (Ret r)
    with Cons.prems(1) d st show ?thesis by auto
  qed
qed

section \<open>Text\<close>

definition codes :: "string \<Rightarrow> u8 list" where
  "codes = map of_char"

section \<open>Lists\<close>

lemma upt_split_at: "a \<le> m \<Longrightarrow> m < b \<Longrightarrow> [a..<b] = [a..<m] @ m # [Suc m..<b]"
  by (metis le_add_diff_inverse upt_add_eq_append upt_conv_Cons less_or_eq_imp_le)

lemma find_upt_Some:
  "find P [a..<b] = Some i \<longleftrightarrow> a \<le> i \<and> i < b \<and> P i \<and> (\<forall>j. a \<le> j \<and> j < i \<longrightarrow> \<not> P j)" (is "?l = ?r")
proof
  assume ?l
  then obtain k where "k < b - a" "P (a + k)" "i = a + k" "\<forall>j<k. \<not> P (a + j)"
    by (auto simp: find_Some_iff)
  moreover have "\<not> P j" if "a \<le> j" "j < i" for j
    using calculation that by (metis le_add_diff_inverse nat_add_left_cancel_less)
  ultimately show ?r by auto
next
  assume r: ?r
  then show ?l by (auto simp: find_Some_iff intro!: exI [of _ "i - a"])
qed

lemma find_upt_None: "find P [a..<b] = None \<longleftrightarrow> (\<forall>i. a \<le> i \<and> i < b \<longrightarrow> \<not> P i)"
  by (auto simp: find_None_iff)

lemma map_upt_shift: "map (\<lambda>k. f (a + k)) [0..<n] = map f [a..<a + n]"
  by (induction n) auto

lemma nth_map_upt0 [simp]: "i < n \<Longrightarrow> map f [0..<n] ! i = f i"
  by simp

text \<open>A loop that stores one value at a list of indices.\<close>

lemma length_fold_fill [simp]: "length (fold (\<lambda>i t. t[i := z]) ks t) = length t"
  by (induction ks arbitrary: t) auto

lemma nth_fold_fill:
  "n < length t \<Longrightarrow> fold (\<lambda>i t. t[i := z]) ks t ! n = (if n \<in> set ks then z else t ! n)"
  by (induction ks arbitrary: t) (auto simp: nth_list_update)

lemma fold_fill_all: "length t = n \<Longrightarrow> fold (\<lambda>i t. t[i := z]) [0..<n] t = replicate n z"
  by (rule nth_equalityI) (simp_all add: nth_fold_fill)

text \<open>A run of bytes cut into consecutive chunks of one size, and glued together again.\<close>

definition chunks :: "nat \<Rightarrow> nat \<Rightarrow> 'a list \<Rightarrow> 'a list list" where
  "chunks k n xs = map (\<lambda>i. take k (drop (k * i) xs)) [0..<n]"

lemma length_chunks [simp]: "length (chunks k n xs) = n"
  by (simp add: chunks_def)

lemma nth_chunks: "i < n \<Longrightarrow> chunks k n xs ! i = take k (drop (k * i) xs)"
  by (simp add: chunks_def)

lemma chunks_Suc: "chunks k (Suc n) xs = take k xs # chunks k n (drop k xs)"
  by (simp add: chunks_def upt_conv_Cons map_Suc_upt [symmetric] add.commute del: upt_Suc map_Suc_upt)

lemma concat_chunks: "length xs = k * n \<Longrightarrow> concat (chunks k n xs) = xs"
  by (induction n arbitrary: xs) (auto simp: chunks_Suc, simp add: chunks_def)

lemma chunks_concat:
  "\<forall>x \<in> set xss. length x = k \<Longrightarrow> length xss = n \<Longrightarrow> chunks k n (concat xss) = xss"
proof (induction xss arbitrary: n)
  case Nil
  then show ?case by (simp add: chunks_def)
next
  case (Cons x xss)
  then obtain n' where "n = Suc n'" "length xss = n'" by auto
  with Cons show ?case by (simp add: chunks_Suc)
qed

lemma length_concat_const: "\<forall>x \<in> set xss. length x = k \<Longrightarrow> length (concat xss) = k * length xss"
  by (induction xss) auto

lemma length_chunk_mem:
  "length xs = k * n \<Longrightarrow> x \<in> set (chunks k n xs) \<Longrightarrow> length x = k"
proof -
  assume len: "length xs = k * n" and "x \<in> set (chunks k n xs)"
  then obtain i where "i < n" "x = take k (drop (k * i) xs)" by (auto simp: chunks_def)
  moreover from this have "k * i + k \<le> k * n" by (metis Suc_leI mult_Suc_right mult_le_mono2 add.commute)
  ultimately show "length x = k" using len by simp
qed

section \<open>Words\<close>

lemma unat_of_nat32: "n < 4294967296 \<Longrightarrow> unat (of_nat n :: u32) = n"
  by (simp add: unat_of_nat take_bit_nat_eq_self)

lemma of_nat32_eq_iff:
  "m < 4294967296 \<Longrightarrow> n < 4294967296 \<Longrightarrow> (of_nat m :: u32) = of_nat n \<longleftrightarrow> m = n"
  by (metis unat_of_nat32)

lemma eq_of_nat32_iff: "n < 4294967296 \<Longrightarrow> (w :: u32) = of_nat n \<longleftrightarrow> unat w = n"
  by (simp add: word_unat_eq_iff unat_of_nat32)

lemma u32_lt_size [simp]: "unat (x :: u32) < 4294967296"
  using unsigned_less [of x] by simp

section \<open>Byte-addressed memory\<close>

definition mem_read :: "mem \<Rightarrow> u32 \<Rightarrow> nat \<Rightarrow> u8 list" where
  "mem_read m a n = map (\<lambda>i. m (a + of_nat i)) [0..<n]"

definition mem_write :: "mem \<Rightarrow> u32 \<Rightarrow> u8 list \<Rightarrow> mem" where
  "mem_write m a bs = (\<lambda>x. if unat (x - a) < length bs then bs ! unat (x - a) else m x)"

lemma length_mem_read [simp]: "length (mem_read m a n) = n"
  by (simp add: mem_read_def)

lemma nth_mem_read: "i < n \<Longrightarrow> mem_read m a n ! i = m (a + of_nat i)"
  by (simp add: mem_read_def)

lemma mem_write_Nil [simp]: "mem_write m a [] = m"
  by (simp add: mem_write_def)

lemma mem_write_at:
  "i < length bs \<Longrightarrow> i < 4294967296 \<Longrightarrow> mem_write m a bs (a + of_nat i) = bs ! i"
  by (simp add: mem_write_def unat_of_nat32)

lemma mem_write_outside:
  "\<not> unat (x - a) < length bs \<Longrightarrow> mem_write m a bs x = m x"
  by (simp add: mem_write_def)

lemma mem_read_write_same:
  "length bs \<le> 4294967296 \<Longrightarrow> mem_read (mem_write m a bs) a (length bs) = bs"
  by (rule nth_equalityI) (simp_all add: nth_mem_read mem_write_at)

lemma mem_write_append:
  assumes "length xs + length ys \<le> 4294967296"
  shows "mem_write (mem_write m a xs) (a + of_nat (length xs)) ys = mem_write m a (xs @ ys)"
proof
  fix x
  let ?k = "unat (x - a)"
  have k: "x - a = of_nat ?k" by simp
  show "mem_write (mem_write m a xs) (a + of_nat (length xs)) ys x = mem_write m a (xs @ ys) x"
  proof (cases "?k < length xs")
    case True
    have "x - (a + of_nat (length xs)) = of_nat ?k - of_nat (length xs)" by simp
    also have "\<dots> = of_nat (4294967296 + ?k - length xs)"
    proof -
      have "(of_nat (4294967296 + ?k - length xs) :: u32) = of_nat (4294967296 + ?k) - of_nat (length xs)"
        using assms by (intro of_nat_diff) simp
      also have "(of_nat (4294967296 + ?k) :: u32) = of_nat ?k"
        unfolding of_nat_add by simp
      finally show ?thesis by simp
    qed
    finally have eq: "x - (a + of_nat (length xs)) = of_nat (4294967296 + ?k - length xs)" .
    have "unat (x - (a + of_nat (length xs))) = 4294967296 + ?k - length xs"
      unfolding eq using True assms by (intro unat_of_nat32) linarith
    moreover have "\<not> 4294967296 + ?k - length xs < length ys" using assms by linarith
    ultimately show ?thesis using True by (simp add: mem_write_def nth_append)
  next
    case False
    have "x - (a + of_nat (length xs)) = of_nat ?k - of_nat (length xs)" by simp
    also have "\<dots> = of_nat (?k - length xs)" using False by (intro of_nat_diff [symmetric]) simp
    finally have eq: "x - (a + of_nat (length xs)) = of_nat (?k - length xs)" .
    have "unat (x - (a + of_nat (length xs))) = ?k - length xs"
      unfolding eq using u32_lt_size [of "x - a"] by (intro unat_of_nat32) linarith
    then show ?thesis using False by (auto simp: mem_write_def nth_append)
  qed
qed

lemma mem_read_cong:
  "(\<And>i. i < n \<Longrightarrow> m (a + of_nat i) = m' (a + of_nat i)) \<Longrightarrow> mem_read m a n = mem_read m' a n"
  by (simp add: mem_read_def)

lemma mem_read_add: "mem_read m a (n + k) = mem_read m a n @ mem_read m (a + of_nat n) k"
  by (rule nth_equalityI) (auto simp: nth_append nth_mem_read)

section \<open>Invariants of step relations\<close>

text \<open>
  The components' calls and the kernel's steps are relations on states. \<open>step_invariant\<close> is
  the contract of a predicate that one step keeps; it then holds after any sequence of steps.
\<close>

locale step_invariant =
  fixes step :: "'s \<Rightarrow> 's \<Rightarrow> bool" and inv :: "'s \<Rightarrow> bool"
  assumes kept: "step s s' \<Longrightarrow> inv s \<Longrightarrow> inv s'"
begin

lemma kept_by_steps: "step\<^sup>*\<^sup>* s s' \<Longrightarrow> inv s \<Longrightarrow> inv s'"
  by (induction rule: rtranclp_induct) (auto intro: kept)

end

end
