(* ===== verification/Storage.thy ===== *)
theory Storage
  imports Prelude
begin

text \<open>
  \<^verbatim>\<open>src/src/external-inserter.c\<close>, \<open>read_blocks\<close> and \<open>write_blocks\<close>: the block device of
  the host tool, a 4 MiB storage image held in memory. The image is a function from byte
  offsets to bytes, meaningful below \<open>IMAGE_SIZE\<close>; a block outside it is a fault
  (\<open>Image_Overrun\<close>), and so is a source buffer shorter than the blocks written. The byte
  offset is computed in 32-bit unsigned arithmetic, as the C expression is.
  \<open>read_blocks\<close> returns the bytes it stores at its pointer, in order.
\<close>

section \<open>Constants of disk.h and the size of the image\<close>

definition BLOCK_SIZE :: nat where
  "BLOCK_SIZE = 512"

definition IMAGE_SIZE :: nat where
  "IMAGE_SIZE = 4 * 1024 * 1024"

declare BLOCK_SIZE_def [geometry] IMAGE_SIZE_def [geometry]

type_synonym image = "nat \<Rightarrow> u8"

section \<open>Block access\<close>

text \<open>Storing a run of bytes at an offset of the image (the inner memcpy).\<close>

definition img_store :: "image \<Rightarrow> nat \<Rightarrow> u8 list \<Rightarrow> image" where
  "img_store im off bs = (\<lambda>x. if off \<le> x \<and> x < off + length bs then bs ! (x - off) else im x)"

definition img_load :: "image \<Rightarrow> nat \<Rightarrow> nat \<Rightarrow> u8 list" where
  "img_load im off n = map im [off..<off + n]"

definition block_offset :: "u32 \<Rightarrow> nat \<Rightarrow> nat" where
  "block_offset lba i = unat (of_nat BLOCK_SIZE * (lba + of_nat i))"

fun read_blocks_loop :: "image \<Rightarrow> u32 \<Rightarrow> nat list \<Rightarrow> (u8 list) res" where
  "read_blocks_loop im lba [] = Inr []"
| "read_blocks_loop im lba (i # ks) =
     (if block_offset lba i + BLOCK_SIZE > IMAGE_SIZE then Inl Image_Overrun
      else bindE (read_blocks_loop im lba ks) (\<lambda>rest.
             Inr (img_load im (block_offset lba i) BLOCK_SIZE @ rest)))"

definition read_blocks :: "image \<Rightarrow> u32 \<Rightarrow> u8 \<Rightarrow> (u8 list) res" where
  "read_blocks im lba block_count = read_blocks_loop im lba [0..<unat block_count]"

fun write_blocks_loop :: "u8 list \<Rightarrow> u32 \<Rightarrow> nat list \<Rightarrow> image \<Rightarrow> image res" where
  "write_blocks_loop bs lba [] im = Inr im"
| "write_blocks_loop bs lba (i # ks) im =
     (if block_offset lba i + BLOCK_SIZE > IMAGE_SIZE then Inl Image_Overrun
      else if BLOCK_SIZE * i + BLOCK_SIZE > length bs then Inl Out_Of_Bounds
      else write_blocks_loop bs lba ks
             (img_store im (block_offset lba i) (take BLOCK_SIZE (drop (BLOCK_SIZE * i) bs))))"

definition write_blocks :: "image \<Rightarrow> u8 list \<Rightarrow> u32 \<Rightarrow> u8 \<Rightarrow> image res" where
  "write_blocks im bs lba block_count = write_blocks_loop bs lba [0..<unat block_count] im"

section \<open>Laws of loads and stores\<close>

lemma length_img_load [simp]: "length (img_load im off n) = n"
  by (simp add: img_load_def)

lemma img_load_add: "img_load im off (n + k) = img_load im off n @ img_load im (off + n) k"
  by (rule nth_equalityI) (auto simp: img_load_def nth_append)

lemma img_store_Nil [simp]: "img_store im off [] = im"
  by (auto simp: img_store_def fun_eq_iff)

lemma img_load_store_same: "img_load (img_store im off bs) off (length bs) = bs"
  by (rule nth_equalityI) (auto simp: img_load_def img_store_def)

lemma img_load_store_disjoint:
  "off' + n \<le> off \<or> off + length bs \<le> off' \<Longrightarrow> img_load (img_store im off bs) off' n = img_load im off' n"
  by (rule nth_equalityI) (auto simp: img_load_def img_store_def)

lemma img_store_append:
  "img_store (img_store im off xs) (off + length xs) ys = img_store im off (xs @ ys)"
  by (auto simp: img_store_def fun_eq_iff nth_append)

lemma block_offset_nat:
  "unat lba + i < 8388608 \<Longrightarrow> block_offset lba i = 512 * (unat lba + i)"
proof -
  assume a: "unat lba + i < 8388608"
  have "of_nat 512 * (lba + of_nat i) = (of_nat (512 * (unat lba + i)) :: u32)"
    by (simp add: of_nat_mult)
  then show ?thesis
    unfolding block_offset_def BLOCK_SIZE_def using a by (simp only:) (rule unat_of_nat32, simp)
qed

text \<open>Blocks written in one call are one contiguous store.\<close>

lemma write_blocks_loop_closed:
  assumes "unat lba + n \<le> 8192" and "512 * n \<le> length bs" and "k \<le> n"
  shows "write_blocks_loop bs lba [k..<n] im =
         Inr (img_store im (512 * (unat lba + k)) (take (512 * (n - k)) (drop (512 * k) bs)))"
  using assms(3)
proof (induction "n - k" arbitrary: k im)
  case 0
  then show ?case by simp
next
  case (Suc d)
  then have kn: "k < n" by simp
  let ?blk = "take 512 (drop (512 * k) bs)"
  have off: "block_offset lba k = 512 * (unat lba + k)"
    using assms(1) kn by (intro block_offset_nat) simp
  have "write_blocks_loop bs lba [k..<n] im =
      write_blocks_loop bs lba [Suc k..<n] (img_store im (512 * (unat lba + k)) ?blk)"
    using kn assms by (simp add: upt_conv_Cons off BLOCK_SIZE_def IMAGE_SIZE_def)
  also have "\<dots> = Inr (img_store (img_store im (512 * (unat lba + k)) ?blk) (512 * (unat lba + Suc k))
        (take (512 * (n - Suc k)) (drop (512 * Suc k) bs)))"
    using Suc by (intro Suc.hyps) auto
  also have "512 * (unat lba + Suc k) = 512 * (unat lba + k) + length ?blk"
    using kn assms(2) by simp
  also have "img_store (img_store im (512 * (unat lba + k)) ?blk) (512 * (unat lba + k) + length ?blk)
        (take (512 * (n - Suc k)) (drop (512 * Suc k) bs)) =
      img_store im (512 * (unat lba + k)) (?blk @ take (512 * (n - Suc k)) (drop (512 * Suc k) bs))"
    by (rule img_store_append)
  also have "?blk @ take (512 * (n - Suc k)) (drop (512 * Suc k) bs) = take (512 * (n - k)) (drop (512 * k) bs)"
  proof -
    have "512 * (n - k) = 512 + 512 * (n - Suc k)" using kn by simp
    then show ?thesis by (simp add: take_add add.commute)
  qed
  finally show ?case .
qed

lemma read_blocks_loop_closed:
  assumes "unat lba + n \<le> 8192" and "k \<le> n"
  shows "read_blocks_loop im lba [k..<n] = Inr (img_load im (512 * (unat lba + k)) (512 * (n - k)))"
  using assms(2)
proof (induction "n - k" arbitrary: k)
  case 0
  then show ?case by (auto simp: img_load_def)
next
  case (Suc d)
  then have kn: "k < n" by simp
  have off: "block_offset lba k = 512 * (unat lba + k)"
    using assms(1) kn by (intro block_offset_nat) simp
  have "read_blocks_loop im lba [Suc k..<n] =
      Inr (img_load im (512 * (unat lba + Suc k)) (512 * (n - Suc k)))"
    using Suc by (intro Suc.hyps) auto
  then have "read_blocks_loop im lba [k..<n] = Inr (img_load im (512 * (unat lba + k)) 512 @
      img_load im (512 * (unat lba + k) + 512) (512 * (n - Suc k)))"
    using kn assms by (simp add: upt_conv_Cons off BLOCK_SIZE_def IMAGE_SIZE_def algebra_simps)
  also have "\<dots> = Inr (img_load im (512 * (unat lba + k)) (512 + 512 * (n - Suc k)))"
    by (simp only: img_load_add)
  also have "512 + 512 * (n - Suc k) = 512 * (n - k)" using kn by simp
  finally show ?case .
qed

end
