(* ===== verification/Cluster.thy ===== *)
theory Cluster
  imports Storage
begin

text \<open>
  The cluster layer of \<^verbatim>\<open>src/src/fat32.c\<close>: a cluster is four consecutive blocks, read and
  written through \<open>read_blocks\<close> and \<open>write_blocks\<close>. The interface the file system relies on
  is the locale \<open>cluster_store\<close>: a read returns the last contents written to that cluster,
  whatever was written to other clusters since. It is interpreted on the image model by
  \<open>cstore\<close>; \<open>read_clusters_one\<close> and \<open>write_clusters_one\<close> say that the code's calls with a
  count of one are exactly its two operations.
\<close>

section \<open>The code\<close>

definition CLUSTER_BLOCK_COUNT :: nat where
  "CLUSTER_BLOCK_COUNT = 4"

definition CLUSTER_SIZE :: nat where
  "CLUSTER_SIZE = BLOCK_SIZE * CLUSTER_BLOCK_COUNT"

declare CLUSTER_BLOCK_COUNT_def [geometry] CLUSTER_SIZE_def [geometry]

definition cluster_to_lba :: "u32 \<Rightarrow> u32" where
  "cluster_to_lba cluster = cluster * of_nat CLUSTER_BLOCK_COUNT"

text \<open>The block count is an int product converted to the \<open>uint8_t\<close> parameter.\<close>

definition write_clusters :: "image \<Rightarrow> u8 list \<Rightarrow> u32 \<Rightarrow> u8 \<Rightarrow> image res" where
  "write_clusters im bs cluster_number cluster_count =
     write_blocks im bs (cluster_to_lba cluster_number)
       (of_nat (unat cluster_count * CLUSTER_BLOCK_COUNT))"

definition read_clusters :: "image \<Rightarrow> u32 \<Rightarrow> u8 \<Rightarrow> (u8 list) res" where
  "read_clusters im cluster_number cluster_count =
     read_blocks im (cluster_to_lba cluster_number)
       (of_nat (unat cluster_count * CLUSTER_BLOCK_COUNT))"

section \<open>The contract of a store of clusters\<close>

text \<open>Writing a list of (cluster, contents) pairs in order.\<close>

definition put_all :: "('d \<Rightarrow> nat \<Rightarrow> 'b \<Rightarrow> 'd) \<Rightarrow> (nat \<times> 'b) list \<Rightarrow> 'd \<Rightarrow> 'd" where
  "put_all put ws d = fold (\<lambda>(c, b) d. put d c b) ws d"

lemma put_all_simps [simp]:
  "put_all put [] d = d"
  "put_all put ((c, b) # ws) d = put_all put ws (put d c b)"
  "put_all put (ws @ ws') d = put_all put ws' (put_all put ws d)"
  by (simp_all add: put_all_def)

locale cluster_store =
  fixes get :: "'d \<Rightarrow> nat \<Rightarrow> 'b" and put :: "'d \<Rightarrow> nat \<Rightarrow> 'b \<Rightarrow> 'd" and fits :: "'b \<Rightarrow> bool"
  assumes get_fits: "fits (get d c)"
    and get_put_same: "fits b \<Longrightarrow> get (put d c b) c = b"
    and get_put_other: "fits b \<Longrightarrow> c \<noteq> c' \<Longrightarrow> get (put d c b) c' = get d c'"
begin

lemma get_put: "fits b \<Longrightarrow> get (put d c b) c' = (if c = c' then b else get d c')"
  by (simp add: get_put_same get_put_other)

lemma get_put_all_other:
  "\<forall>(c, b) \<in> set ws. fits b \<Longrightarrow> e \<notin> fst ` set ws \<Longrightarrow> get (put_all put ws d) e = get d e"
  by (induction ws arbitrary: d) (auto simp: get_put_other)

lemma get_put_all_mem:
  assumes "\<forall>(c, b) \<in> set ws. fits b" and "distinct (map fst ws)" and "(c, b) \<in> set ws"
  shows "get (put_all put ws d) c = b"
  using assms
proof (induction ws arbitrary: d)
  case Nil
  then show ?case by simp
next
  case (Cons w ws)
  obtain c' b' where w: "w = (c', b')" by (cases w)
  show ?case
  proof (cases "(c, b) = (c', b')")
    case True
    with Cons.prems w have "c \<notin> fst ` set ws" by auto
    with Cons.prems w True show ?thesis by (simp add: get_put_all_other get_put_same)
  next
    case False
    with Cons.prems w have "(c, b) \<in> set ws" by auto
    with Cons.IH Cons.prems w show ?thesis by simp
  qed
qed

lemma map_get_put_all:
  assumes "\<forall>b \<in> set bss. fits b" and "distinct cs" and "length cs = length bss"
  shows "map (get (put_all put (zip cs bss) d)) cs = bss"
proof (rule nth_equalityI)
  show "length (map (get (put_all put (zip cs bss) d)) cs) = length bss"
    using assms by simp
  fix i assume "i < length (map (get (put_all put (zip cs bss) d)) cs)"
  then have i: "i < length cs" by simp
  have "(cs ! i, bss ! i) \<in> set (zip cs bss)"
    using i assms(3) by (auto simp: set_zip)
  then have "get (put_all put (zip cs bss) d) (cs ! i) = bss ! i"
    using assms by (intro get_put_all_mem) (auto dest: set_zip_rightD)
  then show "map (get (put_all put (zip cs bss) d)) cs ! i = bss ! i"
    using i by simp
qed

end

section \<open>The image provides it\<close>

definition cluster_at :: "image \<Rightarrow> nat \<Rightarrow> u8 list" where
  "cluster_at im c = img_load im (CLUSTER_SIZE * c) CLUSTER_SIZE"

definition set_cluster :: "image \<Rightarrow> nat \<Rightarrow> u8 list \<Rightarrow> image" where
  "set_cluster im c bs = img_store im (CLUSTER_SIZE * c) bs"

definition is_cluster :: "u8 list \<Rightarrow> bool" where
  "is_cluster bs \<longleftrightarrow> length bs = CLUSTER_SIZE"

lemma CLUSTER_SIZE_val: "CLUSTER_SIZE = 2048"
  by (simp add: geometry)

lemma length_cluster_at [simp]: "length (cluster_at im c) = 2048"
  by (simp add: cluster_at_def CLUSTER_SIZE_val)

lemma cluster_ranges_disjoint:
  "c \<noteq> (c' :: nat) \<Longrightarrow> 2048 * c' + 2048 \<le> 2048 * c \<or> 2048 * c + 2048 \<le> 2048 * c'"
  by linarith

interpretation cstore: cluster_store cluster_at set_cluster is_cluster
proof (unfold_locales, goal_cases)
  case (1 d c)
  show ?case by (simp add: is_cluster_def CLUSTER_SIZE_val)
next
  case (2 b d c)
  then show ?case
    using img_load_store_same [of d "CLUSTER_SIZE * c" b]
    by (simp add: is_cluster_def cluster_at_def set_cluster_def)
next
  case (3 b c c' d)
  then show ?case
    using cluster_ranges_disjoint [of c c']
    by (simp add: is_cluster_def cluster_at_def set_cluster_def img_load_store_disjoint CLUSTER_SIZE_val)
qed

lemma cluster_to_lba_nat: "unat c < 2048 \<Longrightarrow> unat (cluster_to_lba c) = 4 * unat c"
proof -
  assume c: "unat c < 2048"
  have "cluster_to_lba c = of_nat (4 * unat c)"
    by (simp add: cluster_to_lba_def CLUSTER_BLOCK_COUNT_def)
  then show ?thesis using c by (simp only:) (rule unat_of_nat32, simp)
qed

lemma read_clusters_one:
  assumes "unat c < 2048"
  shows "read_clusters im c 1 = Inr (cluster_at im (unat c))"
proof -
  have "read_clusters im c 1 = read_blocks_loop im (cluster_to_lba c) [0..<4]"
    by (simp add: read_clusters_def read_blocks_def CLUSTER_BLOCK_COUNT_def)
  also have "\<dots> = Inr (img_load im (512 * (unat (cluster_to_lba c) + 0)) (512 * (4 - 0)))"
    using assms by (intro read_blocks_loop_closed) (simp_all add: cluster_to_lba_nat)
  finally show ?thesis
    using assms by (simp add: cluster_to_lba_nat cluster_at_def CLUSTER_SIZE_val)
qed

lemma write_clusters_one:
  assumes "unat c < 2048" and "length bs = 2048"
  shows "write_clusters im bs c 1 = Inr (set_cluster im (unat c) bs)"
proof -
  have "write_clusters im bs c 1 = write_blocks_loop bs (cluster_to_lba c) [0..<4] im"
    by (simp add: write_clusters_def write_blocks_def CLUSTER_BLOCK_COUNT_def)
  also have "\<dots> = Inr (img_store im (512 * (unat (cluster_to_lba c) + 0)) (take (512 * (4 - 0)) (drop (512 * 0) bs)))"
    using assms by (intro write_blocks_loop_closed) (simp_all add: cluster_to_lba_nat)
  finally show ?thesis
    using assms by (simp add: cluster_to_lba_nat set_cluster_def CLUSTER_SIZE_val)
qed

text \<open>For any number: block addresses are 32 bits wide, and what lies behind the image is a fault.\<close>

lemma block_offset_cluster:
  assumes "i < 4"
  shows "block_offset (cluster_to_lba c) i = 2048 * (unat c mod 2097152) + 512 * i"
proof -
  have "of_nat BLOCK_SIZE * (cluster_to_lba c + of_nat i) = (of_nat (2048 * unat c + 512 * i) :: u32)"
    by (simp add: cluster_to_lba_def CLUSTER_BLOCK_COUNT_def BLOCK_SIZE_def algebra_simps)
  then have "block_offset (cluster_to_lba c) i = (2048 * unat c + 512 * i) mod 4294967296"
    unfolding block_offset_def by (simp only: unat_of_nat) simp
  also have "2048 * unat c + 512 * i = 4294967296 * (unat c div 2097152) + (2048 * (unat c mod 2097152) + 512 * i)"
    using div_mult_mod_eq [of "unat c" 2097152] by linarith
  also have "\<dots> mod 4294967296 = 2048 * (unat c mod 2097152) + 512 * i"
    using assms mod_less_divisor [of 2097152 "unat c"] by simp
  finally show ?thesis .
qed

lemma four_blocks: "[0..<4] = [0, 1, 2, 3 :: nat]"
  by (simp add: upt_rec)

lemma read_clusters_any:
  "read_clusters im c 1 =
    (if unat c mod 2097152 < 2048 then Inr (cluster_at im (unat c mod 2097152)) else Inl Image_Overrun)"
proof -
  let ?c = "of_nat (unat c mod 2097152) :: u32"
  have u: "unat ?c = unat c mod 2097152" by (rule unat_of_nat32) simp
  have off: "block_offset (cluster_to_lba c) i = block_offset (cluster_to_lba ?c) i" if "i < 4" for i
    using that unfolding block_offset_cluster [OF that] u by simp
  have rd: "read_clusters im x 1 = read_blocks_loop im (cluster_to_lba x) [0, 1, 2, 3]" for x
    unfolding four_blocks [symmetric] by (simp add: read_clusters_def read_blocks_def CLUSTER_BLOCK_COUNT_def)
  have "read_clusters im c 1 = read_clusters im ?c 1" unfolding rd by (simp add: off)
  moreover have "read_clusters im ?c 1 = Inl Image_Overrun" if "\<not> unat c mod 2097152 < 2048"
    using that unfolding rd by (simp add: block_offset_cluster u geometry)
  ultimately show ?thesis using read_clusters_one [of ?c im] u by auto
qed

lemma write_clusters_any:
  assumes "length bs = 2048"
  shows "write_clusters im bs c 1 =
    (if unat c mod 2097152 < 2048 then Inr (set_cluster im (unat c mod 2097152) bs) else Inl Image_Overrun)"
proof -
  let ?c = "of_nat (unat c mod 2097152) :: u32"
  have u: "unat ?c = unat c mod 2097152" by (rule unat_of_nat32) simp
  have off: "block_offset (cluster_to_lba c) i = block_offset (cluster_to_lba ?c) i" if "i < 4" for i
    using that unfolding block_offset_cluster [OF that] u by simp
  have wr: "write_clusters im bs x 1 = write_blocks_loop bs (cluster_to_lba x) [0, 1, 2, 3] im" for x
    unfolding four_blocks [symmetric] by (simp add: write_clusters_def write_blocks_def CLUSTER_BLOCK_COUNT_def)
  have "write_clusters im bs c 1 = write_clusters im bs ?c 1" unfolding wr by (simp add: off)
  moreover have "write_clusters im bs ?c 1 = Inl Image_Overrun" if "\<not> unat c mod 2097152 < 2048"
    using that unfolding wr by (simp add: block_offset_cluster u geometry)
  ultimately show ?thesis using write_clusters_one [of ?c bs im] assms u by auto
qed

lemma cluster_at_set [simp]:
  "length bs = 2048 \<Longrightarrow> cluster_at (set_cluster im c bs) c' = (if c = c' then bs else cluster_at im c')"
  by (rule cstore.get_put) (simp add: is_cluster_def CLUSTER_SIZE_val)

text \<open>
  Cluster access is a store of 2048-byte cells: for a cluster inside the 4 MiB image,
  writing 2048 bytes and reading back gives those bytes, and every other cluster in range
  reads as before.
\<close>

theorem write_clusters_read_back:
  assumes "unat c < 2048" and "unat e < 2048" and "length bs = 2048"
  shows "\<exists>im'. write_clusters im bs c 1 = Inr im' \<and>
           read_clusters im' e 1 = (if e = c then Inr bs else read_clusters im e 1)"
  using assms by (simp add: write_clusters_one read_clusters_one word_unat_eq_iff)

theorem write_clusters_read_back_witness:
  "\<exists>im'. write_clusters (\<lambda>_. 0) (replicate 2048 7) 5 1 = Inr im' \<and>
           read_clusters im' 6 1 = (if (6 :: u32) = 5 then Inr (replicate 2048 7) else read_clusters (\<lambda>_. 0) 6 1)"
  by (rule write_clusters_read_back) simp_all

end
