(* ===== verification/CString.thy ===== *)
theory CString
  imports Prelude
begin

text \<open>
  \<^verbatim>\<open>src/src/stdlib/string.c\<close>: memset, memcpy, memcmp and memmove, byte loops over a
  memory. Each returns the memory after the call (the C functions also return their
  destination pointer, which no caller uses). \<open>bytes_cmp\<close> is the comparison of memcmp on the
  two runs of bytes themselves, for callers whose operands are fields of typed structures.
  The lemmas give each loop its closed form: \<open>memmove\<close> always stores the bytes the source
  held at the call; \<open>memcpy\<close> does when the destination does not lie inside the source run.
\<close>

section \<open>The loops\<close>

definition memset :: "mem \<Rightarrow> u32 \<Rightarrow> int \<Rightarrow> nat \<Rightarrow> mem" where
  "memset m s c n = fold (\<lambda>i m. m(s + of_nat i := of_int c)) [0..<n] m"

definition memcpy :: "mem \<Rightarrow> u32 \<Rightarrow> u32 \<Rightarrow> nat \<Rightarrow> mem" where
  "memcpy m dest src n = fold (\<lambda>i m. m(dest + of_nat i := m (src + of_nat i))) [0..<n] m"

fun bytes_cmp :: "u8 list \<Rightarrow> u8 list \<Rightarrow> int" where
  "bytes_cmp (x # xs) (y # ys) = (if x < y then -1 else if x > y then 1 else bytes_cmp xs ys)"
| "bytes_cmp _ _ = 0"

fun memcmp_loop :: "mem \<Rightarrow> u32 \<Rightarrow> u32 \<Rightarrow> nat list \<Rightarrow> int" where
  "memcmp_loop m s1 s2 [] = 0"
| "memcmp_loop m s1 s2 (i # ks) =
     (if m (s1 + of_nat i) < m (s2 + of_nat i) then -1
      else if m (s1 + of_nat i) > m (s2 + of_nat i) then 1
      else memcmp_loop m s1 s2 ks)"

definition memcmp :: "mem \<Rightarrow> u32 \<Rightarrow> u32 \<Rightarrow> nat \<Rightarrow> int" where
  "memcmp m s1 s2 n = memcmp_loop m s1 s2 [0..<n]"

definition memmove :: "mem \<Rightarrow> u32 \<Rightarrow> u32 \<Rightarrow> nat \<Rightarrow> mem" where
  "memmove m dest src n =
     (if dest < src
      then fold (\<lambda>i m. m(dest + of_nat i := m (src + of_nat i))) [0..<n] m
      else fold (\<lambda>i m. m(dest + of_nat i := m (src + of_nat i))) (rev [0..<n]) m)"

section \<open>Closed forms\<close>

lemma mem_write_snoc:
  assumes "length bs < 4294967296"
  shows "mem_write m a (bs @ [b]) = (mem_write m a bs)(a + of_nat (length bs) := b)"
proof -
  have "mem_write m a (bs @ [b]) = mem_write (mem_write m a bs) (a + of_nat (length bs)) [b]"
    using assms by (simp add: mem_write_append)
  also have "\<dots> = (mem_write m a bs)(a + of_nat (length bs) := b)"
    by (auto simp: mem_write_def fun_eq_iff unat_eq_0)
  finally show ?thesis .
qed

lemma memset_closed:
  "n \<le> 4294967296 \<Longrightarrow> memset m s c n = mem_write m s (replicate n (of_int c))"
proof (induction n)
  case 0
  then show ?case by (simp add: memset_def)
next
  case (Suc n)
  have "memset m s c (Suc n) = (memset m s c n)(s + of_nat n := of_int c)"
    by (simp add: memset_def)
  also have "\<dots> = mem_write m s (replicate n (of_int c) @ [of_int c])"
    using Suc by (simp add: mem_write_snoc)
  finally show ?case by (simp only: replicate_Suc replicate_append_same)
qed

text \<open>Forward copying is right as long as no source byte is overwritten before it is read.\<close>

lemma copy_forward:
  assumes "\<And>i. i < n \<Longrightarrow> \<not> unat (src + of_nat i - dest) < i" and "n \<le> 4294967296"
  shows "fold (\<lambda>i m. m(dest + of_nat i := m (src + of_nat i))) [0..<n] m =
         mem_write m dest (mem_read m src n)"
  using assms
proof (induction n)
  case 0
  then show ?case by (simp add: mem_read_def)
next
  case (Suc n)
  let ?f = "\<lambda>i m. m(dest + of_nat i := m (src + of_nat i))"
  have IH: "fold ?f [0..<n] m = mem_write m dest (mem_read m src n)"
    by (rule Suc.IH) (use Suc.prems in auto)
  have keep: "mem_write m dest (mem_read m src n) (src + of_nat n) = m (src + of_nat n)"
    using Suc.prems(1) [of n] by (simp add: mem_write_outside)
  have "fold ?f [0..<Suc n] m =
      (mem_write m dest (mem_read m src n))(dest + of_nat n := m (src + of_nat n))"
    by (simp add: IH keep)
  also have "\<dots> = mem_write m dest (mem_read m src n @ [m (src + of_nat n)])"
    using Suc.prems(2) by (simp add: mem_write_snoc)
  also have "mem_read m src n @ [m (src + of_nat n)] = mem_read m src (Suc n)"
    by (simp add: mem_read_def)
  finally show ?case .
qed

lemma mem_write_upd_last:
  assumes "length bs < 4294967296"
  shows "mem_write (m(a + of_nat (length bs) := b)) a bs = mem_write m a (bs @ [b])"
proof
  fix x
  have "x = a + of_nat (length bs) \<longleftrightarrow> x - a = of_nat (length bs)"
    by (auto simp: algebra_simps)
  also have "\<dots> \<longleftrightarrow> unat (x - a) = length bs"
    using assms by (rule eq_of_nat32_iff)
  finally have "x = a + of_nat (length bs) \<longleftrightarrow> unat (x - a) = length bs" .
  then show "mem_write (m(a + of_nat (length bs) := b)) a bs x = mem_write m a (bs @ [b]) x"
    by (auto simp: mem_write_def nth_append)
qed

lemma copy_backward:
  assumes "\<And>i j. i < j \<Longrightarrow> j < n \<Longrightarrow> dest + of_nat j \<noteq> src + of_nat i" and "n \<le> 4294967296"
  shows "fold (\<lambda>i m. m(dest + of_nat i := m (src + of_nat i))) (rev [0..<n]) m =
         mem_write m dest (mem_read m src n)"
  using assms
proof (induction n arbitrary: m)
  case 0
  then show ?case by (simp add: mem_read_def)
next
  case (Suc n)
  let ?f = "\<lambda>i m. m(dest + of_nat i := m (src + of_nat i))"
  let ?m1 = "m(dest + of_nat n := m (src + of_nat n))"
  have "fold ?f (rev [0..<Suc n]) m = fold ?f (rev [0..<n]) ?m1"
    by simp
  also have "\<dots> = mem_write ?m1 dest (mem_read ?m1 src n)"
    by (rule Suc.IH) (use Suc.prems in auto)
  also have "mem_read ?m1 src n = mem_read m src n"
    using Suc.prems(1) [of _ n] by (intro mem_read_cong) (metis fun_upd_other lessI)
  also have "mem_write ?m1 dest (mem_read m src n) = mem_write m dest (mem_read m src n @ [m (src + of_nat n)])"
    using mem_write_upd_last [of "mem_read m src n" m dest] Suc.prems(2) by simp
  also have "mem_read m src n @ [m (src + of_nat n)] = mem_read m src (Suc n)"
    by (simp add: mem_read_def)
  finally show ?case .
qed

lemma unat_add_no_wrap:
  "unat (a :: u32) + n \<le> 4294967296 \<Longrightarrow> i < n \<Longrightarrow> unat (a + of_nat i) = unat a + i"
  by (subst unat_add_lem [THEN iffD1]) (simp_all add: unat_of_nat32)

lemma unat_sub_if32:
  "unat (a - b :: u32) = (if unat b \<le> unat a then unat a - unat b else 4294967296 + unat a - unat b)"
  unfolding unat_sub_if' by auto

text \<open>
  memmove copies: when neither run wraps around the address space, whatever the overlap,
  the destination afterwards holds exactly the bytes the source run held before the call and
  no other byte of memory changes.
\<close>

theorem memmove_copies:
  assumes "unat dest + n \<le> 4294967296" and "unat src + n \<le> 4294967296"
  shows "memmove m dest src n = mem_write m dest (mem_read m src n)"
proof (cases "dest < src")
  case True
  have "\<not> unat (src + of_nat i - dest) < i" if "i < n" for i
    using that True unat_add_no_wrap [OF assms(2) that]
    by (simp add: unat_sub_if32 word_less_nat_alt)
  then show ?thesis
    using True assms by (simp add: memmove_def copy_forward)
next
  case False
  have "dest + of_nat j \<noteq> src + of_nat i" if "i < j" "j < n" for i j
  proof
    assume "dest + of_nat j = src + of_nat i"
    then have "unat dest + j = unat src + i"
      using unat_add_no_wrap [OF assms(1)] unat_add_no_wrap [OF assms(2)] that by (metis order.strict_trans)
    with False that(1) show False by (simp add: word_less_nat_alt)
  qed
  then show ?thesis
    using False assms by (simp add: memmove_def copy_backward)
qed

theorem memmove_copies_witness:
  "memmove (\<lambda>a. ucast a) 12 10 5 = mem_write (\<lambda>a. ucast a) 12 (mem_read (\<lambda>a. ucast a) 10 5)"
  by (rule memmove_copies) simp_all

text \<open>
  memcpy agrees with memmove when the destination is below the source or the runs are disjoint.
\<close>

lemma memcpy_copies:
  assumes "unat dest + n \<le> 4294967296" and "unat src + n \<le> 4294967296"
    and "dest < src \<or> unat src + n \<le> unat dest"
  shows "memcpy m dest src n = mem_write m dest (mem_read m src n)"
proof -
  have "\<not> unat (src + of_nat i - dest) < i" if "i < n" for i
    using that assms unat_add_no_wrap [OF assms(2) that]
    by (auto simp: unat_sub_if32 word_less_nat_alt)
  then show ?thesis
    using assms by (simp add: memcpy_def copy_forward)
qed

section \<open>Comparison\<close>

lemma memcmp_loop_bytes_cmp:
  "memcmp_loop m s1 s2 ks = bytes_cmp (map (\<lambda>i. m (s1 + of_nat i)) ks) (map (\<lambda>i. m (s2 + of_nat i)) ks)"
  by (induction ks) auto

lemma memcmp_bytes_cmp: "memcmp m s1 s2 n = bytes_cmp (mem_read m s1 n) (mem_read m s2 n)"
  by (simp add: memcmp_def memcmp_loop_bytes_cmp mem_read_def)

lemma bytes_cmp_eq_0: "length xs = length ys \<Longrightarrow> bytes_cmp xs ys = 0 \<longleftrightarrow> xs = ys"
  by (induction xs ys rule: list_induct2) auto

lemma bytes_cmp_refl [simp]: "bytes_cmp xs xs = 0"
  by (induction xs) auto

lemma bytes_cmp_neg:
  "length xs = length ys \<Longrightarrow> bytes_cmp xs ys < 0 \<longleftrightarrow> ord.lexordp (<) xs ys"
  by (induction xs ys rule: list_induct2) (auto simp: ord.lexordp_simps)

lemma bytes_cmp_antisym: "bytes_cmp ys xs = - bytes_cmp xs ys"
  by (induction xs ys rule: bytes_cmp.induct) auto

text \<open>
  memcmp decides equality of the two runs, is negative exactly when the first run is
  lexicographically smaller as unsigned bytes, and swapping its arguments negates it.
\<close>

theorem memcmp_orders:
  shows "(memcmp m s1 s2 n = 0 \<longleftrightarrow> mem_read m s1 n = mem_read m s2 n) \<and>
         (memcmp m s1 s2 n < 0 \<longleftrightarrow> ord.lexordp (<) (mem_read m s1 n) (mem_read m s2 n)) \<and>
         memcmp m s2 s1 n = - memcmp m s1 s2 n"
  using bytes_cmp_antisym [of "mem_read m s2 n" "mem_read m s1 n"]
  by (simp add: memcmp_bytes_cmp bytes_cmp_eq_0 bytes_cmp_neg)

end
