(* ===== verification/FatTypes.thy ===== *)
theory FatTypes
  imports Cluster CString
begin

text \<open>
  The on-disk structures of \<^verbatim>\<open>src/src/header/filesystem/fat32.h\<close>: the 32-byte packed
  directory entry, the directory table of 64 entries, the file allocation table of 512
  32-bit entries, and the driver request. Structures in memory are records; their packed
  little-endian byte images are \<open>entry_bytes\<close>, \<open>table_bytes\<close> and \<open>fat_bytes\<close>, their
  readings \<open>entry_of\<close>, \<open>table_of\<close> and \<open>fat_of\<close>. The lemmas are the two round trips of each
  codec: what a cluster holds and what the driver sees in it determine each other.
\<close>

section \<open>Constants\<close>

definition CLUSTER_MAP_SIZE :: nat where
  "CLUSTER_MAP_SIZE = 512"

definition CLUSTER_0_VALUE :: u32 where
  "CLUSTER_0_VALUE = 0x0FFFFFF0"

definition CLUSTER_1_VALUE :: u32 where
  "CLUSTER_1_VALUE = 0x0FFFFFFF"

definition FAT32_FAT_END_OF_FILE :: u32 where
  "FAT32_FAT_END_OF_FILE = 0x0FFFFFFF"

definition FAT32_FAT_EMPTY_ENTRY :: u32 where
  "FAT32_FAT_EMPTY_ENTRY = 0"

definition BOOT_SECTOR :: u32 where
  "BOOT_SECTOR = 0"

definition FAT_CLUSTER_NUMBER :: u32 where
  "FAT_CLUSTER_NUMBER = 1"

definition ROOT_CLUSTER_NUMBER :: u32 where
  "ROOT_CLUSTER_NUMBER = 2"

definition ATTR_SUBDIRECTORY :: u8 where
  "ATTR_SUBDIRECTORY = 0x10"

definition UATTR_NOT_EMPTY :: u8 where
  "UATTR_NOT_EMPTY = 0xAA"

definition ATR_FILE :: u8 where
  "ATR_FILE = 0"

definition ATR_DIRECTORY :: u8 where
  "ATR_DIRECTORY = 0x10"

lemmas fat_values =
  CLUSTER_0_VALUE_def CLUSTER_1_VALUE_def FAT32_FAT_END_OF_FILE_def FAT32_FAT_EMPTY_ENTRY_def

lemmas fat_constants [geometry] =
  CLUSTER_MAP_SIZE_def BOOT_SECTOR_def FAT_CLUSTER_NUMBER_def ROOT_CLUSTER_NUMBER_def

text \<open>\<open>CLUSTER_SIZE / sizeof(struct FAT32DirectoryEntry)\<close>\<close>

definition DIR_ENTRIES :: nat where
  "DIR_ENTRIES = CLUSTER_SIZE div 32"

lemma DIR_ENTRIES_val [geometry]: "DIR_ENTRIES = 64"
  by (simp add: DIR_ENTRIES_def CLUSTER_SIZE_val)

section \<open>Structures\<close>

record dir_entry =
  de_name :: "u8 list"
  de_ext :: "u8 list"
  de_attribute :: u8
  de_user_attribute :: u8
  de_undelete :: u8
  de_create_time :: u16
  de_create_date :: u16
  de_access_date :: u16
  de_cluster_high :: u16
  de_modified_time :: u16
  de_modified_date :: u16
  de_cluster_low :: u16
  de_filesize :: u32

text \<open>A request carries the address of the caller's buffer.\<close>

record driver_request =
  rq_buf :: u32
  rq_name :: "u8 list"
  rq_ext :: "u8 list"
  rq_parent_cluster_number :: u32
  rq_buffer_size :: u32

text \<open>The fixed sizes of the two character arrays.\<close>

definition entry_ok :: "dir_entry \<Rightarrow> bool" where
  "entry_ok e \<longleftrightarrow> length (de_name e) = 8 \<and> length (de_ext e) = 3"

definition table_ok :: "dir_entry list \<Rightarrow> bool" where
  "table_ok t \<longleftrightarrow> length t = 64 \<and> (\<forall>e \<in> set t. entry_ok e)"

definition request_ok :: "driver_request \<Rightarrow> bool" where
  "request_ok r \<longleftrightarrow> length (rq_name r) = 8 \<and> length (rq_ext r) = 3"

text \<open>\<open>cluster_low | (cluster_high << 16)\<close>, and the two halves a cluster number is stored as\<close>

definition entry_cluster :: "dir_entry \<Rightarrow> u32" where
  "entry_cluster e = ucast (de_cluster_low e) OR push_bit 16 (ucast (de_cluster_high e))"

definition cluster_hi :: "u32 \<Rightarrow> u16" where
  "cluster_hi c = ucast (drop_bit 16 c)"

definition cluster_lo :: "u32 \<Rightarrow> u16" where
  "cluster_lo c = ucast (c AND 0xFFFF)"

lemma halves_join: "(ucast (cluster_lo c) :: u32) OR push_bit 16 (ucast (cluster_hi c)) = c"
proof (rule bit_word_eqI)
  fix n assume "n < LENGTH(32)"
  have m: "(0xFFFF :: u32) = mask 16" by (simp add: mask_eq_exp_minus_1)
  show "bit ((ucast (cluster_lo c) :: u32) OR push_bit 16 (ucast (cluster_hi c))) n = bit c n"
    unfolding cluster_lo_def cluster_hi_def m using \<open>n < LENGTH(32)\<close>
    by (auto simp: bit_simps)
qed

section \<open>Little-endian integers\<close>

definition le16 :: "u16 \<Rightarrow> u8 list" where
  "le16 w = [ucast w, ucast (drop_bit 8 w)]"

definition of_le16 :: "u8 list \<Rightarrow> u16" where
  "of_le16 bs = ucast (bs ! 0) OR push_bit 8 (ucast (bs ! 1))"

definition le32 :: "u32 \<Rightarrow> u8 list" where
  "le32 w = [ucast w, ucast (drop_bit 8 w), ucast (drop_bit 16 w), ucast (drop_bit 24 w)]"

definition of_le32 :: "u8 list \<Rightarrow> u32" where
  "of_le32 bs = ucast (bs ! 0) OR push_bit 8 (ucast (bs ! 1)) OR
                push_bit 16 (ucast (bs ! 2)) OR push_bit 24 (ucast (bs ! 3))"

lemma length_le [simp]: "length (le16 w) = 2" "length (le32 v) = 4"
  by (simp_all add: le16_def le32_def)

lemma of_le16_le16 [simp]: "of_le16 (le16 w) = w"
  by (rule bit_word_eqI) (auto simp: of_le16_def le16_def bit_simps)

lemma of_le32_le32 [simp]: "of_le32 (le32 w) = w"
proof (rule bit_word_eqI)
  fix n assume "n < LENGTH(32)"
  then show "bit (of_le32 (le32 w)) n = bit w n"
    by (cases "n < 16"; cases "n < 24") (auto simp: of_le32_def le32_def bit_simps)
qed

lemma le16_of_le16: "length bs = 2 \<Longrightarrow> le16 (of_le16 bs) = bs"
proof -
  assume "length bs = 2"
  then obtain a b where bs: "bs = [a, b]" by (auto simp: numeral_2_eq_2 length_Suc_conv)
  have "ucast (of_le16 [a, b]) = a"
    by (rule bit_word_eqI) (auto simp: of_le16_def bit_simps dest: bit_imp_le_length)
  moreover have "ucast (drop_bit 8 (of_le16 [a, b])) = b"
    by (rule bit_word_eqI) (auto simp: of_le16_def bit_simps dest: bit_imp_le_length)
  ultimately show ?thesis by (simp add: bs le16_def)
qed

lemma le32_of_le32: "length bs = 4 \<Longrightarrow> le32 (of_le32 bs) = bs"
proof -
  assume "length bs = 4"
  then obtain a b c d where bs: "bs = [a, b, c, d]"
    by (auto simp: eval_nat_numeral length_Suc_conv)
  let ?w = "of_le32 [a, b, c, d]"
  have "ucast ?w = a" by (rule bit_word_eqI) (auto simp: of_le32_def bit_simps dest: bit_imp_le_length)
  moreover have "ucast (drop_bit 8 ?w) = b" by (rule bit_word_eqI) (auto simp: of_le32_def bit_simps dest: bit_imp_le_length)
  moreover have "ucast (drop_bit 16 ?w) = c" by (rule bit_word_eqI) (auto simp: of_le32_def bit_simps dest: bit_imp_le_length)
  moreover have "ucast (drop_bit 24 ?w) = d" by (rule bit_word_eqI) (auto simp: of_le32_def bit_simps dest: bit_imp_le_length)
  ultimately show ?thesis by (simp add: bs le32_def)
qed


section \<open>Byte images of the structures\<close>

definition entry_bytes :: "dir_entry \<Rightarrow> u8 list" where
  "entry_bytes e = de_name e @ de_ext e @
     [de_attribute e, de_user_attribute e, de_undelete e] @
     le16 (de_create_time e) @ le16 (de_create_date e) @ le16 (de_access_date e) @
     le16 (de_cluster_high e) @ le16 (de_modified_time e) @ le16 (de_modified_date e) @
     le16 (de_cluster_low e) @ le32 (de_filesize e)"

definition entry_of :: "u8 list \<Rightarrow> dir_entry" where
  "entry_of bs = \<lparr>
     de_name = take 8 bs, de_ext = take 3 (drop 8 bs),
     de_attribute = bs ! 11, de_user_attribute = bs ! 12, de_undelete = bs ! 13,
     de_create_time = of_le16 (take 2 (drop 14 bs)),
     de_create_date = of_le16 (take 2 (drop 16 bs)),
     de_access_date = of_le16 (take 2 (drop 18 bs)),
     de_cluster_high = of_le16 (take 2 (drop 20 bs)),
     de_modified_time = of_le16 (take 2 (drop 22 bs)),
     de_modified_date = of_le16 (take 2 (drop 24 bs)),
     de_cluster_low = of_le16 (take 2 (drop 26 bs)),
     de_filesize = of_le32 (take 4 (drop 28 bs))\<rparr>"

definition table_bytes :: "dir_entry list \<Rightarrow> u8 list" where
  "table_bytes t = concat (map entry_bytes t)"

definition table_of :: "u8 list \<Rightarrow> dir_entry list" where
  "table_of bs = map entry_of (chunks 32 DIR_ENTRIES bs)"

definition fat_bytes :: "u32 list \<Rightarrow> u8 list" where
  "fat_bytes fat = concat (map le32 fat)"

definition fat_of :: "u8 list \<Rightarrow> u32 list" where
  "fat_of bs = map of_le32 (chunks 4 CLUSTER_MAP_SIZE bs)"

lemma length_entry_bytes [simp]: "entry_ok e \<Longrightarrow> length (entry_bytes e) = 32"
  by (simp add: entry_bytes_def entry_ok_def)

lemma entry_of_bytes [simp]: "entry_ok e \<Longrightarrow> entry_of (entry_bytes e) = e"
  by (simp add: entry_of_def entry_bytes_def entry_ok_def nth_append)

lemma entry_ok_of: "length bs = 32 \<Longrightarrow> entry_ok (entry_of bs)"
  by (simp add: entry_ok_def entry_of_def)

lemma take_drop_join: "take a (drop k xs) @ take b (drop (k + a) xs) = take (a + b) (drop k xs)"
  by (simp add: take_add add.commute)

lemma take1_drop: "k < length xs \<Longrightarrow> [xs ! k] = take 1 (drop k xs)"
  by (simp add: take_Suc hd_drop_conv_nth)

lemma entry_bytes_of: "length bs = 32 \<Longrightarrow> entry_bytes (entry_of bs) = bs"
proof -
  assume len: "length bs = 32"
  then have "\<exists>b0 b1 b2 b3 b4 b5 b6 b7 b8 b9 b10 b11 b12 b13 b14 b15 rest.
      bs = [b0, b1, b2, b3, b4, b5, b6, b7, b8, b9, b10, b11, b12, b13, b14, b15] @ rest \<and> length rest = 16"
    by (auto simp: eval_nat_numeral length_Suc_conv)
  then obtain b0 b1 b2 b3 b4 b5 b6 b7 b8 b9 b10 b11 b12 b13 b14 b15 rest
    where bs: "bs = [b0, b1, b2, b3, b4, b5, b6, b7, b8, b9, b10, b11, b12, b13, b14, b15] @ rest"
      and rest: "length rest = 16" by blast
  have "take 2 rest @ take 2 (drop 2 rest) @ take 2 (drop 4 rest) @ take 2 (drop 6 rest) @
      take 2 (drop 8 rest) @ take 2 (drop 10 rest) @ take 4 (drop 12 rest) = rest"
    using rest take_drop_join [of 2 10 rest 4] take_drop_join [of 2 8 rest 6] take_drop_join [of 2 6 rest 8]
      take_drop_join [of 2 4 rest 10] take_drop_join [of 2 2 rest 12] take_drop_join [of 2 0 rest 14]
    by simp
  then show ?thesis
    using rest by (simp add: entry_bytes_def entry_of_def bs le16_of_le16 le32_of_le32)
qed

lemma table_of_bytes [simp]: "table_ok t \<Longrightarrow> table_of (table_bytes t) = t"
proof -
  assume t: "table_ok t"
  then have "chunks 32 64 (concat (map entry_bytes t)) = map entry_bytes t"
    by (intro chunks_concat) (auto simp: table_ok_def)
  with t show ?thesis
    by (simp add: table_of_def table_bytes_def DIR_ENTRIES_val table_ok_def map_idI)
qed

lemma length_table_bytes [simp]: "table_ok t \<Longrightarrow> length (table_bytes t) = 2048"
  unfolding table_bytes_def
  by (subst length_concat_const [where k = 32]) (auto simp: table_ok_def)

lemma table_ok_of: "length bs = 2048 \<Longrightarrow> table_ok (table_of bs)"
  by (auto simp: table_ok_def table_of_def DIR_ENTRIES_val intro!: entry_ok_of dest: length_chunk_mem [rotated])

lemma table_bytes_of: "length bs = 2048 \<Longrightarrow> table_bytes (table_of bs) = bs"
proof -
  assume len: "length bs = 2048"
  have "map (entry_bytes \<circ> entry_of) (chunks 32 64 bs) = chunks 32 64 bs"
    using len by (intro map_idI) (auto intro!: entry_bytes_of dest: length_chunk_mem [rotated])
  then show ?thesis
    using len by (simp add: table_bytes_def table_of_def DIR_ENTRIES_val concat_chunks)
qed

lemma fat_of_bytes [simp]: "length fat = 512 \<Longrightarrow> fat_of (fat_bytes fat) = fat"
proof -
  assume "length fat = 512"
  then have "chunks 4 512 (concat (map le32 fat)) = map le32 fat"
    by (intro chunks_concat) auto
  then show ?thesis by (simp add: fat_of_def fat_bytes_def CLUSTER_MAP_SIZE_def map_idI)
qed

lemma length_fat_bytes [simp]: "length fat = 512 \<Longrightarrow> length (fat_bytes fat) = 2048"
  unfolding fat_bytes_def by (subst length_concat_const [where k = 4]) auto

lemma length_fat_of [simp]: "length (fat_of bs) = 512"
  by (simp add: fat_of_def CLUSTER_MAP_SIZE_def)

lemma fat_bytes_of: "length bs = 2048 \<Longrightarrow> fat_bytes (fat_of bs) = bs"
proof -
  assume len: "length bs = 2048"
  have "map (le32 \<circ> of_le32) (chunks 4 512 bs) = chunks 4 512 bs"
    using len by (intro map_idI) (auto intro!: le32_of_le32 dest: length_chunk_mem [rotated])
  then show ?thesis
    using len by (simp add: fat_bytes_def fat_of_def CLUSTER_MAP_SIZE_def concat_chunks)
qed

text \<open>
  The packed structures and their byte images determine each other: a directory table
  of 64 entries and a file allocation table of 512 entries each fill one 2048-byte cluster
  and are read back from it unchanged, and every cluster's contents is the image of the
  table read from it.
\<close>

theorem disk_structures_roundtrip:
  assumes "table_ok t" and "length fat = 512" and "length bs = 2048"
  shows "table_of (table_bytes t) = t \<and> length (table_bytes t) = CLUSTER_SIZE \<and>
         fat_of (fat_bytes fat) = fat \<and> length (fat_bytes fat) = CLUSTER_SIZE \<and>
         table_bytes (table_of bs) = bs \<and> fat_bytes (fat_of bs) = bs"
  using assms by (simp add: table_bytes_of fat_bytes_of CLUSTER_SIZE_val)

definition zero_entry :: dir_entry where
  "zero_entry = entry_of (replicate 32 0)"

lemma zero_entry_ok [simp]: "entry_ok zero_entry"
  by (simp add: zero_entry_def entry_ok_of)

theorem disk_structures_roundtrip_witness:
  "table_of (table_bytes (replicate 64 zero_entry)) = replicate 64 zero_entry \<and>
   length (table_bytes (replicate 64 zero_entry)) = CLUSTER_SIZE \<and>
   fat_of (fat_bytes (replicate 512 5)) = replicate 512 5 \<and>
   length (fat_bytes (replicate 512 5)) = CLUSTER_SIZE \<and>
   table_bytes (table_of (replicate 2048 9)) = replicate 2048 9 \<and>
   fat_bytes (fat_of (replicate 2048 9)) = replicate 2048 9"
  by (rule disk_structures_roundtrip) (simp_all add: table_ok_def)

end
