(* ===== verification/Fat32.thy ===== *)
theory Fat32
  imports FatTypes
begin

text \<open>
  The operations of \<^verbatim>\<open>src/src/fat32.c\<close>. The state is the driver state (the cached
  allocation table and the directory table buffer; \<open>cluster_buf\<close> is never used by the code)
  together with the storage behind \<open>read_blocks\<close> and \<open>write_blocks\<close>. The caller's buffer
  lives in a byte-addressed memory which an operation takes and returns.

  A return code is an \<open>int\<close>. Indexing \<open>cluster_map\<close> outside its 512 entries, a cluster
  outside the storage, and the read of a whole cluster over a four-byte pointer variable in
  \<open>delete\<close> are faults. The chain walks of \<open>read\<close> and \<open>delete\<close> and the outer loop of
  \<open>write\<close> need not end on a damaged table: they are \<open>partial_function (option)\<close>, with
  \<open>None\<close> for a call that does not return. Structure fields the C code leaves uninitialised
  come from arguments (\<open>junk\<close>). The C functions \<open>read\<close>, \<open>write\<close> and \<open>delete\<close> are called
  \<open>fs_read\<close>, \<open>fs_write\<close> and \<open>fs_delete\<close> here.
\<close>

section \<open>Driver state\<close>

record fat32 =
  cluster_map :: "u32 list"
  dir_table_buf :: "dir_entry list"
  storage :: image

definition fs_signature :: "u8 list" where
  "fs_signature =
     map of_char (''Course          '' @
                  ''Designed by     '' @
                  ''Lab Sister ITB  '' @
                  ''Made with <3    '' @
                  ''-----------2024'' @ [CHR 0x0A]) @
     replicate (BLOCK_SIZE - 82) 0 @ [of_char CHR ''O'', of_char CHR ''k'']"

definition init_directory_table :: "dir_entry list \<Rightarrow> u8 list \<Rightarrow> u32 \<Rightarrow> dir_entry list" where
  "init_directory_table dir_table name parent_dir_cluster =
     (let new_entry = (dir_table ! 0)\<lparr>
            de_name := name, de_ext := [0, 0, 0],
            de_attribute := ATTR_SUBDIRECTORY, de_user_attribute := UATTR_NOT_EMPTY,
            de_cluster_high := cluster_hi parent_dir_cluster,
            de_cluster_low := cluster_lo parent_dir_cluster,
            de_filesize := 0\<rparr>
      in fold (\<lambda>i t. t[i := zero_entry]) [1..<DIR_ENTRIES] (dir_table[0 := new_entry]))"

definition root_name :: "u8 list" where
  "root_name = map of_char ''root'' @ [0, 0, 0, 0]"

section \<open>Mounting\<close>

definition is_empty_storage :: "fat32 \<Rightarrow> bool res" where
  "is_empty_storage s =
     bindE (read_blocks (storage s) 0 1) (\<lambda>boot_sector. Inr (bytes_cmp boot_sector fs_signature \<noteq> 0))"

definition create_fat32 :: "fat32 \<Rightarrow> fat32 res" where
  "create_fat32 s =
     bindE (write_blocks (storage s) fs_signature BOOT_SECTOR 1) (\<lambda>im1.
     let fat1 = (cluster_map s)[0 := CLUSTER_0_VALUE, 1 := CLUSTER_1_VALUE, 2 := FAT32_FAT_END_OF_FILE] in
     bindE (write_clusters im1 (fat_bytes fat1) FAT_CLUSTER_NUMBER 1) (\<lambda>im2.
     let tbl = init_directory_table (dir_table_buf s) root_name ROOT_CLUSTER_NUMBER in
     bindE (write_clusters im2 (table_bytes tbl) ROOT_CLUSTER_NUMBER 1) (\<lambda>im3.
     Inr (s\<lparr>cluster_map := fat1, dir_table_buf := tbl, storage := im3\<rparr>))))"

definition initialize_filesystem_fat32 :: "fat32 \<Rightarrow> fat32 res" where
  "initialize_filesystem_fat32 s =
     bindE (is_empty_storage s) (\<lambda>empty.
     if empty then create_fat32 s
     else bindE (read_clusters (storage s) FAT_CLUSTER_NUMBER 1) (\<lambda>fb.
          bindE (read_clusters (storage s) ROOT_CLUSTER_NUMBER 1) (\<lambda>tb.
          Inr (s\<lparr>cluster_map := fat_of fb, dir_table_buf := table_of tb\<rparr>))))"

section \<open>Reading\<close>

text \<open>The first table entry with the requested name; the extension is not compared.\<close>

definition find_name :: "dir_entry list \<Rightarrow> u8 list \<Rightarrow> nat option" where
  "find_name t name = find (\<lambda>i. bytes_cmp (de_name (t ! i)) name = 0) [0..<DIR_ENTRIES]"

definition read_directory :: "driver_request \<Rightarrow> fat32 \<Rightarrow> mem \<Rightarrow> (int \<times> mem) res" where
  "read_directory request s m =
     (if rq_buffer_size request \<noteq> of_nat CLUSTER_SIZE then Inr (-1, m)
      else bindE (read_clusters (storage s) (rq_parent_cluster_number request) 1) (\<lambda>bs.
        let dir_table = table_of bs in
        case find_name dir_table (rq_name request) of
          None \<Rightarrow> Inr (2, m)
        | Some i \<Rightarrow>
            if de_filesize (dir_table ! i) \<noteq> 0 then Inr (1, m)
            else bindE (read_clusters (storage s) (entry_cluster (dir_table ! i)) 1) (\<lambda>sub.
                 Inr (0, mem_write m (rq_buf request) sub))))"

text \<open>The do-while loop of \<open>read\<close>: \<open>buf\<close> advances by one cluster per round.\<close>

partial_function (option) read_loop ::
  "fat32 \<Rightarrow> u32 \<Rightarrow> u32 \<Rightarrow> u32 \<Rightarrow> u32 \<Rightarrow> mem \<Rightarrow> ((int \<times> mem) res) option" where
  "read_loop s buffer_size buf clust_number cluster_size m =
     (if cluster_size * of_nat CLUSTER_MAP_SIZE > buffer_size then Some (Inr (2, m))
      else (case read_clusters (storage s) clust_number 1 of
              Inl e \<Rightarrow> Some (Inl e)
            | Inr bs \<Rightarrow>
                (case arr_get (cluster_map s) (unat clust_number) of
                   Inl e \<Rightarrow> Some (Inl e)
                 | Inr nxt \<Rightarrow>
                     if nxt \<noteq> FAT32_FAT_END_OF_FILE
                     then read_loop s buffer_size (buf + of_nat CLUSTER_SIZE) nxt
                            (cluster_size + 1) (mem_write m buf bs)
                     else Some (Inr (0, mem_write m buf bs)))))"

definition fs_read :: "driver_request \<Rightarrow> fat32 \<Rightarrow> mem \<Rightarrow> ((int \<times> mem) res) option" where
  "fs_read request s m =
     (if bytes_cmp (rq_name request) (replicate 8 0) = 0 then Some (Inr (-1, m))
      else (case read_clusters (storage s) (rq_parent_cluster_number request) 1 of
              Inl e \<Rightarrow> Some (Inl e)
            | Inr bs \<Rightarrow>
                (let dir_table = table_of bs in
                 case find_name dir_table (rq_name request) of
                   None \<Rightarrow> Some (Inr (3, m))
                 | Some i \<Rightarrow>
                     if de_filesize (dir_table ! i) = 0 then Some (Inr (1, m))
                     else read_loop s (rq_buffer_size request) (rq_buf request)
                            (entry_cluster (dir_table ! i)) 0 m)))"

text \<open>The addresses a call of \<open>read\<close> stores to: the bytes that do not depend on the memory it starts from.\<close>

definition stores_to :: "driver_request \<Rightarrow> fat32 \<Rightarrow> u32 \<Rightarrow> bool" where
  "stores_to rq f va =
     (case (fs_read rq f (\<lambda>_. 0), fs_read rq f (\<lambda>_. 1)) of
        (Some (Inr (_, m0)), Some (Inr (_, m1))) \<Rightarrow> m0 va = m1 va
      | _ \<Rightarrow> False)"

text \<open>When it stores a fixed run of bytes, these are its addresses.\<close>

lemma stores_to_run:
  assumes "\<And>m. fs_read rq f m = Some (Inr (r, mem_write m (rq_buf rq) bs))"
  shows "stores_to rq f va \<longleftrightarrow> unat (va - rq_buf rq) < length bs"
  by (simp add: stores_to_def assms mem_write_def)

section \<open>Writing\<close>

definition free_slot :: "dir_entry list \<Rightarrow> nat option" where
  "free_slot t = find (\<lambda>j. de_user_attribute (t ! j) \<noteq> UATTR_NOT_EMPTY) [0..<DIR_ENTRIES]"

definition clusters_needed :: "u32 \<Rightarrow> u32" where
  "clusters_needed reqSize =
     (let clusterNeed = reqSize div of_nat CLUSTER_SIZE in
      if clusterNeed * of_nat CLUSTER_SIZE < reqSize then clusterNeed + 1 else clusterNeed)"

text \<open>
  The folder branch: one iteration of its loop over clusters. \<open>junk\<close> is the uninitialised
  entry the code fills in partly; \<open>new_folder\<close> the table it writes to the new cluster.
\<close>

definition folder_entry :: "dir_entry \<Rightarrow> driver_request \<Rightarrow> nat \<Rightarrow> dir_entry" where
  "folder_entry junk request i = junk\<lparr>
     de_user_attribute := UATTR_NOT_EMPTY, de_attribute := ATR_DIRECTORY,
     de_name := rq_name request,
     de_cluster_high := cluster_hi (of_nat i), de_cluster_low := cluster_lo (of_nat i),
     de_filesize := rq_buffer_size request\<rparr>"

definition write_folder_step ::
  "dir_entry \<Rightarrow> dir_entry list \<Rightarrow> driver_request \<Rightarrow> nat \<Rightarrow> fat32 \<times> bool \<Rightarrow> ((fat32 \<times> bool, unit) ctl) res" where
  "write_folder_step junk new_folder request i st =
     (let (s, slotAvailable) = st in
      bindE (arr_get (cluster_map s) i) (\<lambda>v.
      if v \<noteq> FAT32_FAT_EMPTY_ENTRY then Inr (Next (s, slotAvailable))
      else
        let tbl = (case free_slot (dir_table_buf s) of
                     None \<Rightarrow> dir_table_buf s
                   | Some j \<Rightarrow> (dir_table_buf s)[j := folder_entry junk request i]) in
        bindE (write_clusters (storage s) (table_bytes new_folder) (of_nat i) 1) (\<lambda>im1.
        let fat1 = (cluster_map s)[i := FAT32_FAT_END_OF_FILE] in
        bindE (write_clusters im1 (fat_bytes fat1) FAT_CLUSTER_NUMBER 1) (\<lambda>im2.
        bindE (write_clusters im2 (table_bytes tbl) (rq_parent_cluster_number request) 1) (\<lambda>im3.
        Inr (Brk (s\<lparr>cluster_map := fat1, dir_table_buf := tbl, storage := im3\<rparr>, True)))))))"

definition write_folder :: "dir_entry \<Rightarrow> dir_entry list \<Rightarrow> driver_request \<Rightarrow> fat32 \<Rightarrow> (int \<times> fat32) res" where
  "write_folder junk junk_table request s =
     (let new_folder = init_directory_table junk_table (rq_name request) (rq_parent_cluster_number request) in
      bindE (forE (write_folder_step junk new_folder request) [unat ROOT_CLUSTER_NUMBER..<CLUSTER_SIZE] (s, False))
        (\<lambda>c. case c of
               Next (s', slot) \<Rightarrow> Inr (if slot then 0 else -1, s')
             | Brk (s', slot) \<Rightarrow> Inr (if slot then 0 else -1, s')
             | Ret _ \<Rightarrow> Inr (-1, s)))"

text \<open>The file branch. The loop variables of the code:\<close>

record write_env =
  we_fs :: fat32
  we_mem :: mem
  we_written :: u32
  we_clust_before :: u32
  we_slot_available :: bool

definition file_entry :: "driver_request \<Rightarrow> nat \<Rightarrow> dir_entry" where
  "file_entry request i = zero_entry\<lparr>
     de_user_attribute := UATTR_NOT_EMPTY, de_attribute := ATR_FILE,
     de_name := rq_name request, de_ext := rq_ext request,
     de_cluster_high := cluster_hi (of_nat i), de_cluster_low := cluster_lo (of_nat i),
     de_filesize := rq_buffer_size request\<rparr>"

text \<open>Lines 323--346: the first free cluster found also adds the entry to the parent.\<close>

definition write_file_entry :: "driver_request \<Rightarrow> nat \<Rightarrow> write_env \<Rightarrow> write_env res" where
  "write_file_entry request i w =
     (let s = we_fs w; w1 = w\<lparr>we_clust_before := of_nat i\<rparr> in
      case free_slot (dir_table_buf s) of
        None \<Rightarrow> Inr w1
      | Some j \<Rightarrow>
          let tbl = (dir_table_buf s)[j := file_entry request i] in
          bindE (write_clusters (storage s) (table_bytes tbl) (rq_parent_cluster_number request) 1) (\<lambda>im.
          Inr (w1\<lparr>we_slot_available := True, we_fs := s\<lparr>dir_table_buf := tbl, storage := im\<rparr>\<rparr>)))"

text \<open>Lines 348--372: one cluster of data, the link from the previous one, the end mark.\<close>

definition write_file_cluster ::
  "driver_request \<Rightarrow> u32 \<Rightarrow> nat \<Rightarrow> write_env \<Rightarrow> ((write_env, int \<times> fat32 \<times> mem) ctl) res" where
  "write_file_cluster request clusterNeed i w =
     (let s = we_fs w; written = we_written w; cs = of_nat CLUSTER_SIZE;
          src = rq_buf request + written * cs in
      bindE (write_clusters (storage s) (replicate CLUSTER_SIZE 0) (of_nat i) 1) (\<lambda>im1.
      let m1 = (if written + 1 = clusterNeed
                then memset (we_mem w) (src + (rq_buffer_size request - written * cs)) (int i)
                       (unat (cs * (written + 1) - rq_buffer_size request))
                else we_mem w) in
      bindE (write_clusters im1 (mem_read m1 src CLUSTER_SIZE) (of_nat i) 1) (\<lambda>im2.
      bindE (if written > 0 then arr_set (cluster_map s) (unat (we_clust_before w)) (of_nat i)
             else Inr (cluster_map s)) (\<lambda>fat1.
      if written + 1 = clusterNeed then
        let fat2 = fat1[i := FAT32_FAT_END_OF_FILE] in
        bindE (write_clusters im2 (fat_bytes fat2) FAT_CLUSTER_NUMBER 1) (\<lambda>im3.
        Inr (Brk (w\<lparr>we_fs := s\<lparr>cluster_map := fat2, storage := im3\<rparr>, we_mem := m1,
                    we_written := written + 1\<rparr>)))
      else
        Inr (Next (w\<lparr>we_fs := s\<lparr>cluster_map := fat1, storage := im2\<rparr>, we_mem := m1,
                     we_written := written + 1, we_clust_before := of_nat i\<rparr>))))))"

definition write_file_step ::
  "driver_request \<Rightarrow> u32 \<Rightarrow> nat \<Rightarrow> write_env \<Rightarrow> ((write_env, int \<times> fat32 \<times> mem) ctl) res" where
  "write_file_step request clusterNeed i w =
     bindE (arr_get (cluster_map (we_fs w)) i) (\<lambda>v.
     if v \<noteq> FAT32_FAT_EMPTY_ENTRY then Inr (Next w)
     else bindE (if we_written w = 0 then write_file_entry request i w else Inr w) (\<lambda>w1.
       if we_written w = 0 \<and> \<not> we_slot_available w1
       then Inr (Ret (-1, we_fs w1, we_mem w1))
       else write_file_cluster request clusterNeed i w1))"

partial_function (option) write_file_while ::
  "driver_request \<Rightarrow> u32 \<Rightarrow> write_env \<Rightarrow> ((int \<times> fat32 \<times> mem) res) option" where
  "write_file_while request clusterNeed w =
     (if we_written w < clusterNeed then
        (case forE (write_file_step request clusterNeed) [unat ROOT_CLUSTER_NUMBER..<CLUSTER_SIZE] w of
           Inl e \<Rightarrow> Some (Inl e)
         | Inr (Ret r) \<Rightarrow> Some (Inr r)
         | Inr (Next w') \<Rightarrow> write_file_while request clusterNeed w'
         | Inr (Brk w') \<Rightarrow> write_file_while request clusterNeed w')
      else Some (Inr (0, we_fs w, we_mem w)))"

definition fs_write ::
  "dir_entry \<Rightarrow> dir_entry list \<Rightarrow> driver_request \<Rightarrow> fat32 \<Rightarrow> mem \<Rightarrow> ((int \<times> fat32 \<times> mem) res) option" where
  "fs_write junk junk_table request s m =
     (case arr_get (cluster_map s) (unat (rq_parent_cluster_number request)) of
        Inl e \<Rightarrow> Some (Inl e)
      | Inr v \<Rightarrow>
          if v = FAT32_FAT_EMPTY_ENTRY then Some (Inr (2, s, m))
          else (case read_clusters (storage s) (rq_parent_cluster_number request) 1 of
                  Inl e \<Rightarrow> Some (Inl e)
                | Inr bs \<Rightarrow>
                    let s1 = s\<lparr>dir_table_buf := table_of bs\<rparr> in
                    if rq_buffer_size request = 0
                    then Some (bindE (write_folder junk junk_table request s1) (\<lambda>(r, s2). Inr (r, s2, m)))
                    else write_file_while request (clusters_needed (rq_buffer_size request))
                           \<lparr>we_fs = s1, we_mem = m, we_written = 0, we_clust_before = 0,
                            we_slot_available = False\<rparr>))"

section \<open>Deleting\<close>

text \<open>The do-while loop that frees a chain and clears its clusters.\<close>

partial_function (option) delete_loop ::
  "u32 \<Rightarrow> u32 list \<Rightarrow> image \<Rightarrow> ((u32 list \<times> image) res) option" where
  "delete_loop req_cluster fat im =
     (case arr_get fat (unat req_cluster) of
        Inl e \<Rightarrow> Some (Inl e)
      | Inr nxt \<Rightarrow>
          (case write_clusters im (replicate CLUSTER_SIZE 0) req_cluster 1 of
             Inl e \<Rightarrow> Some (Inl e)
           | Inr im1 \<Rightarrow>
               if nxt \<noteq> FAT32_FAT_END_OF_FILE
               then delete_loop nxt (fat[unat req_cluster := FAT32_FAT_EMPTY_ENTRY]) im1
               else Some (Inr (fat[unat req_cluster := FAT32_FAT_EMPTY_ENTRY], im1))))"

definition fs_delete :: "driver_request \<Rightarrow> fat32 \<Rightarrow> ((int \<times> fat32) res) option" where
  "fs_delete request s =
     (if bytes_cmp (rq_name request) (replicate 8 0) = 0 then Some (Inr (-1, s))
      else (case read_clusters (storage s) (rq_parent_cluster_number request) 1 of
              Inl e \<Rightarrow> Some (Inl e)
            | Inr bs \<Rightarrow>
                (let parent_dir_table = table_of bs in
                 case find_name parent_dir_table (rq_name request) of
                   None \<Rightarrow> Some (Inr (1, s))
                 | Some index \<Rightarrow>
                     if bytes_cmp (rq_ext request) [0, 0, 0] = 0
                     then Some (Inl Stack_Smash)
                     else (case delete_loop (entry_cluster (parent_dir_table ! index)) (cluster_map s) (storage s) of
                             None \<Rightarrow> None
                           | Some (Inl e) \<Rightarrow> Some (Inl e)
                           | Some (Inr (fat1, im1)) \<Rightarrow>
                               Some (bindE (write_clusters im1 (fat_bytes fat1) 1 1) (\<lambda>im2.
                                     bindE (write_clusters im2
                                              (table_bytes (parent_dir_table[index := zero_entry]))
                                              (rq_parent_cluster_number request) 1) (\<lambda>im3.
                                     Inr (0, s\<lparr>cluster_map := fat1, storage := im3\<rparr>))))))))"

end
