(* ===== verification/FatChain.thy ===== *)
theory FatChain
  imports Fat32
begin

text \<open>
  Cluster chains. \<open>chain fat c cs\<close> says that starting at cluster \<open>c\<close> the allocation table
  leads through exactly the clusters \<open>cs\<close> and then to the end mark; \<open>link fat cs\<close> is the
  table in which \<open>cs\<close> have been made such a chain and \<open>unlink fat cs\<close> the one in which they
  have been freed. \<open>frees fat\<close> lists the free clusters in the order the code finds them,
  and \<open>file_bytes\<close> is the contents a chain spells. The chain walks of \<open>fs_read\<close> and
  \<open>fs_delete\<close> are computed here in closed form.
\<close>

section \<open>Chains\<close>

fun chain :: "u32 list \<Rightarrow> u32 \<Rightarrow> nat list \<Rightarrow> bool" where
  "chain fat c [] = False"
| "chain fat c (x # xs) =
     (unat c = x \<and> x < length fat \<and>
      (if xs = [] then fat ! x = FAT32_FAT_END_OF_FILE
       else fat ! x \<noteq> FAT32_FAT_END_OF_FILE \<and> chain fat (fat ! x) xs))"

declare chain.simps(2) [simp del]

lemma chain_Nil [simp]: "\<not> chain fat c []"
  by simp

lemma chain_single: "chain fat c [x] \<longleftrightarrow> unat c = x \<and> x < length fat \<and> fat ! x = FAT32_FAT_END_OF_FILE"
  by (simp add: chain.simps)

lemma chain_Cons2:
  "chain fat c (x # y # ys) \<longleftrightarrow>
     unat c = x \<and> x < length fat \<and> fat ! x \<noteq> FAT32_FAT_END_OF_FILE \<and> chain fat (fat ! x) (y # ys)"
  by (simp add: chain.simps(2) [of _ _ x])

lemmas chain_simps = chain_single chain_Cons2

lemma chain_hd: "chain fat c (x # xs) \<Longrightarrow> x = unat c \<and> x < length fat"
  by (simp add: chain.simps)

lemma chain_bound: "chain fat c cs \<Longrightarrow> x \<in> set cs \<Longrightarrow> x < length fat"
  by (induction fat c cs rule: chain.induct) (auto simp: chain.simps(2) split: if_splits)

lemma chain_unique: "chain fat c xs \<Longrightarrow> chain fat c ys \<Longrightarrow> xs = ys"
proof (induction xs arbitrary: c ys)
  case Nil
  then show ?case by simp
next
  case (Cons x xs)
  from Cons.prems(2) obtain z zs where ys: "ys = z # zs" by (cases ys) auto
  have zx: "z = x" using Cons.prems ys by (simp add: chain.simps(2))
  have xs: "xs = [] \<longleftrightarrow> fat ! x = FAT32_FAT_END_OF_FILE"
    using Cons.prems(1) by (simp add: chain.simps(2) split: if_splits)
  have zs: "zs = [] \<longleftrightarrow> fat ! x = FAT32_FAT_END_OF_FILE"
    using Cons.prems(2) ys zx by (simp add: chain.simps(2) split: if_splits)
  show ?case
  proof (cases "xs = []")
    case True
    with xs zs ys zx show ?thesis by simp
  next
    case False
    then have "zs \<noteq> []" using xs zs by simp
    have "chain fat (fat ! x) xs" using Cons.prems(1) False by (simp add: chain.simps(2))
    moreover have "chain fat (fat ! x) zs"
      using Cons.prems(2) ys zx \<open>zs \<noteq> []\<close> by (simp add: chain.simps(2))
    ultimately show ?thesis using Cons.IH ys zx by simp
  qed
qed

lemma chain_suffix: "chain fat c (xs @ y # ys) \<Longrightarrow> chain fat (of_nat y) (y # ys)"
proof (induction xs arbitrary: c)
  case Nil
  then show ?case by (auto simp: chain.simps(2))
next
  case (Cons x xs)
  then show ?case by (auto simp: chain.simps(2) [of fat c] split: if_splits)
qed

lemma chain_distinct: "chain fat c cs \<Longrightarrow> distinct cs"
proof (induction cs arbitrary: c)
  case Nil
  then show ?case by simp
next
  case (Cons x xs)
  show ?case
  proof (cases "xs = []")
    case True
    then show ?thesis by simp
  next
    case False
    with Cons.prems have tl: "chain fat (fat ! x) xs" by (simp add: chain.simps)
    have "x \<notin> set xs"
    proof
      assume "x \<in> set xs"
      then obtain us vs where xs: "xs = us @ x # vs" by (auto simp: in_set_conv_decomp)
      from Cons.prems have "chain fat (of_nat x) (x # xs)" using chain_suffix [of fat c "[]" x xs] by simp
      moreover from tl xs have "chain fat (of_nat x) (x # vs)" using chain_suffix by blast
      ultimately have "x # xs = x # vs" by (rule chain_unique)
      with xs show False by (metis append_eq_conv_conj length_append_singleton list.inject n_not_Suc_n
          append.assoc append_Cons append_Nil length_append not_add_less2 length_Cons less_add_Suc1 impossible_Cons le_add2)
    qed
    with Cons.IH [OF tl] show ?thesis by simp
  qed
qed

text \<open>Changing entries outside a chain leaves it a chain.\<close>

lemma chain_cong:
  "chain fat c cs \<Longrightarrow> length fat' = length fat \<Longrightarrow> (\<forall>x \<in> set cs. fat' ! x = fat ! x) \<Longrightarrow> chain fat' c cs"
  by (induction fat c cs rule: chain.induct) (auto simp: chain.simps(2) split: if_splits)

section \<open>Linking and unlinking\<close>

fun link :: "u32 list \<Rightarrow> nat list \<Rightarrow> u32 list" where
  "link fat [] = fat"
| "link fat [x] = fat[x := FAT32_FAT_END_OF_FILE]"
| "link fat (x # y # ys) = link (fat[x := of_nat y]) (y # ys)"

definition unlink :: "u32 list \<Rightarrow> nat list \<Rightarrow> u32 list" where
  "unlink fat cs = fold (\<lambda>x f. f[x := FAT32_FAT_EMPTY_ENTRY]) cs fat"

lemma length_link [simp]: "length (link fat cs) = length fat"
  by (induction fat cs rule: link.induct) auto

lemma link_other: "x \<notin> set cs \<Longrightarrow> link fat cs ! x = fat ! x"
  by (induction fat cs rule: link.induct) auto

lemma link_chain:
  assumes "distinct cs" and "\<forall>x \<in> set cs. x < length fat" and "length fat = 512" and "cs \<noteq> []"
  shows "chain (link fat cs) (of_nat (hd cs)) cs"
  using assms
proof (induction fat cs rule: link.induct)
  case (1 fat)
  then show ?case by simp
next
  case (2 fat x)
  then show ?case by (simp add: chain_single unat_of_nat32)
next
  case (3 fat x y ys)
  have IH: "chain (link (fat[x := of_nat y]) (y # ys)) (of_nat y) (y # ys)"
    using 3 by simp
  have "link (fat[x := of_nat y]) (y # ys) ! x = of_nat y"
    using 3 by (simp add: link_other)
  moreover have "(of_nat y :: u32) \<noteq> FAT32_FAT_END_OF_FILE"
  proof
    assume "(of_nat y :: u32) = FAT32_FAT_END_OF_FILE"
    then have "unat (of_nat y :: u32) = 0x0FFFFFFF" by (simp add: fat_values)
    with 3 show False by (simp add: unat_of_nat32)
  qed
  ultimately show ?case using 3 IH by (simp add: chain_Cons2 unat_of_nat32)
qed

lemma length_unlink [simp]: "length (unlink fat cs) = length fat"
  unfolding unlink_def by (induction cs arbitrary: fat) auto

lemma unlink_Nil [simp]: "unlink fat [] = fat"
  by (simp add: unlink_def)

lemma unlink_Cons: "unlink fat (x # xs) = unlink (fat[x := FAT32_FAT_EMPTY_ENTRY]) xs"
  by (simp add: unlink_def)

lemma nth_unlink:
  "x < length fat \<Longrightarrow> unlink fat cs ! x = (if x \<in> set cs then FAT32_FAT_EMPTY_ENTRY else fat ! x)"
proof (induction cs arbitrary: fat)
  case Nil
  then show ?case by simp
next
  case (Cons y ys)
  then show ?case by (auto simp: unlink_Cons nth_list_update)
qed

text \<open>Linking free clusters and unlinking them again restores the table.\<close>

lemma unlink_link:
  assumes "\<forall>x \<in> set cs. x < length fat \<longrightarrow> fat ! x = FAT32_FAT_EMPTY_ENTRY"
  shows "unlink (link fat cs) cs = fat"
  by (rule nth_equalityI) (use assms in \<open>auto simp: nth_unlink link_other\<close>)

section \<open>Free clusters\<close>

definition frees_from :: "nat \<Rightarrow> u32 list \<Rightarrow> nat list" where
  "frees_from a fat = filter (\<lambda>i. fat ! i = FAT32_FAT_EMPTY_ENTRY) [a..<512]"

definition frees :: "u32 list \<Rightarrow> nat list" where
  "frees fat = frees_from 2 fat"

lemma frees_from_set: "set (frees_from a fat) = {i. a \<le> i \<and> i < 512 \<and> fat ! i = FAT32_FAT_EMPTY_ENTRY}"
  by (auto simp: frees_from_def)

lemma frees_set: "set (frees fat) = {i. 2 \<le> i \<and> i < 512 \<and> fat ! i = FAT32_FAT_EMPTY_ENTRY}"
  by (simp add: frees_def frees_from_set)

lemma distinct_frees [simp]: "distinct (frees fat)"
  by (simp only: frees_def frees_from_def distinct_filter distinct_upt)

lemma frees_from_cong: "(\<And>i. a \<le> i \<Longrightarrow> i < 512 \<Longrightarrow> fat ! i = fat' ! i) \<Longrightarrow> frees_from a fat = frees_from a fat'"
  unfolding frees_from_def
proof (rule filter_cong [OF refl])
  fix i assume same: "\<And>i. a \<le> i \<Longrightarrow> i < 512 \<Longrightarrow> fat ! i = fat' ! i" and "i \<in> set [a..<512]"
  then have "fat ! i = fat' ! i" by (metis atLeastLessThan_iff set_upt)
  then show "(fat ! i = FAT32_FAT_EMPTY_ENTRY) = (fat' ! i = FAT32_FAT_EMPTY_ENTRY)" by (rule arg_cong)
qed

lemma frees_from_Cons:
  assumes "frees_from a fat = x # xs"
  shows "a \<le> x \<and> x < 512 \<and> fat ! x = FAT32_FAT_EMPTY_ENTRY \<and>
         (\<forall>i. a \<le> i \<and> i < x \<longrightarrow> fat ! i \<noteq> FAT32_FAT_EMPTY_ENTRY) \<and> frees_from (Suc x) fat = xs"
proof -
  have x: "x \<in> set (frees_from a fat)" using assms by simp
  then have ax: "a \<le> x" "x < 512" and fx: "fat ! x = FAT32_FAT_EMPTY_ENTRY" by (auto simp: frees_from_set)
  have split: "[a..<512] = [a..<x] @ x # [Suc x..<512]" using ax by (rule upt_split_at)
  have "sorted (frees_from a fat)" "distinct (frees_from a fat)"
    unfolding frees_from_def by (auto intro: sorted_wrt_filter)
  then have low: "\<forall>y \<in> set xs. x < y" using assms by (auto simp: less_le)
  have none: "fat ! i \<noteq> FAT32_FAT_EMPTY_ENTRY" if "a \<le> i" "i < x" for i
  proof
    assume "fat ! i = FAT32_FAT_EMPTY_ENTRY"
    with that ax have "i \<in> set (frees_from a fat)" by (simp add: frees_from_set)
    with assms that low show False by auto
  qed
  then have "filter (\<lambda>i. fat ! i = FAT32_FAT_EMPTY_ENTRY) [a..<x] = []" by (auto simp: filter_empty_conv)
  with split fx assms have "frees_from (Suc x) fat = xs" by (simp add: frees_from_def)
  with ax fx none show ?thesis by simp
qed


section \<open>Contents of a chain\<close>

definition file_bytes :: "image \<Rightarrow> nat list \<Rightarrow> u8 list" where
  "file_bytes im cs = concat (map (cluster_at im) cs)"

definition wipe :: "nat list \<Rightarrow> image \<Rightarrow> image" where
  "wipe cs im = put_all set_cluster (map (\<lambda>x. (x, replicate CLUSTER_SIZE 0)) cs) im"

lemma file_bytes_simps [simp]:
  "file_bytes im [] = []"
  "file_bytes im (x # xs) = cluster_at im x @ file_bytes im xs"
  by (simp_all add: file_bytes_def)

lemma length_file_bytes [simp]: "length (file_bytes im cs) = 2048 * length cs"
  by (induction cs) simp_all

lemma file_bytes_cong: "(\<And>c. c \<in> set cs \<Longrightarrow> cluster_at im c = cluster_at im' c) \<Longrightarrow> file_bytes im cs = file_bytes im' cs"
  by (induction cs) auto

lemma wipe_simps [simp]:
  "wipe [] im = im"
  "wipe (x # xs) im = wipe xs (set_cluster im x (replicate CLUSTER_SIZE 0))"
  by (simp_all add: wipe_def)

lemma cluster_at_wipe:
  "cluster_at (wipe cs im) x = (if x \<in> set cs then replicate 2048 0 else cluster_at im x)"
  by (induction cs arbitrary: im) (auto simp: CLUSTER_SIZE_val)

lemma chain_length: "chain fat c cs \<Longrightarrow> length cs \<le> length fat"
proof -
  assume ch: "chain fat c cs"
  then have "length cs = card (set cs)" by (simp add: chain_distinct distinct_card)
  also have "\<dots> \<le> card {..<length fat}"
    using chain_bound [OF ch] by (intro card_mono) auto
  finally show ?thesis by simp
qed

section \<open>The chain walks in closed form\<close>

lemma rounds_check:
  "unat (k :: u32) < 8388608 \<Longrightarrow> k * of_nat CLUSTER_MAP_SIZE > b \<longleftrightarrow> unat b div 512 < unat k"
proof -
  assume k: "unat k < 8388608"
  have "k * of_nat CLUSTER_MAP_SIZE = of_nat (unat k * 512)"
    by (simp add: CLUSTER_MAP_SIZE_def)
  then have "unat (k * of_nat CLUSTER_MAP_SIZE) = unat k * 512"
    using k by (simp only:) (rule unat_of_nat32, simp)
  then show ?thesis by (simp add: word_less_nat_alt div_less_iff_less_mult)
qed

text \<open>
  Along a chain the loop stores one cluster after another, at most
  \<open>buffer_size div 512 + 1\<close> of them counting from its start, and returns 0 when that reaches
  the end of the chain and 2 otherwise.
\<close>

lemma read_loop_chain:
  assumes "chain (cluster_map s) c cs" and "length (cluster_map s) = 512"
    and "unat k + length cs \<le> 8388608"
  shows "read_loop s b buf c k m =
    (let d = unat b div 512 + 1 - unat k in
     Some (Inr (if length cs \<le> d then 0 else 2, mem_write m buf (file_bytes (storage s) (take d cs)))))"
  using assms
proof (induction cs arbitrary: c k buf m)
  case Nil
  then show ?case by simp
next
  case (Cons x xs)
  let ?d = "unat b div 512 + 1 - unat k"
  have x: "x = unat c" and x512: "x < 512" using chain_hd [OF Cons.prems(1)] Cons.prems(2) by simp_all
  have k: "unat k < 8388608" using Cons.prems(3) by simp
  have rd: "read_clusters (storage s) c 1 = Inr (cluster_at (storage s) x)"
    using x x512 by (simp add: read_clusters_one)
  have get: "arr_get (cluster_map s) (unat c) = Inr (cluster_map s ! x)"
    using x x512 Cons.prems(2) by (simp add: arr_get_def)
  note unf = read_loop.simps [of s b buf c k m] rounds_check [OF k] rd get
  show ?case
  proof (cases "unat b div 512 < unat k")
    case True
    then show ?thesis by (simp add: unf)
  next
    case False
    then obtain d' where d: "?d = Suc d'" by (metis Suc_diff_le Suc_eq_plus1 linorder_not_less)
    show ?thesis
    proof (cases "xs = []")
      case True
      with Cons.prems have "cluster_map s ! x = FAT32_FAT_END_OF_FILE" by (simp add: chain_single)
      with False True d show ?thesis by (simp add: unf)
    next
      case xs: False
      with Cons.prems have nx: "cluster_map s ! x \<noteq> FAT32_FAT_END_OF_FILE"
        and ch: "chain (cluster_map s) (cluster_map s ! x) xs" by (simp_all add: chain.simps(2))
      have k1: "unat (k + 1) = Suc (unat k)"
        using k by (simp add: unat_word_ariths)
      have d1: "unat b div 512 + 1 - unat (k + 1) = d'" using d k1 by simp
      let ?m = "mem_write m buf (cluster_at (storage s) x)"
      have len: "2048 + length (file_bytes (storage s) (take d' xs)) \<le> 4294967296"
        using chain_length [OF ch] Cons.prems(2) by simp
      have "read_loop s b buf c k m = read_loop s b (buf + of_nat CLUSTER_SIZE) (cluster_map s ! x) (k + 1) ?m"
        using False nx by (simp add: unf)
      also have "\<dots> = Some (Inr (if length xs \<le> d' then 0 else 2,
          mem_write ?m (buf + of_nat CLUSTER_SIZE) (file_bytes (storage s) (take d' xs))))"
        using Cons.IH [OF ch Cons.prems(2), of "k + 1"] Cons.prems(3) d1 k1 by (simp add: Let_def)
      also have "mem_write ?m (buf + of_nat CLUSTER_SIZE) (file_bytes (storage s) (take d' xs)) =
          mem_write m buf (cluster_at (storage s) x @ file_bytes (storage s) (take d' xs))"
        using mem_write_append [of "cluster_at (storage s) x" "file_bytes (storage s) (take d' xs)" m buf] len
        by (simp add: CLUSTER_SIZE_val)
      finally show ?thesis using d by simp
    qed
  qed
qed

text \<open>Whatever the table holds, the loop ends unless the buffer size is within 512 of 2 to the 32.\<close>

lemma read_loop_returns:
  assumes "unat b < 4294966784" and "unat k < 8388608"
  shows "\<exists>r. read_loop s b buf c k m = Some r"
  using assms(2)
proof (induction "8388608 - unat k" arbitrary: k buf c m rule: less_induct)
  case less
  show ?case
  proof (cases "unat b div 512 < unat k")
    case True
    then show ?thesis using less.prems by (simp add: read_loop.simps [of s b buf c k m] rounds_check)
  next
    case False
    with assms(1) have "unat k < 8388607" by linarith
    then have k1: "unat (k + 1) = Suc (unat k)" by (simp add: unat_word_ariths)
    have "\<exists>r. read_loop s b buf' c' (k + 1) m' = Some r" for buf' c' m'
      using \<open>unat k < 8388607\<close> k1 by (intro less.hyps) simp_all
    then show ?thesis
      by (simp add: read_loop.simps [of s b buf c k m] split: sum.split)
  qed
qed

text \<open>Along a chain the delete loop frees exactly its clusters and clears them.\<close>

lemma delete_loop_chain:
  assumes "chain fat c cs" and "length fat = 512"
  shows "delete_loop c fat im = Some (Inr (unlink fat cs, wipe cs im))"
  using assms
proof (induction cs arbitrary: c fat im)
  case Nil
  then show ?case by simp
next
  case (Cons x xs)
  have x: "x = unat c" and x512: "x < 512" using chain_hd [OF Cons.prems(1)] Cons.prems(2) by simp_all
  have get: "arr_get fat (unat c) = Inr (fat ! x)"
    using x x512 Cons.prems(2) by (simp add: arr_get_def)
  have wr: "write_clusters im (replicate CLUSTER_SIZE 0) c 1 = Inr (set_cluster im x (replicate CLUSTER_SIZE 0))"
    using x x512 by (simp add: write_clusters_one CLUSTER_SIZE_val)
  note unf = delete_loop.simps [of c fat im] get wr
  show ?case
  proof (cases "xs = []")
    case True
    with Cons.prems have "fat ! x = FAT32_FAT_END_OF_FILE" by (simp add: chain_single)
    with True x show ?thesis by (simp add: unf unlink_Cons)
  next
    case False
    with Cons.prems have nx: "fat ! x \<noteq> FAT32_FAT_END_OF_FILE" and ch: "chain fat (fat ! x) xs"
      by (simp_all add: chain.simps(2))
    have "x \<notin> set xs" using chain_distinct [OF Cons.prems(1)] by simp
    then have "chain (fat[x := FAT32_FAT_EMPTY_ENTRY]) (fat ! x) xs"
      by (intro chain_cong [OF ch]) (simp, metis nth_list_update_neq)
    then show ?thesis using Cons.IH Cons.prems(2) nx x by (simp add: unf unlink_Cons)
  qed
qed

end
