(* ===== verification/FatWrite.thy ===== *)
theory FatWrite
  imports FatChain
begin

text \<open>
  What \<open>fs_write\<close> does with a file. \<open>after_write\<close> is the abstract effect: the first \<open>n\<close>
  free clusters are linked into a chain, hold the caller's buffer cut into clusters (the
  last one padded), the parent's table gains an entry pointing at the chain, and the
  allocation table on disk equals the cached one. \<open>fs_write_file_effect\<close> proves that the loops
  of the code compute exactly that; \<open>n\<close> is the file size rounded up to clusters.
\<close>

section \<open>Abstract effect\<close>

definition pad_mem :: "driver_request \<Rightarrow> nat \<Rightarrow> nat \<Rightarrow> mem \<Rightarrow> mem" where
  "pad_mem rq n i m =
     mem_write m (rq_buf rq + rq_buffer_size rq) (replicate (2048 * n - unat (rq_buffer_size rq)) (of_nat i))"

definition chunk_at :: "driver_request \<Rightarrow> mem \<Rightarrow> nat \<Rightarrow> u8 list" where
  "chunk_at rq m j = mem_read m (rq_buf rq + of_nat (2048 * j)) 2048"

definition parent_of :: "driver_request \<Rightarrow> nat" where
  "parent_of rq = unat (rq_parent_cluster_number rq)"

definition dir_at :: "fat32 \<Rightarrow> nat \<Rightarrow> dir_entry list" where
  "dir_at s p = table_of (cluster_at (storage s) p)"

definition size_in_clusters :: "u32 \<Rightarrow> nat" where
  "size_in_clusters sz = (unat sz + 2047) div 2048"

definition after_write :: "driver_request \<Rightarrow> nat \<Rightarrow> nat list \<Rightarrow> mem \<Rightarrow> fat32 \<Rightarrow> fat32" where
  "after_write rq j cs m s =
     (let tbl = (dir_at s (parent_of rq))[j := file_entry rq (hd cs)];
          fat = link (cluster_map s) cs;
          mf = pad_mem rq (length cs) (last cs) m in
      s\<lparr>cluster_map := fat, dir_table_buf := tbl,
        storage := set_cluster
          (put_all set_cluster (zip cs (map (chunk_at rq mf) [0..<length cs]))
             (set_cluster (storage s) (parent_of rq) (table_bytes tbl)))
          1 (fat_bytes fat)\<rparr>)"

section \<open>Small facts\<close>

lemma length_chunk_at [simp]: "length (chunk_at rq m j) = 2048"
  by (simp add: chunk_at_def)

lemma set_cluster_twice:
  "length a = length b \<Longrightarrow> set_cluster (set_cluster im i a) i b = set_cluster im i b"
  by (auto simp: set_cluster_def img_store_def fun_eq_iff)

lemma table_ok_dir_at [simp]: "table_ok (dir_at s p)"
  by (simp add: dir_at_def table_ok_of)

lemma length_dir_at [simp]: "length (dir_at s p) = 64"
  using table_ok_dir_at by (simp add: table_ok_def)

lemma table_ok_update: "table_ok t \<Longrightarrow> entry_ok e \<Longrightarrow> table_ok (t[j := e])"
  by (auto simp: table_ok_def dest: set_update_subset_insert [THEN subsetD])

lemma file_entry_ok: "request_ok rq \<Longrightarrow> entry_ok (file_entry rq i)"
  using zero_entry_ok by (simp add: request_ok_def file_entry_def entry_ok_def)

lemma find_DIR_Some:
  "find P [0..<DIR_ENTRIES] = Some j \<longleftrightarrow> j < 64 \<and> P j \<and> (\<forall>i<j. \<not> P i)"
  using find_upt_Some [of P 0 DIR_ENTRIES j] by (simp add: DIR_ENTRIES_val)

lemma find_DIR_None: "find P [0..<DIR_ENTRIES] = None \<longleftrightarrow> (\<forall>i<64. \<not> P i)"
  using find_upt_None [of P 0 DIR_ENTRIES] by (simp add: DIR_ENTRIES_val)

lemma u32_small_nat: "k < 4294967296 \<Longrightarrow> unat (w :: u32) = k \<Longrightarrow> w = of_nat k"
  by auto

lemma size_in_clusters_bounds:
  assumes "0 < sz"
  shows "2048 * (size_in_clusters sz - 1) < unat sz \<and> unat sz \<le> 2048 * size_in_clusters sz \<and> 0 < size_in_clusters sz"
proof -
  have "0 < unat sz" using assms by (simp add: word_less_nat_alt)
  then show ?thesis unfolding size_in_clusters_def by linarith
qed

lemma clusters_needed_unat: "unat (clusters_needed sz) = size_in_clusters sz"
proof -
  have sz: "unat sz < 4294967296" by simp
  have d: "unat (sz div of_nat CLUSTER_SIZE) = unat sz div 2048"
    by (simp add: unat_div CLUSTER_SIZE_val)
  have q: "sz div of_nat CLUSTER_SIZE = of_nat (unat sz div 2048)"
    by (rule u32_small_nat [OF _ d]) (rule le_less_trans [OF div_le_dividend sz])
  have "sz div of_nat CLUSTER_SIZE * of_nat CLUSTER_SIZE = of_nat (unat sz div 2048 * 2048)"
    unfolding q by (simp add: CLUSTER_SIZE_val)
  then have m: "unat (sz div of_nat CLUSTER_SIZE * of_nat CLUSTER_SIZE) = unat sz div 2048 * 2048"
    by (simp only:) (rule unat_of_nat32, rule le_less_trans [OF _ sz], simp)
  have "unat sz div 2048 < 2097152" using sz by linarith
  then have p: "unat (sz div of_nat CLUSTER_SIZE + 1) = unat sz div 2048 + 1"
    using d by (simp add: unat_word_ariths)
  show ?thesis
    unfolding clusters_needed_def Let_def word_less_nat_alt m
    using d p unfolding size_in_clusters_def by (simp add: m) linarith
qed

lemma chunk_at_pad:
  assumes "2048 * (j + 1) \<le> unat (rq_buffer_size rq)" and "unat (rq_buffer_size rq) \<le> 2048 * n" and "n < 1000"
  shows "chunk_at rq (pad_mem rq n i m) j = chunk_at rq m j"
  unfolding chunk_at_def
proof (rule mem_read_cong)
  fix b assume b: "b < (2048 :: nat)"
  let ?sz = "unat (rq_buffer_size rq)"
  let ?a = "rq_buf rq + of_nat (2048 * j) + of_nat b"
  have below: "2048 * j + b < ?sz" using assms(1) b by simp
  have "?a - (rq_buf rq + rq_buffer_size rq) = of_nat (2048 * j + b) - of_nat ?sz"
    by simp
  also have "\<dots> = of_nat (4294967296 + (2048 * j + b) - ?sz)"
  proof -
    have "(of_nat (4294967296 + (2048 * j + b) - ?sz) :: u32) = of_nat (4294967296 + (2048 * j + b)) - of_nat ?sz"
      using assms by (intro of_nat_diff) simp
    also have "(of_nat (4294967296 + (2048 * j + b)) :: u32) = of_nat (2048 * j + b)"
      unfolding of_nat_add by simp
    finally show ?thesis by simp
  qed
  finally have eq: "?a - (rq_buf rq + rq_buffer_size rq) = of_nat (4294967296 + (2048 * j + b) - ?sz)" .
  have "unat (?a - (rq_buf rq + rq_buffer_size rq)) = 4294967296 + (2048 * j + b) - ?sz"
    unfolding eq using below by (intro unat_of_nat32) simp
  then show "pad_mem rq n i m ?a = m ?a"
    unfolding pad_mem_def using assms b by (intro mem_write_outside) simp
qed

lemma write_fat:
  "length fat = 512 \<Longrightarrow>
   write_clusters im (fat_bytes fat) FAT_CLUSTER_NUMBER 1 = Inr (set_cluster im 1 (fat_bytes fat))"
  by (simp add: write_clusters_one FAT_CLUSTER_NUMBER_def)

section \<open>One iteration\<close>

lemma write_file_step_skip:
  assumes "i < 512" and "length (cluster_map (we_fs w)) = 512"
    and "cluster_map (we_fs w) ! i \<noteq> FAT32_FAT_EMPTY_ENTRY"
  shows "write_file_step rq need i w = Inr (Next w)"
  using assms by (simp add: write_file_step_def arr_get_def)

lemma write_file_cluster_next:
  assumes "i < 512" and "we_written w = of_nat k" and "unat need = n" and "Suc k < n" and "k < 1000"
    and "length (cluster_map (we_fs w)) = 512" and "we_clust_before w = of_nat p" and "p < 512"
  shows "write_file_cluster rq need i w =
    Inr (Next (w\<lparr>we_fs := (we_fs w)\<lparr>
        cluster_map := (if 0 < k then (cluster_map (we_fs w))[p := of_nat i] else cluster_map (we_fs w)),
        storage := set_cluster (storage (we_fs w)) i (chunk_at rq (we_mem w) k)\<rparr>,
      we_written := of_nat (Suc k), we_clust_before := of_nat i\<rparr>))"
proof -
  have ne: "we_written w + 1 \<noteq> need"
  proof
    assume "we_written w + 1 = need"
    then have need: "need = of_nat (Suc k)" using assms(2) by (auto simp: add.commute)
    have "unat need = Suc k" unfolding need using assms(4,5) by (intro unat_of_nat32) simp
    with assms show False by simp
  qed
  have pos: "0 < we_written w \<longleftrightarrow> 0 < k"
    using assms unat_of_nat32 [of k] by (simp add: word_less_nat_alt)
  have src: "rq_buf rq + we_written w * of_nat CLUSTER_SIZE = rq_buf rq + of_nat (2048 * k)"
    using assms(2) by (simp add: CLUSTER_SIZE_val)
  have up: "unat (of_nat p :: u32) = p" "unat (of_nat i :: u32) = i"
    using assms by (simp_all add: unat_of_nat32)
  show ?thesis
    unfolding write_file_cluster_def Let_def if_not_P [OF ne] pos src
    using assms(1,2,6,7,8)
    by (cases "0 < k") (simp_all add: up write_clusters_one CLUSTER_SIZE_val
        chunk_at_def set_cluster_twice arr_set_def)
qed

lemma write_file_cluster_last:
  assumes "i < 512" and "we_written w = of_nat k" and "unat need = n" and "Suc k = n" and "n < 1000"
    and "length (cluster_map (we_fs w)) = 512" and "we_clust_before w = of_nat p" and "p < 512"
    and "unat (rq_buffer_size rq) \<le> 2048 * n"
  defines "fat2 \<equiv> (if 0 < k then (cluster_map (we_fs w))[p := of_nat i] else cluster_map (we_fs w))[i := FAT32_FAT_END_OF_FILE]"
    and "mf \<equiv> pad_mem rq n i (we_mem w)"
  shows "write_file_cluster rq need i w =
    Inr (Brk (w\<lparr>we_fs := (we_fs w)\<lparr>cluster_map := fat2,
        storage := set_cluster (set_cluster (storage (we_fs w)) i (chunk_at rq mf k)) 1 (fat_bytes fat2)\<rparr>,
      we_mem := mf, we_written := of_nat n\<rparr>))"
proof -
  have eq: "we_written w + 1 = need"
    using assms u32_small_nat [of n need] by auto
  have pos: "0 < we_written w \<longleftrightarrow> 0 < k"
    using assms unat_of_nat32 [of k] by (simp add: word_less_nat_alt)
  have src: "rq_buf rq + we_written w * of_nat CLUSTER_SIZE = rq_buf rq + of_nat (2048 * k)"
    using assms(2) by (simp add: CLUSTER_SIZE_val)
  have dst: "rq_buf rq + we_written w * of_nat CLUSTER_SIZE + (rq_buffer_size rq - we_written w * of_nat CLUSTER_SIZE)
      = rq_buf rq + rq_buffer_size rq" by simp
  have "of_nat CLUSTER_SIZE * need - rq_buffer_size rq = of_nat (2048 * n) - of_nat (unat (rq_buffer_size rq))"
    using u32_small_nat [of n need] assms by (simp add: CLUSTER_SIZE_val)
  also have "\<dots> = of_nat (2048 * n - unat (rq_buffer_size rq))"
    using assms(9) by (intro of_nat_diff [symmetric])
  finally have cnt: "unat (of_nat CLUSTER_SIZE * need - rq_buffer_size rq) = 2048 * n - unat (rq_buffer_size rq)"
    using assms(5) by (simp only:) (rule unat_of_nat32, simp)
  have ms: "memset (we_mem w) (rq_buf rq + rq_buffer_size rq) (int i)
      (unat (of_nat CLUSTER_SIZE * need - rq_buffer_size rq)) = mf"
    using assms(5) unfolding cnt mf_def pad_mem_def by (subst memset_closed) simp_all
  have up: "unat (of_nat p :: u32) = p" "unat (of_nat i :: u32) = i"
    using assms by (simp_all add: unat_of_nat32)
  have nw: "need = of_nat n" using u32_small_nat [of n need] assms by simp
  show ?thesis
    unfolding write_file_cluster_def Let_def eq
    unfolding dst
    unfolding ms pos src
    using assms(1,6,7,8) nw
    by (cases "0 < k") (simp_all add: up write_fat write_clusters_one CLUSTER_SIZE_val
        chunk_at_def set_cluster_twice arr_set_def fat2_def)
qed


section \<open>The loop over clusters\<close>

text \<open>The scan skips allocated clusters up to the next free one.\<close>

lemma write_scan:
  assumes "frees_from a (cluster_map (we_fs w)) = x # ys" and "length (cluster_map (we_fs w)) = 512" and "512 \<le> N"
  shows "forE (write_file_step rq need) [a..<N] w =
    bindE (write_file_step rq need x w) (\<lambda>c. case c of
        Next w' \<Rightarrow> forE (write_file_step rq need) [Suc x..<N] w' | Brk w' \<Rightarrow> Inr (Brk w') | Ret r \<Rightarrow> Inr (Ret r))"
proof -
  note x = frees_from_Cons [OF assms(1)]
  have split: "[a..<N] = [a..<x] @ x # [Suc x..<N]"
    using x assms(3) by (intro upt_split_at) auto
  have "forE (write_file_step rq need) ([a..<x] @ x # [Suc x..<N]) w =
      forE (write_file_step rq need) (x # [Suc x..<N]) w"
    using x assms(2) by (intro forE_skip write_file_step_skip) auto
  then show ?thesis unfolding split by simp
qed

lemma write_file_step_free:
  assumes "x < 512" and "length (cluster_map (we_fs w)) = 512" and "cluster_map (we_fs w) ! x = FAT32_FAT_EMPTY_ENTRY"
    and "we_written w = of_nat k" and "0 < k" and "k < 1000"
  shows "write_file_step rq need x w = write_file_cluster rq need x w"
proof -
  have "we_written w \<noteq> 0"
    using assms(4-6) eq_of_nat32_iff [of k 0] by auto
  then show ?thesis using assms by (simp add: write_file_step_def arr_get_def)
qed

lemma write_file_rest:
  assumes "xs @ rest = frees_from a (cluster_map (we_fs w))" and "xs \<noteq> []"
    and "k + length xs = n" and "0 < k" and "we_written w = of_nat k"
    and "we_clust_before w = of_nat p" and "p < a" and "a \<le> 512"
    and "length (cluster_map (we_fs w)) = 512"
    and "unat need = n" and "n < 1000" and "512 \<le> N"
    and "unat (rq_buffer_size rq) \<le> 2048 * n" and "2048 * (n - 1) < unat (rq_buffer_size rq)"
  shows "\<exists>cb. forE (write_file_step rq need) [a..<N] w =
    Inr (Brk (w\<lparr>we_fs := (we_fs w)\<lparr>cluster_map := link (cluster_map (we_fs w)) (p # xs),
        storage := set_cluster (put_all set_cluster
            (zip xs (map (chunk_at rq (pad_mem rq n (last xs) (we_mem w))) [k..<n])) (storage (we_fs w)))
            1 (fat_bytes (link (cluster_map (we_fs w)) (p # xs)))\<rparr>,
      we_mem := pad_mem rq n (last xs) (we_mem w), we_written := of_nat n, we_clust_before := cb\<rparr>))"
  using assms(1-9)
proof (induction xs arbitrary: a k p w)
  case Nil
  then show ?case by simp
next
  case (Cons x xs)
  let ?fat = "cluster_map (we_fs w)"
  have fr: "frees_from a ?fat = x # (xs @ rest)" using Cons.prems(1) by simp
  note x = frees_from_Cons [OF fr]
  have p512: "p < 512" using Cons.prems(7,8) by simp
  have step: "write_file_step rq need x w = write_file_cluster rq need x w"
    using x Cons.prems(3,4,5,9) assms(11) by (intro write_file_step_free [where k = k]) auto
  note scan = write_scan [OF fr Cons.prems(9) assms(12)]
  have kn: "k < n" using Cons.prems(3) by simp
  have upt: "[k..<n] = k # [Suc k..<n]" using kn by (rule upt_conv_Cons)
  show ?case
  proof (cases "xs = []")
    case True
    then have "Suc k = n" using Cons.prems(3) by simp
    note last = write_file_cluster_last [OF _ Cons.prems(5) assms(10) this assms(11) Cons.prems(9,6) p512 assms(13), of x]
    show ?thesis
      unfolding scan step using last x True Cons.prems(4) kn \<open>Suc k = n\<close>
      by (auto simp: upt intro: exI [of _ "we_clust_before w"])
  next
    case False
    then have kn2: "Suc k < n" using Cons.prems(3) by (cases xs) auto
    have k1000: "k < 1000" using kn2 assms(11) by simp
    let ?w1 = "w\<lparr>we_fs := (we_fs w)\<lparr>cluster_map := ?fat[p := of_nat x],
        storage := set_cluster (storage (we_fs w)) x (chunk_at rq (we_mem w) k)\<rparr>,
      we_written := of_nat (Suc k), we_clust_before := of_nat x\<rparr>"
    have nxt: "write_file_cluster rq need x w = Inr (Next ?w1)"
      using write_file_cluster_next [OF _ Cons.prems(5) assms(10) kn2 k1000 Cons.prems(9,6) p512, of x] x Cons.prems(4)
      by simp
    have same: "chunk_at rq (pad_mem rq n (last xs) (we_mem w)) k = chunk_at rq (we_mem w) k"
      using kn2 assms(11,13,14) by (intro chunk_at_pad) auto
    have "frees_from (Suc x) (?fat[p := of_nat x]) = frees_from (Suc x) ?fat"
      using x Cons.prems(7) by (intro frees_from_cong) simp
    then have fr1: "xs @ rest = frees_from (Suc x) (cluster_map (we_fs ?w1))" using x by simp
    have "\<exists>cb. forE (write_file_step rq need) [Suc x..<N] ?w1 =
      Inr (Brk (?w1\<lparr>we_fs := (we_fs ?w1)\<lparr>cluster_map := link (cluster_map (we_fs ?w1)) (x # xs),
        storage := set_cluster (put_all set_cluster
            (zip xs (map (chunk_at rq (pad_mem rq n (last xs) (we_mem ?w1))) [Suc k..<n])) (storage (we_fs ?w1)))
            1 (fat_bytes (link (cluster_map (we_fs ?w1)) (x # xs)))\<rparr>,
        we_mem := pad_mem rq n (last xs) (we_mem ?w1), we_written := of_nat n, we_clust_before := cb\<rparr>))"
      using x Cons.prems(3,9) False fr1 by (intro Cons.IH) simp_all
    then show ?thesis
      unfolding scan step nxt using False same by (simp add: upt)
  qed
qed


section \<open>The whole call\<close>

text \<open>The first free cluster also brings the directory entry.\<close>

definition entered :: "driver_request \<Rightarrow> nat \<Rightarrow> nat \<Rightarrow> fat32 \<Rightarrow> fat32" where
  "entered rq j x s =
     (let tbl = (dir_table_buf s)[j := file_entry rq x] in
      s\<lparr>dir_table_buf := tbl, storage := set_cluster (storage s) (parent_of rq) (table_bytes tbl)\<rparr>)"

lemma entered_map [simp]: "cluster_map (entered rq j x s) = cluster_map s"
  by (simp add: entered_def Let_def)

lemma write_file_step_first:
  assumes "x < 512" and "length (cluster_map (we_fs w)) = 512" and "cluster_map (we_fs w) ! x = FAT32_FAT_EMPTY_ENTRY"
    and "we_written w = 0" and "free_slot (dir_table_buf (we_fs w)) = Some j"
    and "table_ok (dir_table_buf (we_fs w))" and "request_ok rq" and "parent_of rq < 2048"
  shows "write_file_step rq need x w = write_file_cluster rq need x
    (w\<lparr>we_fs := entered rq j x (we_fs w), we_clust_before := of_nat x, we_slot_available := True\<rparr>)"
  using assms
  by (cases w) (simp add: write_file_step_def arr_get_def write_file_entry_def entered_def Let_def
      write_clusters_one table_ok_update file_entry_ok parent_of_def)

lemma write_file_loop:
  assumes cs: "cs @ rest = frees (cluster_map (we_fs w))" "cs \<noteq> []" "length cs = n"
    and len: "length (cluster_map (we_fs w)) = 512"
    and w0: "we_written w = 0" and slot: "free_slot (dir_table_buf (we_fs w)) = Some j"
    and tbl: "table_ok (dir_table_buf (we_fs w))" and rq: "request_ok rq" "parent_of rq < 2048"
    and need: "unat need = n" "n < 1000" and N: "512 \<le> N"
    and sz: "unat (rq_buffer_size rq) \<le> 2048 * n" "2048 * (n - 1) < unat (rq_buffer_size rq)"
  shows "\<exists>w'. forE (write_file_step rq need) [2..<N] w = Inr (Brk w') \<and>
    we_written w' = need \<and> we_mem w' = pad_mem rq n (last cs) (we_mem w) \<and>
    we_fs w' = (entered rq j (hd cs) (we_fs w))\<lparr>cluster_map := link (cluster_map (we_fs w)) cs,
        storage := set_cluster (put_all set_cluster
            (zip cs (map (chunk_at rq (pad_mem rq n (last cs) (we_mem w))) [0..<n]))
            (storage (entered rq j (hd cs) (we_fs w)))) 1 (fat_bytes (link (cluster_map (we_fs w)) cs))\<rparr>"
proof -
  obtain x xs where xs: "cs = x # xs" using cs(2) by (cases cs) auto
  have fr: "frees_from 2 (cluster_map (we_fs w)) = x # (xs @ rest)"
    using cs(1) xs by (simp add: frees_def)
  note x = frees_from_Cons [OF fr]
  let ?w1 = "w\<lparr>we_fs := entered rq j x (we_fs w), we_clust_before := of_nat x, we_slot_available := True\<rparr>"
  have step: "write_file_step rq need x w = write_file_cluster rq need x ?w1"
    using x len w0 slot tbl rq by (intro write_file_step_first) auto
  note scan = write_scan [OF fr len N]
  have upt: "[0..<n] = 0 # [Suc 0..<n]" using cs(3) xs by (intro upt_conv_Cons) auto
  have nd: "need = of_nat n" using need u32_small_nat [of n need] by simp
  show ?thesis
  proof (cases "xs = []")
    case True
    then have n1: "Suc 0 = n" using cs(3) xs by simp
    have "write_file_cluster rq need x ?w1 = Inr (Brk (?w1\<lparr>we_fs := (we_fs ?w1)\<lparr>
        cluster_map := (cluster_map (we_fs w))[x := FAT32_FAT_END_OF_FILE],
        storage := set_cluster (set_cluster (storage (we_fs ?w1)) x (chunk_at rq (pad_mem rq n x (we_mem ?w1)) 0)) 1
          (fat_bytes ((cluster_map (we_fs w))[x := FAT32_FAT_END_OF_FILE]))\<rparr>,
        we_mem := pad_mem rq n x (we_mem ?w1), we_written := of_nat n\<rparr>))"
      using write_file_cluster_last [of x ?w1 0 need n x rq] x w0 need n1 len sz(1) by simp
    then show ?thesis unfolding scan step using True xs nd by (simp add: upt)
  next
    case False
    then have n2: "Suc 0 < n" using cs(3) xs by (cases xs) auto
    let ?w2 = "?w1\<lparr>we_fs := (we_fs ?w1)\<lparr>
        storage := set_cluster (storage (we_fs ?w1)) x (chunk_at rq (we_mem ?w1) 0)\<rparr>,
        we_written := of_nat (Suc 0)\<rparr>"
    have nxt: "write_file_cluster rq need x ?w1 = Inr (Next ?w2)"
      using write_file_cluster_next [of x ?w1 0 need n x rq] x w0 need n2 len by simp
    have same: "chunk_at rq (pad_mem rq n (last xs) (we_mem w)) 0 = chunk_at rq (we_mem w) 0"
      using n2 need(2) sz by (intro chunk_at_pad) auto
    have fr1: "xs @ rest = frees_from (Suc x) (cluster_map (we_fs ?w2))" using x by simp
    obtain cb where cb: "forE (write_file_step rq need) [Suc x..<N] ?w2 =
      Inr (Brk (?w2\<lparr>we_fs := (we_fs ?w2)\<lparr>cluster_map := link (cluster_map (we_fs ?w2)) (x # xs),
        storage := set_cluster (put_all set_cluster
            (zip xs (map (chunk_at rq (pad_mem rq n (last xs) (we_mem ?w2))) [Suc 0..<n])) (storage (we_fs ?w2)))
            1 (fat_bytes (link (cluster_map (we_fs ?w2)) (x # xs)))\<rparr>,
        we_mem := pad_mem rq n (last xs) (we_mem ?w2), we_written := of_nat n, we_clust_before := cb\<rparr>))"
      using write_file_rest [OF fr1 False, where k = "Suc 0" and n = n and p = x and need = need and rq = rq and N = N] cs(3) xs x len need N sz by auto
    show ?thesis
      unfolding scan step nxt using False xs same nd cb by (simp add: upt)
  qed
qed

lemma write_file_while_done:
  "\<not> we_written w < need \<Longrightarrow> write_file_while rq need w = Some (Inr (0, we_fs w, we_mem w))"
  by (simp add: write_file_while.simps)

text \<open>The effect of the whole call on a parent directory with a free slot.\<close>

lemma fs_write_file_effect:
  assumes "length (cluster_map s) = 512" and "request_ok rq" and "parent_of rq < 512"
    and "cluster_map s ! parent_of rq \<noteq> FAT32_FAT_EMPTY_ENTRY"
    and "free_slot (dir_at s (parent_of rq)) = Some j"
    and "0 < rq_buffer_size rq" and "size_in_clusters (rq_buffer_size rq) \<le> length (frees (cluster_map s))"
  defines "cs \<equiv> take (size_in_clusters (rq_buffer_size rq)) (frees (cluster_map s))"
  shows "fs_write junk junk_table rq s m =
    Some (Inr (0, after_write rq j cs m s, pad_mem rq (length cs) (last cs) m))"
proof -
  let ?n = "size_in_clusters (rq_buffer_size rq)"
  let ?need = "clusters_needed (rq_buffer_size rq)"
  let ?s1 = "s\<lparr>dir_table_buf := dir_at s (parent_of rq)\<rparr>"
  let ?w = "\<lparr>we_fs = ?s1, we_mem = m, we_written = 0, we_clust_before = 0, we_slot_available = False\<rparr>"
  note szb = size_in_clusters_bounds [OF assms(6)]
  have "length (frees (cluster_map s)) = card (set (frees (cluster_map s)))"
    by (simp add: distinct_card)
  also have "\<dots> \<le> card {..<512 :: nat}" by (intro card_mono) (auto simp: frees_set)
  finally have n512: "?n \<le> 512" using assms(7) by simp
  have len: "length cs = ?n" unfolding cs_def using assms(7) by simp
  have need: "unat ?need = ?n" by (rule clusters_needed_unat)
  have N: "512 \<le> CLUSTER_SIZE" by (simp add: CLUSTER_SIZE_val)
  have cs_app: "cs @ drop ?n (frees (cluster_map s)) = frees (cluster_map (we_fs ?w))"
    by (simp add: cs_def)
  have cs_ne: "cs \<noteq> []" using len szb by auto
  obtain w' where loop: "forE (write_file_step rq ?need) [2..<CLUSTER_SIZE] ?w = Inr (Brk w')"
    and w': "we_written w' = ?need" "we_mem w' = pad_mem rq ?n (last cs) m"
      "we_fs w' = (entered rq j (hd cs) ?s1)\<lparr>cluster_map := link (cluster_map s) cs,
        storage := set_cluster (put_all set_cluster
            (zip cs (map (chunk_at rq (pad_mem rq ?n (last cs) m)) [0..<?n]))
            (storage (entered rq j (hd cs) ?s1))) 1 (fat_bytes (link (cluster_map s) cs))\<rparr>"
    using write_file_loop [OF cs_app cs_ne len, of j rq ?need CLUSTER_SIZE] assms(1-6) need n512 N szb
    by auto
  have pos: "0 < ?need" using need szb by (simp add: word_less_nat_alt)
  have "write_file_while rq ?need ?w = Some (Inr (0, we_fs w', we_mem w'))"
    using pos w'(1) loop write_file_while_done [of w' ?need rq]
    by (subst write_file_while.simps) (simp add: ROOT_CLUSTER_NUMBER_def)
  moreover have "fs_write junk junk_table rq s m = write_file_while rq ?need ?w"
  proof -
    have "rq_buffer_size rq \<noteq> 0" using assms(6) by auto
    then show ?thesis using assms(1,3,4)
      by (simp add: fs_write_def arr_get_def read_clusters_one parent_of_def dir_at_def)
  qed
  ultimately show ?thesis
    using w' len by (simp add: after_write_def entered_def Let_def)
qed

section \<open>No slot, no space\<close>

lemma frees_from_Nil: "frees_from a fat = [] \<longleftrightarrow> (\<forall>i. a \<le> i \<and> i < 512 \<longrightarrow> fat ! i \<noteq> FAT32_FAT_EMPTY_ENTRY)"
  using frees_from_set [of a fat] by (auto simp del: set_empty simp: set_empty [symmetric])

text \<open>With no free cluster left the scan runs past the 512 entries of the table.\<close>

lemma scan_past_end:
  assumes "frees_from a fat = []" and "length fat = 512" and "a \<le> 512" and "512 < N"
    and "\<And>i. i < 512 \<Longrightarrow> fat ! i \<noteq> FAT32_FAT_EMPTY_ENTRY \<Longrightarrow> body i w = Inr (Next w)"
    and "body 512 w = Inl Out_Of_Bounds"
  shows "forE body [a..<N] w = Inl Out_Of_Bounds"
proof -
  have split: "[a..<N] = [a..<512] @ 512 # [Suc 512..<N]"
    using assms(3,4) by (rule upt_split_at)
  have "forE body ([a..<512] @ 512 # [Suc 512..<N]) w = forE body (512 # [Suc 512..<N]) w"
    using assms(1,5) unfolding frees_from_Nil by (intro forE_skip) (metis atLeastLessThan_iff set_upt)
  then show ?thesis unfolding split by (simp add: assms(6))
qed

lemma write_scan_full:
  assumes "frees_from a (cluster_map (we_fs w)) = []" and "length (cluster_map (we_fs w)) = 512"
    and "a \<le> 512" and "512 < N"
  shows "forE (write_file_step rq need) [a..<N] w = Inl Out_Of_Bounds"
  using assms
  by (intro scan_past_end [where fat = "cluster_map (we_fs w)"] write_file_step_skip)
     (auto simp: write_file_step_def arr_get_def)

lemma write_file_rest_full:
  assumes "frees_from a (cluster_map (we_fs w)) = xs" and "k + length xs < unat need" and "0 < k"
    and "we_written w = of_nat k" and "we_clust_before w = of_nat p" and "p < a" and "a \<le> 512"
    and "length (cluster_map (we_fs w)) = 512" and "k \<le> a" and "512 < N"
  shows "forE (write_file_step rq need) [a..<N] w = Inl Out_Of_Bounds"
  using assms(1-9)
proof (induction xs arbitrary: a k p w)
  case Nil
  then show ?case using assms(10) by (intro write_scan_full) auto
next
  case (Cons x xs)
  let ?fat = "cluster_map (we_fs w)"
  note x = frees_from_Cons [OF Cons.prems(1)]
  have p512: "p < 512" using Cons.prems(6,7) by simp
  have k1000: "k < 1000" using Cons.prems(7,9) by simp
  have kn: "Suc k < unat need" using Cons.prems(2) by simp
  have step: "write_file_step rq need x w = write_file_cluster rq need x w"
    using x Cons.prems(3,4,8) k1000 by (intro write_file_step_free [where k = k]) auto
  let ?w1 = "w\<lparr>we_fs := (we_fs w)\<lparr>cluster_map := ?fat[p := of_nat x],
        storage := set_cluster (storage (we_fs w)) x (chunk_at rq (we_mem w) k)\<rparr>,
      we_written := of_nat (Suc k), we_clust_before := of_nat x\<rparr>"
  have nxt: "write_file_cluster rq need x w = Inr (Next ?w1)"
    using write_file_cluster_next [OF _ Cons.prems(4) refl kn k1000 Cons.prems(8,5) p512, of x] x Cons.prems(3)
    by simp
  have "frees_from (Suc x) (?fat[p := of_nat x]) = frees_from (Suc x) ?fat"
    using x Cons.prems(6) by (intro frees_from_cong) simp
  then have fr1: "frees_from (Suc x) (cluster_map (we_fs ?w1)) = xs" using x by simp
  have "forE (write_file_step rq need) [Suc x..<N] ?w1 = Inl Out_Of_Bounds"
    using x Cons.prems(2,8,9) by (intro Cons.IH [OF fr1, where k = "Suc k" and p = x]) simp_all
  then show ?case
    using write_scan [OF Cons.prems(1,8), where N = N and rq = rq and need = need] assms(10) step nxt by simp
qed

lemma write_file_loop_full:
  assumes few: "length (frees (cluster_map (we_fs w))) < unat need"
    and len: "length (cluster_map (we_fs w)) = 512"
    and w0: "we_written w = 0" and slot: "free_slot (dir_table_buf (we_fs w)) = Some j"
    and tbl: "table_ok (dir_table_buf (we_fs w))" and rq: "request_ok rq" "parent_of rq < 2048"
    and N: "512 < N"
  shows "forE (write_file_step rq need) [2..<N] w = Inl Out_Of_Bounds"
proof (cases "frees (cluster_map (we_fs w))")
  case Nil
  then show ?thesis using len N by (intro write_scan_full) (auto simp: frees_def)
next
  case (Cons x xs)
  then have fr: "frees_from 2 (cluster_map (we_fs w)) = x # xs" by (simp add: frees_def)
  note x = frees_from_Cons [OF fr]
  let ?w1 = "w\<lparr>we_fs := entered rq j x (we_fs w), we_clust_before := of_nat x, we_slot_available := True\<rparr>"
  have step: "write_file_step rq need x w = write_file_cluster rq need x ?w1"
    using x len w0 slot tbl rq by (intro write_file_step_first) auto
  have n2: "Suc 0 < unat need" using few Cons by simp
  let ?w2 = "?w1\<lparr>we_fs := (we_fs ?w1)\<lparr>
      storage := set_cluster (storage (we_fs ?w1)) x (chunk_at rq (we_mem ?w1) 0)\<rparr>,
      we_written := of_nat (Suc 0)\<rparr>"
  have nxt: "write_file_cluster rq need x ?w1 = Inr (Next ?w2)"
    using write_file_cluster_next [of x ?w1 0 need "unat need" x rq] x w0 n2 len by simp
  have fr1: "frees_from (Suc x) (cluster_map (we_fs ?w2)) = xs" using x by simp
  have "forE (write_file_step rq need) [Suc x..<N] ?w2 = Inl Out_Of_Bounds"
    using write_file_rest_full [OF fr1, of "Suc 0" need x N rq] few Cons x len N by simp
  then show ?thesis
    using write_scan [OF fr len, where N = N and rq = rq and need = need] N step nxt by simp
qed

lemma write_file_loop_no_slot:
  assumes fr: "frees (cluster_map (we_fs w)) = x # xs" and len: "length (cluster_map (we_fs w)) = 512"
    and w0: "we_written w = 0" "\<not> we_slot_available w"
    and slot: "free_slot (dir_table_buf (we_fs w)) = None" and N: "512 \<le> N"
  shows "forE (write_file_step rq need) [2..<N] w = Inr (Ret (-1, we_fs w, we_mem w))"
proof -
  have fr2: "frees_from 2 (cluster_map (we_fs w)) = x # xs" using fr by (simp add: frees_def)
  note x = frees_from_Cons [OF fr2]
  have "write_file_step rq need x w = Inr (Ret (-1, we_fs w, we_mem w))"
    using x len w0 slot by (cases w) (simp add: write_file_step_def arr_get_def write_file_entry_def Let_def)
  then show ?thesis using write_scan [OF fr2 len N] by simp
qed

lemma fs_write_to_while:
  assumes "length (cluster_map s) = 512" and "parent_of rq < 512"
    and "cluster_map s ! parent_of rq \<noteq> FAT32_FAT_EMPTY_ENTRY" and "0 < rq_buffer_size rq"
  shows "fs_write junk junk_table rq s m = write_file_while rq (clusters_needed (rq_buffer_size rq))
    \<lparr>we_fs = s\<lparr>dir_table_buf := dir_at s (parent_of rq)\<rparr>, we_mem = m, we_written = 0,
     we_clust_before = 0, we_slot_available = False\<rparr>"
proof -
  have "rq_buffer_size rq \<noteq> 0" using assms(4) by auto
  then show ?thesis using assms(1-3)
    by (simp add: fs_write_def arr_get_def read_clusters_one parent_of_def dir_at_def)
qed

lemma while_leaves:
  assumes "0 < rq_buffer_size rq" and "we_written w = 0"
    and "forE (write_file_step rq (clusters_needed (rq_buffer_size rq))) [2..<CLUSTER_SIZE] w = r"
    and "r = Inl e \<or> r = Inr (Ret v)"
  shows "write_file_while rq (clusters_needed (rq_buffer_size rq)) w =
    Some (case r of Inl e \<Rightarrow> Inl e | Inr _ \<Rightarrow> Inr v)"
proof -
  have pos: "0 < clusters_needed (rq_buffer_size rq)"
    using size_in_clusters_bounds [OF assms(1)] clusters_needed_unat [of "rq_buffer_size rq"]
    by (simp add: word_less_nat_alt)
  have two: "unat ROOT_CLUSTER_NUMBER = 2" by (simp add: ROOT_CLUSTER_NUMBER_def)
  show ?thesis
    unfolding write_file_while.simps [of rq _ w] two assms(3)
    using assms(2,4) pos by auto
qed

lemma fs_write_file_full:
  assumes "length (cluster_map s) = 512" and "request_ok rq" and "parent_of rq < 512"
    and "cluster_map s ! parent_of rq \<noteq> FAT32_FAT_EMPTY_ENTRY" and "0 < rq_buffer_size rq"
    and "length (frees (cluster_map s)) < size_in_clusters (rq_buffer_size rq)"
    and "free_slot (dir_at s (parent_of rq)) \<noteq> None \<or> frees (cluster_map s) = []"
  shows "fs_write junk junk_table rq s m = Some (Inl Out_Of_Bounds)"
proof -
  let ?w = "\<lparr>we_fs = s\<lparr>dir_table_buf := dir_at s (parent_of rq)\<rparr>, we_mem = m, we_written = 0,
     we_clust_before = 0, we_slot_available = False\<rparr>"
  let ?need = "clusters_needed (rq_buffer_size rq)"
  have N: "512 < CLUSTER_SIZE" by (simp add: CLUSTER_SIZE_val)
  have "forE (write_file_step rq ?need) [2..<CLUSTER_SIZE] ?w = Inl Out_Of_Bounds"
  proof (cases "free_slot (dir_at s (parent_of rq))")
    case None
    then show ?thesis using assms N by (intro write_scan_full) (auto simp: frees_def)
  next
    case (Some j)
    then show ?thesis
      using assms N by (intro write_file_loop_full [where j = j]) (auto simp: clusters_needed_unat)
  qed
  then show ?thesis
    unfolding fs_write_to_while [OF assms(1,3,4,5)]
    by (subst while_leaves [OF assms(5)]) auto
qed

lemma fs_write_file_no_slot:
  assumes "length (cluster_map s) = 512" and "parent_of rq < 512"
    and "cluster_map s ! parent_of rq \<noteq> FAT32_FAT_EMPTY_ENTRY" and "0 < rq_buffer_size rq"
    and "frees (cluster_map s) \<noteq> []" and "free_slot (dir_at s (parent_of rq)) = None"
  shows "fs_write junk junk_table rq s m =
    Some (Inr (-1, s\<lparr>dir_table_buf := dir_at s (parent_of rq)\<rparr>, m))"
proof -
  let ?w = "\<lparr>we_fs = s\<lparr>dir_table_buf := dir_at s (parent_of rq)\<rparr>, we_mem = m, we_written = 0,
     we_clust_before = 0, we_slot_available = False\<rparr>"
  obtain x xs where fr: "frees (cluster_map s) = x # xs" using assms(5) by (cases "frees (cluster_map s)") auto
  have "forE (write_file_step rq (clusters_needed (rq_buffer_size rq))) [2..<CLUSTER_SIZE] ?w =
      Inr (Ret (-1, we_fs ?w, we_mem ?w))"
    using assms fr by (intro write_file_loop_no_slot) (auto simp: CLUSTER_SIZE_val)
  then show ?thesis
    unfolding fs_write_to_while [OF assms(1-4)]
    by (subst while_leaves [OF assms(4)]) auto
qed

section \<open>Folders\<close>

definition after_mkdir :: "dir_entry \<Rightarrow> dir_entry list \<Rightarrow> driver_request \<Rightarrow> nat \<Rightarrow> fat32 \<Rightarrow> fat32" where
  "after_mkdir junk junk_table rq x s =
     (let old = dir_at s (parent_of rq);
          tbl = (case free_slot old of None \<Rightarrow> old | Some j \<Rightarrow> old[j := folder_entry junk rq x]);
          fat = (cluster_map s)[x := FAT32_FAT_END_OF_FILE];
          new_folder = init_directory_table junk_table (rq_name rq) (rq_parent_cluster_number rq) in
      s\<lparr>cluster_map := fat, dir_table_buf := tbl,
        storage := set_cluster (set_cluster (set_cluster (storage s) x (table_bytes new_folder))
                     1 (fat_bytes fat)) (parent_of rq) (table_bytes tbl)\<rparr>)"

lemma init_directory_table_nth:
  assumes "length t = 64" and "n < 64"
  shows "init_directory_table t name parent ! n =
    (if n = 0 then (t ! 0)\<lparr>de_name := name, de_ext := [0, 0, 0], de_attribute := ATTR_SUBDIRECTORY,
            de_user_attribute := UATTR_NOT_EMPTY, de_cluster_high := cluster_hi parent,
            de_cluster_low := cluster_lo parent, de_filesize := 0\<rparr>
     else zero_entry)"
proof -
  have "n \<in> set [1..<DIR_ENTRIES] \<longleftrightarrow> n \<noteq> 0" using assms(2) by (auto simp: DIR_ENTRIES_val)
  then show ?thesis using assms by (simp add: init_directory_table_def Let_def nth_fold_fill del: set_upt)
qed

lemma init_directory_table_ok:
  assumes "length t = 64" and "length name = 8"
  shows "table_ok (init_directory_table t name parent)"
proof -
  have len: "length (init_directory_table t name parent) = 64"
    using assms by (simp add: init_directory_table_def Let_def)
  have "entry_ok (init_directory_table t name parent ! n)" if "n < 64" for n
    unfolding init_directory_table_nth [OF assms(1) that] using assms(2) by (simp add: entry_ok_def [of "_\<lparr>de_filesize := 0\<rparr>"])
  with len show ?thesis by (auto simp: table_ok_def in_set_conv_nth)
qed

lemma write_folder_step_skip:
  "length (cluster_map s) = 512 \<Longrightarrow> i < 512 \<Longrightarrow> cluster_map s ! i \<noteq> FAT32_FAT_EMPTY_ENTRY \<Longrightarrow>
   write_folder_step junk nf rq i (s, b) = Inr (Next (s, b))"
  by (simp add: write_folder_step_def arr_get_def)

lemma folder_entry_ok: "entry_ok junk \<Longrightarrow> request_ok rq \<Longrightarrow> entry_ok (folder_entry junk rq i)"
  by (simp add: entry_ok_def folder_entry_def request_ok_def)

lemma fs_write_to_folder:
  assumes "length (cluster_map s) = 512" and "parent_of rq < 512"
    and "cluster_map s ! parent_of rq \<noteq> FAT32_FAT_EMPTY_ENTRY" and "rq_buffer_size rq = 0"
  shows "fs_write junk junk_table rq s m =
    Some (bindE (write_folder junk junk_table rq (s\<lparr>dir_table_buf := dir_at s (parent_of rq)\<rparr>)) (\<lambda>(r, s2). Inr (r, s2, m)))"
  using assms by (simp add: fs_write_def arr_get_def read_clusters_one parent_of_def dir_at_def)

lemma fs_write_folder_effect:
  assumes "length (cluster_map s) = 512" and "request_ok rq" and "parent_of rq < 512"
    and "cluster_map s ! parent_of rq \<noteq> FAT32_FAT_EMPTY_ENTRY" and "rq_buffer_size rq = 0"
    and "entry_ok junk" and "length junk_table = 64" and "frees (cluster_map s) = x # xs"
  shows "fs_write junk junk_table rq s m = Some (Inr (0, after_mkdir junk junk_table rq x s, m))"
proof -
  let ?nf = "init_directory_table junk_table (rq_name rq) (rq_parent_cluster_number rq)"
  let ?old = "dir_at s (parent_of rq)"
  let ?s1 = "s\<lparr>dir_table_buf := ?old\<rparr>"
  let ?tbl = "case free_slot ?old of None \<Rightarrow> ?old | Some j \<Rightarrow> ?old[j := folder_entry junk rq x]"
  have nf: "table_ok ?nf" using assms(2,7) by (intro init_directory_table_ok) (simp_all add: request_ok_def)
  have tbl: "table_ok ?tbl"
    using assms(2,6) by (auto split: option.split intro: table_ok_update folder_entry_ok)
  have "frees_from 2 (cluster_map s) = x # xs" using assms(8) by (simp add: frees_def)
  note x = frees_from_Cons [OF this]
  have split: "[2..<CLUSTER_SIZE] = [2..<x] @ x # [Suc x..<CLUSTER_SIZE]"
    using x by (intro upt_split_at) (auto simp: CLUSTER_SIZE_val)
  have two: "unat ROOT_CLUSTER_NUMBER = 2" by (simp add: ROOT_CLUSTER_NUMBER_def)
  have ux: "unat (of_nat x :: u32) = x" using x by (intro unat_of_nat32) simp
  have step: "write_folder_step junk ?nf rq x (?s1, False) = Inr (Brk (after_mkdir junk junk_table rq x s, True))"
    using x assms(1,3) nf tbl
    by (cases "free_slot ?old")
       (simp_all add: write_folder_step_def arr_get_def Let_def ux write_clusters_one write_fat after_mkdir_def parent_of_def)
  have "forE (write_folder_step junk ?nf rq) ([2..<x] @ x # [Suc x..<CLUSTER_SIZE]) (?s1, False) =
      forE (write_folder_step junk ?nf rq) (x # [Suc x..<CLUSTER_SIZE]) (?s1, False)"
    using x assms(1) by (intro forE_skip write_folder_step_skip) auto
  then have "forE (write_folder_step junk ?nf rq) [2..<CLUSTER_SIZE] (?s1, False) =
      Inr (Brk (after_mkdir junk junk_table rq x s, True))"
    unfolding split by (simp add: step)
  then show ?thesis
    unfolding fs_write_to_folder [OF assms(1,3-5)] write_folder_def Let_def two by simp
qed

lemma fs_write_folder_full:
  assumes "length (cluster_map s) = 512" and "parent_of rq < 512"
    and "cluster_map s ! parent_of rq \<noteq> FAT32_FAT_EMPTY_ENTRY" and "rq_buffer_size rq = 0"
    and "frees (cluster_map s) = []"
  shows "fs_write junk junk_table rq s m = Some (Inl Out_Of_Bounds)"
proof -
  have two: "unat ROOT_CLUSTER_NUMBER = 2" by (simp add: ROOT_CLUSTER_NUMBER_def)
  have "forE (write_folder_step junk nf rq) [2..<CLUSTER_SIZE] (s\<lparr>dir_table_buf := dir_at s (parent_of rq)\<rparr>, False) =
      Inl Out_Of_Bounds" for nf
    using assms by (intro scan_past_end [where fat = "cluster_map s"] write_folder_step_skip)
      (auto simp: CLUSTER_SIZE_val frees_def write_folder_step_def arr_get_def)
  then show ?thesis
    unfolding fs_write_to_folder [OF assms(1-4)] write_folder_def Let_def two by simp
qed

end
