(* ===== verification/FatDemo.thy ===== *)
theory FatDemo
  imports FatWrite
begin

text \<open>
  A small concrete file system on which the hypotheses of the theorems about
  \<^verbatim>\<open>src/src/fat32.c\<close> hold: a freshly formatted allocation table, and a root directory whose
  first slot is taken. Its requests ask for a 3000-byte file and for a folder. The facts
  about it are derived once here; the witnesses of the file system theorems instantiate them.
\<close>

definition demo_fat :: "u32 list" where
  "demo_fat = (replicate 512 FAT32_FAT_EMPTY_ENTRY)
     [0 := CLUSTER_0_VALUE, 1 := CLUSTER_1_VALUE, 2 := FAT32_FAT_END_OF_FILE]"

definition demo_root :: "dir_entry list" where
  "demo_root = init_directory_table (replicate 64 zero_entry) root_name ROOT_CLUSTER_NUMBER"

definition demo_fs :: fat32 where
  "demo_fs = \<lparr>cluster_map = demo_fat, dir_table_buf = demo_root,
     storage = set_cluster (\<lambda>_. 0) 2 (table_bytes demo_root)\<rparr>"

definition demo_request :: driver_request where
  "demo_request = \<lparr>rq_buf = 0x1000, rq_name = [110, 111, 116, 101, 115, 0, 0, 0], rq_ext = [116, 120, 116],
     rq_parent_cluster_number = 2, rq_buffer_size = 3000\<rparr>"

definition demo_memory :: mem where
  "demo_memory = (\<lambda>a. ucast a)"

definition demo_junk :: dir_entry where
  "demo_junk = zero_entry\<lparr>de_attribute := 0x55\<rparr>"

definition demo_junk_table :: "dir_entry list" where
  "demo_junk_table = replicate 64 demo_junk"

definition demo_mkdir :: driver_request where
  "demo_mkdir = demo_request\<lparr>rq_ext := [0, 0, 0], rq_buffer_size := 0\<rparr>"

text \<open>The request that asks for the root directory's own entry, by name.\<close>

definition demo_root_request :: driver_request where
  "demo_root_request = demo_request\<lparr>rq_name := root_name\<rparr>"

section \<open>Its allocation table\<close>

lemma length_demo_fat [simp]: "length demo_fat = 512"
  by (simp add: demo_fat_def)

lemma demo_fat_0 [simp]: "demo_fat ! 0 = CLUSTER_0_VALUE"
  and demo_fat_1 [simp]: "demo_fat ! Suc 0 = CLUSTER_1_VALUE"
  and demo_fat_2 [simp]: "demo_fat ! 2 = FAT32_FAT_END_OF_FILE"
  by (simp_all add: demo_fat_def)

lemma demo_fat_free: "3 \<le> i \<Longrightarrow> i < 512 \<Longrightarrow> demo_fat ! i = FAT32_FAT_EMPTY_ENTRY"
  by (simp add: demo_fat_def)

lemma eof_not_empty [simp]: "FAT32_FAT_END_OF_FILE \<noteq> FAT32_FAT_EMPTY_ENTRY"
  by (simp add: fat_values)

lemma demo_frees: "frees demo_fat = [3..<512]"
proof -
  have "set (frees demo_fat) = set [3..<512]"
  proof (rule set_eqI)
    fix i
    have "2 \<le> i \<and> i < 512 \<and> demo_fat ! i = FAT32_FAT_EMPTY_ENTRY \<longleftrightarrow> 3 \<le> i \<and> i < 512"
      using demo_fat_free [of i] by (cases "i = 2") auto
    then show "i \<in> set (frees demo_fat) \<longleftrightarrow> i \<in> set [3..<512]"
      by (simp only: frees_set mem_Collect_eq atLeastLessThan_iff set_upt)
  qed
  moreover have "sorted (frees demo_fat)"
    unfolding frees_def frees_from_def by (intro sorted_wrt_filter sorted_upt)
  ultimately show ?thesis
    by (intro sorted_distinct_set_unique distinct_frees distinct_upt sorted_upt)
qed

section \<open>Its root directory\<close>

lemma length_root_name [simp]: "length root_name = 8"
  by (simp add: root_name_def)

lemma demo_root_ok [simp]: "table_ok demo_root"
  unfolding demo_root_def by (rule init_directory_table_ok) simp_all

lemma demo_root_nth:
  "n < 64 \<Longrightarrow> demo_root ! n = (if n = 0 then zero_entry\<lparr>de_name := root_name, de_ext := [0, 0, 0],
     de_attribute := ATTR_SUBDIRECTORY, de_user_attribute := UATTR_NOT_EMPTY,
     de_cluster_high := cluster_hi ROOT_CLUSTER_NUMBER, de_cluster_low := cluster_lo ROOT_CLUSTER_NUMBER,
     de_filesize := 0\<rparr> else zero_entry)"
  unfolding demo_root_def by (subst init_directory_table_nth) simp_all

lemma demo_dir [simp]: "dir_at demo_fs 2 = demo_root"
  by (simp add: dir_at_def demo_fs_def)

lemma demo_map [simp]: "cluster_map demo_fs = demo_fat"
  by (simp add: demo_fs_def)

lemma zero_entry_fields:
  "de_user_attribute zero_entry = 0" "de_name zero_entry = replicate 8 0" "de_filesize zero_entry = 0"
  by (simp_all add: zero_entry_def entry_of_def of_le32_def)

lemma demo_free_slot: "free_slot demo_root = Some 1"
  by (simp add: free_slot_def find_DIR_Some demo_root_nth zero_entry_fields UATTR_NOT_EMPTY_def)

lemma demo_request_ok [simp]: "request_ok demo_request" "request_ok demo_mkdir" "request_ok demo_root_request"
  by (simp_all add: request_ok_def demo_request_def demo_mkdir_def demo_root_request_def)

lemma demo_parent [simp]: "parent_of demo_request = 2" "parent_of demo_mkdir = 2" "parent_of demo_root_request = 2"
  by (simp_all add: parent_of_def demo_request_def demo_mkdir_def demo_root_request_def)

lemma replicate8: "replicate 8 (x :: u8) = [x, x, x, x, x, x, x, x]"
  by (simp add: eval_nat_numeral)

lemma demo_name: "i < 64 \<Longrightarrow> de_name (demo_root ! i) \<noteq> rq_name demo_request"
  by (simp add: demo_root_nth zero_entry_fields demo_request_def root_name_def replicate8)

lemma demo_size: "size_in_clusters (rq_buffer_size demo_request) = 2"
  by (simp add: size_in_clusters_def demo_request_def)

end
