(* ===== verification/FatSpec.thy ===== *)
theory FatSpec
  imports FatDemo
begin

text \<open>
  What the file operations promise together. \<open>lookup\<close> finds the entry of a name in a
  directory cluster. The theorems give every branch of \<open>fs_read\<close>, \<open>read_directory\<close> and
  \<open>fs_write\<close>, and relate the calls: what was written is read back, and a write leaves the
  other files and directories alone.
\<close>

section \<open>Looking up a name\<close>

definition lookup :: "fat32 \<Rightarrow> nat \<Rightarrow> u8 list \<Rightarrow> dir_entry option" where
  "lookup s p name = map_option (\<lambda>i. dir_at s p ! i) (find_name (dir_at s p) name)"

text \<open>Number of clusters \<open>fs_read\<close> stores at most for a given buffer size.\<close>

definition read_limit :: "u32 \<Rightarrow> nat" where
  "read_limit b = unat b div 512 + 1"

lemma name_eq: "table_ok t \<Longrightarrow> i < 64 \<Longrightarrow> length n = 8 \<Longrightarrow> bytes_cmp (de_name (t ! i)) n = 0 \<longleftrightarrow> de_name (t ! i) = n"
  by (rule bytes_cmp_eq_0) (simp add: table_ok_def entry_ok_def)

lemma find_name_Some:
  assumes "table_ok t" and "length n = 8"
  shows "find_name t n = Some i \<longleftrightarrow> i < 64 \<and> de_name (t ! i) = n \<and> (\<forall>k<i. de_name (t ! k) \<noteq> n)"
  using assms by (auto simp: find_name_def find_DIR_Some name_eq)

lemma find_name_None:
  assumes "table_ok t" and "length n = 8"
  shows "find_name t n = None \<longleftrightarrow> (\<forall>i<64. de_name (t ! i) \<noteq> n)"
  using assms by (auto simp: find_name_def find_DIR_None name_eq)

lemma find_name_lt: "find_name t n = Some i \<Longrightarrow> i < 64"
  by (simp add: find_name_def find_DIR_Some)

lemma free_slot_lt: "free_slot t = Some j \<Longrightarrow> j < 64"
  by (simp add: free_slot_def find_DIR_Some)

lemma find_name_added:
  assumes "table_ok t" and "length n = 8" and "find_name t n = None" and "j < 64" and "de_name e = n" and "entry_ok e"
  shows "find_name (t[j := e]) n = Some j"
proof -
  have "length t = 64" using assms(1) by (simp add: table_ok_def)
  then show ?thesis
    using assms by (simp add: find_name_Some table_ok_update find_name_None nth_list_update)
qed

lemma find_name_removed:
  assumes "table_ok t" and "length n = 8" and "find_name t n = None" and "n \<noteq> replicate 8 0"
  shows "find_name (t[j := zero_entry]) n = None"
proof -
  have "de_name zero_entry = replicate 8 0" by (simp add: zero_entry_def entry_of_def)
  then show ?thesis
    using assms by (cases "j < length t") (auto simp: find_name_None table_ok_update nth_list_update list_update_beyond)
qed

section \<open>Reading\<close>

lemma fs_read_miss:
  assumes "parent_of rq < 2048" and "length (rq_name rq) = 8" and "rq_name rq \<noteq> replicate 8 0"
    and "lookup s (parent_of rq) (rq_name rq) = None"
  shows "fs_read rq s m = Some (Inr (3, m))"
  using assms
  by (simp add: fs_read_def bytes_cmp_eq_0 read_clusters_one parent_of_def lookup_def dir_at_def)

lemma fs_read_chain:
  assumes "parent_of rq < 2048" and "length (rq_name rq) = 8" and "rq_name rq \<noteq> replicate 8 0"
    and "lookup s (parent_of rq) (rq_name rq) = Some e" and "de_filesize e \<noteq> 0"
    and "length (cluster_map s) = 512" and "chain (cluster_map s) (entry_cluster e) cs"
  shows "fs_read rq s m =
    Some (Inr (if length cs \<le> read_limit (rq_buffer_size rq) then 0 else 2,
               mem_write m (rq_buf rq) (file_bytes (storage s) (take (read_limit (rq_buffer_size rq)) cs))))"
proof -
  have "fs_read rq s m = read_loop s (rq_buffer_size rq) (rq_buf rq) (entry_cluster e) 0 m"
    using assms(1-5)
    by (auto simp: fs_read_def bytes_cmp_eq_0 read_clusters_one parent_of_def lookup_def dir_at_def Let_def)
  then show ?thesis
    using read_loop_chain [OF assms(7,6), of 0] chain_length [OF assms(7)] assms(6)
    by (simp add: read_limit_def Let_def)
qed

text \<open>
  C34. Every branch of \<open>fs_read\<close>: an all-zero name gives -1, an unknown name 3, an entry of
  size zero 1. Otherwise the clusters of the file's chain are stored in order from the start
  of the caller's buffer, at most \<open>buffer_size div 512 + 1\<close> of them; the code is 0 when that
  covers the chain and 2 when it does not.
\<close>

theorem fs_read_branches:
  assumes "parent_of rq < 2048" and "request_ok rq" and "length (cluster_map s) = 512"
    and "\<And>e. lookup s (parent_of rq) (rq_name rq) = Some e \<Longrightarrow> de_filesize e \<noteq> 0 \<Longrightarrow>
           chain (cluster_map s) (entry_cluster e) cs"
  shows "fs_read rq s m =
    (if rq_name rq = replicate 8 0 then Some (Inr (-1, m))
     else case lookup s (parent_of rq) (rq_name rq) of
            None \<Rightarrow> Some (Inr (3, m))
          | Some e \<Rightarrow>
              if de_filesize e = 0 then Some (Inr (1, m))
              else Some (Inr (if length cs \<le> read_limit (rq_buffer_size rq) then 0 else 2,
                     mem_write m (rq_buf rq) (file_bytes (storage s) (take (read_limit (rq_buffer_size rq)) cs)))))"
proof -
  have len: "length (rq_name rq) = 8" using assms(2) by (simp add: request_ok_def)
  consider "rq_name rq = replicate 8 0"
    | "rq_name rq \<noteq> replicate 8 0" "lookup s (parent_of rq) (rq_name rq) = None"
    | e where "rq_name rq \<noteq> replicate 8 0" "lookup s (parent_of rq) (rq_name rq) = Some e" "de_filesize e = 0"
    | e where "rq_name rq \<noteq> replicate 8 0" "lookup s (parent_of rq) (rq_name rq) = Some e" "de_filesize e \<noteq> 0"
    by (cases "lookup s (parent_of rq) (rq_name rq)") auto
  then show ?thesis
  proof cases
    case 1
    then show ?thesis by (simp add: fs_read_def)
  next
    case 2
    then show ?thesis using fs_read_miss [OF assms(1) len] by simp
  next
    case 3
    then show ?thesis using assms(1) len
      by (auto simp: fs_read_def bytes_cmp_eq_0 read_clusters_one parent_of_def lookup_def dir_at_def)
  next
    case 4
    then show ?thesis using fs_read_chain [OF assms(1) len _ _ _ assms(3) assms(4)] by simp
  qed
qed

text \<open>Reading comes back, also on a cyclic chain.\<close>

lemma fs_read_ends:
  assumes "unat (rq_buffer_size rq) < 4294966784"
  shows "\<exists>r. fs_read rq s m = Some r"
  using assms read_loop_returns [of "rq_buffer_size rq" 0]
  by (auto simp: fs_read_def Let_def split: sum.split option.split)

text \<open>
  C40. The size check of \<open>fs_read\<close> compares with 512 bytes per cluster where a cluster has
  2048, so a read can store past the caller's buffer: for a file of n clusters, a buffer
  size of at least 512 (n - 1) is accepted, the code 0 is returned, and the bytes after the
  first \<open>buffer_size\<close> ones are overwritten by the rest of the file's clusters.
\<close>

theorem fs_read_overruns:
  assumes "parent_of rq < 2048" and "request_ok rq" and "rq_name rq \<noteq> replicate 8 0"
    and "lookup s (parent_of rq) (rq_name rq) = Some e" and "de_filesize e \<noteq> 0"
    and "length (cluster_map s) = 512" and "chain (cluster_map s) (entry_cluster e) cs"
    and "512 * (length cs - 1) \<le> unat (rq_buffer_size rq)" and "unat (rq_buffer_size rq) < 2048 * length cs"
  shows "\<exists>m2. fs_read rq s m = Some (Inr (0, m2)) \<and>
    mem_read m2 (rq_buf rq + rq_buffer_size rq) (2048 * length cs - unat (rq_buffer_size rq)) =
    drop (unat (rq_buffer_size rq)) (file_bytes (storage s) cs)"
proof -
  let ?n = "2048 * length cs" and ?b = "unat (rq_buffer_size rq)"
  let ?bs = "file_bytes (storage s) cs"
  have len: "length (rq_name rq) = 8" using assms(2) by (simp add: request_ok_def)
  have small: "length cs \<le> 512" using chain_length [OF assms(7)] assms(6) by simp
  have "length cs \<le> read_limit (rq_buffer_size rq)" using assms(8) unfolding read_limit_def by linarith
  then have "fs_read rq s m = Some (Inr (0, mem_write m (rq_buf rq) ?bs))"
    using fs_read_chain [OF assms(1) len assms(3-7)] by simp
  moreover have "mem_read (mem_write m (rq_buf rq) ?bs) (rq_buf rq + rq_buffer_size rq) (?n - ?b) = drop ?b ?bs"
  proof (rule nth_equalityI)
    fix i assume "i < length (mem_read (mem_write m (rq_buf rq) ?bs) (rq_buf rq + rq_buffer_size rq) (?n - ?b))"
    then have i: "i < ?n - ?b" by simp
    have "rq_buf rq + rq_buffer_size rq + of_nat i = rq_buf rq + of_nat (?b + i)" by simp
    moreover have "mem_write m (rq_buf rq) ?bs (rq_buf rq + of_nat (?b + i)) = ?bs ! (?b + i)"
      using i small by (intro mem_write_at) auto
    ultimately have "mem_write m (rq_buf rq) ?bs (rq_buf rq + rq_buffer_size rq + of_nat i) = ?bs ! (?b + i)"
      by (simp only:)
    then show "mem_read (mem_write m (rq_buf rq) ?bs) (rq_buf rq + rq_buffer_size rq) (?n - ?b) ! i = drop ?b ?bs ! i"
      using i assms(9) by (simp add: nth_mem_read)
  qed simp
  ultimately show ?thesis by blast
qed

text \<open>Every outcome of \<open>read_directory\<close>; a found folder is copied whole to the buffer.\<close>

lemma read_directory_found:
  assumes "parent_of rq < 2048" and "rq_buffer_size rq = 2048"
    and "lookup s (parent_of rq) (rq_name rq) = Some e" and "de_filesize e = 0" and "unat (entry_cluster e) < 2048"
  shows "read_directory rq s m = Inr (0, mem_write m (rq_buf rq) (cluster_at (storage s) (unat (entry_cluster e))))"
  using assms
  by (auto simp: read_directory_def CLUSTER_SIZE_val read_clusters_one parent_of_def lookup_def dir_at_def Let_def)

text \<open>
  Every branch of \<open>read_directory\<close>: a buffer size other than one cluster gives -1, an
  unknown name 2, an entry with a size (a file) 1, and otherwise the folder's cluster is
  stored at the caller's buffer and the code is 0. Only the buffer changes, and only then.
\<close>

theorem read_directory_branches:
  assumes "parent_of rq < 2048"
    and "\<And>e. lookup s (parent_of rq) (rq_name rq) = Some e \<Longrightarrow> unat (entry_cluster e) < 2048"
  shows "read_directory rq s m =
    (if rq_buffer_size rq \<noteq> 2048 then Inr (-1, m)
     else case lookup s (parent_of rq) (rq_name rq) of
            None \<Rightarrow> Inr (2, m)
          | Some e \<Rightarrow> if de_filesize e \<noteq> 0 then Inr (1, m)
                      else Inr (0, mem_write m (rq_buf rq) (cluster_at (storage s) (unat (entry_cluster e)))))"
proof (cases "rq_buffer_size rq = 2048 \<and> (\<exists>e. lookup s (parent_of rq) (rq_name rq) = Some e \<and> de_filesize e = 0)")
  case True
  then obtain e where "lookup s (parent_of rq) (rq_name rq) = Some e" "de_filesize e = 0" by blast
  with True show ?thesis using read_directory_found [OF assms(1)] assms(2) by simp
next
  case False
  then show ?thesis using assms(1)
    by (auto simp: read_directory_def CLUSTER_SIZE_val read_clusters_one parent_of_def lookup_def dir_at_def Let_def
        split: option.splits)
qed

section \<open>Reading back what was written\<close>

lemma take_frees:
  assumes "x \<in> set (take n (frees fat))"
  shows "2 \<le> x \<and> x < 512 \<and> fat ! x = FAT32_FAT_EMPTY_ENTRY"
  using in_set_takeD [OF assms] by (simp add: frees_set)

lemma concat_chunk_at: "concat (map (chunk_at rq m) [0..<n]) = mem_read m (rq_buf rq) (2048 * n)"
proof (induction n)
  case 0
  then show ?case by (simp add: mem_read_def)
next
  case (Suc n)
  have "mem_read m (rq_buf rq) (2048 * Suc n) = mem_read m (rq_buf rq) (2048 * n + 2048)" by (simp add: add.commute)
  then show ?case using Suc by (simp only: mem_read_add) (simp add: chunk_at_def)
qed

lemma mem_read_pad:
  assumes "unat (rq_buffer_size rq) \<le> 2048 * n" and "n < 1000"
  shows "mem_read (pad_mem rq n i m) (rq_buf rq) (unat (rq_buffer_size rq)) =
         mem_read m (rq_buf rq) (unat (rq_buffer_size rq))"
proof (rule mem_read_cong)
  let ?sz = "unat (rq_buffer_size rq)"
  fix b assume b: "b < ?sz"
  have "rq_buf rq + of_nat b - (rq_buf rq + rq_buffer_size rq) = of_nat b - of_nat ?sz" by simp
  also have "\<dots> = of_nat (4294967296 + b - ?sz)"
  proof -
    have "(of_nat (4294967296 + b - ?sz) :: u32) = of_nat (4294967296 + b) - of_nat ?sz"
      using assms by (intro of_nat_diff) simp
    also have "(of_nat (4294967296 + b) :: u32) = of_nat b" unfolding of_nat_add by simp
    finally show ?thesis by simp
  qed
  finally have eq: "rq_buf rq + of_nat b - (rq_buf rq + rq_buffer_size rq) = of_nat (4294967296 + b - ?sz)" .
  have "unat (rq_buf rq + of_nat b - (rq_buf rq + rq_buffer_size rq)) = 4294967296 + b - ?sz"
    unfolding eq using b assms by (intro unat_of_nat32) simp
  then show "pad_mem rq n i m (rq_buf rq + of_nat b) = m (rq_buf rq + of_nat b)"
    unfolding pad_mem_def using assms b by (intro mem_write_outside) simp
qed

text \<open>The hypotheses under which a file write succeeds, collected.\<close>

definition can_write :: "driver_request \<Rightarrow> nat \<Rightarrow> fat32 \<Rightarrow> bool" where
  "can_write rq j s \<longleftrightarrow>
     length (cluster_map s) = 512 \<and> request_ok rq \<and> 2 \<le> parent_of rq \<and> parent_of rq < 512 \<and>
     cluster_map s ! parent_of rq \<noteq> FAT32_FAT_EMPTY_ENTRY \<and>
     free_slot (dir_at s (parent_of rq)) = Some j \<and>
     0 < rq_buffer_size rq \<and> size_in_clusters (rq_buffer_size rq) \<le> length (frees (cluster_map s))"

definition new_clusters :: "driver_request \<Rightarrow> fat32 \<Rightarrow> nat list" where
  "new_clusters rq s = take (size_in_clusters (rq_buffer_size rq)) (frees (cluster_map s))"

lemma frees_length: "length (frees fat) \<le> 510"
proof -
  have "length (frees fat) = card (set (frees fat))" by (simp add: distinct_card)
  also have "\<dots> \<le> card {2..<512 :: nat}" by (intro card_mono) (auto simp: frees_set)
  finally show ?thesis by simp
qed

lemma new_clusters_facts:
  assumes "can_write rq j s"
  shows "length (new_clusters rq s) = size_in_clusters (rq_buffer_size rq)"
    and "new_clusters rq s \<noteq> []" and "distinct (new_clusters rq s)"
    and "\<And>x. x \<in> set (new_clusters rq s) \<Longrightarrow> 2 \<le> x \<and> x < 512 \<and> cluster_map s ! x = FAT32_FAT_EMPTY_ENTRY"
    and "size_in_clusters (rq_buffer_size rq) \<le> 510"
    and "parent_of rq \<notin> set (new_clusters rq s)"
proof -
  have sz: "0 < size_in_clusters (rq_buffer_size rq)"
    using assms size_in_clusters_bounds by (auto simp: can_write_def)
  show len: "length (new_clusters rq s) = size_in_clusters (rq_buffer_size rq)"
    using assms by (simp add: can_write_def new_clusters_def)
  show "new_clusters rq s \<noteq> []" using len sz by auto
  show "distinct (new_clusters rq s)" by (simp add: new_clusters_def distinct_take)
  show fr: "2 \<le> x \<and> x < 512 \<and> cluster_map s ! x = FAT32_FAT_EMPTY_ENTRY"
    if "x \<in> set (new_clusters rq s)" for x
    using that unfolding new_clusters_def by (rule take_frees)
  show "size_in_clusters (rq_buffer_size rq) \<le> 510"
    using assms frees_length [of "cluster_map s"] by (simp add: can_write_def)
  show "parent_of rq \<notin> set (new_clusters rq s)"
    using fr assms by (auto simp: can_write_def)
qed

lemma fs_write_ok:
  assumes "can_write rq j s"
  shows "fs_write junk junk_table rq s m =
    Some (Inr (0, after_write rq j (new_clusters rq s) m s,
               pad_mem rq (length (new_clusters rq s)) (last (new_clusters rq s)) m))"
proof -
  have "parent_of rq < 512" using assms by (simp add: can_write_def)
  then show ?thesis
    using assms fs_write_file_effect [of s rq j junk junk_table m] by (simp add: can_write_def new_clusters_def)
qed


text \<open>The storage after a write, cluster by cluster.\<close>

lemma after_write_map [simp]: "cluster_map (after_write rq j cs m s) = link (cluster_map s) cs"
  by (simp add: after_write_def Let_def)

lemma aw_lengths:
  assumes cw: "can_write rq j s"
  shows "length (cluster_map s) = 512" "length (new_clusters rq s) = size_in_clusters (rq_buffer_size rq)"
  using cw new_clusters_facts [OF cw] by (simp_all add: can_write_def)

lemma aw_entry_ok:
  assumes cw: "can_write rq j s"
  shows "entry_ok (file_entry rq x)"
  using cw by (intro file_entry_ok) (simp add: can_write_def)

lemma aw_other:
  assumes cw: "can_write rq j s" and "x \<noteq> 1" and "x \<notin> set (new_clusters rq s)" and "x \<noteq> parent_of rq"
  shows "cluster_at (storage (after_write rq j (new_clusters rq s) m s)) x = cluster_at (storage s) x"
proof -
  let ?w = "zip (new_clusters rq s) (map (chunk_at rq (pad_mem rq (length (new_clusters rq s)) (last (new_clusters rq s)) m)) [0..<length (new_clusters rq s)])"
  have fits: "\<forall>(c, b) \<in> set ?w. is_cluster b"
    by (auto simp: is_cluster_def CLUSTER_SIZE_val dest!: set_zip_rightD)
  have "x \<notin> fst ` set ?w" using assms(3) by (auto dest: set_zip_leftD)
  then show ?thesis
    using assms aw_lengths [OF cw] cstore.get_put_all_other [OF fits]
    by (simp add: after_write_def Let_def table_ok_update aw_entry_ok [OF cw])
qed

lemma aw_parent:
  assumes cw: "can_write rq j s"
  shows "cluster_at (storage (after_write rq j (new_clusters rq s) m s)) (parent_of rq) =
   table_bytes ((dir_at s (parent_of rq))[j := file_entry rq (hd (new_clusters rq s))])"
proof -
  let ?w = "zip (new_clusters rq s) (map (chunk_at rq (pad_mem rq (length (new_clusters rq s)) (last (new_clusters rq s)) m)) [0..<length (new_clusters rq s)])"
  have fits: "\<forall>(c, b) \<in> set ?w. is_cluster b"
    by (auto simp: is_cluster_def CLUSTER_SIZE_val dest!: set_zip_rightD)
  have "parent_of rq \<notin> fst ` set ?w"
    using new_clusters_facts(6) [OF cw] by (auto dest: set_zip_leftD)
  moreover have "parent_of rq \<noteq> 1" using cw by (simp add: can_write_def)
  ultimately show ?thesis
    using aw_lengths [OF cw] cstore.get_put_all_other [OF fits]
    by (simp add: after_write_def Let_def table_ok_update aw_entry_ok [OF cw])
qed

lemma aw_fat:
  assumes cw: "can_write rq j s"
  shows "cluster_at (storage (after_write rq j (new_clusters rq s) m s)) 1 = fat_bytes (link (cluster_map s) (new_clusters rq s))"
  using aw_lengths [OF cw] by (simp add: after_write_def Let_def)

lemma aw_data:
  assumes cw: "can_write rq j s"
  shows "file_bytes (storage (after_write rq j (new_clusters rq s) m s)) (new_clusters rq s) =
   mem_read (pad_mem rq (length (new_clusters rq s)) (last (new_clusters rq s)) m) (rq_buf rq) (2048 * length (new_clusters rq s))"
proof -
  let ?bs = "map (chunk_at rq (pad_mem rq (length (new_clusters rq s)) (last (new_clusters rq s)) m)) [0..<length (new_clusters rq s)]"
  let ?im = "set_cluster (storage s) (parent_of rq) (table_bytes ((dir_at s (parent_of rq))[j := file_entry rq (hd (new_clusters rq s))]))"
  have one: "1 \<notin> set (new_clusters rq s)" using new_clusters_facts(4) [OF cw] by force
  have "map (cluster_at (storage (after_write rq j (new_clusters rq s) m s))) (new_clusters rq s) =
      map (cluster_at (put_all set_cluster (zip (new_clusters rq s) ?bs) ?im)) (new_clusters rq s)"
    using one aw_lengths [OF cw] by (auto simp: after_write_def Let_def)
  also have "\<dots> = ?bs"
    using new_clusters_facts(3) [OF cw]
    by (intro cstore.map_get_put_all) (auto simp: is_cluster_def CLUSTER_SIZE_val)
  finally show ?thesis by (simp add: file_bytes_def concat_chunk_at)
qed

lemma aw_contents:
  assumes cw: "can_write rq j s"
  shows "take (unat (rq_buffer_size rq)) (file_bytes (storage (after_write rq j (new_clusters rq s) m s)) (new_clusters rq s)) =
    mem_read m (rq_buf rq) (unat (rq_buffer_size rq))"
proof -
  let ?cs = "new_clusters rq s"
  let ?mf = "pad_mem rq (length ?cs) (last ?cs) m"
  note nc = new_clusters_facts [OF cw]
  have pos: "0 < rq_buffer_size rq" using cw by (simp add: can_write_def)
  note szb = size_in_clusters_bounds [OF pos]
  have le: "unat (rq_buffer_size rq) \<le> 2048 * length ?cs" using szb nc(1) by simp
  have "take (unat (rq_buffer_size rq)) (mem_read ?mf (rq_buf rq) (2048 * length ?cs)) =
      mem_read ?mf (rq_buf rq) (unat (rq_buffer_size rq))"
    using le by (intro nth_equalityI) (auto simp: nth_mem_read)
  also have "\<dots> = mem_read m (rq_buf rq) (unat (rq_buffer_size rq))"
    using szb nc(1,5) by (intro mem_read_pad) auto
  finally show ?thesis by (simp only: aw_data [OF cw])
qed

lemma aw_dir_parent:
  assumes cw: "can_write rq j s"
  shows "dir_at (after_write rq j (new_clusters rq s) m s) (parent_of rq) = (dir_at s (parent_of rq))[j := file_entry rq (hd (new_clusters rq s))]"
  unfolding dir_at_def [of "after_write rq j (new_clusters rq s) m s"] aw_parent [OF cw]
  by (simp add: table_ok_update aw_entry_ok [OF cw])

lemma aw_chain:
  assumes cw: "can_write rq j s"
  shows "chain (cluster_map (after_write rq j (new_clusters rq s) m s)) (of_nat (hd (new_clusters rq s))) (new_clusters rq s)"
  using new_clusters_facts [OF cw] aw_lengths [OF cw] unfolding after_write_map by (intro link_chain) auto

lemma aw_entry_cluster: "entry_cluster (file_entry rq (hd (new_clusters rq s))) = of_nat (hd (new_clusters rq s))"
  by (simp add: entry_cluster_def file_entry_def halves_join)

lemma aw_lookup:
  assumes cw: "can_write rq j s" and new: "find_name (dir_at s (parent_of rq)) (rq_name rq) = None"
  shows "find_name (dir_at (after_write rq j (new_clusters rq s) m s) (parent_of rq)) (rq_name rq) = Some j"
    and "lookup (after_write rq j (new_clusters rq s) m s) (parent_of rq) (rq_name rq) = Some (file_entry rq (hd (new_clusters rq s)))"
proof -
  have j: "j < 64" using cw free_slot_lt by (auto simp: can_write_def)
  have "length (rq_name rq) = 8" using cw by (simp add: can_write_def request_ok_def)
  then show f: "find_name (dir_at (after_write rq j (new_clusters rq s) m s) (parent_of rq)) (rq_name rq) = Some j"
    unfolding aw_dir_parent [OF cw] using new j
    by (intro find_name_added) (simp_all add: aw_entry_ok [OF cw], simp add: file_entry_def)
  show "lookup (after_write rq j (new_clusters rq s) m s) (parent_of rq) (rq_name rq) = Some (file_entry rq (hd (new_clusters rq s)))"
    unfolding lookup_def f using j by (simp add: aw_dir_parent [OF cw])
qed

text \<open>
  C1. What is written is read back. After a successful write of a name the parent did not
  have, reading that name with a buffer size of at least a quarter of the file's clusters
  returns 0, and the first \<open>buffer_size\<close> bytes at the reader's buffer are the bytes that were
  at the writer's.
\<close>

theorem fs_read_after_write:
  assumes "can_write rq j s" and "find_name (dir_at s (parent_of rq)) (rq_name rq) = None"
    and "rq_name rq \<noteq> replicate 8 0"
    and "rq_name rq' = rq_name rq" and "parent_of rq' = parent_of rq"
    and "size_in_clusters (rq_buffer_size rq) \<le> read_limit (rq_buffer_size rq')"
  shows "\<exists>s' m1 m2. fs_write junk junk_table rq s m = Some (Inr (0, s', m1)) \<and>
           fs_read rq' s' m' = Some (Inr (0, m2)) \<and>
           mem_read m2 (rq_buf rq') (unat (rq_buffer_size rq)) =
           mem_read m (rq_buf rq) (unat (rq_buffer_size rq))"
proof -
  let ?cs = "new_clusters rq s"
  let ?s = "after_write rq j ?cs m s"
  let ?sz = "unat (rq_buffer_size rq)"
  note nc = new_clusters_facts [OF assms(1)]
  have cw: "length (cluster_map s) = 512" "parent_of rq < 512" "length (rq_name rq) = 8" "0 < rq_buffer_size rq"
    using assms(1) by (auto simp: can_write_def request_ok_def)
  note szb = size_in_clusters_bounds [OF cw(4)]
  have "fs_read rq' ?s m' = Some (Inr (0, mem_write m' (rq_buf rq') (file_bytes (storage ?s) ?cs)))"
    using fs_read_chain [of rq' ?s "file_entry rq (hd ?cs)" ?cs m'] assms(3-6) cw nc(1)
      aw_lookup(2) [OF assms(1,2)] aw_chain [OF assms(1)] aw_entry_cluster [of rq s]
    by (simp add: file_entry_def)
  moreover have "mem_read (mem_write m' (rq_buf rq') (file_bytes (storage ?s) ?cs)) (rq_buf rq') ?sz =
      mem_read m (rq_buf rq) ?sz"
  proof -
    let ?bs = "file_bytes (storage ?s) ?cs"
    have "?sz \<le> length ?bs" "length ?bs \<le> 4294967296" using szb nc(1,5) by auto
    then have "mem_read (mem_write m' (rq_buf rq') ?bs) (rq_buf rq') ?sz = take ?sz ?bs"
      by (intro nth_equalityI) (auto simp: nth_mem_read mem_write_at)
    then show ?thesis using aw_contents [OF assms(1), of m] by simp
  qed
  ultimately show ?thesis using fs_write_ok [OF assms(1), of junk junk_table m] by blast
qed

section \<open>Every outcome of a write\<close>

text \<open>
  C27. Every outcome of \<open>fs_write\<close>, which always returns. An unallocated parent gives 2. A
  size of zero makes a folder in the first free cluster and returns 0, whether or not the
  parent had a slot for it. A file is stored as \<open>after_write\<close> says and returns 0 when the
  parent has a free slot and there are enough free clusters; without a slot the code is -1
  and only the directory buffer has changed. With too few free clusters the scan, which is
  bounded by 2048 and not by the 512 entries of the table, indexes it out of bounds. The
  code 1, for a name that exists, is never returned.
\<close>

theorem fs_write_branches:
  assumes "length (cluster_map s) = 512" and "request_ok rq" and "parent_of rq < 512"
    and "entry_ok junk" and "length junk_table = 64"
  shows "fs_write junk junk_table rq s m = Some
    (let fr = frees (cluster_map s); p = parent_of rq; n = size_in_clusters (rq_buffer_size rq) in
     if cluster_map s ! p = FAT32_FAT_EMPTY_ENTRY then Inr (2, s, m)
     else if rq_buffer_size rq = 0 then
       (case fr of [] \<Rightarrow> Inl Out_Of_Bounds | x # _ \<Rightarrow> Inr (0, after_mkdir junk junk_table rq x s, m))
     else case free_slot (dir_at s p) of
       None \<Rightarrow> if fr = [] then Inl Out_Of_Bounds else Inr (-1, s\<lparr>dir_table_buf := dir_at s p\<rparr>, m)
     | Some j \<Rightarrow>
         if length fr < n then Inl Out_Of_Bounds
         else Inr (0, after_write rq j (take n fr) m s, pad_mem rq n (last (take n fr)) m))"
proof -
  let ?fr = "frees (cluster_map s)" and ?p = "parent_of rq" and ?n = "size_in_clusters (rq_buffer_size rq)"
  consider (unallocated) "cluster_map s ! ?p = FAT32_FAT_EMPTY_ENTRY"
    | (folder) "cluster_map s ! ?p \<noteq> FAT32_FAT_EMPTY_ENTRY" "rq_buffer_size rq = 0"
    | (regular) "cluster_map s ! ?p \<noteq> FAT32_FAT_EMPTY_ENTRY" "0 < rq_buffer_size rq"
    using word_neq_0_conv by blast
  then show ?thesis
  proof cases
    case unallocated
    then show ?thesis using assms(1,3) by (simp add: fs_write_def arr_get_def parent_of_def)
  next
    case folder
    then show ?thesis using fs_write_folder_effect [OF assms(1-3) folder assms(4,5)]
        fs_write_folder_full [OF assms(1,3) folder]
      by (cases ?fr) (simp_all add: Let_def)
  next
    case regular
    note n = size_in_clusters_bounds [OF regular(2)]
    have nz: "rq_buffer_size rq \<noteq> 0" using regular(2) by auto
    show ?thesis
    proof (cases "free_slot (dir_at s ?p)")
      case None
      then show ?thesis using regular n nz fs_write_file_no_slot [OF assms(1,3) regular _ None]
          fs_write_file_full [OF assms(1-3) regular, of junk junk_table m]
        by (cases "?fr = []") (simp_all add: Let_def)
    next
      case (Some j)
      then show ?thesis using regular nz fs_write_file_effect [OF assms(1-3) regular(1) Some regular(2), of junk junk_table m]
          fs_write_file_full [OF assms(1-3) regular, of junk junk_table m]
        by (cases "length ?fr < ?n") (simp_all add: Let_def min_def)
    qed
  qed
qed

section \<open>What a write leaves alone\<close>

lemma chain_allocated:
  assumes "chain fat c ds" and "length fat = 512" and "fat ! 0 = CLUSTER_0_VALUE" and "x \<in> set ds"
  shows "fat ! x \<noteq> FAT32_FAT_EMPTY_ENTRY"
  using assms(1,4)
proof (induction ds arbitrary: c)
  case Nil
  then show ?case by simp
next
  case (Cons y ys)
  show ?case
  proof (cases ys)
    case Nil
    with Cons.prems show ?thesis by (auto simp: chain_single)
  next
    case (Cons z zs)
    with Cons.prems have y: "fat ! y \<noteq> FAT32_FAT_END_OF_FILE" and tl: "chain fat (fat ! y) (z # zs)"
      by (auto simp: chain_Cons2)
    have "fat ! y \<noteq> FAT32_FAT_EMPTY_ENTRY"
    proof
      assume "fat ! y = FAT32_FAT_EMPTY_ENTRY"
      with tl have "z = 0" by (auto dest: chain_hd simp: FAT32_FAT_EMPTY_ENTRY_def)
      with tl assms(2,3) show False
        by (cases zs) (auto simp: chain_single chain_Cons2 fat_values dest: chain_hd)
    qed
    then show ?thesis using Cons.IH [of "fat ! y"] tl Cons Cons.prems(2) by auto
  qed
qed

lemma write_keeps_lookup:
  assumes cw: "can_write rq j s" and "length n = 8" and "n \<noteq> rq_name rq"
    and slot: "de_name (dir_at s (parent_of rq) ! j) \<noteq> n"
  shows "lookup (after_write rq j (new_clusters rq s) m s) (parent_of rq) n = lookup s (parent_of rq) n"
proof -
  let ?t = "dir_at s (parent_of rq)"
  let ?e = "file_entry rq (hd (new_clusters rq s))"
  have j: "j < 64" using cw free_slot_lt by (auto simp: can_write_def)
  have e: "de_name ?e \<noteq> n" using assms(3) by (simp add: file_entry_def)
  have ok: "table_ok (?t[j := ?e])" by (simp add: table_ok_update aw_entry_ok [OF cw])
  have name: "de_name (?t[j := ?e] ! i) = n \<longleftrightarrow> de_name (?t ! i) = n" if "i < 64" for i
    using e slot that by (cases "i = j") simp_all
  have find: "find_name (?t[j := ?e]) n = find_name ?t n"
  proof (cases "find_name ?t n")
    case None
    then have "find_name (?t[j := ?e]) n = None" using assms(2) ok name by (simp add: find_name_None)
    with None show ?thesis by simp
  next
    case (Some i)
    then have "find_name (?t[j := ?e]) n = Some i" using assms(2) ok name by (auto simp: find_name_Some)
    with Some show ?thesis by simp
  qed
  have "?t[j := ?e] ! i = ?t ! i" if "find_name ?t n = Some i" for i
  proof -
    have "i \<noteq> j" using that slot assms(2) by (auto simp: find_name_Some)
    then show ?thesis by simp
  qed
  then show ?thesis
    unfolding lookup_def aw_dir_parent [OF cw] find by (cases "find_name ?t n") auto
qed

lemma write_keeps_cluster:
  assumes cw: "can_write rq j s" and "cluster_map s ! q \<noteq> FAT32_FAT_EMPTY_ENTRY" and "q \<noteq> 1" and "q \<noteq> parent_of rq"
  shows "cluster_at (storage (after_write rq j (new_clusters rq s) m s)) q = cluster_at (storage s) q"
  using assms new_clusters_facts(4) [OF cw] by (intro aw_other [OF cw]) auto

lemma write_keeps_chain:
  assumes cw: "can_write rq j s" and "chain (cluster_map s) c ds" and "cluster_map s ! 0 = CLUSTER_0_VALUE"
  shows "chain (cluster_map (after_write rq j (new_clusters rq s) m s)) c ds"
proof -
  have "length (cluster_map s) = 512" using cw by (simp add: can_write_def)
  note al = chain_allocated [OF assms(2) this assms(3)]
  show ?thesis
    using assms(2) al new_clusters_facts(4) [OF cw] by (auto intro!: chain_cong [OF assms(2)] link_other)
qed

text \<open>
  C6. A successful write of a file leaves every other file and directory alone. A chain that starts
  in an allocated cluster, in a table whose entry 0 has its reserved value, and that runs
  through neither the allocation table's cluster nor the parent directory, is still the same
  chain and spells the same bytes; a cluster that was allocated and is not one of those two
  still holds the same directory table; and in the parent every other name finds the entry
  it found before.
\<close>

theorem fs_write_isolated:
  assumes "can_write rq j s" and "cluster_map s ! 0 = CLUSTER_0_VALUE"
    and "chain (cluster_map s) c ds" and "1 \<notin> set ds" and "parent_of rq \<notin> set ds"
    and "q \<noteq> 1" and "q \<noteq> parent_of rq" and "cluster_map s ! q \<noteq> FAT32_FAT_EMPTY_ENTRY"
    and "length n = 8" and "n \<noteq> rq_name rq" and "de_name (dir_at s (parent_of rq) ! j) \<noteq> n"
  shows "\<exists>s' m'. fs_write junk junk_table rq s m = Some (Inr (0, s', m')) \<and>
    chain (cluster_map s') c ds \<and> file_bytes (storage s') ds = file_bytes (storage s) ds \<and>
    dir_at s' q = dir_at s q \<and> lookup s' (parent_of rq) n = lookup s (parent_of rq) n"
proof -
  let ?s = "after_write rq j (new_clusters rq s) m s"
  have len: "length (cluster_map s) = 512" using assms(1) by (simp add: can_write_def)
  have "cluster_at (storage ?s) x = cluster_at (storage s) x" if "x \<in> set ds" for x
    using that assms(4,5) chain_allocated [OF assms(3) len assms(2)]
    by (intro write_keeps_cluster [OF assms(1)]) auto
  then have "file_bytes (storage ?s) ds = file_bytes (storage s) ds"
    by (rule file_bytes_cong)
  moreover have "dir_at ?s q = dir_at s q"
    using write_keeps_cluster [OF assms(1,8,6,7)] by (simp add: dir_at_def)
  ultimately show ?thesis
    using fs_write_ok [OF assms(1), of junk junk_table m] write_keeps_chain [OF assms(1,3,2)]
      write_keeps_lookup [OF assms(1,9-11)] by blast
qed

section \<open>The theorems on the small file system\<close>

lemma demo_can_write: "can_write demo_request 1 demo_fs"
  unfolding can_write_def demo_parent demo_size demo_map demo_frees
  by (simp add: demo_free_slot) (simp add: demo_request_def)

lemma demo_new_name: "find_name (dir_at demo_fs 2) (rq_name demo_request) = None"
  using demo_name demo_request_ok(1) by (simp add: find_name_None request_ok_def)

lemma demo_name_not_zero: "rq_name demo_request \<noteq> replicate 8 0"
  by (simp add: demo_request_def replicate8)

lemma demo_lookup_root: "lookup demo_fs 2 root_name = Some (demo_root ! 0)"
proof -
  have "find_name demo_root root_name = Some 0"
    by (simp add: find_name_Some demo_root_nth)
  then show ?thesis by (simp add: lookup_def)
qed

lemma demo_root_cluster: "entry_cluster (demo_root ! 0) = 2"
  by (simp add: demo_root_nth entry_cluster_def halves_join ROOT_CLUSTER_NUMBER_def)

text \<open>The small file system after the 3000-byte file has been written.\<close>

definition demo_written :: "mem \<Rightarrow> fat32" where
  "demo_written m = after_write demo_request 1 (new_clusters demo_request demo_fs) m demo_fs"

lemma demo_written_entry:
  "lookup (demo_written m) 2 (rq_name demo_request) = Some (file_entry demo_request (hd (new_clusters demo_request demo_fs)))"
  using aw_lookup(2) [OF demo_can_write] demo_new_name by (simp add: demo_written_def)

lemma demo_written_chain:
  "chain (cluster_map (demo_written m)) (entry_cluster (file_entry demo_request (hd (new_clusters demo_request demo_fs))))
     (new_clusters demo_request demo_fs)"
  using aw_chain [OF demo_can_write] by (simp add: demo_written_def aw_entry_cluster)

lemma demo_new_clusters: "length (new_clusters demo_request demo_fs) = 2"
  using new_clusters_facts(1) [OF demo_can_write] demo_size by simp

lemma demo_written_length [simp]: "length (cluster_map (demo_written m)) = 512"
  by (simp add: demo_written_def)

lemma demo_file_size: "de_filesize (file_entry demo_request x) \<noteq> 0"
  by (simp add: file_entry_def demo_request_def)

theorem fs_read_branches_witness:
  "fs_read demo_request (demo_written demo_memory) demo_memory =
     Some (Inr (0, mem_write demo_memory (rq_buf demo_request)
       (file_bytes (storage (demo_written demo_memory)) (new_clusters demo_request demo_fs))))"
proof -
  have lim: "2 \<le> read_limit (rq_buffer_size demo_request)" by (simp add: read_limit_def demo_request_def)
  have "fs_read demo_request (demo_written demo_memory) demo_memory =
    (if rq_name demo_request = replicate 8 0 then Some (Inr (-1, demo_memory))
     else case lookup (demo_written demo_memory) (parent_of demo_request) (rq_name demo_request) of
            None \<Rightarrow> Some (Inr (3, demo_memory))
          | Some e \<Rightarrow>
              if de_filesize e = 0 then Some (Inr (1, demo_memory))
              else Some (Inr (if length (new_clusters demo_request demo_fs) \<le> read_limit (rq_buffer_size demo_request) then 0 else 2,
                     mem_write demo_memory (rq_buf demo_request) (file_bytes (storage (demo_written demo_memory))
                       (take (read_limit (rq_buffer_size demo_request)) (new_clusters demo_request demo_fs))))))"
    by (rule fs_read_branches) (use demo_written_entry demo_written_chain in auto)
  then show ?thesis
    using lim by (simp add: demo_name_not_zero demo_written_entry demo_file_size demo_new_clusters)
qed

theorem fs_read_overruns_witness:
  "\<exists>m2. fs_read (demo_request\<lparr>rq_buffer_size := 1000\<rparr>) (demo_written demo_memory) demo_memory = Some (Inr (0, m2)) \<and>
     mem_read m2 (0x1000 + 1000) 3096 =
     drop 1000 (file_bytes (storage (demo_written demo_memory)) (new_clusters demo_request demo_fs))"
proof -
  let ?rq = "demo_request\<lparr>rq_buffer_size := 1000\<rparr>"
  have rq: "parent_of ?rq = 2" "request_ok ?rq" "rq_name ?rq = rq_name demo_request" "rq_buf ?rq = 0x1000"
    by (simp_all add: parent_of_def request_ok_def demo_request_def)
  show ?thesis
    using fs_read_overruns [of ?rq "demo_written demo_memory", OF _ rq(2) _ _ demo_file_size demo_written_length demo_written_chain]
    by (simp add: rq demo_name_not_zero demo_written_entry demo_new_clusters)
qed

text \<open>One more cluster in use, for a file the write must leave alone.\<close>

definition demo_fs3 :: fat32 where
  "demo_fs3 = demo_fs\<lparr>cluster_map := demo_fat[3 := FAT32_FAT_END_OF_FILE]\<rparr>"

lemma demo3_can_write: "can_write demo_request 1 demo_fs3"
proof -
  let ?fat = "demo_fat[3 := FAT32_FAT_END_OF_FILE]"
  have "?fat ! 4 = FAT32_FAT_EMPTY_ENTRY" "?fat ! 5 = FAT32_FAT_EMPTY_ENTRY"
    by (simp_all add: demo_fat_free)
  then have "{4, 5} \<subseteq> set (frees ?fat)" by (simp add: frees_set)
  then have "card {4, 5 :: nat} \<le> length (frees ?fat)"
    by (meson card_length card_mono finite_set order_trans)
  moreover have "dir_at demo_fs3 2 = demo_root" "cluster_map demo_fs3 = ?fat"
    using demo_dir by (simp_all add: demo_fs3_def dir_at_def)
  moreover have "0 < rq_buffer_size demo_request" by (simp add: demo_request_def)
  ultimately show ?thesis
    unfolding can_write_def demo_parent demo_size by (simp add: demo_free_slot)
qed

theorem fs_write_isolated_witness:
  "\<exists>s' t'. fs_write demo_junk demo_junk_table demo_request demo_fs3 demo_memory = Some (Inr (0, s', t')) \<and>
    chain (cluster_map s') 3 [3] \<and> file_bytes (storage s') [3] = file_bytes (storage demo_fs3) [3] \<and>
    dir_at s' 3 = dir_at demo_fs3 3 \<and> lookup s' 2 root_name = lookup demo_fs3 2 root_name"
proof -
  have d: "dir_at demo_fs3 2 = demo_root" using demo_dir by (simp add: demo_fs3_def dir_at_def)
  have n: "root_name \<noteq> rq_name demo_request" by (simp add: root_name_def demo_request_def)
  have z: "de_name (demo_root ! 1) \<noteq> root_name"
    by (simp add: demo_root_nth zero_entry_fields replicate8 root_name_def)
  have f: "cluster_map demo_fs3 ! 0 = CLUSTER_0_VALUE" "chain (cluster_map demo_fs3) 3 [3]"
      "cluster_map demo_fs3 ! 3 \<noteq> FAT32_FAT_EMPTY_ENTRY"
    by (simp_all add: demo_fs3_def chain_single)
  show ?thesis
    using fs_write_isolated [OF demo3_can_write f(1,2) _ _ _ _ f(3) length_root_name n, of demo_junk demo_junk_table demo_memory]
      z by (simp add: d)
qed

theorem read_directory_branches_witness:
  "read_directory (demo_root_request\<lparr>rq_buffer_size := 2048\<rparr>) demo_fs (\<lambda>_. 0) =
     Inr (0, mem_write (\<lambda>_. 0) 0x1000 (table_bytes demo_root))"
proof -
  let ?rq = "demo_root_request\<lparr>rq_buffer_size := 2048\<rparr>"
  have p: "parent_of ?rq = 2" by (simp add: parent_of_def demo_root_request_def demo_request_def)
  have n: "rq_name ?rq = root_name" "rq_buf ?rq = 0x1000" by (simp_all add: demo_root_request_def demo_request_def)
  have f: "de_filesize (demo_root ! 0) = 0" by (simp add: demo_root_nth)
  have c: "cluster_at (storage demo_fs) 2 = table_bytes demo_root" by (simp add: demo_fs_def)
  show ?thesis
    using read_directory_branches [of ?rq demo_fs "\<lambda>_. 0"]
    by (simp add: p n demo_lookup_root demo_root_cluster f c)
qed

theorem fs_read_after_write_witness:
  "\<exists>s' m1 m2. fs_write demo_junk demo_junk_table demo_request demo_fs demo_memory = Some (Inr (0, s', m1)) \<and>
     fs_read demo_request s' (\<lambda>_. 0) = Some (Inr (0, m2)) \<and>
     mem_read m2 0x1000 3000 = mem_read demo_memory 0x1000 3000"
  using fs_read_after_write [OF demo_can_write _ demo_name_not_zero refl refl, of demo_junk demo_junk_table demo_memory "\<lambda>_. 0"]
    demo_new_name demo_size
  by (simp add: read_limit_def) (simp add: demo_request_def)

theorem fs_write_branches_witness:
  "fs_write zero_entry (replicate 64 zero_entry) demo_mkdir demo_fs demo_memory =
     Some (Inr (0, after_mkdir zero_entry (replicate 64 zero_entry) demo_mkdir 3 demo_fs, demo_memory))"
proof -
  have "[3..<512 :: nat] = 3 # [Suc 3..<512]" by (rule upt_conv_Cons) simp
  moreover have "rq_buffer_size demo_mkdir = 0" by (simp add: demo_mkdir_def)
  ultimately show ?thesis
    using fs_write_branches [of demo_fs demo_mkdir zero_entry "replicate 64 zero_entry" demo_memory]
    by (simp add: Let_def demo_frees del: upt_Suc)
qed

end
