(* ===== verification/FatDelete.thy ===== *)
theory FatDelete
  imports FatSpec
begin

text \<open>
  What \<open>fs_delete\<close> does. \<open>after_delete\<close> is its abstract effect on a name that is found: the
  entry's chain is freed and cleared, the allocation table is written back, and the entry is
  cleared in the parent's table. The theorems give every branch, what a deletion leaves
  alone, that it undoes a write, and what happens to a directory whose own entry (slot 0 of
  its table) is deleted.
\<close>

section \<open>The abstract effect\<close>

definition after_delete :: "driver_request \<Rightarrow> nat \<Rightarrow> nat list \<Rightarrow> fat32 \<Rightarrow> fat32" where
  "after_delete rq i cs s =
     (let fat = unlink (cluster_map s) cs in
      s\<lparr>cluster_map := fat,
        storage := set_cluster (set_cluster (wipe cs (storage s)) 1 (fat_bytes fat))
          (parent_of rq) (table_bytes ((dir_at s (parent_of rq))[i := zero_entry]))\<rparr>)"

lemma after_delete_map [simp]: "cluster_map (after_delete rq i cs s) = unlink (cluster_map s) cs"
  by (simp add: after_delete_def Let_def)

lemma fs_delete_effect:
  assumes "parent_of rq < 2048" and "length (rq_name rq) = 8" and "rq_name rq \<noteq> replicate 8 0"
    and "length (rq_ext rq) = 3" and "rq_ext rq \<noteq> [0, 0, 0]"
    and "find_name (dir_at s (parent_of rq)) (rq_name rq) = Some i"
    and "length (cluster_map s) = 512" and "chain (cluster_map s) (entry_cluster (dir_at s (parent_of rq) ! i)) cs"
  shows "fs_delete rq s = Some (Inr (0, after_delete rq i cs s))"
proof -
  have "write_clusters (wipe cs (storage s)) (fat_bytes (unlink (cluster_map s) cs)) 1 1 =
      Inr (set_cluster (wipe cs (storage s)) 1 (fat_bytes (unlink (cluster_map s) cs)))"
    using assms(7) by (simp add: write_clusters_one)
  moreover have "table_ok ((dir_at s (parent_of rq))[i := zero_entry])" by (simp add: table_ok_update)
  ultimately show ?thesis
    using assms(1-7) delete_loop_chain [OF assms(8,7), of "storage s"]
    by (simp add: fs_delete_def bytes_cmp_eq_0 read_clusters_one parent_of_def dir_at_def Let_def
        write_clusters_one after_delete_def)
qed

text \<open>
  Every branch of \<open>fs_delete\<close>: an all-zero name gives -1 and an unknown one 1, with
  nothing changed. For a name that is found, an all-zero extension (which is how the caller
  asks for a folder) reads a 2048-byte cluster over a four-byte pointer variable on the
  stack; any other extension frees and clears the entry's chain, clears the entry, writes
  the allocation table and the parent's table back, and gives 0.
\<close>

theorem fs_delete_branches:
  assumes "parent_of rq < 2048" and "request_ok rq" and "length (cluster_map s) = 512"
    and "\<And>i. find_name (dir_at s (parent_of rq)) (rq_name rq) = Some i \<Longrightarrow>
           chain (cluster_map s) (entry_cluster (dir_at s (parent_of rq) ! i)) cs"
  shows "fs_delete rq s = Some
    (if rq_name rq = replicate 8 0 then Inr (-1, s)
     else case find_name (dir_at s (parent_of rq)) (rq_name rq) of
            None \<Rightarrow> Inr (1, s)
          | Some i \<Rightarrow> if rq_ext rq = [0, 0, 0] then Inl Stack_Smash
                      else Inr (0, after_delete rq i cs s))"
proof -
  have len: "length (rq_name rq) = 8" "length (rq_ext rq) = 3" using assms(2) by (simp_all add: request_ok_def)
  show ?thesis
  proof (cases "find_name (dir_at s (parent_of rq)) (rq_name rq)")
    case None
    then show ?thesis using assms(1) len
      by (simp add: fs_delete_def bytes_cmp_eq_0 read_clusters_one parent_of_def dir_at_def)
  next
    case (Some i)
    note eff = fs_delete_effect [OF assms(1) len(1) _ len(2) _ Some assms(3) assms(4) [OF Some]]
    show ?thesis
    proof (cases "rq_name rq \<noteq> replicate 8 0 \<and> rq_ext rq \<noteq> [0, 0, 0]")
      case True
      then show ?thesis using eff Some by simp
    next
      case False
      then show ?thesis using assms(1) len Some
        by (auto simp: fs_delete_def bytes_cmp_eq_0 read_clusters_one parent_of_def dir_at_def)
    qed
  qed
qed

theorem fs_delete_branches_witness:
  "fs_delete demo_request (demo_written demo_memory) =
     Some (Inr (0, after_delete demo_request 1 (new_clusters demo_request demo_fs) (demo_written demo_memory)))"
proof -
  have f: "find_name (dir_at (demo_written demo_memory) 2) (rq_name demo_request) = Some 1"
    using aw_lookup(1) [OF demo_can_write] demo_new_name by (simp add: demo_written_def)
  have "dir_at (demo_written demo_memory) 2 ! 1 = file_entry demo_request (hd (new_clusters demo_request demo_fs))"
    using demo_written_entry [of demo_memory] f by (simp add: lookup_def)
  then have "fs_delete demo_request (demo_written demo_memory) = Some
    (if rq_name demo_request = replicate 8 0 then Inr (-1, demo_written demo_memory)
     else case find_name (dir_at (demo_written demo_memory) (parent_of demo_request)) (rq_name demo_request) of
            None \<Rightarrow> Inr (1, demo_written demo_memory)
          | Some i \<Rightarrow> if rq_ext demo_request = [0, 0, 0] then Inl Stack_Smash
                      else Inr (0, after_delete demo_request i (new_clusters demo_request demo_fs) (demo_written demo_memory)))"
    using f demo_written_chain [of demo_memory] by (intro fs_delete_branches) auto
  then show ?thesis using f demo_name_not_zero by simp (simp add: demo_request_def)
qed

section \<open>What a deletion leaves alone\<close>

lemma ad_parent:
  "cluster_at (storage (after_delete rq i cs s)) (parent_of rq) =
     table_bytes ((dir_at s (parent_of rq))[i := zero_entry])"
  by (simp add: after_delete_def Let_def table_ok_update)

lemma ad_dir_parent: "dir_at (after_delete rq i cs s) (parent_of rq) = (dir_at s (parent_of rq))[i := zero_entry]"
  by (simp add: dir_at_def [of "after_delete rq i cs s"] ad_parent table_ok_update)

lemma ad_other:
  "length (cluster_map s) = 512 \<Longrightarrow> x \<noteq> 1 \<Longrightarrow> x \<noteq> parent_of rq \<Longrightarrow>
   cluster_at (storage (after_delete rq i cs s)) x = (if x \<in> set cs then replicate 2048 0 else cluster_at (storage s) x)"
  by (simp add: after_delete_def Let_def table_ok_update cluster_at_wipe)

lemma ad_fat:
  "length (cluster_map s) = 512 \<Longrightarrow> parent_of rq \<noteq> 1 \<Longrightarrow>
   cluster_at (storage (after_delete rq i cs s)) 1 = fat_bytes (unlink (cluster_map s) cs)"
  by (simp add: after_delete_def Let_def table_ok_update)

text \<open>
  C33. Deleting a file. Its clusters become free in the cached table and in the one on the
  disk and their contents are cleared; every allocation entry outside the chain keeps its
  value, so a disjoint chain that avoids the table's cluster and the parent spells the same
  bytes; in the parent every name other than the deleted one (and the empty one) finds the
  entry it found before.
\<close>

theorem fs_delete_isolated:
  assumes "2 \<le> parent_of rq" and "parent_of rq < 512" and "request_ok rq" and "rq_name rq \<noteq> replicate 8 0"
    and "rq_ext rq \<noteq> [0, 0, 0]" and "find_name (dir_at s (parent_of rq)) (rq_name rq) = Some i"
    and "length (cluster_map s) = 512" and "chain (cluster_map s) (entry_cluster (dir_at s (parent_of rq) ! i)) cs"
    and "chain (cluster_map s) c ds" and "set cs \<inter> set ds = {}" and "1 \<notin> set ds" and "parent_of rq \<notin> set ds"
    and "length n = 8" and "n \<noteq> rq_name rq" and "n \<noteq> replicate 8 0"
  shows "\<exists>s'. fs_delete rq s = Some (Inr (0, s')) \<and>
    (\<forall>x < 512. cluster_map s' ! x = (if x \<in> set cs then FAT32_FAT_EMPTY_ENTRY else cluster_map s ! x)) \<and>
    fat_of (cluster_at (storage s') 1) = cluster_map s' \<and>
    chain (cluster_map s') c ds \<and> file_bytes (storage s') ds = file_bytes (storage s) ds \<and>
    lookup s' (parent_of rq) n = lookup s (parent_of rq) n"
proof -
  let ?s = "after_delete rq i cs s"
  let ?t = "dir_at s (parent_of rq)"
  have len: "length (rq_name rq) = 8" "length (rq_ext rq) = 3" using assms(3) by (simp_all add: request_ok_def)
  have "fs_delete rq s = Some (Inr (0, ?s))"
    using assms(2,4-8) len by (intro fs_delete_effect) auto
  moreover have "\<forall>x < 512. cluster_map ?s ! x = (if x \<in> set cs then FAT32_FAT_EMPTY_ENTRY else cluster_map s ! x)"
    using assms(7) by (simp add: nth_unlink)
  moreover have "fat_of (cluster_at (storage ?s) 1) = cluster_map ?s"
    using assms(1,7) ad_fat [of s rq i cs] by simp
  moreover have "chain (cluster_map ?s) c ds"
    using assms(7,10) chain_bound [OF assms(9)] by (intro chain_cong [OF assms(9)]) (auto simp: nth_unlink)
  moreover have "file_bytes (storage ?s) ds = file_bytes (storage s) ds"
  proof (rule file_bytes_cong)
    fix x assume "x \<in> set ds"
    then have "x \<noteq> 1" "x \<noteq> parent_of rq" "x \<notin> set cs" using assms(10-12) by auto
    then show "cluster_at (storage ?s) x = cluster_at (storage s) x" by (simp add: ad_other [OF assms(7)])
  qed
  moreover have "lookup ?s (parent_of rq) n = lookup s (parent_of rq) n"
  proof -
    have i: "i < 64" "de_name (?t ! i) \<noteq> n" using assms(6,14) len by (auto simp: find_name_Some)
    have name: "de_name (?t[i := zero_entry] ! k) = n \<longleftrightarrow> de_name (?t ! k) = n" if "k < 64" for k
      using i assms(15) that by (cases "k = i") (auto simp: zero_entry_fields)
    have ok: "table_ok (?t[i := zero_entry])" by (simp add: table_ok_update)
    have find: "find_name (?t[i := zero_entry]) n = find_name ?t n"
    proof (cases "find_name ?t n")
      case None
      then have "find_name (?t[i := zero_entry]) n = None" using assms(13) ok name by (simp add: find_name_None)
      with None show ?thesis by simp
    next
      case (Some k)
      then have "find_name (?t[i := zero_entry]) n = Some k" using assms(13) ok name by (auto simp: find_name_Some)
      with Some show ?thesis by simp
    qed
    have "?t[i := zero_entry] ! k = ?t ! k" if "find_name ?t n = Some k" for k
    proof -
      have "k \<noteq> i" using that i assms(13) by (auto simp: find_name_Some)
      then show ?thesis by simp
    qed
    then show ?thesis unfolding lookup_def ad_dir_parent find by (cases "find_name ?t n") auto
  qed
  ultimately show ?thesis by blast
qed

text \<open>The small file system with a second file at cluster 3, after the 3000-byte file is written.\<close>

definition demo_written3 :: "mem \<Rightarrow> fat32" where
  "demo_written3 m = after_write demo_request 1 (new_clusters demo_request demo_fs3) m demo_fs3"

lemma demo3_facts:
  "cluster_map demo_fs3 = demo_fat[3 := FAT32_FAT_END_OF_FILE]" "dir_at demo_fs3 2 = demo_root"
  using demo_dir by (simp_all add: demo_fs3_def dir_at_def)

lemma demo_written3_find:
  "find_name (dir_at (demo_written3 m) 2) (rq_name demo_request) = Some 1"
  "dir_at (demo_written3 m) 2 ! 1 = file_entry demo_request (hd (new_clusters demo_request demo_fs3))"
proof -
  have new: "find_name (dir_at demo_fs3 (parent_of demo_request)) (rq_name demo_request) = None"
    using demo_new_name by (simp add: demo3_facts)
  show f: "find_name (dir_at (demo_written3 m) 2) (rq_name demo_request) = Some 1"
    using aw_lookup(1) [OF demo3_can_write new] by (simp add: demo_written3_def)
  show "dir_at (demo_written3 m) 2 ! 1 = file_entry demo_request (hd (new_clusters demo_request demo_fs3))"
    using aw_lookup(2) [OF demo3_can_write new, of m] f by (simp add: lookup_def demo_written3_def)
qed

theorem fs_delete_isolated_witness:
  "\<exists>s'. fs_delete demo_request (demo_written3 demo_memory) = Some (Inr (0, s')) \<and>
    fat_of (cluster_at (storage s') 1) = cluster_map s' \<and>
    chain (cluster_map s') 3 [3] \<and> file_bytes (storage s') [3] = file_bytes (storage (demo_written3 demo_memory)) [3] \<and>
    lookup s' 2 root_name = lookup (demo_written3 demo_memory) 2 root_name"
proof -
  let ?cs = "new_clusters demo_request demo_fs3"
  have three: "3 \<notin> set ?cs"
  proof
    assume "3 \<in> set ?cs"
    then have "demo_fat[3 := FAT32_FAT_END_OF_FILE] ! 3 = FAT32_FAT_EMPTY_ENTRY"
      using new_clusters_facts(4) [OF demo3_can_write, of 3] unfolding demo3_facts by blast
    then show False by simp
  qed
  have n: "root_name \<noteq> rq_name demo_request" "root_name \<noteq> replicate 8 0"
    by (simp_all add: root_name_def demo_request_def replicate8)
  have len: "length (cluster_map (demo_written3 demo_memory)) = 512" by (simp add: demo_written3_def demo3_facts)
  have ch: "chain (cluster_map (demo_written3 demo_memory)) (entry_cluster (dir_at (demo_written3 demo_memory) 2 ! 1)) ?cs"
    using aw_chain [OF demo3_can_write, of demo_memory] unfolding demo_written3_find(2) aw_entry_cluster
    by (simp only: demo_written3_def)
  have ch3: "chain (cluster_map (demo_written3 demo_memory)) 3 [3]"
    using three by (simp add: demo_written3_def chain_single link_other demo3_facts)
  have ext: "rq_ext demo_request \<noteq> [0, 0, 0]" by (simp add: demo_request_def)
  show ?thesis
    using fs_delete_isolated [of demo_request "demo_written3 demo_memory" 1 ?cs 3 "[3]" root_name] ch three
    by (simp add: demo_name_not_zero ext demo_written3_find(1) len ch3 n) blast
qed

section \<open>Deleting what was written\<close>

text \<open>
  C26. Deleting a file just written undoes the write: both calls return 0, the allocation
  table in memory and on the disk is the one before the write, reading the name again gives
  3 (not found), the parent's table differs from the old one only in the cleared slot, and
  every cluster other than the table's, the parent's and the reused free ones is untouched.
\<close>

theorem fs_delete_after_write:
  assumes "can_write rq j s" and "find_name (dir_at s (parent_of rq)) (rq_name rq) = None"
    and "rq_name rq \<noteq> replicate 8 0" and "rq_ext rq \<noteq> [0, 0, 0]"
  shows "\<exists>s1 m1 s2. fs_write junk junk_table rq s m = Some (Inr (0, s1, m1)) \<and>
    fs_delete rq s1 = Some (Inr (0, s2)) \<and> cluster_map s2 = cluster_map s \<and>
    fat_of (cluster_at (storage s2) 1) = cluster_map s \<and> fs_read rq s2 m' = Some (Inr (3, m')) \<and>
    dir_at s2 (parent_of rq) = (dir_at s (parent_of rq))[j := zero_entry] \<and>
    (\<forall>x. x \<noteq> 1 \<and> x \<noteq> parent_of rq \<and> x \<notin> set (new_clusters rq s) \<longrightarrow>
         cluster_at (storage s2) x = cluster_at (storage s) x)"
proof -
  let ?cs = "new_clusters rq s"
  let ?s1 = "after_write rq j ?cs m s"
  let ?s2 = "after_delete rq j ?cs ?s1"
  have cw: "length (cluster_map s) = 512" "2 \<le> parent_of rq" "parent_of rq < 512"
    "length (rq_name rq) = 8" "length (rq_ext rq) = 3"
    using assms(1) by (auto simp: can_write_def request_ok_def)
  have j: "j < 64" using assms(1) free_slot_lt by (auto simp: can_write_def)
  have e: "dir_at ?s1 (parent_of rq) ! j = file_entry rq (hd ?cs)"
    using j by (simp add: aw_dir_parent [OF assms(1)])
  have del: "fs_delete rq ?s1 = Some (Inr (0, ?s2))"
    using cw assms(3,4) aw_lookup(1) [OF assms(1,2)] aw_chain [OF assms(1), of m]
    by (intro fs_delete_effect) (simp_all add: e aw_entry_cluster)
  have fat: "cluster_map ?s2 = cluster_map s"
    using new_clusters_facts(4) [OF assms(1)] by (simp add: unlink_link)
  have disk: "fat_of (cluster_at (storage ?s2) 1) = cluster_map s"
  proof -
    have "cluster_at (storage ?s2) 1 = fat_bytes (unlink (cluster_map ?s1) ?cs)"
      using cw by (intro ad_fat) simp_all
    then show ?thesis using cw fat by simp
  qed
  have dir: "dir_at ?s2 (parent_of rq) = (dir_at s (parent_of rq))[j := zero_entry]"
    by (simp add: ad_dir_parent aw_dir_parent [OF assms(1)])
  have "find_name (dir_at ?s2 (parent_of rq)) (rq_name rq) = None"
    unfolding dir using assms(2,3) cw by (intro find_name_removed) simp_all
  then have "fs_read rq ?s2 m' = Some (Inr (3, m'))"
    using cw assms(3) by (intro fs_read_miss) (simp_all add: lookup_def)
  moreover have "cluster_at (storage ?s2) x = cluster_at (storage s) x"
    if "x \<noteq> 1" "x \<noteq> parent_of rq" "x \<notin> set ?cs" for x
    using that cw ad_other [of ?s1 x rq j ?cs] aw_other [OF assms(1) that(1,3,2)] by simp
  ultimately show ?thesis
    using fs_write_ok [OF assms(1), of junk junk_table m] del fat disk dir by blast
qed

theorem fs_delete_after_write_witness:
  "\<exists>s1 m1 s2. fs_write demo_junk demo_junk_table demo_request demo_fs demo_memory = Some (Inr (0, s1, m1)) \<and>
    fs_delete demo_request s1 = Some (Inr (0, s2)) \<and> cluster_map s2 = demo_fat \<and>
    fs_read demo_request s2 demo_memory = Some (Inr (3, demo_memory))"
proof -
  have ext: "rq_ext demo_request \<noteq> [0, 0, 0]" by (simp add: demo_request_def)
  show ?thesis
    using fs_delete_after_write [OF demo_can_write _ demo_name_not_zero ext, of demo_junk demo_junk_table demo_memory demo_memory] demo_new_name
    by (simp only: demo_parent demo_map) blast
qed

section \<open>Deleting a directory's own entry\<close>

text \<open>
  Nothing keeps a request from naming slot 0 of a directory, the entry a directory has
  for its parent (for the root, for itself). Deleting the root's own entry by name returns 0,
  marks the root directory's cluster free, and from then on every write into the root
  returns 2 with nothing changed.
\<close>

theorem fs_delete_root_entry:
  assumes "parent_of rq = 2" and "request_ok rq" and "rq_name rq \<noteq> replicate 8 0" and "rq_ext rq \<noteq> [0, 0, 0]"
    and "find_name (dir_at s 2) (rq_name rq) = Some i" and "entry_cluster (dir_at s 2 ! i) = 2"
    and "length (cluster_map s) = 512" and "cluster_map s ! 2 = FAT32_FAT_END_OF_FILE"
  shows "\<exists>s'. fs_delete rq s = Some (Inr (0, s')) \<and> cluster_map s' ! 2 = FAT32_FAT_EMPTY_ENTRY \<and>
    (\<forall>junk junk_table rq' m. parent_of rq' = 2 \<longrightarrow> fs_write junk junk_table rq' s' m = Some (Inr (2, s', m)))"
proof -
  have "chain (cluster_map s) (entry_cluster (dir_at s 2 ! i)) [2]" using assms(6-8) by (simp add: chain_single)
  then have "fs_delete rq s = Some (Inr (0, after_delete rq i [2] s))"
    using assms by (intro fs_delete_effect) (auto simp: request_ok_def)
  moreover have free: "cluster_map (after_delete rq i [2] s) ! 2 = FAT32_FAT_EMPTY_ENTRY"
    using assms(7) by (simp add: nth_unlink)
  moreover have "fs_write junk junk_table rq' (after_delete rq i [2] s) m = Some (Inr (2, after_delete rq i [2] s, m))"
    if "parent_of rq' = 2" for junk junk_table rq' m
    using that free assms(7) by (simp add: fs_write_def arr_get_def parent_of_def)
  ultimately show ?thesis by blast
qed

theorem fs_delete_root_entry_witness:
  "\<exists>s'. fs_delete demo_root_request demo_fs = Some (Inr (0, s')) \<and> cluster_map s' ! 2 = FAT32_FAT_EMPTY_ENTRY \<and>
    (\<forall>junk junk_table rq' m. parent_of rq' = 2 \<longrightarrow> fs_write junk junk_table rq' s' m = Some (Inr (2, s', m)))"
proof -
  have n: "rq_name demo_root_request = root_name" "rq_ext demo_root_request \<noteq> [0, 0, 0]" "root_name \<noteq> replicate 8 0"
    by (simp_all add: demo_root_request_def demo_request_def root_name_def replicate8)
  have f: "find_name demo_root root_name = Some 0" by (simp add: find_name_Some demo_root_nth)
  show ?thesis
    by (rule fs_delete_root_entry [where i = 0]) (simp_all add: n f demo_root_cluster)
qed

end
