(* ===== verification/FatMount.thy ===== *)
theory FatMount
  imports FatDelete
begin

text \<open>
  Mounting: \<open>initialize_filesystem_fat32\<close> formats a storage without the signature and
  otherwise loads the allocation table and the root directory. \<open>consistent\<close> is the state
  invariant of the driver: the first reserved entry of the table, the signature in block 0,
  and the cached table equal to the one on the disk. It is established by mounting and kept
  by every call whose directory is not one of the two reserved clusters, so a mount after a
  power cut finds the same files. \<open>mounted\<close> says more, for a file system whose directories were
  not damaged: the second reserved entry, and the root directory allocated.
\<close>

section \<open>Block 0\<close>

lemma length_fs_signature [simp]: "length fs_signature = 512"
  by (simp add: fs_signature_def BLOCK_SIZE_def)

lemma read_boot: "read_blocks im 0 1 = Inr (img_load im 0 512)"
proof -
  have "read_blocks im 0 1 = read_blocks_loop im 0 [0..<1]" by (simp add: read_blocks_def)
  also have "\<dots> = Inr (img_load im (512 * (unat (0 :: u32) + 0)) (512 * (1 - 0)))"
    by (rule read_blocks_loop_closed) simp_all
  finally show ?thesis by simp
qed

lemma write_boot: "length bs = 512 \<Longrightarrow> write_blocks im bs BOOT_SECTOR 1 = Inr (img_store im 0 bs)"
proof -
  assume len: "length bs = 512"
  have "write_blocks im bs BOOT_SECTOR 1 = write_blocks_loop bs 0 [0..<1] im"
    by (simp add: write_blocks_def BOOT_SECTOR_def)
  also have "\<dots> = Inr (img_store im (512 * (unat (0 :: u32) + 0)) (take (512 * (1 - 0)) (drop (512 * 0) bs)))"
    using len by (intro write_blocks_loop_closed) simp_all
  finally show ?thesis using len by simp
qed

lemma is_empty_storage_signature:
  "is_empty_storage s = Inr (img_load (storage s) 0 512 \<noteq> fs_signature)"
  by (simp add: is_empty_storage_def read_boot bytes_cmp_eq_0)

lemma boot_set_cluster [simp]:
  "1 \<le> c \<Longrightarrow> img_load (set_cluster im c bs) 0 512 = img_load im 0 512"
  unfolding set_cluster_def by (rule img_load_store_disjoint) (simp add: CLUSTER_SIZE_val)

lemma boot_put_all:
  "\<forall>(c, b) \<in> set ws. 1 \<le> c \<Longrightarrow> img_load (put_all set_cluster ws im) 0 512 = img_load im 0 512"
  by (induction ws arbitrary: im) auto

section \<open>The driver's invariant\<close>

definition consistent :: "fat32 \<Rightarrow> bool" where
  "consistent s \<longleftrightarrow>
     length (cluster_map s) = 512 \<and> cluster_map s ! 0 = CLUSTER_0_VALUE \<and>
     cluster_at (storage s) 1 = fat_bytes (cluster_map s) \<and>
     img_load (storage s) 0 512 = fs_signature"

definition mounted :: "fat32 \<Rightarrow> bool" where
  "mounted s \<longleftrightarrow>
     length (cluster_map s) = 512 \<and>
     cluster_map s ! 0 = CLUSTER_0_VALUE \<and> cluster_map s ! 1 = CLUSTER_1_VALUE \<and>
     cluster_map s ! 2 \<noteq> FAT32_FAT_EMPTY_ENTRY \<and>
     cluster_at (storage s) 1 = fat_bytes (cluster_map s) \<and>
     img_load (storage s) 0 512 = fs_signature"

lemma mounted_dir_buf [simp]: "mounted (s\<lparr>dir_table_buf := t\<rparr>) = mounted s"
  by (simp add: mounted_def)

lemma mounted_eq: "mounted s \<longleftrightarrow> consistent s \<and> cluster_map s ! 1 = CLUSTER_1_VALUE \<and> cluster_map s ! 2 \<noteq> FAT32_FAT_EMPTY_ENTRY"
  by (auto simp: mounted_def consistent_def)

lemma consistent_dir_buf [simp]: "consistent (s\<lparr>dir_table_buf := t\<rparr>) = consistent s"
  by (simp add: consistent_def)

text \<open>A fresh start: the driver state in the zeroed bss section, and a storage.\<close>

definition power_on :: "image \<Rightarrow> fat32" where
  "power_on im = \<lparr>cluster_map = replicate 512 0, dir_table_buf = replicate 64 zero_entry, storage = im\<rparr>"

lemma create_fat32_effect:
  assumes "length (cluster_map s) = 512" and "length (dir_table_buf s) = 64"
  defines "fat \<equiv> (cluster_map s)[0 := CLUSTER_0_VALUE, 1 := CLUSTER_1_VALUE, 2 := FAT32_FAT_END_OF_FILE]"
    and "tbl \<equiv> init_directory_table (dir_table_buf s) root_name ROOT_CLUSTER_NUMBER"
  shows "create_fat32 s = Inr (s\<lparr>cluster_map := fat, dir_table_buf := tbl,
    storage := set_cluster (set_cluster (img_store (storage s) 0 fs_signature) 1 (fat_bytes fat)) 2 (table_bytes tbl)\<rparr>)"
proof -
  have "table_ok tbl" unfolding tbl_def using assms(2) by (rule init_directory_table_ok) simp
  then show ?thesis
    using assms(1) unfolding create_fat32_def Let_def fat_def [symmetric] tbl_def [symmetric]
    by (simp add: write_boot write_clusters_one FAT_CLUSTER_NUMBER_def ROOT_CLUSTER_NUMBER_def)
       (simp add: fat_def write_clusters_one)
qed

lemma initialize_consistent:
  assumes "consistent s"
  shows "initialize_filesystem_fat32 (power_on (storage s)) = Inr (s\<lparr>dir_table_buf := dir_at s 2\<rparr>)"
  using assms
  by (cases s) (simp add: initialize_filesystem_fat32_def is_empty_storage_signature power_on_def consistent_def
      read_clusters_one FAT_CLUSTER_NUMBER_def ROOT_CLUSTER_NUMBER_def dir_at_def)

lemma initialize_mounted:
  "mounted s \<Longrightarrow> initialize_filesystem_fat32 (power_on (storage s)) = Inr (s\<lparr>dir_table_buf := dir_at s 2\<rparr>)"
  by (rule initialize_consistent) (simp add: mounted_eq)

lemma initialize_blank:
  assumes "img_load im 0 512 \<noteq> fs_signature"
  shows "\<exists>s. initialize_filesystem_fat32 (power_on im) = Inr s \<and> mounted s \<and>
    cluster_map s = demo_fat \<and> dir_table_buf s = demo_root \<and> dir_at s 2 = demo_root"
proof -
  let ?fat = "(cluster_map (power_on im))[0 := CLUSTER_0_VALUE, 1 := CLUSTER_1_VALUE, 2 := FAT32_FAT_END_OF_FILE]"
  have fat: "?fat = demo_fat" by (simp add: power_on_def demo_fat_def FAT32_FAT_EMPTY_ENTRY_def)
  have tbl: "init_directory_table (dir_table_buf (power_on im)) root_name ROOT_CLUSTER_NUMBER = demo_root"
    by (simp add: power_on_def demo_root_def)
  have "initialize_filesystem_fat32 (power_on im) = create_fat32 (power_on im)"
    using assms by (simp add: initialize_filesystem_fat32_def is_empty_storage_signature) (simp add: power_on_def)
  also have "\<dots> = Inr ((power_on im)\<lparr>cluster_map := demo_fat, dir_table_buf := demo_root,
      storage := set_cluster (set_cluster (img_store im 0 fs_signature) 1 (fat_bytes demo_fat)) 2 (table_bytes demo_root)\<rparr>)"
    using create_fat32_effect [of "power_on im"] unfolding fat tbl by (simp add: power_on_def)
  finally have "initialize_filesystem_fat32 (power_on im) = Inr ((power_on im)\<lparr>cluster_map := demo_fat, dir_table_buf := demo_root,
      storage := set_cluster (set_cluster (img_store im 0 fs_signature) 1 (fat_bytes demo_fat)) 2 (table_bytes demo_root)\<rparr>)" .
  then show ?thesis
    using img_load_store_same [of im 0 fs_signature] by (simp add: mounted_def dir_at_def)
qed

lemma blank_image: "img_load (\<lambda>_. 0) 0 512 \<noteq> fs_signature"
proof -
  have "img_load (\<lambda>_. 0) 0 512 ! 0 \<noteq> fs_signature ! 0"
    by (simp add: img_load_def fs_signature_def)
  then show ?thesis by metis
qed

text \<open>
  Mounting a storage without the signature formats it: the result satisfies the
  driver's invariant, every cluster from 3 on is free, and the root directory holds nothing
  but its own entry, named root and pointing at cluster 2.
\<close>

theorem initialize_formats:
  assumes "img_load im 0 512 \<noteq> fs_signature"
  shows "\<exists>s. initialize_filesystem_fat32 (power_on im) = Inr s \<and> mounted s \<and>
    frees (cluster_map s) = [3..<512] \<and>
    lookup s 2 root_name \<noteq> None \<and> entry_cluster (dir_at s 2 ! 0) = 2 \<and>
    (\<forall>i. 0 < i \<and> i < 64 \<longrightarrow> dir_at s 2 ! i = zero_entry)"
proof -
  obtain s where s: "initialize_filesystem_fat32 (power_on im) = Inr s" "mounted s"
      "cluster_map s = demo_fat" "dir_at s 2 = demo_root"
    using initialize_blank [OF assms] by blast
  have "lookup s 2 root_name = lookup demo_fs 2 root_name" using s(4) by (simp add: lookup_def)
  then show ?thesis
    using s demo_frees demo_lookup_root demo_root_cluster by (auto simp: demo_root_nth)
qed

theorem initialize_formats_witness:
  "\<exists>s. initialize_filesystem_fat32 (power_on (\<lambda>_. 0)) = Inr s \<and> mounted s \<and> frees (cluster_map s) = [3..<512]"
  using initialize_formats [OF blank_image] by blast

section \<open>Every call keeps the invariant\<close>

lemma consistent_after_write:
  assumes "consistent s" and "can_write rq j s"
  shows "consistent (after_write rq j (new_clusters rq s) m s)"
proof -
  let ?cs = "new_clusters rq s"
  note nc = new_clusters_facts [OF assms(2)]
  have low: "0 \<notin> set ?cs" using nc(4) by force
  have "img_load (storage (after_write rq j ?cs m s)) 0 512 = img_load (storage s) 0 512"
  proof -
    have pos: "1 \<le> c" if "c \<in> set ?cs" for c using nc(4) [OF that] by simp
    have "\<forall>(c, b) \<in> set (zip ?cs bs). 1 \<le> c" for bs :: "u8 list list"
      using pos by (auto dest!: set_zip_leftD)
    moreover have "1 \<le> parent_of rq" using assms(2) by (simp add: can_write_def)
    ultimately show ?thesis by (simp add: after_write_def Let_def boot_put_all)
  qed
  then show ?thesis
    using assms(1) aw_fat [OF assms(2), of m] low by (simp add: consistent_def link_other)
qed

lemma mounted_after_write:
  assumes "mounted s" and "can_write rq j s"
  shows "mounted (after_write rq j (new_clusters rq s) m s)"
proof -
  have "1 \<notin> set (new_clusters rq s)" "2 \<notin> set (new_clusters rq s)"
    using new_clusters_facts(4) [OF assms(2)] assms(1) by (force simp: mounted_def)+
  then show ?thesis
    using assms consistent_after_write [of s rq j m] by (simp add: mounted_eq link_other)
qed

lemma consistent_after_mkdir:
  assumes "consistent s" and "frees (cluster_map s) = x # xs" and "2 \<le> parent_of rq"
    and "request_ok rq" and "entry_ok junk"
  shows "consistent (after_mkdir junk junk_table rq x s)"
proof -
  have "x \<in> set (frees (cluster_map s))" using assms(2) by simp
  then have x: "2 \<le> x" by (auto simp: frees_set)
  let ?old = "dir_at s (parent_of rq)"
  have tbl: "table_ok (case free_slot ?old of None \<Rightarrow> ?old | Some j \<Rightarrow> ?old[j := folder_entry junk rq x])"
    using assms(4,5) by (auto split: option.split intro: table_ok_update folder_entry_ok)
  then show ?thesis
    using assms(1,3) x by (simp add: consistent_def after_mkdir_def Let_def)
qed

lemma fs_write_file_cases:
  assumes "length (cluster_map s) = 512" and "request_ok rq" and "2 \<le> parent_of rq" and "parent_of rq < 512"
    and "0 < rq_buffer_size rq" and "cluster_map s ! parent_of rq \<noteq> FAT32_FAT_EMPTY_ENTRY"
    and "fs_write junk junk_table rq s m = Some (Inr (r, s', m'))"
  shows "s' = s\<lparr>dir_table_buf := dir_at s (parent_of rq)\<rparr> \<or>
    (\<exists>j. can_write rq j s \<and> s' = after_write rq j (new_clusters rq s) m s)"
proof (cases "free_slot (dir_at s (parent_of rq))")
  case None
  then show ?thesis
    using assms fs_write_file_no_slot [OF assms(1,4,6,5) _ None, of junk junk_table m]
      fs_write_file_full [OF assms(1,2,4,6,5), of junk junk_table m] size_in_clusters_bounds [OF assms(5)]
    by (cases "frees (cluster_map s) = []") auto
next
  case (Some j)
  show ?thesis
  proof (cases "length (frees (cluster_map s)) < size_in_clusters (rq_buffer_size rq)")
    case True
    then show ?thesis using assms Some fs_write_file_full [OF assms(1,2,4,6,5), of junk junk_table m] by simp
  next
    case False
    then have "can_write rq j s" using assms Some by (simp add: can_write_def)
    then show ?thesis using fs_write_ok [of rq j s junk junk_table m] assms(7) by auto
  qed
qed

lemma fs_write_consistent:
  assumes "consistent s"
    and call: "request_ok rq" "2 \<le> parent_of rq" "entry_ok junk" "length junk_table = 64"
      "fs_write junk junk_table rq s m = Some (Inr (r, s', m'))"
  shows "consistent s'"
proof -
  have len: "length (cluster_map s) = 512" using assms(1) by (simp add: consistent_def)
  have p: "parent_of rq < 512"
    using call(5) len by (auto simp: fs_write_def arr_get_def parent_of_def split: if_splits)
  consider "cluster_map s ! parent_of rq = FAT32_FAT_EMPTY_ENTRY"
    | "cluster_map s ! parent_of rq \<noteq> FAT32_FAT_EMPTY_ENTRY" "rq_buffer_size rq = 0"
    | "cluster_map s ! parent_of rq \<noteq> FAT32_FAT_EMPTY_ENTRY" "0 < rq_buffer_size rq"
    using word_neq_0_conv by blast
  then show ?thesis
  proof cases
    case a: 1
    then show ?thesis using call p len assms(1) by (simp add: fs_write_def arr_get_def parent_of_def)
  next
    case a: 2
    show ?thesis
    proof (cases "frees (cluster_map s)")
      case Nil
      then show ?thesis using call fs_write_folder_full [OF len p a, of junk junk_table m] by simp
    next
      case (Cons x xs)
      then show ?thesis
        using call fs_write_folder_effect [OF len call(1) p a call(3,4) Cons, of m]
          consistent_after_mkdir [OF assms(1) Cons call(2,1,3)]
        by auto
    qed
  next
    case a: 3
    then show ?thesis
      using fs_write_file_cases [OF len call(1,2) p a(2,1) call(5)] assms(1) consistent_after_write by auto
  qed
qed

text \<open>
  A deletion follows the chain wherever it leads. One that comes to cluster 0 goes on to its
  reserved entry, which is outside the table: so a deletion that returns has left entry 0 and
  the boot sector alone.
\<close>

definition delete_keeps :: "u32 \<Rightarrow> u32 list \<Rightarrow> image \<Rightarrow> (u32 list \<times> image) res \<Rightarrow> bool" where
  "delete_keeps c fat im r \<longleftrightarrow> (\<forall>fat' im'. r = Inr (fat', im') \<and> length fat = 512 \<longrightarrow> unat c < 512 \<and>
     (fat ! 0 = CLUSTER_0_VALUE \<longrightarrow>
        length fat' = 512 \<and> fat' ! 0 = CLUSTER_0_VALUE \<and> img_load im' 0 512 = img_load im 0 512))"

lemma delete_loop_keeps:
  assumes "delete_loop c fat im = Some r"
  shows "delete_keeps c fat im r"
proof (rule delete_loop.raw_induct [rotated, OF assms])
  fix rec c fat im r
  assume IH: "\<And>c fat im r. rec c fat im = Some r \<Longrightarrow> delete_keeps c fat im r"
    and body: "(case arr_get fat (unat c) of Inl e \<Rightarrow> Some (Inl e)
      | Inr nxt \<Rightarrow> (case write_clusters im (replicate CLUSTER_SIZE 0) c 1 of Inl e \<Rightarrow> Some (Inl e)
         | Inr im1 \<Rightarrow> if nxt \<noteq> FAT32_FAT_END_OF_FILE then rec nxt (fat[unat c := FAT32_FAT_EMPTY_ENTRY]) im1
             else Some (Inr (fat[unat c := FAT32_FAT_EMPTY_ENTRY], im1)))) = Some r"
  let ?im1 = "set_cluster im (unat c) (replicate CLUSTER_SIZE 0)" and ?fat1 = "fat[unat c := FAT32_FAT_EMPTY_ENTRY]"
  show "delete_keeps c fat im r"
    unfolding delete_keeps_def
  proof (intro allI impI, elim conjE)
    fix fat' im' assume r: "r = Inr (fat', im')" and len: "length fat = 512"
    have c: "unat c < 512" using body r len by (auto simp: arr_get_def split: if_splits)
    then have step: "if fat ! unat c \<noteq> FAT32_FAT_END_OF_FILE then rec (fat ! unat c) ?fat1 ?im1 = Some r
        else fat' = ?fat1 \<and> im' = ?im1"
      using body r len by (simp add: arr_get_def write_clusters_one CLUSTER_SIZE_val split: if_splits)
    have nxt: "delete_keeps (fat ! unat c) ?fat1 ?im1 r" if "fat ! unat c \<noteq> FAT32_FAT_END_OF_FILE"
      using IH step that by simp
    have "length fat' = 512 \<and> fat' ! 0 = CLUSTER_0_VALUE \<and> img_load im' 0 512 = img_load im 0 512"
      if z: "fat ! 0 = CLUSTER_0_VALUE"
    proof -
      have n0: "unat c \<noteq> 0"
      proof
        assume "unat c = 0"
        then have "delete_keeps CLUSTER_0_VALUE ?fat1 ?im1 r"
          using nxt z by (simp add: CLUSTER_0_VALUE_def FAT32_FAT_END_OF_FILE_def)
        then have "unat CLUSTER_0_VALUE < 512" using r len unfolding delete_keeps_def by fastforce
        then show False by (simp add: CLUSTER_0_VALUE_def)
      qed
      then have "?fat1 ! 0 = CLUSTER_0_VALUE" "img_load ?im1 0 512 = img_load im 0 512" using z by simp_all
      then show ?thesis using step nxt r len unfolding delete_keeps_def by (auto split: if_splits)
    qed
    with c show "unat c < 512 \<and> (fat ! 0 = CLUSTER_0_VALUE \<longrightarrow>
        length fat' = 512 \<and> fat' ! 0 = CLUSTER_0_VALUE \<and> img_load im' 0 512 = img_load im 0 512)" by blast
  qed
qed

text \<open>
  The cluster of the storage that holds a request's directory: the address of a block is
  computed in 32 bits, so cluster numbers count modulo 2 to the 21.
\<close>

definition directory_cluster :: "driver_request \<Rightarrow> nat" where
  "directory_cluster rq = parent_of rq mod 2097152"

lemma fs_delete_consistent:
  assumes "consistent s" and "2 \<le> directory_cluster rq" and call: "fs_delete rq s = Some (Inr (r, s'))"
  shows "consistent s'"
proof -
  let ?p = "directory_cluster rq"
  have len: "length (cluster_map s) = 512" "cluster_map s ! 0 = CLUSTER_0_VALUE" using assms(1) by (simp_all add: consistent_def)
  have rd: "read_clusters (storage s) (rq_parent_cluster_number rq) 1 =
      (if ?p < 2048 then Inr (cluster_at (storage s) ?p) else Inl Image_Overrun)"
    by (simp add: read_clusters_any directory_cluster_def parent_of_def)
  show ?thesis
  proof (cases "s' = s")
    case False
    then obtain i fat1 im1 im2 im3 where p: "?p < 2048"
      and d: "delete_loop (entry_cluster (table_of (cluster_at (storage s) ?p) ! i)) (cluster_map s) (storage s) = Some (Inr (fat1, im1))"
      and w: "write_clusters im1 (fat_bytes fat1) 1 1 = Inr im2"
        "write_clusters im2 (table_bytes ((table_of (cluster_at (storage s) ?p))[i := zero_entry])) (rq_parent_cluster_number rq) 1 = Inr im3"
      and s': "s' = s\<lparr>cluster_map := fat1, storage := im3\<rparr>"
      using call
      by (auto simp: fs_delete_def rd Let_def bindE_eq_Inr split: if_splits option.splits sum.splits)
    have k: "length fat1 = 512" "fat1 ! 0 = CLUSTER_0_VALUE" "img_load im1 0 512 = img_load (storage s) 0 512"
      using delete_loop_keeps [OF d] len by (simp_all add: delete_keeps_def)
    have "table_ok (table_of (cluster_at (storage s) ?p))" using table_ok_dir_at [of s ?p] by (simp add: dir_at_def)
    then have "length (table_bytes ((table_of (cluster_at (storage s) ?p))[i := zero_entry])) = 2048" by (simp add: table_ok_update)
    then have "im3 = set_cluster (set_cluster im1 1 (fat_bytes fat1)) ?p (table_bytes ((table_of (cluster_at (storage s) ?p))[i := zero_entry]))"
      using w p k(1) by (simp add: write_clusters_any directory_cluster_def parent_of_def)
    then show ?thesis
      using assms(1,2) k \<open>length (table_bytes _) = 2048\<close> by (simp add: consistent_def s')
  qed (use assms(1) in simp)
qed

text \<open>
  One call, or a power cut followed by a mount. The directory of the request must not be in one
  of the two reserved clusters; the requests are otherwise arbitrary, and so are the chains.
\<close>

inductive fs_call :: "fat32 \<Rightarrow> fat32 \<Rightarrow> bool" where
  call_write: "request_ok rq \<Longrightarrow> 2 \<le> directory_cluster rq \<Longrightarrow> entry_ok junk \<Longrightarrow> length junk_table = 64 \<Longrightarrow>
    fs_write junk junk_table rq s m = Some (Inr (r, s', m')) \<Longrightarrow> fs_call s s'"
| call_delete: "2 \<le> directory_cluster rq \<Longrightarrow> fs_delete rq s = Some (Inr (r, s')) \<Longrightarrow> fs_call s s'"
| call_reboot: "initialize_filesystem_fat32 (power_on (storage s)) = Inr s' \<Longrightarrow> fs_call s s'"

inductive_cases fs_call_E: "fs_call s s'"

lemma fs_call_consistent:
  assumes "fs_call s s'" and "consistent s"
  shows "consistent s'"
  using assms(1)
proof (rule fs_call_E, goal_cases)
  case (1 rq junk junk_table m r m')
  have "2 \<le> parent_of rq"
    using 1(2) mod_less_eq_dividend [of "parent_of rq" 2097152] unfolding directory_cluster_def by linarith
  then show ?thesis using fs_write_consistent [OF assms(2) 1(1) _ 1(3-5)] by simp
next
  case (2 rq r)
  show ?thesis by (rule fs_delete_consistent [OF assms(2) 2])
next
  case 3
  then show ?thesis using initialize_consistent [OF assms(2)] assms(2) by auto
qed

interpretation fs_calls: step_invariant fs_call consistent
  by unfold_locales (rule fs_call_consistent)

text \<open>
  What the condition on directories excludes. The entries 0 and 1 of the allocation table are not
  empty, so a write takes clusters 0 and 1 for directories: it puts its entry into the boot
  sector, or into the table itself behind the cached one.
\<close>

theorem fs_write_reserved_parent:
  assumes "mounted s" and "parent_of rq < 2" and "rq_buffer_size rq = 0" and "request_ok rq" and "entry_ok junk"
    and "length junk_table = 64" and "frees (cluster_map s) \<noteq> []"
  shows "\<exists>s'. fs_write junk junk_table rq s m = Some (Inr (0, s', m)) \<and> cluster_at (storage s') (parent_of rq) = table_bytes (dir_table_buf s')"
proof -
  obtain x xs where x: "frees (cluster_map s) = x # xs" using assms(7) by (cases "frees (cluster_map s)") auto
  have len: "length (cluster_map s) = 512" using assms(1) by (simp add: mounted_def)
  have p: "parent_of rq = 0 \<or> parent_of rq = 1" using assms(2) by auto
  then have ne: "cluster_map s ! parent_of rq \<noteq> FAT32_FAT_EMPTY_ENTRY"
    using assms(1) by (auto simp: mounted_def CLUSTER_0_VALUE_def CLUSTER_1_VALUE_def FAT32_FAT_EMPTY_ENTRY_def)
  have "fs_write junk junk_table rq s m = Some (Inr (0, after_mkdir junk junk_table rq x s, m))"
    using fs_write_folder_effect [OF len assms(4) _ ne assms(3,5,6) x, of m] assms(2) by simp
  moreover have "table_ok (dir_table_buf (after_mkdir junk junk_table rq x s))"
    using assms(4,5) by (auto simp: after_mkdir_def Let_def split: option.split intro: table_ok_update folder_entry_ok)
  then have "cluster_at (storage (after_mkdir junk junk_table rq x s)) (parent_of rq) = table_bytes (dir_table_buf (after_mkdir junk junk_table rq x s))"
    by (simp add: after_mkdir_def Let_def)
  ultimately show ?thesis by blast
qed

text \<open>
  C2. After formatting a storage and any sequence of calls that return (writes of files and
  folders, with any sizes, and deletions along any chains, intact or not, in any directory but
  the two reserved clusters 0 and 1) and of power cuts between the calls, whatever the calls
  returned, the cached allocation table is the one on the disk, so mounting the storage again
  gives exactly the current table, the current storage and the root directory as it is on the
  disk. The code does not refuse the directories 0 and 1: \<open>fs_write_reserved_parent\<close>.
\<close>

theorem fs_survives_power_cut:
  assumes "img_load im 0 512 \<noteq> fs_signature" and "initialize_filesystem_fat32 (power_on im) = Inr s0"
    and "fs_call\<^sup>*\<^sup>* s0 s"
  shows "fat_of (cluster_at (storage s) 1) = cluster_map s \<and>
    initialize_filesystem_fat32 (power_on (storage s)) = Inr (s\<lparr>dir_table_buf := dir_at s 2\<rparr>)"
proof -
  have "consistent s0" using initialize_blank [OF assms(1)] assms(2) by (auto simp: mounted_eq)
  with assms(3) have "consistent s" by (rule fs_calls.kept_by_steps)
  then show ?thesis using initialize_consistent by (simp add: consistent_def)
qed

theorem fs_survives_power_cut_witness:
  "\<exists>s0 s m'. initialize_filesystem_fat32 (power_on (\<lambda>_. 0)) = Inr s0 \<and>
     fs_write zero_entry (replicate 64 zero_entry) demo_request s0 (\<lambda>_. 0) = Some (Inr (0, s, m')) \<and>
     fat_of (cluster_at (storage s) 1) = cluster_map s \<and>
     initialize_filesystem_fat32 (power_on (storage s)) = Inr (s\<lparr>dir_table_buf := dir_at s 2\<rparr>)"
proof -
  obtain s0 where s0: "initialize_filesystem_fat32 (power_on (\<lambda>_. 0)) = Inr s0" "cluster_map s0 = demo_fat" "dir_at s0 2 = demo_root"
    using initialize_blank [OF blank_image] by blast
  have "can_write demo_request 1 s0"
    using demo_can_write s0 by (simp add: can_write_def)
  then obtain s m' where w: "fs_write zero_entry (replicate 64 zero_entry) demo_request s0 (\<lambda>_. 0) = Some (Inr (0, s, m'))"
    using fs_write_ok by blast
  have "fs_call s0 s" by (rule call_write [OF _ _ _ _ w]) (simp_all add: directory_cluster_def)
  then have "fs_call\<^sup>*\<^sup>* s0 s" by blast
  then show ?thesis using fs_survives_power_cut [OF blank_image s0(1)] s0(1) w by blast
qed

end
