(* ===== verification/Slots.thy ===== *)
theory Slots
  imports Prelude
begin

text \<open>
  The first-fit contract. The kernel hands out physical page frames and page directories in
  the same way: scan a table of used flags, take the first that is clear, set it.
  \<open>slot_pool\<close> states what such an operation promises; the component theories interpret it on
  their own state and inherit that a claim fails only when every slot is taken, that it
  raises the number of slots in use by one, and that successive claims return different
  slots.
\<close>

section \<open>The scan\<close>

definition first_clear :: "bool list \<Rightarrow> nat \<Rightarrow> nat option" where
  "first_clear flags n = find (\<lambda>i. \<not> flags ! i) [0..<n]"

lemma first_clear_Some:
  "first_clear flags n = Some i \<longleftrightarrow> i < n \<and> \<not> flags ! i \<and> (\<forall>j<i. flags ! j)"
  by (auto simp: first_clear_def find_upt_Some)

lemma first_clear_None: "first_clear flags n = None \<longleftrightarrow> (\<forall>i<n. flags ! i)"
  by (auto simp: first_clear_def find_upt_None)

section \<open>The contract\<close>

locale slot_pool =
  fixes used :: "'s \<Rightarrow> nat \<Rightarrow> bool" and cap :: nat and good :: "'s \<Rightarrow> bool"
    and claim :: "'s \<Rightarrow> (nat \<times> 's) option"
  assumes claim_first: "good s \<Longrightarrow> claim s = Some (i, s') \<Longrightarrow> i < cap \<and> \<not> used s i \<and> (\<forall>j<i. used s j)"
    and claim_used: "good s \<Longrightarrow> claim s = Some (i, s') \<Longrightarrow> j < cap \<Longrightarrow> used s' j = (j = i \<or> used s j)"
    and claim_good: "good s \<Longrightarrow> claim s = Some (i, s') \<Longrightarrow> good s'"
    and claim_fails: "good s \<Longrightarrow> claim s = None \<Longrightarrow> j < cap \<Longrightarrow> used s j"
begin

definition in_use :: "'s \<Rightarrow> nat" where
  "in_use s = card {i. i < cap \<and> used s i}"

lemma in_use_le: "in_use s \<le> cap"
proof -
  have "in_use s \<le> card {..<cap}" unfolding in_use_def by (intro card_mono) auto
  then show ?thesis by simp
qed

lemma claim_count: "good s \<Longrightarrow> claim s = Some (i, s') \<Longrightarrow> in_use s' = Suc (in_use s)"
proof -
  assume g: "good s" and c: "claim s = Some (i, s')"
  have "{j. j < cap \<and> used s' j} = insert i {j. j < cap \<and> used s j}"
    using claim_first [OF g c] claim_used [OF g c] by auto
  then show ?thesis using claim_first [OF g c] by (simp add: in_use_def)
qed

lemma claim_None_iff: "good s \<Longrightarrow> claim s = None \<longleftrightarrow> in_use s = cap"
proof
  assume g: "good s" and c: "claim s = None"
  have "{i. i < cap \<and> used s i} = {..<cap}" using claim_fails [OF g c] by auto
  then show "in_use s = cap" by (simp add: in_use_def)
next
  assume g: "good s" and full: "in_use s = cap"
  show "claim s = None"
  proof (rule ccontr)
    assume "claim s \<noteq> None"
    then obtain i s' where c: "claim s = Some (i, s')" by auto
    have "in_use s' \<le> cap" by (rule in_use_le)
    with claim_count [OF g c] full show False by simp
  qed
qed

text \<open>\<open>claims n s\<close>: the slots \<open>n\<close> successive claims return.\<close>

fun claims :: "nat \<Rightarrow> 's \<Rightarrow> (nat list \<times> 's) option" where
  "claims 0 s = Some ([], s)"
| "claims (Suc n) s = (case claim s of None \<Rightarrow> None
     | Some (i, s') \<Rightarrow> map_option (\<lambda>(js, t). (i # js, t)) (claims n s'))"

lemma claims_fresh:
  "good s \<Longrightarrow> claims n s = Some (js, t) \<Longrightarrow> distinct js \<and> length js = n \<and> (\<forall>j \<in> set js. j < cap \<and> \<not> used s j)"
proof (induction n arbitrary: s js)
  case 0
  then show ?case by simp
next
  case (Suc n)
  then obtain i s' ks where c: "claim s = Some (i, s')" "claims n s' = Some (ks, t)" "js = i # ks"
    by (auto split: option.splits)
  have g: "good s'" using claim_good Suc.prems(1) c(1) by blast
  note IH = Suc.IH [OF g c(2)]
  have "i \<notin> set ks" and "\<forall>j \<in> set ks. \<not> used s j"
    using IH claim_used [OF Suc.prems(1) c(1)] by auto
  then show ?case using IH c claim_first [OF Suc.prems(1) c(1)] by simp
qed

lemma claims_possible:
  "good s \<Longrightarrow> n + in_use s \<le> cap \<Longrightarrow> \<exists>js t. claims n s = Some (js, t)"
proof (induction n arbitrary: s)
  case 0
  then show ?case by simp
next
  case (Suc n)
  then have "claim s \<noteq> None" using claim_None_iff [OF Suc.prems(1)] by simp
  then obtain i s' where c: "claim s = Some (i, s')" by auto
  have "good s'" "n + in_use s' \<le> cap"
    using claim_good [OF Suc.prems(1) c] claim_count [OF Suc.prems(1) c] Suc.prems(2) by simp_all
  then obtain js t where "claims n s' = Some (js, t)" using Suc.IH by blast
  then show ?case using c by simp
qed

end

end
