(* ===== verification/Paging.thy ===== *)
theory Paging
  imports Slots Complex_Main
begin

text \<open>
  \<^verbatim>\<open>src/src/paging.c\<close> and \<^verbatim>\<open>src/src/header/memory/paging.h\<close>: the page directory entry for 4 MiB
  pages, the table of physical page frames, the pool of page directories and the CR3 register.
  Pointers to page directories are 32-bit addresses; where the linker puts the kernel's
  directory and the array of user directories is the argument \<open>layout\<close>. \<open>ceil32\<close> works on
  the value of a C \<open>float\<close>: \<open>f32_of_u32\<close> rounds an unsigned integer to the 24 significant bits
  of that type. The invlpg instruction has no effect on this state; the cache
  it works on is in \<open>Tlb\<close>.
  \<open>paging_ok\<close> is the invariant: the free counter counts the clear flags, every user page
  is backed by a frame marked used, and no frame backs two user pages.
\<close>

section \<open>Constants\<close>

definition SYSTEM_MEMORY_MB :: nat where "SYSTEM_MEMORY_MB = 128"
definition PAGE_ENTRY_COUNT :: nat where "PAGE_ENTRY_COUNT = 1024"
definition PAGE_FRAME_SIZE :: nat where "PAGE_FRAME_SIZE = 2 ^ (2 + 10 + 10)"
definition PAGE_FRAME_MAX_COUNT :: nat where
  "PAGE_FRAME_MAX_COUNT = SYSTEM_MEMORY_MB * 2 ^ 20 div PAGE_FRAME_SIZE"
definition PAGING_DIRECTORY_TABLE_MAX_COUNT :: nat where "PAGING_DIRECTORY_TABLE_MAX_COUNT = 32"
definition KERNEL_VIRTUAL_ADDRESS_BASE :: u32 where "KERNEL_VIRTUAL_ADDRESS_BASE = 0xC0000000"

lemma page_constants [geometry]:
  "PAGE_ENTRY_COUNT = 1024" "PAGE_FRAME_SIZE = 4194304" "PAGE_FRAME_MAX_COUNT = 32"
  "PAGING_DIRECTORY_TABLE_MAX_COUNT = 32"
  by (simp_all add: PAGE_ENTRY_COUNT_def PAGE_FRAME_SIZE_def PAGE_FRAME_MAX_COUNT_def
      SYSTEM_MEMORY_MB_def PAGING_DIRECTORY_TABLE_MAX_COUNT_def)

section \<open>Page directory entries\<close>

record pde_flag =
  present_bit :: bool
  write_bit :: bool
  user_bit :: bool
  page_level_write_through_bit :: bool
  page_level_cache_disable_bit :: bool
  accessed_bit :: bool
  dirty_bit :: bool
  use_pagesize_4_mb :: bool

record pde =
  flag :: pde_flag
  global_page :: bool
  ignored :: "3 word"
  pat :: bool
  higher_address :: "8 word"
  reserved_2 :: bool
  lower_address :: "10 word"

definition no_flags :: pde_flag where
  "no_flags = \<lparr>present_bit = False, write_bit = False, user_bit = False,
     page_level_write_through_bit = False, page_level_cache_disable_bit = False,
     accessed_bit = False, dirty_bit = False, use_pagesize_4_mb = False\<rparr>"

definition zero_pde :: pde where
  "zero_pde = \<lparr>flag = no_flags, global_page = False, ignored = 0, pat = False,
     higher_address = 0, reserved_2 = False, lower_address = 0\<rparr>"

definition user_flags :: pde_flag where
  "user_flags = no_flags\<lparr>present_bit := True, write_bit := True, user_bit := True, use_pagesize_4_mb := True\<rparr>"

definition kernel_pde :: pde where
  "kernel_pde = zero_pde\<lparr>flag := no_flags\<lparr>present_bit := True, write_bit := True, use_pagesize_4_mb := True\<rparr>\<rparr>"

type_synonym page_directory = "pde list"

text \<open>The packed bit layout the processor reads, low bit first.\<close>

definition pde_word :: "pde \<Rightarrow> u32" where
  "pde_word e =
     of_bool (present_bit (flag e)) OR push_bit 1 (of_bool (write_bit (flag e))) OR
     push_bit 2 (of_bool (user_bit (flag e))) OR push_bit 3 (of_bool (page_level_write_through_bit (flag e))) OR
     push_bit 4 (of_bool (page_level_cache_disable_bit (flag e))) OR push_bit 5 (of_bool (accessed_bit (flag e))) OR
     push_bit 6 (of_bool (dirty_bit (flag e))) OR push_bit 7 (of_bool (use_pagesize_4_mb (flag e))) OR
     push_bit 8 (of_bool (global_page e)) OR push_bit 9 (ucast (ignored e)) OR
     push_bit 12 (of_bool (pat e)) OR push_bit 13 (ucast (higher_address e)) OR
     push_bit 21 (of_bool (reserved_2 e)) OR push_bit 22 (ucast (lower_address e))"

definition page_index :: "u32 \<Rightarrow> nat" where
  "page_index virtual_addr = unat (drop_bit 22 virtual_addr AND 0x3FF)"

definition frame_bits :: "u32 \<Rightarrow> 10 word" where
  "frame_bits physical_addr = ucast (drop_bit 22 physical_addr AND 0x3FF)"

definition update_entry :: "page_directory \<Rightarrow> u32 \<Rightarrow> u32 \<Rightarrow> pde_flag \<Rightarrow> page_directory" where
  "update_entry dir physical_addr virtual_addr fl =
     dir[page_index virtual_addr :=
       (dir ! page_index virtual_addr)\<lparr>flag := fl, lower_address := frame_bits physical_addr\<rparr>]"

text \<open>
  The processor's translation through a directory of 4 MiB pages, for user or supervisor
  accesses; \<open>None\<close> is a page fault.
\<close>

definition translate :: "page_directory \<Rightarrow> bool \<Rightarrow> u32 \<Rightarrow> u32 option" where
  "translate dir user va =
     (let e = dir ! page_index va in
      if present_bit (flag e) \<and> (user \<longrightarrow> user_bit (flag e))
      then Some (push_bit 22 (ucast (lower_address e)) OR (va AND 0x3FFFFF)) else None)"

section \<open>State\<close>

record paging =
  page_frame_map :: "bool list"
  free_page_frame_count :: u32
  kernel_page_directory :: page_directory
  page_directory_list :: "page_directory list"
  page_directory_used :: "bool list"
  cr3 :: u32

record layout =
  kernel_pd_addr :: u32
  pd_list_addr :: u32

definition blank_directory :: page_directory where
  "blank_directory = replicate PAGE_ENTRY_COUNT zero_pde"

definition paging_start :: "layout \<Rightarrow> paging" where
  "paging_start L = \<lparr>
     page_frame_map = True # replicate (PAGE_FRAME_MAX_COUNT - 1) False,
     free_page_frame_count = of_nat (PAGE_FRAME_MAX_COUNT - 1),
     kernel_page_directory = blank_directory[0 := kernel_pde, 0x300 := kernel_pde],
     page_directory_list = replicate PAGING_DIRECTORY_TABLE_MAX_COUNT blank_directory,
     page_directory_used = replicate PAGING_DIRECTORY_TABLE_MAX_COUNT False,
     cr3 = kernel_pd_addr L - KERNEL_VIRTUAL_ADDRESS_BASE\<rparr>"

text \<open>\<open>&page_directory_list[i]\<close>, and which directory a pointer points to\<close>

definition pd_addr :: "layout \<Rightarrow> nat \<Rightarrow> u32" where
  "pd_addr L i = pd_list_addr L + of_nat (4096 * i)"

definition pd_index :: "layout \<Rightarrow> u32 \<Rightarrow> nat option" where
  "pd_index L a = find (\<lambda>i. pd_addr L i = a) [0..<PAGING_DIRECTORY_TABLE_MAX_COUNT]"

definition pd_get :: "layout \<Rightarrow> paging \<Rightarrow> u32 \<Rightarrow> page_directory res" where
  "pd_get L st a =
     (if a = 0 then Inl Null_Pointer
      else if a = kernel_pd_addr L then Inr (kernel_page_directory st)
      else case pd_index L a of None \<Rightarrow> Inl Page_Fault | Some i \<Rightarrow> Inr (page_directory_list st ! i))"

definition pd_put :: "layout \<Rightarrow> paging \<Rightarrow> u32 \<Rightarrow> page_directory \<Rightarrow> paging" where
  "pd_put L st a d =
     (if a = kernel_pd_addr L then st\<lparr>kernel_page_directory := d\<rparr>
      else case pd_index L a of None \<Rightarrow> st | Some i \<Rightarrow> st\<lparr>page_directory_list := (page_directory_list st)[i := d]\<rparr>)"

section \<open>Operations\<close>

definition update_page_directory_entry ::
  "layout \<Rightarrow> u32 \<Rightarrow> u32 \<Rightarrow> u32 \<Rightarrow> pde_flag \<Rightarrow> paging \<Rightarrow> paging res" where
  "update_page_directory_entry L page_dir physical_addr virtual_addr fl st =
     bindE (pd_get L st page_dir) (\<lambda>d.
     Inr (pd_put L st page_dir (update_entry d physical_addr virtual_addr fl)))"

text \<open>The value of a \<open>float\<close>: 24 significant bits, ties to even.\<close>

fun bit_length :: "nat \<Rightarrow> nat" where
  "bit_length n = (if n = 0 then 0 else Suc (bit_length (n div 2)))"

declare bit_length.simps [simp del]

definition f32_round :: "nat \<Rightarrow> nat" where
  "f32_round n =
     (let e = bit_length n - 24; q = n div 2 ^ e; r = n mod 2 ^ e in
      (if 2 * r > 2 ^ e \<or> (2 * r = 2 ^ e \<and> odd q) then q + 1 else q) * 2 ^ e)"

definition f32_of_u32 :: "u32 \<Rightarrow> rat" where
  "f32_of_u32 n = of_nat (f32_round (unat n))"

definition ceil32 :: "rat \<Rightarrow> u32" where
  "ceil32 n = (let t = \<lfloor>n\<rfloor> in if of_int t = n then of_int t else of_int t + 1)"

text \<open>
  The only divisor passed is \<open>PAGE_FRAME_SIZE\<close>, a power of two, so the quotient of the two
  floats is exact.
\<close>

definition ceil_div :: "u32 \<Rightarrow> u32 \<Rightarrow> u32" where
  "ceil_div a b = ceil32 (f32_of_u32 a / f32_of_u32 b)"

definition paging_allocate_check :: "u32 \<Rightarrow> paging \<Rightarrow> bool" where
  "paging_allocate_check amount st =
     (let required_pages = ceil32 (f32_of_u32 amount / of_nat PAGE_FRAME_SIZE) in
      free_page_frame_count st \<ge> required_pages)"

text \<open>With no clear flag the index stays -1, and the store to the map is out of bounds.\<close>

definition paging_allocate_user_page_frame :: "layout \<Rightarrow> u32 \<Rightarrow> u32 \<Rightarrow> paging \<Rightarrow> (bool \<times> paging) res" where
  "paging_allocate_user_page_frame L page_dir virtual_addr st =
     (case first_clear (page_frame_map st) PAGE_FRAME_MAX_COUNT of
        None \<Rightarrow> Inl Out_Of_Bounds
      | Some idx \<Rightarrow>
          bindE (update_page_directory_entry L page_dir (of_nat (idx * PAGE_FRAME_SIZE)) virtual_addr user_flags
                   (st\<lparr>page_frame_map := (page_frame_map st)[idx := True]\<rparr>)) (\<lambda>st1.
          Inr (True, st1\<lparr>free_page_frame_count := free_page_frame_count st1 - 1\<rparr>)))"

definition paging_free_user_page_frame :: "layout \<Rightarrow> u32 \<Rightarrow> u32 \<Rightarrow> paging \<Rightarrow> (bool \<times> paging) res" where
  "paging_free_user_page_frame L page_dir virtual_addr st =
     bindE (pd_get L st page_dir) (\<lambda>d.
     bindE (arr_set (page_frame_map st) (unat (lower_address (d ! page_index virtual_addr))) False) (\<lambda>frames.
     bindE (update_page_directory_entry L page_dir 0 virtual_addr no_flags
              (st\<lparr>page_frame_map := frames, free_page_frame_count := free_page_frame_count st + 1\<rparr>)) (\<lambda>st1.
     Inr (True, st1))))"

definition paging_create_new_page_directory :: "layout \<Rightarrow> paging \<Rightarrow> u32 \<times> paging" where
  "paging_create_new_page_directory L st =
     (case first_clear (page_directory_used st) PAGING_DIRECTORY_TABLE_MAX_COUNT of
        None \<Rightarrow> (0, st)
      | Some i \<Rightarrow>
          (pd_addr L i,
           st\<lparr>page_directory_used := (page_directory_used st)[i := True],
              page_directory_list := (page_directory_list st)
                [i := (page_directory_list st ! i)[0x300 := kernel_pde]]\<rparr>))"

definition paging_free_page_directory :: "layout \<Rightarrow> u32 \<Rightarrow> paging \<Rightarrow> bool \<times> paging" where
  "paging_free_page_directory L page_dir st =
     (case pd_index L page_dir of
        None \<Rightarrow> (False, st)
      | Some i \<Rightarrow>
          (True, st\<lparr>page_directory_used := (page_directory_used st)[i := False],
             page_directory_list := (page_directory_list st)
               [i := fold (\<lambda>j d. d[j := zero_pde]) [0..<PAGE_ENTRY_COUNT] (page_directory_list st ! i)]\<rparr>))"

definition paging_get_current_page_directory_addr :: "paging \<Rightarrow> u32" where
  "paging_get_current_page_directory_addr st = cr3 st + KERNEL_VIRTUAL_ADDRESS_BASE"

definition paging_use_page_directory :: "u32 \<Rightarrow> paging \<Rightarrow> paging" where
  "paging_use_page_directory page_dir_virtual_addr st =
     st\<lparr>cr3 := (if page_dir_virtual_addr > KERNEL_VIRTUAL_ADDRESS_BASE
               then page_dir_virtual_addr - KERNEL_VIRTUAL_ADDRESS_BASE
               else page_dir_virtual_addr)\<rparr>"

section \<open>The entry format\<close>

lemma pde_word_bit:
  assumes "n < 32"
  shows "bit (pde_word e) n \<longleftrightarrow>
    n = 0 \<and> present_bit (flag e) \<or> n = 1 \<and> write_bit (flag e) \<or> n = 2 \<and> user_bit (flag e) \<or>
    n = 3 \<and> page_level_write_through_bit (flag e) \<or> n = 4 \<and> page_level_cache_disable_bit (flag e) \<or>
    n = 5 \<and> accessed_bit (flag e) \<or> n = 6 \<and> dirty_bit (flag e) \<or> n = 7 \<and> use_pagesize_4_mb (flag e) \<or>
    n = 8 \<and> global_page e \<or> 9 \<le> n \<and> bit (ignored e) (n - 9) \<or> n = 12 \<and> pat e \<or>
    13 \<le> n \<and> bit (higher_address e) (n - 13) \<or> n = 21 \<and> reserved_2 e \<or>
    22 \<le> n \<and> bit (lower_address e) (n - 22)"
proof -
  have pos: "possible_bit TYPE(u32) n" using assms by (simp add: possible_bit_word)
  have one: "bit (push_bit k (of_bool b) :: u32) n \<longleftrightarrow> n = k \<and> b" if "k < 32" for k b
    unfolding bit_push_bit_iff using pos by (auto simp: bit_of_bool_iff)
  have z: "bit (of_bool b :: u32) n \<longleftrightarrow> n = 0 \<and> b" for b by (auto simp: bit_of_bool_iff)
  have fld: "bit (push_bit k (ucast w) :: u32) n \<longleftrightarrow> k \<le> n \<and> bit w (n - k)" for k and w :: "'a::len word"
    unfolding bit_push_bit_iff bit_unsigned_iff using pos by (auto simp: possible_bit_word)
  show ?thesis
    unfolding pde_word_def bit_or_iff by (simp only: z one fld)
qed

lemma pde_word_flag_bits:
  "bit (pde_word e) 0 = present_bit (flag e)" "bit (pde_word e) 1 = write_bit (flag e)"
  "bit (pde_word e) 2 = user_bit (flag e)" "bit (pde_word e) 3 = page_level_write_through_bit (flag e)"
  "bit (pde_word e) 4 = page_level_cache_disable_bit (flag e)" "bit (pde_word e) 5 = accessed_bit (flag e)"
  "bit (pde_word e) 6 = dirty_bit (flag e)" "bit (pde_word e) 7 = use_pagesize_4_mb (flag e)"
  "bit (pde_word e) 8 = global_page e" "bit (pde_word e) 12 = pat e" "bit (pde_word e) 21 = reserved_2 e"
  by (auto simp: pde_word_bit dest: bit_imp_le_length)

lemma pde_word_fields:
  "ucast (drop_bit 9 (pde_word e)) = ignored e" "ucast (drop_bit 13 (pde_word e)) = higher_address e"
  by (rule bit_word_eqI, use bit_imp_le_length in \<open>fastforce simp: bit_unsigned_iff bit_drop_bit_eq pde_word_bit\<close>)+

lemma pde_word_lower: "ucast (drop_bit 22 (pde_word e)) = lower_address e"
proof (rule bit_word_eqI)
  fix n assume "n < LENGTH(10)"
  then have n: "22 + n < 32" by simp
  have "\<not> bit (ignored e) (22 + n - 9)" "\<not> bit (higher_address e) (22 + n - 13)"
    using bit_imp_le_length [of "ignored e" "22 + n - 9"] bit_imp_le_length [of "higher_address e" "22 + n - 13"] by auto
  then have "bit (pde_word e) (22 + n) = bit (lower_address e) n"
    unfolding pde_word_bit [OF n] by auto
  then show "bit (ucast (drop_bit 22 (pde_word e)) :: 10 word) n = bit (lower_address e) n"
    using n by (simp add: bit_unsigned_iff bit_drop_bit_eq)
qed

lemma pde_word_inj: "pde_word e = pde_word e' \<longleftrightarrow> e = e'"
proof
  assume eq: "pde_word e = pde_word e'"
  have "flag e = flag e'"
    using pde_word_flag_bits(1-8) [of e] pde_word_flag_bits(1-8) [of e'] eq
    by (intro pde_flag.equality) simp_all
  then show "e = e'"
    using pde_word_flag_bits(9-) [of e] pde_word_flag_bits(9-) [of e']
      pde_word_fields [of e] pde_word_fields [of e'] pde_word_lower [of e] pde_word_lower [of e'] eq
    by (intro pde.equality) simp_all
qed simp

section \<open>Addresses\<close>

text \<open>What the linker guarantees: the kernel's directory and the array of user directories lie
  above the kernel base, do not overlap, and do not wrap.\<close>

definition layout_ok :: "layout \<Rightarrow> bool" where
  "layout_ok L \<longleftrightarrow> KERNEL_VIRTUAL_ADDRESS_BASE < kernel_pd_addr L \<and>
     KERNEL_VIRTUAL_ADDRESS_BASE < pd_list_addr L \<and> unat (pd_list_addr L) + 4096 * 32 < 4294967296 \<and>
     (\<forall>i<32. pd_addr L i \<noteq> kernel_pd_addr L)"

lemma unat_pd_addr: "layout_ok L \<Longrightarrow> i < 32 \<Longrightarrow> unat (pd_addr L i) = unat (pd_list_addr L) + 4096 * i"
proof -
  assume L: "layout_ok L" and i: "i < 32"
  have "pd_addr L i = of_nat (unat (pd_list_addr L) + 4096 * i)" by (simp add: pd_addr_def)
  then show ?thesis using L i by (simp only:) (rule unat_of_nat32, simp add: layout_ok_def)
qed

lemma pd_addr_above: "layout_ok L \<Longrightarrow> i < 32 \<Longrightarrow> KERNEL_VIRTUAL_ADDRESS_BASE < pd_addr L i"
  using unat_pd_addr [of L i] by (simp add: layout_ok_def word_less_nat_alt)

lemma pd_addr_not_0: "layout_ok L \<Longrightarrow> i < 32 \<Longrightarrow> pd_addr L i \<noteq> 0"
  using pd_addr_above [of L i] by (auto simp: KERNEL_VIRTUAL_ADDRESS_BASE_def)

lemma pd_addr_inj: "layout_ok L \<Longrightarrow> i < 32 \<Longrightarrow> j < 32 \<Longrightarrow> pd_addr L i = pd_addr L j \<longleftrightarrow> i = j"
proof
  assume L: "layout_ok L" "i < 32" "j < 32" and "pd_addr L i = pd_addr L j"
  then have "unat (pd_addr L i) = unat (pd_addr L j)" by simp
  then show "i = j" using unat_pd_addr [OF L(1)] L by simp
qed simp

lemma pd_index_addr [simp]: "layout_ok L \<Longrightarrow> i < 32 \<Longrightarrow> pd_index L (pd_addr L i) = Some i"
  unfolding pd_index_def find_upt_Some page_constants by (auto simp: pd_addr_inj)

lemma pd_index_lt: "pd_index L a = Some i \<Longrightarrow> i < 32 \<and> pd_addr L i = a"
  by (auto simp: pd_index_def find_upt_Some page_constants)

text \<open>All directories by number, the kernel's last, and the number behind a pointer.\<close>

definition all_dirs :: "paging \<Rightarrow> page_directory list" where
  "all_dirs st = page_directory_list st @ [kernel_page_directory st]"

definition dir_addr :: "layout \<Rightarrow> nat \<Rightarrow> u32" where
  "dir_addr L i = (if i = 32 then kernel_pd_addr L else pd_addr L i)"

definition set_dir :: "nat \<Rightarrow> page_directory \<Rightarrow> paging \<Rightarrow> paging" where
  "set_dir i d st = (if i = 32 then st\<lparr>kernel_page_directory := d\<rparr>
                     else st\<lparr>page_directory_list := (page_directory_list st)[i := d]\<rparr>)"

lemma all_dirs_set_dir [simp]:
  "length (page_directory_list st) = 32 \<Longrightarrow> i < 33 \<Longrightarrow> all_dirs (set_dir i d st) = (all_dirs st)[i := d]"
  by (auto simp: all_dirs_def set_dir_def list_update_append)

lemma set_dir_fields [simp]:
  "page_frame_map (set_dir i d st) = page_frame_map st"
  "free_page_frame_count (set_dir i d st) = free_page_frame_count st"
  "page_directory_used (set_dir i d st) = page_directory_used st"
  "cr3 (set_dir i d st) = cr3 st"
  by (simp_all add: set_dir_def)

lemma pd_get_dir:
  "layout_ok L \<Longrightarrow> i < 33 \<Longrightarrow> length (page_directory_list st) = 32 \<Longrightarrow> pd_get L st (dir_addr L i) = Inr (all_dirs st ! i)"
  using pd_addr_not_0 [of L i]
  by (auto simp: pd_get_def dir_addr_def all_dirs_def nth_append layout_ok_def KERNEL_VIRTUAL_ADDRESS_BASE_def)

lemma pd_put_dir:
  "layout_ok L \<Longrightarrow> i < 33 \<Longrightarrow> pd_put L st (dir_addr L i) d = set_dir i d st"
  by (auto simp: pd_put_def dir_addr_def set_dir_def layout_ok_def)

section \<open>Translation\<close>

lemma page_index_lt [simp]: "page_index va < 1024"
proof -
  have m: "(0x3FF :: u32) = mask 10" by (simp add: mask_eq_exp_minus_1)
  have "unat (drop_bit 22 va AND 0x3FF) = unat (drop_bit 22 va) mod 1024"
    unfolding m by (simp add: take_bit_eq_mask [symmetric] unsigned_take_bit_eq take_bit_eq_mod unat_mod)
  then show ?thesis by (simp add: page_index_def)
qed

lemma frame_bits_frame: "f < 1024 \<Longrightarrow> frame_bits (of_nat (f * PAGE_FRAME_SIZE)) = of_nat f"
proof -
  assume f: "f < 1024"
  have u: "unat (of_nat (f * PAGE_FRAME_SIZE) :: u32) = f * 4194304"
    unfolding page_constants using f by (intro unat_of_nat32) simp
  have "drop_bit 22 (of_nat (f * PAGE_FRAME_SIZE) :: u32) = of_nat f"
    by (rule word_unat_eq_iff [THEN iffD2]) (use u f in \<open>simp add: unat_drop_bit_eq drop_bit_eq_div unat_of_nat32 unat_div\<close>)
  moreover have "(of_nat f AND 0x3FF :: u32) = of_nat f"
  proof -
    have m: "(0x3FF :: u32) = mask 10" by (simp add: mask_eq_exp_minus_1)
    show ?thesis unfolding m take_bit_eq_mask [symmetric] using f
      by (intro word_unat_eq_iff [THEN iffD2]) (simp add: unsigned_take_bit_eq take_bit_eq_mod unat_of_nat32 unat_mod)
  qed
  moreover have "(ucast (of_nat f :: u32) :: 10 word) = of_nat f"
    by (rule word_unat_eq_iff [THEN iffD2])
       (use f in \<open>simp add: unsigned_ucast_eq unsigned_of_nat take_bit_nat_eq_self take_bit_eq_mod\<close>)
  ultimately show ?thesis by (simp only: frame_bits_def)
qed

lemma translate_frame:
  assumes "present_bit (flag (dir ! page_index va))" and "user \<longrightarrow> user_bit (flag (dir ! page_index va))"
    and "lower_address (dir ! page_index va) = of_nat f" and "f < 1024"
  shows "translate dir user va = Some (of_nat (f * PAGE_FRAME_SIZE) + (va AND 0x3FFFFF))"
proof -
  have l: "push_bit 22 (ucast (of_nat f :: 10 word)) = (of_nat (f * PAGE_FRAME_SIZE) :: u32)"
  proof -
    have "(ucast (of_nat f :: 10 word) :: u32) = of_nat f"
      by (rule word_unat_eq_iff [THEN iffD2]) (use assms(4) in \<open>simp add: unsigned_ucast_eq unsigned_of_nat take_bit_nat_eq_self unat_of_nat32\<close>)
    then show ?thesis by (simp add: push_bit_eq_mult PAGE_FRAME_SIZE_def mult.commute)
  qed
  have m: "(0x3FFFFF :: u32) = mask 22" by (simp add: mask_eq_exp_minus_1)
  have "(push_bit 22 (ucast (of_nat f :: 10 word)) :: u32) AND (va AND 0x3FFFFF) = 0"
    unfolding m by (rule bit_word_eqI) (auto simp: bit_simps)
  then have or: "(push_bit 22 (ucast (of_nat f :: 10 word)) :: u32) OR (va AND 0x3FFFFF) =
      push_bit 22 (ucast (of_nat f :: 10 word)) + (va AND 0x3FFFFF)"
    by (rule disjunctive_add_eq_or [symmetric])
  have "translate dir user va = Some (push_bit 22 (ucast (of_nat f :: 10 word)) OR (va AND 0x3FFFFF))"
    using assms(1-3) by (simp add: translate_def)
  then show ?thesis unfolding or unfolding l .
qed

section \<open>The invariant\<close>

definition user_page :: "pde \<Rightarrow> bool" where
  "user_page e \<longleftrightarrow> present_bit (flag e) \<and> user_bit (flag e)"

text \<open>Entry \<open>k\<close> of directory \<open>i\<close> is a user page backed by frame \<open>f\<close>.\<close>

definition backed :: "paging \<Rightarrow> nat \<Rightarrow> nat \<Rightarrow> nat \<Rightarrow> bool" where
  "backed st i k f \<longleftrightarrow> i < 33 \<and> k < 1024 \<and> user_page (all_dirs st ! i ! k) \<and>
     unat (lower_address (all_dirs st ! i ! k)) = f"

definition paging_shape :: "paging \<Rightarrow> bool" where
  "paging_shape st \<longleftrightarrow> length (page_frame_map st) = 32 \<and> length (page_directory_list st) = 32 \<and>
     length (page_directory_used st) = 32 \<and> (\<forall>i<33. length (all_dirs st ! i) = 1024)"

definition paging_ok :: "paging \<Rightarrow> bool" where
  "paging_ok st \<longleftrightarrow> paging_shape st \<and> page_frame_map st ! 0 \<and>
     unat (free_page_frame_count st) = card {f. f < 32 \<and> \<not> page_frame_map st ! f} \<and>
     (\<forall>i<32. \<not> page_directory_used st ! i \<longrightarrow> page_directory_list st ! i = blank_directory) \<and>
     (\<forall>i k f. backed st i k f \<longrightarrow> f < 32 \<and> f \<noteq> 0 \<and> page_frame_map st ! f) \<and>
     (\<forall>i k f i' k'. backed st i k f \<and> backed st i' k' f \<longrightarrow> i = i' \<and> k = k')"

lemma paging_ok_D:
  assumes "paging_ok st"
  shows "length (page_frame_map st) = 32" "length (page_directory_list st) = 32"
    "length (page_directory_used st) = 32" "i < 33 \<Longrightarrow> length (all_dirs st ! i) = 1024" "page_frame_map st ! 0"
    "unat (free_page_frame_count st) = card {f. f < 32 \<and> \<not> page_frame_map st ! f}"
    "backed st i k f \<Longrightarrow> f < 32 \<and> f \<noteq> 0 \<and> page_frame_map st ! f"
    "backed st i k f \<Longrightarrow> backed st i' k' f \<Longrightarrow> i = i' \<and> k = k'"
    "i < 32 \<Longrightarrow> \<not> page_directory_used st ! i \<Longrightarrow> page_directory_list st ! i = blank_directory"
  using assms unfolding paging_ok_def paging_shape_def by blast+

text \<open>The frame table and the directory pool are first-fit pools.\<close>

definition claim_frame :: "paging \<Rightarrow> (nat \<times> paging) option" where
  "claim_frame st = map_option (\<lambda>i. (i, st\<lparr>page_frame_map := (page_frame_map st)[i := True]\<rparr>))
     (first_clear (page_frame_map st) PAGE_FRAME_MAX_COUNT)"

interpretation frames: slot_pool "\<lambda>st i. page_frame_map st ! i" 32 "\<lambda>st. length (page_frame_map st) = 32" claim_frame
  by unfold_locales
     (auto simp: claim_frame_def first_clear_Some first_clear_None page_constants nth_list_update)

definition claim_directory :: "layout \<Rightarrow> paging \<Rightarrow> (nat \<times> paging) option" where
  "claim_directory L st = map_option (\<lambda>i. (i, snd (paging_create_new_page_directory L st)))
     (first_clear (page_directory_used st) PAGING_DIRECTORY_TABLE_MAX_COUNT)"

lemma claim_directory_alt:
  "claim_directory L st = map_option (\<lambda>i. (i, st\<lparr>page_directory_used := (page_directory_used st)[i := True],
     page_directory_list := (page_directory_list st)[i := (page_directory_list st ! i)[0x300 := kernel_pde]]\<rparr>))
     (first_clear (page_directory_used st) PAGING_DIRECTORY_TABLE_MAX_COUNT)"
  by (simp add: claim_directory_def paging_create_new_page_directory_def split: option.split)

interpretation directories: slot_pool "\<lambda>st i. page_directory_used st ! i" 32
  "\<lambda>st. length (page_directory_used st) = 32" "claim_directory L" for L
  by unfold_locales
     (auto simp: claim_directory_alt first_clear_Some first_clear_None page_constants nth_list_update)

lemma free_count_in_use:
  assumes "paging_ok st"
  shows "unat (free_page_frame_count st) + frames.in_use st = 32"
proof -
  have "card {f. f < 32 \<and> \<not> page_frame_map st ! f} + card {f. f < 32 \<and> page_frame_map st ! f} =
      card ({f. f < 32 \<and> \<not> page_frame_map st ! f} \<union> {f. f < 32 \<and> page_frame_map st ! f})"
    by (rule card_Un_disjoint [symmetric]) auto
  also have "{f. f < 32 \<and> \<not> page_frame_map st ! f} \<union> {f. f < 32 \<and> page_frame_map st ! f} = {..<32}" by auto
  finally show ?thesis using paging_ok_D(6) [OF assms] by (simp add: frames.in_use_def)
qed

lemma free_frame_exists:
  assumes "paging_ok st" shows "0 < free_page_frame_count st \<longleftrightarrow> first_clear (page_frame_map st) PAGE_FRAME_MAX_COUNT \<noteq> None"
proof -
  have "claim_frame st = None \<longleftrightarrow> frames.in_use st = 32"
    using paging_ok_D(1) [OF assms] by (rule frames.claim_None_iff)
  then show ?thesis
    using free_count_in_use [OF assms] by (auto simp: claim_frame_def word_less_nat_alt)
qed

section \<open>What the operations do\<close>

lemma all_dirs_other [simp]:
  "all_dirs (st\<lparr>page_frame_map := m\<rparr>) = all_dirs st"
  "all_dirs (st\<lparr>free_page_frame_count := n\<rparr>) = all_dirs st"
  "all_dirs (st\<lparr>page_directory_used := u\<rparr>) = all_dirs st"
  "all_dirs (st\<lparr>cr3 := c\<rparr>) = all_dirs st"
  by (simp_all add: all_dirs_def)

lemma length_all_dirs [simp]: "length (page_directory_list st) = 32 \<Longrightarrow> length (all_dirs st) = 33"
  by (simp add: all_dirs_def)

definition allocated :: "nat \<Rightarrow> u32 \<Rightarrow> nat \<Rightarrow> paging \<Rightarrow> paging" where
  "allocated i va f st =
     (set_dir i (update_entry (all_dirs st ! i) (of_nat (f * PAGE_FRAME_SIZE)) va user_flags)
       (st\<lparr>page_frame_map := (page_frame_map st)[f := True]\<rparr>))
     \<lparr>free_page_frame_count := free_page_frame_count st - 1\<rparr>"

definition unmapped :: "nat \<Rightarrow> u32 \<Rightarrow> paging \<Rightarrow> paging" where
  "unmapped i va st =
     set_dir i (update_entry (all_dirs st ! i) 0 va no_flags)
       (st\<lparr>page_frame_map := (page_frame_map st)[unat (lower_address (all_dirs st ! i ! page_index va)) := False],
          free_page_frame_count := free_page_frame_count st + 1\<rparr>)"

lemma allocate_effect:
  assumes "paging_ok st" and "layout_ok L" and "i < 33" and "first_clear (page_frame_map st) PAGE_FRAME_MAX_COUNT = Some f"
  shows "paging_allocate_user_page_frame L (dir_addr L i) va st = Inr (True, allocated i va f st)"
  using assms(2-4) paging_ok_D(2) [OF assms(1)]
  by (simp add: paging_allocate_user_page_frame_def update_page_directory_entry_def pd_get_dir pd_put_dir allocated_def)

lemma allocate_no_frame:
  "first_clear (page_frame_map st) PAGE_FRAME_MAX_COUNT = None \<Longrightarrow>
   paging_allocate_user_page_frame L a va st = Inl Out_Of_Bounds"
  by (simp add: paging_allocate_user_page_frame_def)

lemma free_effect:
  assumes "paging_ok st" and "layout_ok L" and "i < 33" and "unat (lower_address (all_dirs st ! i ! page_index va)) < 32"
  shows "paging_free_user_page_frame L (dir_addr L i) va st = Inr (True, unmapped i va st)"
  using assms(2-4) paging_ok_D(1,2) [OF assms(1)]
  by (simp add: paging_free_user_page_frame_def update_page_directory_entry_def pd_get_dir pd_put_dir unmapped_def
      arr_set_def)

lemma backed_fun: "backed st i k f \<Longrightarrow> backed st i k f' \<Longrightarrow> f = f'"
  by (simp add: backed_def)

lemma unat_10: "f < 1024 \<Longrightarrow> unat (of_nat f :: 10 word) = f"
  by (simp add: unsigned_of_nat take_bit_nat_eq_self)

lemma backed_allocated:
  assumes "paging_ok st" and "i < 33" and "f < 32"
  shows "backed (allocated i va f st) i' k' f' \<longleftrightarrow>
    (if i' = i \<and> k' = page_index va then f' = f else backed st i' k' f')"
proof -
  have len: "length (page_directory_list st) = 32" "length (all_dirs st ! i) = 1024"
    using paging_ok_D [OF assms(1)] assms(2) by auto
  have dirs: "all_dirs (allocated i va f st) =
      (all_dirs st)[i := update_entry (all_dirs st ! i) (of_nat (f * PAGE_FRAME_SIZE)) va user_flags]"
    using len(1) assms(2) by (simp add: allocated_def)
  have fb: "frame_bits (of_nat (f * PAGE_FRAME_SIZE)) = of_nat f" using assms(3) by (intro frame_bits_frame) simp
  show ?thesis
    unfolding backed_def dirs update_entry_def fb
    using assms len page_index_lt [of va]
    by (cases "i' = i"; cases "k' = page_index va")
       (auto simp: user_page_def user_flags_def unat_10)
qed

lemma backed_unmapped:
  assumes "paging_ok st" and "i < 33"
  shows "backed (unmapped i va st) i' k' f' \<longleftrightarrow> \<not> (i' = i \<and> k' = page_index va) \<and> backed st i' k' f'"
proof -
  have len: "length (page_directory_list st) = 32" "length (all_dirs st ! i) = 1024"
    using paging_ok_D [OF assms(1)] assms(2) by auto
  have dirs: "all_dirs (unmapped i va st) = (all_dirs st)[i := update_entry (all_dirs st ! i) 0 va no_flags]"
    using len(1) assms(2) by (simp add: unmapped_def)
  show ?thesis
    unfolding backed_def dirs update_entry_def
    using assms len page_index_lt [of va]
    by (cases "i' = i"; cases "k' = page_index va") (auto simp: user_page_def no_flags_def)
qed

lemma card_clear_update:
  assumes "length m = 32" and "f < 32"
  shows "\<not> m ! f \<Longrightarrow> card {g. g < 32 \<and> \<not> m ! g} = Suc (card {g. g < 32 \<and> \<not> m[f := True] ! g})"
    and "m ! f \<Longrightarrow> card {g. g < 32 \<and> \<not> m[f := False] ! g} = Suc (card {g. g < 32 \<and> \<not> m ! g})"
proof -
  assume c: "\<not> m ! f"
  have "{g. g < 32 \<and> \<not> m ! g} = insert f {g. g < 32 \<and> \<not> m[f := True] ! g}"
    using assms c by (auto simp: nth_list_update)
  moreover have "f \<notin> {g. g < 32 \<and> \<not> m[f := True] ! g}" using assms by simp
  ultimately show "card {g. g < 32 \<and> \<not> m ! g} = Suc (card {g. g < 32 \<and> \<not> m[f := True] ! g})"
    by simp
next
  assume c: "m ! f"
  have "{g. g < 32 \<and> \<not> m[f := False] ! g} = insert f {g. g < 32 \<and> \<not> m ! g}"
    using assms c by (auto simp: nth_list_update)
  then show "card {g. g < 32 \<and> \<not> m[f := False] ! g} = Suc (card {g. g < 32 \<and> \<not> m ! g})"
    using c by simp
qed

lemma all_dirs_list: "length (page_directory_list st) = 32 \<Longrightarrow> i < 32 \<Longrightarrow> all_dirs st ! i = page_directory_list st ! i"
  by (simp add: all_dirs_def nth_append)

lemma paging_ok_allocated:
  assumes ok: "paging_ok st" and "i < 33" and "i = 32 \<or> page_directory_used st ! i"
    and f: "first_clear (page_frame_map st) PAGE_FRAME_MAX_COUNT = Some f"
  shows "paging_ok (allocated i va f st)"
proof -
  note D = paging_ok_D [OF ok]
  have f32: "f < 32" "\<not> page_frame_map st ! f" using f by (auto simp: first_clear_Some page_constants)
  note bk = backed_allocated [OF ok assms(2) f32(1)]
  have nb: "\<not> backed st i' k' f" for i' k' using D(7) f32(2) by blast
  have dirs: "all_dirs (allocated i va f st) =
      (all_dirs st)[i := update_entry (all_dirs st ! i) (of_nat (f * PAGE_FRAME_SIZE)) va user_flags]"
    using D(2) assms(2) by (simp add: allocated_def)
  have map: "page_frame_map (allocated i va f st) = (page_frame_map st)[f := True]"
    and used: "page_directory_used (allocated i va f st) = page_directory_used st"
    and cnt: "free_page_frame_count (allocated i va f st) = free_page_frame_count st - 1"
    by (simp_all add: allocated_def)
  have lst: "length (page_directory_list (allocated i va f st)) = 32"
    using D(2) by (simp add: allocated_def set_dir_def)
  have shape: "paging_shape (allocated i va f st)"
    using D(1-4) assms(2) lst by (auto simp: paging_shape_def dirs map used nth_list_update update_entry_def)
  have free: "unat (free_page_frame_count (allocated i va f st)) =
      card {g. g < 32 \<and> \<not> page_frame_map (allocated i va f st) ! g}"
  proof -
    have c: "unat (free_page_frame_count st) = Suc (card {g. g < 32 \<and> \<not> (page_frame_map st)[f := True] ! g})"
      using D(6) card_clear_update(1) [OF D(1) f32] by simp
    then have "0 < free_page_frame_count st" by (simp add: word_less_nat_alt)
    then show ?thesis unfolding map cnt using c by (simp add: unat_minus_one)
  qed
  have blank: "page_directory_list (allocated i va f st) ! j = blank_directory"
    if "j < 32" "\<not> page_directory_used st ! j" for j
  proof -
    have "j \<noteq> i" using that assms(3) by auto
    then have "all_dirs (allocated i va f st) ! j = all_dirs st ! j" by (simp add: dirs)
    then show ?thesis using that D(2,9) lst by (simp add: all_dirs_list)
  qed
  have f0: "f \<noteq> 0" using D(5) f32(2) by metis
  have zero: "page_frame_map (allocated i va f st) ! 0" using D(5) f0 by (simp add: map)
  have marked: "g < 32 \<and> g \<noteq> 0 \<and> page_frame_map (allocated i va f st) ! g"
    if "backed (allocated i va f st) i' k' g" for i' k' g
    using that D(1) D(7) [of i' k' g] f32 f0 unfolding bk map
    by (cases "g = f") (auto split: if_splits)
  have excl: "i' = j' \<and> k' = l'"
    if "backed (allocated i va f st) i' k' g" "backed (allocated i va f st) j' l' g" for i' k' j' l' g
    using that D(8) [of i' k' g j' l'] nb unfolding bk by (auto split: if_splits)
  show ?thesis
    unfolding paging_ok_def used using shape zero free blank marked excl by blast
qed

lemma paging_ok_unmapped:
  assumes ok: "paging_ok st" and "i < 33" and "i = 32 \<or> page_directory_used st ! i"
    and g: "backed st i (page_index va) g"
  shows "paging_ok (unmapped i va st)"
proof -
  note D = paging_ok_D [OF ok]
  have g32: "g < 32" "g \<noteq> 0" "page_frame_map st ! g" using D(7) [OF g] by auto
  have low: "unat (lower_address (all_dirs st ! i ! page_index va)) = g" using g by (simp add: backed_def)
  note bk = backed_unmapped [OF ok assms(2)]
  have dirs: "all_dirs (unmapped i va st) = (all_dirs st)[i := update_entry (all_dirs st ! i) 0 va no_flags]"
    using D(2) assms(2) by (simp add: unmapped_def)
  have map: "page_frame_map (unmapped i va st) = (page_frame_map st)[g := False]"
    and used: "page_directory_used (unmapped i va st) = page_directory_used st"
    and cnt: "free_page_frame_count (unmapped i va st) = free_page_frame_count st + 1"
    by (simp_all add: unmapped_def low)
  have lst: "length (page_directory_list (unmapped i va st)) = 32"
    using D(2) by (simp add: unmapped_def set_dir_def)
  have shape: "paging_shape (unmapped i va st)"
    using D(1-4) assms(2) lst by (auto simp: paging_shape_def dirs map used nth_list_update update_entry_def)
  have free: "unat (free_page_frame_count (unmapped i va st)) =
      card {h. h < 32 \<and> \<not> page_frame_map (unmapped i va st) ! h}"
  proof -
    have "unat (free_page_frame_count st) \<le> 32" using free_count_in_use [OF ok] by simp
    then have "unat (free_page_frame_count st + 1) = Suc (unat (free_page_frame_count st))"
      by (simp add: unat_word_ariths)
    then show ?thesis unfolding map cnt using D(6) card_clear_update(2) [OF D(1) g32(1,3)] by simp
  qed
  have blank: "page_directory_list (unmapped i va st) ! j = blank_directory"
    if "j < 32" "\<not> page_directory_used st ! j" for j
  proof -
    have "j \<noteq> i" using that assms(3) by auto
    then have "all_dirs (unmapped i va st) ! j = all_dirs st ! j" by (simp add: dirs)
    then show ?thesis using that D(2,9) lst by (simp add: all_dirs_list)
  qed
  have zero: "page_frame_map (unmapped i va st) ! 0" using D(5) g32(2) by (simp add: map)
  have marked: "h < 32 \<and> h \<noteq> 0 \<and> page_frame_map (unmapped i va st) ! h"
    if "backed (unmapped i va st) i' k' h" for i' k' h
  proof -
    have b: "backed st i' k' h" "\<not> (i' = i \<and> k' = page_index va)" using that unfolding bk by auto
    then have "h \<noteq> g" using D(8) [OF _ g, of i' k'] by auto
    then show ?thesis using D(7) [OF b(1)] by (simp add: map)
  qed
  have excl: "i' = j' \<and> k' = l'"
    if "backed (unmapped i va st) i' k' h" "backed (unmapped i va st) j' l' h" for i' k' j' l' h
    using that D(8) [of i' k' h j' l'] unfolding bk by blast
  show ?thesis
    unfolding paging_ok_def used using shape zero free blank marked excl by blast
qed

lemma create_None:
  "first_clear (page_directory_used st) PAGING_DIRECTORY_TABLE_MAX_COUNT = None \<Longrightarrow>
   paging_create_new_page_directory L st = (0, st)"
  by (simp add: paging_create_new_page_directory_def)

definition created :: "nat \<Rightarrow> paging \<Rightarrow> paging" where
  "created i st = st\<lparr>page_directory_used := (page_directory_used st)[i := True],
     page_directory_list := (page_directory_list st)[i := blank_directory[0x300 := kernel_pde]]\<rparr>"

lemma create_effect:
  assumes "paging_ok st" and "first_clear (page_directory_used st) PAGING_DIRECTORY_TABLE_MAX_COUNT = Some i"
  shows "paging_create_new_page_directory L st = (pd_addr L i, created i st)"
proof -
  have "page_directory_list st ! i = blank_directory"
    using assms(2) paging_ok_D(9) [OF assms(1), of i] by (simp add: first_clear_Some page_constants)
  then show ?thesis unfolding paging_create_new_page_directory_def assms(2) by (simp add: created_def)
qed

definition released :: "nat \<Rightarrow> paging \<Rightarrow> paging" where
  "released i st = st\<lparr>page_directory_used := (page_directory_used st)[i := False],
     page_directory_list := (page_directory_list st)[i := blank_directory]\<rparr>"

lemma free_directory_effect:
  assumes "paging_ok st" and "layout_ok L" and "i < 32"
  shows "paging_free_page_directory L (pd_addr L i) st = (True, released i st)"
proof -
  have "length (page_directory_list st ! i) = PAGE_ENTRY_COUNT"
    using paging_ok_D(4) [OF assms(1), of i] all_dirs_list [OF paging_ok_D(2) [OF assms(1)] assms(3)] assms(3)
    by (simp add: page_constants)
  note fill = fold_fill_all [OF this]
  show ?thesis
    unfolding paging_free_page_directory_def released_def blank_directory_def using assms(2,3) by (simp add: fill)
qed

lemma not_user: "\<not> user_page kernel_pde" "\<not> user_page zero_pde"
  by (simp_all add: user_page_def kernel_pde_def zero_pde_def no_flags_def)

lemma blank_nth: "k < 1024 \<Longrightarrow> blank_directory ! k = zero_pde"
  by (simp add: blank_directory_def page_constants)

text \<open>Replacing directory \<open>i\<close> by one without user pages drops its pages and nothing else.\<close>

lemma backed_replaced:
  assumes "length (page_directory_list st) = 32" and "i < 32" and "\<And>k. k < 1024 \<Longrightarrow> \<not> user_page (d ! k)"
  shows "backed (st\<lparr>page_directory_used := u, page_directory_list := (page_directory_list st)[i := d]\<rparr>) i' k' f \<longleftrightarrow>
    i' \<noteq> i \<and> backed st i' k' f"
  using assms by (cases "i' = i") (auto simp: backed_def all_dirs_def nth_append)

lemma paging_ok_replaced:
  assumes ok: "paging_ok st" and "i < 32" and d: "\<And>k. k < 1024 \<Longrightarrow> \<not> user_page (d ! k)" "length d = 1024"
    and "\<not> b \<longrightarrow> d = blank_directory"
  shows "paging_ok (st\<lparr>page_directory_used := (page_directory_used st)[i := b],
    page_directory_list := (page_directory_list st)[i := d]\<rparr>)"
proof -
  note D = paging_ok_D [OF ok]
  have bk: "backed (st\<lparr>page_directory_used := u, page_directory_list := (page_directory_list st)[i := d]\<rparr>) i' k' f \<longleftrightarrow>
      i' \<noteq> i \<and> backed st i' k' f" for u i' k' f
    using D(2) assms(2) d(1) by (rule backed_replaced)
  let ?st = "st\<lparr>page_directory_used := (page_directory_used st)[i := b],
    page_directory_list := (page_directory_list st)[i := d]\<rparr>"
  have "length (all_dirs ?st ! j) = 1024" if "j < 33" for j
  proof (cases "j = i")
    case True
    then show ?thesis using assms(2) d(2) D(2) by (simp add: all_dirs_def nth_append)
  next
    case False
    then have "all_dirs ?st ! j = all_dirs st ! j" using D(2) by (simp add: all_dirs_def nth_append)
    then show ?thesis using D(4) [OF that] by simp
  qed
  then have shape: "paging_shape ?st" using D(1-3) by (simp add: paging_shape_def)
  have blank: "page_directory_list ?st ! j = blank_directory" if "j < 32" "\<not> page_directory_used ?st ! j" for j
    using that D(2,3) D(9) [of j] assms(2,5) by (cases "j = i") auto
  show ?thesis
    unfolding paging_ok_def bk using shape blank D(5-8) by simp blast
qed

lemma paging_ok_created:
  assumes "paging_ok st" and "i < 32"
  shows "paging_ok (created i st)"
proof -
  have "\<not> user_page (blank_directory[0x300 := kernel_pde] ! k)" if "k < 1024" for k
    using that not_user by (cases "k = 0x300") (auto simp: blank_nth blank_directory_def page_constants)
  then show ?thesis
    unfolding created_def by (intro paging_ok_replaced assms) (auto simp: blank_directory_def page_constants)
qed

lemma paging_ok_released:
  assumes "paging_ok st" and "i < 32"
  shows "paging_ok (released i st)"
  unfolding released_def
  by (intro paging_ok_replaced assms) (auto simp: not_user blank_nth, auto simp: blank_directory_def page_constants)

lemma paging_ok_use: "paging_ok (paging_use_page_directory a st) = paging_ok st"
proof -
  have "backed (paging_use_page_directory a st) = backed st"
    by (intro ext) (simp add: backed_def paging_use_page_directory_def)
  then show ?thesis
    by (simp add: paging_ok_def paging_shape_def) (simp add: paging_use_page_directory_def)
qed

lemma paging_start_unbacked: "\<not> backed (paging_start L) i k f"
proof
  have dirs: "all_dirs (paging_start L) ! i = (if i < 32 then blank_directory
      else blank_directory[0 := kernel_pde, 0x300 := kernel_pde])" if "i < 33" for i
    using that by (auto simp: all_dirs_def paging_start_def nth_append page_constants)
  assume "backed (paging_start L) i k f"
  then have "i < 33" "k < 1024" "user_page (all_dirs (paging_start L) ! i ! k)" by (auto simp: backed_def)
  then show False using not_user
    by (cases "k = 0"; cases "k = 0x300") (auto simp: dirs blank_nth blank_directory_def page_constants split: if_splits)
qed

lemma paging_start_shape: "paging_shape (paging_start L)"
proof -
  have "length (all_dirs (paging_start L) ! i) = 1024" if "i < 33" for i
    using that by (auto simp: all_dirs_def paging_start_def nth_append page_constants blank_directory_def)
  then show ?thesis by (simp add: paging_shape_def) (simp add: paging_start_def page_constants)
qed

lemma paging_start_ok: "paging_ok (paging_start L)"
proof -
  have "f < 32 \<and> \<not> page_frame_map (paging_start L) ! f \<longleftrightarrow> f \<in> {1..<32}" for f
    by (cases f) (auto simp: paging_start_def page_constants)
  then have "{f. f < 32 \<and> \<not> page_frame_map (paging_start L) ! f} = {1..<32}" by blast
  then have "unat (free_page_frame_count (paging_start L)) = card {f. f < 32 \<and> \<not> page_frame_map (paging_start L) ! f}"
    by (simp add: paging_start_def page_constants)
  then show ?thesis
    using paging_start_unbacked paging_start_shape by (simp add: paging_ok_def) (simp add: paging_start_def page_constants)
qed

text \<open>The same with a single free frame left.\<close>

definition paging_tight :: "layout \<Rightarrow> paging" where
  "paging_tight L = (paging_start L)\<lparr>page_frame_map := replicate 31 True @ [False], free_page_frame_count := 1\<rparr>"

lemma paging_tight_ok: "paging_ok (paging_tight L)"
proof -
  have "f < 32 \<and> \<not> page_frame_map (paging_tight L) ! f \<longleftrightarrow> f = 31" for f
    by (auto simp: paging_tight_def nth_append)
  then have "{f. f < 32 \<and> \<not> page_frame_map (paging_tight L) ! f} = {31}" by blast
  then have "unat (free_page_frame_count (paging_tight L)) = card {f. f < 32 \<and> \<not> page_frame_map (paging_tight L) ! f}"
    by (simp add: paging_tight_def)
  moreover have "backed (paging_tight L) i k f = backed (paging_start L) i k f" for i k f
    by (simp add: backed_def paging_tight_def)
  moreover have "paging_shape (paging_tight L)"
    using paging_start_shape [of L] by (simp add: paging_shape_def paging_tight_def)
  ultimately show ?thesis
    using paging_start_unbacked by (simp add: paging_ok_def) (simp add: paging_tight_def paging_start_def page_constants nth_append)
qed

section \<open>Sequences of calls\<close>

text \<open>
  One call. A frame is mapped into the kernel's directory or one in use, and only user pages
  are unmapped; a directory may be released whatever it maps, and by any pointer.
\<close>

inductive paging_call :: "layout \<Rightarrow> paging \<Rightarrow> paging \<Rightarrow> bool" for L where
  call_allocate: "i < 33 \<Longrightarrow> i = 32 \<or> page_directory_used st ! i \<Longrightarrow>
    paging_allocate_user_page_frame L (dir_addr L i) va st = Inr (r, st') \<Longrightarrow> paging_call L st st'"
| call_free: "i < 33 \<Longrightarrow> i = 32 \<or> page_directory_used st ! i \<Longrightarrow>
    user_page (all_dirs st ! i ! page_index va) \<Longrightarrow>
    paging_free_user_page_frame L (dir_addr L i) va st = Inr (r, st') \<Longrightarrow> paging_call L st st'"
| call_create: "paging_create_new_page_directory L st = (a, st') \<Longrightarrow> paging_call L st st'"
| call_release: "paging_free_page_directory L a st = (r, st') \<Longrightarrow> paging_call L st st'"
| call_use: "paging_call L st (paging_use_page_directory a st)"

lemma paging_call_ok:
  assumes "paging_call L st st'" and L: "layout_ok L" and ok: "paging_ok st"
  shows "paging_ok st'"
  using assms(1)
proof cases
  case (call_allocate i va r)
  show ?thesis
  proof (cases "first_clear (page_frame_map st) PAGE_FRAME_MAX_COUNT")
    case None
    then show ?thesis using call_allocate(3) by (simp add: allocate_no_frame)
  next
    case (Some f)
    then show ?thesis
      using call_allocate(3) allocate_effect [OF ok L call_allocate(1) Some]
        paging_ok_allocated [OF ok call_allocate(1,2) Some] by auto
  qed
next
  case (call_free i va r)
  then have b: "backed st i (page_index va) (unat (lower_address (all_dirs st ! i ! page_index va)))"
    by (simp add: backed_def)
  then show ?thesis
    using call_free(4) free_effect [OF ok L call_free(1)] paging_ok_D(7) [OF ok b]
      paging_ok_unmapped [OF ok call_free(1,2) b] by auto
next
  case (call_create a)
  show ?thesis
  proof (cases "first_clear (page_directory_used st) PAGING_DIRECTORY_TABLE_MAX_COUNT")
    case None
    then show ?thesis using call_create ok by (simp add: create_None)
  next
    case (Some i)
    then have "i < 32" by (simp add: first_clear_Some page_constants)
    then show ?thesis using call_create create_effect [OF ok Some, of L] paging_ok_created [OF ok] by auto
  qed
next
  case (call_release a r)
  show ?thesis
  proof (cases "pd_index L a")
    case None
    then show ?thesis using call_release ok by (simp add: paging_free_page_directory_def)
  next
    case (Some i)
    then have "i < 32" "a = pd_addr L i" using pd_index_lt by auto
    then show ?thesis using call_release free_directory_effect [OF ok L, of i] paging_ok_released [OF ok] by auto
  qed
next
  case (call_use a)
  then show ?thesis using ok by (simp add: paging_ok_use)
qed

interpretation paging_calls: step_invariant "paging_call L" "\<lambda>st. layout_ok L \<longrightarrow> paging_ok st" for L
  by unfold_locales (blast intro: paging_call_ok)

section \<open>The properties\<close>

text \<open>
  The page directory entry has the layout of the processor: present, write and user
  are bits 0 to 2, the page size is bit 7, the frame number is bits 22 to 31, and entries
  with different fields are different words.
\<close>

theorem pde_layout:
  "(bit (pde_word e) 0 = present_bit (flag e)) \<and> (bit (pde_word e) 1 = write_bit (flag e)) \<and>
   (bit (pde_word e) 2 = user_bit (flag e)) \<and> (bit (pde_word e) 7 = use_pagesize_4_mb (flag e)) \<and>
   ucast (drop_bit 22 (pde_word e)) = lower_address e \<and> (pde_word e = pde_word e' \<longleftrightarrow> e = e')"
  by (intro conjI pde_word_flag_bits pde_word_lower pde_word_inj)

text \<open>
  Allocating a frame, from a state that satisfies the invariant. With a free frame the
  call returns true, takes the lowest free one, decrements the free count, and from then on
  every address of that 4 MiB page translates, for user and supervisor, to the same offset
  in that frame, while every other page of every directory translates as before. With no
  free frame it does not return false: it stores to index -1 of the frame table.
\<close>

theorem paging_allocate_maps:
  assumes "paging_ok st" and "layout_ok L" and "i < 33"
  shows "if free_page_frame_count st = 0 then
      paging_allocate_user_page_frame L (dir_addr L i) va st = Inl Out_Of_Bounds
    else \<exists>f st'. paging_allocate_user_page_frame L (dir_addr L i) va st = Inr (True, st') \<and>
      f < 32 \<and> \<not> page_frame_map st ! f \<and> (\<forall>g<f. page_frame_map st ! g) \<and>
      page_frame_map st' = (page_frame_map st)[f := True] \<and>
      unat (free_page_frame_count st') = unat (free_page_frame_count st) - 1 \<and>
      (\<forall>user va'. translate (all_dirs st' ! i) user va' =
         (if page_index va' = page_index va then Some (of_nat (f * PAGE_FRAME_SIZE) + (va' AND 0x3FFFFF))
          else translate (all_dirs st ! i) user va')) \<and>
      (\<forall>j<33. j \<noteq> i \<longrightarrow> all_dirs st' ! j = all_dirs st ! j)"
proof (cases "free_page_frame_count st = 0")
  case True
  then have "first_clear (page_frame_map st) PAGE_FRAME_MAX_COUNT = None"
    using free_frame_exists [OF assms(1)] by auto
  then show ?thesis using True by (simp add: allocate_no_frame)
next
  case False
  then have "0 < free_page_frame_count st" by (simp add: word_neq_0_conv)
  then obtain f where f: "first_clear (page_frame_map st) PAGE_FRAME_MAX_COUNT = Some f"
    using free_frame_exists [OF assms(1)] by auto
  then have f32: "f < 32" "\<not> page_frame_map st ! f" "\<forall>g<f. page_frame_map st ! g"
    by (auto simp: first_clear_Some page_constants)
  note D = paging_ok_D [OF assms(1)]
  let ?d = "update_entry (all_dirs st ! i) (of_nat (f * PAGE_FRAME_SIZE)) va user_flags"
  have dirs: "all_dirs (allocated i va f st) = (all_dirs st)[i := ?d]"
    using D(2) assms(3) by (simp add: allocated_def)
  have fb: "frame_bits (of_nat (f * PAGE_FRAME_SIZE)) = of_nat f" using f32(1) by (intro frame_bits_frame) simp
  have e: "?d ! page_index va' = (if page_index va' = page_index va
      then (all_dirs st ! i ! page_index va)\<lparr>flag := user_flags, lower_address := of_nat f\<rparr>
      else all_dirs st ! i ! page_index va')" for va'
    using D(4) [OF assms(3)] page_index_lt [of va] unfolding update_entry_def fb by (auto simp: nth_list_update)
  have tr: "translate ?d user va' =
      (if page_index va' = page_index va then Some (of_nat (f * PAGE_FRAME_SIZE) + (va' AND 0x3FFFFF))
       else translate (all_dirs st ! i) user va')" for user va'
  proof (cases "page_index va' = page_index va")
    case True
    then have "?d ! page_index va' = (all_dirs st ! i ! page_index va)\<lparr>flag := user_flags, lower_address := of_nat f\<rparr>"
      using e [of va'] by simp
    then have "translate ?d user va' = Some (of_nat (f * PAGE_FRAME_SIZE) + (va' AND 0x3FFFFF))"
      using f32(1) by (intro translate_frame) (simp_all add: user_flags_def)
    with True show ?thesis by simp
  next
    case False
    then show ?thesis using e [of va'] by (simp add: translate_def)
  qed
  have "unat (free_page_frame_count (allocated i va f st)) = unat (free_page_frame_count st) - 1"
    using False by (simp add: allocated_def unat_minus_one)
  moreover have "page_frame_map (allocated i va f st) = (page_frame_map st)[f := True]"
    by (simp add: allocated_def)
  moreover have "i < length (all_dirs st)" using D(2) assms(3) by simp
  ultimately show ?thesis
    using allocate_effect [OF assms f, of va] f32 False tr dirs by auto
qed

definition demo_layout :: layout where
  "demo_layout = \<lparr>kernel_pd_addr = 0xC0100000, pd_list_addr = 0xC0200000\<rparr>"

lemma demo_layout_ok: "layout_ok demo_layout"
proof -
  have "unat (0xC0200000 + of_nat (4096 * i) :: u32) = 0xC0200000 + 4096 * i" if "i < 32" for i
  proof -
    have "(0xC0200000 + of_nat (4096 * i) :: u32) = of_nat (0xC0200000 + 4096 * i)" by simp
    then show ?thesis using that by (simp only:) (rule unat_of_nat32, simp)
  qed
  then have "pd_addr demo_layout i \<noteq> 0xC0100000" if "i < 32" for i
    using that by (auto simp: pd_addr_def demo_layout_def word_unat_eq_iff)
  then show ?thesis
    by (simp add: layout_ok_def) (simp add: demo_layout_def KERNEL_VIRTUAL_ADDRESS_BASE_def)
qed

theorem paging_allocate_maps_witness:
  "\<exists>f st'. paging_allocate_user_page_frame demo_layout (dir_addr demo_layout 32) 0 (paging_start demo_layout) = Inr (True, st') \<and>
     translate (all_dirs st' ! 32) True 5 = Some (of_nat (f * PAGE_FRAME_SIZE) + (5 AND 0x3FFFFF))"
proof -
  have "free_page_frame_count (paging_start demo_layout) \<noteq> 0" by (simp add: paging_start_def page_constants)
  moreover have "page_index 5 = page_index 0" by (simp add: page_index_def)
  ultimately show ?thesis
    using paging_allocate_maps [OF paging_start_ok demo_layout_ok, of 32 demo_layout 0] by auto
qed

text \<open>
  C18. Through any sequence of allocations, releases, directory creations and switches from
  the initial state, the free counter equals the number of clear flags, a user page is
  always backed by one of the 32 frames, marked used and not the kernel's frame 0, and no
  frame backs two user pages, in whichever directories they are. The contract is the one
  stated at \<open>paging_call\<close>: a page that is released is a mapped user page, which
  \<open>paging_free_user_page_frame\<close> does not check.
\<close>

theorem paging_frames_exclusive:
  assumes "layout_ok L" and "(paging_call L)\<^sup>*\<^sup>* (paging_start L) st"
  shows "unat (free_page_frame_count st) = card {f. f < 32 \<and> \<not> page_frame_map st ! f} \<and>
    (\<forall>i k f. backed st i k f \<longrightarrow> 0 < f \<and> f < 32 \<and> page_frame_map st ! f) \<and>
    (\<forall>i k i' k' f. backed st i k f \<and> backed st i' k' f \<longrightarrow> i = i' \<and> k = k')"
proof -
  have ok: "paging_ok st" using paging_calls.kept_by_steps [OF assms(2)] paging_start_ok assms(1) by blast
  note D = paging_ok_D(6-8) [OF ok]
  show ?thesis
  proof (intro conjI allI impI)
    show "unat (free_page_frame_count st) = card {f. f < 32 \<and> \<not> page_frame_map st ! f}" by (rule D(1))
  next
    fix i k f assume "backed st i k f"
    from D(2) [OF this] show "0 < f" "f < 32" "page_frame_map st ! f" by simp_all
  next
    fix i k i' k' f assume "backed st i k f \<and> backed st i' k' f"
    then show "i = i'" "k = k'" using D(3) by blast+
  qed
qed

theorem paging_frames_exclusive_witness:
  "\<exists>st. paging_allocate_user_page_frame demo_layout (dir_addr demo_layout 32) 0 (paging_start demo_layout) = Inr (True, st) \<and>
     (\<forall>i k f. backed st i k f \<longrightarrow> 0 < f \<and> f < 32 \<and> page_frame_map st ! f)"
proof -
  have "0 < free_page_frame_count (paging_start demo_layout)"
    by (simp add: paging_start_def page_constants word_less_nat_alt)
  then obtain f where f: "first_clear (page_frame_map (paging_start demo_layout)) PAGE_FRAME_MAX_COUNT = Some f"
    using free_frame_exists [OF paging_start_ok] by blast
  let ?st = "allocated 32 0 f (paging_start demo_layout)"
  have eff: "paging_allocate_user_page_frame demo_layout (dir_addr demo_layout 32) 0 (paging_start demo_layout) = Inr (True, ?st)"
    by (rule allocate_effect [OF paging_start_ok demo_layout_ok _ f]) simp
  have "paging_call demo_layout (paging_start demo_layout) ?st"
    by (rule call_allocate [OF _ _ eff]) simp_all
  then have "(paging_call demo_layout)\<^sup>*\<^sup>* (paging_start demo_layout) ?st" by blast
  with eff show ?thesis using paging_frames_exclusive [OF demo_layout_ok] by blast
qed

text \<open>
  The pool of page directories. Creation returns NULL exactly when all 32 are in use,
  with nothing changed; otherwise it returns the first unused one, whose address space maps
  the 4 MiB at the kernel base to physical address 0 for the supervisor and nothing else.
  Releasing that directory makes it unused again and unmaps everything in it, and releasing
  a pointer that is not one of the pool's returns false.
\<close>

theorem page_directory_pool:
  assumes "paging_ok st" and "layout_ok L"
  shows "(fst (paging_create_new_page_directory L st) = 0 \<longleftrightarrow> (\<forall>i<32. page_directory_used st ! i)) \<and>
    (\<forall>i st'. paging_create_new_page_directory L st = (pd_addr L i, st') \<and> i < 32 \<longrightarrow>
      \<not> page_directory_used st ! i \<and> (\<forall>j<i. page_directory_used st ! j) \<and>
      page_directory_used st' = (page_directory_used st)[i := True] \<and>
      (\<forall>user va. translate (page_directory_list st' ! i) user va =
         (if page_index va = 0x300 \<and> \<not> user then Some (va AND 0x3FFFFF) else None)) \<and>
      (\<exists>st''. paging_free_page_directory L (pd_addr L i) st' = (True, st'') \<and>
         page_directory_used st'' = page_directory_used st \<and>
         (\<forall>user va. translate (page_directory_list st'' ! i) user va = None))) \<and>
    ((\<forall>i<32. a \<noteq> pd_addr L i) \<longrightarrow> paging_free_page_directory L a st = (False, st))"
proof (intro conjI allI impI)
  note D = paging_ok_D [OF assms(1)]
  show "fst (paging_create_new_page_directory L st) = 0 \<longleftrightarrow> (\<forall>i<32. page_directory_used st ! i)"
  proof (cases "first_clear (page_directory_used st) PAGING_DIRECTORY_TABLE_MAX_COUNT")
    case None
    then show ?thesis by (simp add: create_None) (simp add: first_clear_None page_constants)
  next
    case (Some i)
    then show ?thesis using create_effect [OF assms(1) Some, of L] pd_addr_not_0 [OF assms(2)]
      by (auto simp: first_clear_Some page_constants)
  qed
  show "paging_free_page_directory L a st = (False, st)" if "\<forall>i<32. a \<noteq> pd_addr L i"
    using that by (auto simp: paging_free_page_directory_def pd_index_def find_upt_Some page_constants split: option.split)
  fix i st' assume c: "paging_create_new_page_directory L st = (pd_addr L i, st') \<and> i < 32"
  have f: "first_clear (page_directory_used st) PAGING_DIRECTORY_TABLE_MAX_COUNT = Some i" and st': "st' = created i st"
  proof -
    obtain j where j: "first_clear (page_directory_used st) PAGING_DIRECTORY_TABLE_MAX_COUNT = Some j"
      using c pd_addr_not_0 [OF assms(2), of i]
      by (cases "first_clear (page_directory_used st) PAGING_DIRECTORY_TABLE_MAX_COUNT") (auto simp: create_None)
    then have "j < 32" by (simp add: first_clear_Some page_constants)
    moreover have "pd_addr L j = pd_addr L i" "st' = created j st" using c create_effect [OF assms(1) j, of L] by simp_all
    ultimately have "j = i" using c pd_addr_inj [OF assms(2), of j i] by simp
    with j \<open>st' = created j st\<close> show "first_clear (page_directory_used st) PAGING_DIRECTORY_TABLE_MAX_COUNT = Some i" "st' = created i st"
      by simp_all
  qed
  show "page_directory_used st ! j" if "j < i" for j
    using f that by (simp add: first_clear_Some)
  show "\<not> page_directory_used st ! i" using f by (simp add: first_clear_Some)
  have i: "i < 32" using c by simp
  show "page_directory_used st' = (page_directory_used st)[i := True]" by (simp add: st' created_def)
  have bl: "length blank_directory = 1024" by (simp add: blank_directory_def page_constants)
  have k: "unat (lower_address kernel_pde) = 0" "lower_address kernel_pde = 0" "present_bit (flag kernel_pde)" "\<not> user_bit (flag kernel_pde)"
    "\<not> present_bit (flag zero_pde)"
    by (simp_all add: kernel_pde_def zero_pde_def no_flags_def)
  have new: "page_directory_list st' ! i = blank_directory[0x300 := kernel_pde]"
    using i D(2) by (simp add: st' created_def)
  show "translate (page_directory_list st' ! i) user va =
      (if page_index va = 0x300 \<and> \<not> user then Some (va AND 0x3FFFFF) else None)" for user va
    using page_index_lt [of va] k unfolding new translate_def
    by (cases "page_index va = 0x300") (auto simp: bl blank_nth)
  have ok': "paging_ok st'" unfolding st' using assms(1) i by (rule paging_ok_created)
  show "\<exists>st''. paging_free_page_directory L (pd_addr L i) st' = (True, st'') \<and>
      page_directory_used st'' = page_directory_used st \<and>
      (\<forall>user va. translate (page_directory_list st'' ! i) user va = None)"
  proof (intro exI conjI allI)
    show "paging_free_page_directory L (pd_addr L i) st' = (True, released i st')"
      by (rule free_directory_effect [OF ok' assms(2) i])
    have "\<not> page_directory_used st ! i" using f by (simp add: first_clear_Some)
    then show "page_directory_used (released i st') = page_directory_used st"
      by (simp add: released_def st' created_def) (metis (full_types) list_update_id)
    show "translate (page_directory_list (released i st') ! i) user va = None" for user va
      using i D(2) k(5) page_index_lt [of va] by (simp add: released_def st' created_def translate_def blank_nth)
  qed
qed

theorem page_directory_pool_witness:
  "fst (paging_create_new_page_directory demo_layout (paging_start demo_layout)) \<noteq> 0 \<and>
   paging_free_page_directory demo_layout 0 (paging_start demo_layout) = (False, paging_start demo_layout)"
proof -
  have "\<not> page_directory_used (paging_start demo_layout) ! 0" by (simp add: paging_start_def page_constants)
  moreover have "\<forall>i<32. 0 \<noteq> pd_addr demo_layout i" using pd_addr_not_0 [OF demo_layout_ok] by metis
  moreover note page_directory_pool [OF paging_start_ok [of demo_layout] demo_layout_ok, where a = 0]
  ultimately show ?thesis using zero_less_numeral by (metis (no_types))
qed

text \<open>
  The CR3 register holds physical addresses and the code works with virtual ones: the
  current directory read back after switching to a directory above the kernel base is that
  directory, and switching to any directory and back to the one that was current restores
  the register, when that one lies in the first GiB of physical memory.
\<close>

theorem page_directory_switch:
  assumes "KERNEL_VIRTUAL_ADDRESS_BASE < a" and "0 < cr3 st" and "cr3 st < 0x40000000"
  shows "paging_get_current_page_directory_addr (paging_use_page_directory a st) = a \<and>
    paging_use_page_directory (paging_get_current_page_directory_addr st) (paging_use_page_directory b st) = st"
proof -
  have "unat (cr3 st + KERNEL_VIRTUAL_ADDRESS_BASE) = unat (cr3 st) + unat KERNEL_VIRTUAL_ADDRESS_BASE"
    using assms(3) by (intro unat_add_lem [THEN iffD1]) (simp add: KERNEL_VIRTUAL_ADDRESS_BASE_def word_less_nat_alt)
  then have "KERNEL_VIRTUAL_ADDRESS_BASE < cr3 st + KERNEL_VIRTUAL_ADDRESS_BASE"
    using assms(2) by (simp add: word_less_nat_alt)
  then show ?thesis
    using assms(1) by (simp add: paging_get_current_page_directory_addr_def paging_use_page_directory_def)
qed

theorem page_directory_switch_witness:
  "paging_get_current_page_directory_addr (paging_use_page_directory (pd_addr demo_layout 3) (paging_start demo_layout)) =
     pd_addr demo_layout 3 \<and>
   paging_use_page_directory (paging_get_current_page_directory_addr (paging_start demo_layout))
     (paging_use_page_directory (pd_addr demo_layout 3) (paging_start demo_layout)) = paging_start demo_layout"
  by (rule page_directory_switch)
     (simp_all add: pd_addr_above [OF demo_layout_ok], simp_all add: paging_start_def demo_layout_def KERNEL_VIRTUAL_ADDRESS_BASE_def)

section \<open>Counting pages in floating point\<close>

lemma bit_length_le: "n < 2 ^ k \<Longrightarrow> bit_length n \<le> k"
proof (induction k arbitrary: n)
  case 0
  then show ?case by (simp add: bit_length.simps)
next
  case (Suc k)
  show ?case
  proof (cases "n = 0")
    case True
    then show ?thesis by (simp add: bit_length.simps)
  next
    case False
    have "n div 2 < 2 ^ k" using Suc.prems by simp
    then show ?thesis using Suc.IH [of "n div 2"] False by (simp add: bit_length.simps [of n])
  qed
qed

lemma f32_round_small: "n < 2 ^ 24 \<Longrightarrow> f32_round n = n"
  using bit_length_le [of n 24] by (simp add: f32_round_def)

lemma f32_round_exact: "n \<le> 2 ^ 24 \<Longrightarrow> f32_round n = n"
proof (cases "n = 2 ^ 24")
  case True
  have "bit_length (2 ^ 24) = 25" by (simp add: bit_length.simps)
  then show ?thesis using True by (simp add: f32_round_def)
next
  case False
  assume "n \<le> 2 ^ 24"
  with False show ?thesis by (simp add: f32_round_small)
qed

lemma ceil32_quotient:
  assumes "0 < d"
  shows "ceil32 (of_nat x / of_nat d) = of_nat ((x + (d - 1)) div d)"
proof -
  have fl: "\<lfloor>of_nat x / (of_nat d :: rat)\<rfloor> = int (x div d)" by (rule floor_divide_of_nat_eq)
  have split: "x = d * (x div d) + x mod d" by simp
  have eq: "of_int (int (x div d)) = (of_nat x / of_nat d :: rat) \<longleftrightarrow> x mod d = 0"
  proof
    assume "of_int (int (x div d)) = (of_nat x / of_nat d :: rat)"
    then have "of_nat (x div d * d) = (of_nat x :: rat)" using assms by (simp add: field_simps)
    then have "x div d * d = x" by (simp only: of_nat_eq_iff)
    then show "x mod d = 0" using split by (metis add_cancel_right_right mult.commute)
  next
    assume "x mod d = 0"
    then have "of_nat x = (of_nat (x div d * d) :: rat)" using split by (simp add: mult.commute)
    then show "of_int (int (x div d)) = (of_nat x / of_nat d :: rat)" using assms by (simp add: field_simps)
  qed
  have "(x + (d - 1)) div d = (if x mod d = 0 then x div d else x div d + 1)"
  proof -
    have "(x + (d - 1)) div d = (x mod d + (d - 1) + d * (x div d)) div d" using split by (simp add: ac_simps)
    also have "\<dots> = (x mod d + (d - 1)) div d + x div d"
      using assms div_mult_self2 [of d "x mod d + (d - 1)" "x div d"] by (simp only: add.commute)
    also have "(x mod d + (d - 1)) div d = (if x mod d = 0 then 0 else 1)"
    proof (cases "x mod d = 0")
      case True
      then show ?thesis using assms by simp
    next
      case False
      then have "x mod d + (d - 1) = d + (x mod d - 1)" using assms by simp
      moreover have "x mod d - 1 < d" using mod_less_divisor [OF assms, of x] by simp
      ultimately have "(x mod d + (d - 1)) div d = (d + (x mod d - 1)) div d" "(x mod d - 1) div d = 0" by simp_all
      then show ?thesis using False assms by (simp only: div_add_self1 if_False)
    qed
    finally show ?thesis by simp
  qed
  then show ?thesis unfolding ceil32_def Let_def fl using eq by (auto simp: add.commute)
qed

lemma f32_of_frame_size: "f32_of_u32 (of_nat PAGE_FRAME_SIZE) = of_nat 4194304"
  by (simp add: f32_of_u32_def page_constants f32_round_small)

lemma page_count_arithmetic_check:
  assumes "0 < n" and "unat n \<le> 4194304"
  shows "paging_allocate_check n st = (1 \<le> free_page_frame_count st)"
proof -
  have "f32_of_u32 n = of_nat (unat n)" using assms(2) by (simp add: f32_of_u32_def f32_round_exact)
  then have "ceil32 (f32_of_u32 n / of_nat PAGE_FRAME_SIZE) = of_nat ((unat n + (4194304 - 1)) div 4194304)"
    unfolding page_constants by (simp only:) (rule ceil32_quotient, simp)
  moreover have "(unat n + (4194304 - 1)) div 4194304 = 1"
  proof -
    have "0 < unat n" using assms(1) by (simp add: word_less_nat_alt)
    then show ?thesis using assms(2) by (intro div_nat_eqI) simp_all
  qed
  ultimately show ?thesis by (simp add: paging_allocate_check_def)
qed

lemma ceil_div_small:
  assumes "unat a \<le> 16777216"
  shows "unat (ceil_div a (of_nat PAGE_FRAME_SIZE)) = (unat a + 4194303) div 4194304"
proof -
  have "f32_of_u32 a = of_nat (unat a)" using assms by (simp add: f32_of_u32_def f32_round_exact)
  then have "ceil_div a (of_nat PAGE_FRAME_SIZE) = of_nat ((unat a + (4194304 - 1)) div 4194304)"
    unfolding ceil_div_def f32_of_frame_size by (simp only:) (rule ceil32_quotient, simp)
  moreover have "(unat a + (4194304 - 1)) div 4194304 < 4294967296"
    by (rule le_less_trans [OF div_le_dividend]) (use assms in simp)
  ultimately show ?thesis by (simp only: unat_of_nat32)
qed

text \<open>
  The page arithmetic goes through \<open>float\<close>. For sizes up to 16 MiB \<open>ceil_div\<close> by the
  frame size is the exact number of frames, but one byte more is rounded down to 16 MiB and
  counted as 4 frames. \<open>paging_allocate_check\<close> takes a size in bytes: for any amount from 1
  to one frame it only asks whether a single frame is free, so a number of frames passed to
  it is accepted as soon as one is.
\<close>

theorem page_count_arithmetic:
  assumes "unat a \<le> 16777216" and "0 < n" and "unat n \<le> 4194304"
  shows "unat (ceil_div a (of_nat PAGE_FRAME_SIZE)) = (unat a + 4194303) div 4194304 \<and>
    ceil_div 16777217 (of_nat PAGE_FRAME_SIZE) = 4 \<and>
    paging_allocate_check n st = (1 \<le> free_page_frame_count st)"
proof (intro conjI)
  show "unat (ceil_div a (of_nat PAGE_FRAME_SIZE)) = (unat a + 4194303) div 4194304"
    using assms(1) by (rule ceil_div_small)
  have "bit_length 16777217 = 25" by (simp add: bit_length.simps)
  then have "f32_of_u32 16777217 = of_nat 16777216" by (simp add: f32_of_u32_def f32_round_def)
  then have "ceil_div 16777217 (of_nat PAGE_FRAME_SIZE) = of_nat ((16777216 + (4194304 - 1)) div 4194304)"
    unfolding ceil_div_def f32_of_frame_size by (simp only:) (rule ceil32_quotient, simp)
  then show "ceil_div 16777217 (of_nat PAGE_FRAME_SIZE) = 4" by simp
  show "paging_allocate_check n st = (1 \<le> free_page_frame_count st)"
    using assms(2,3) by (rule page_count_arithmetic_check)
qed

theorem page_count_arithmetic_witness:
  "unat (ceil_div 5242880 (of_nat PAGE_FRAME_SIZE)) = 2 \<and>
   ceil_div 16777217 (of_nat PAGE_FRAME_SIZE) = 4 \<and>
   paging_allocate_check 2 (paging_start demo_layout) = (1 \<le> free_page_frame_count (paging_start demo_layout))"
  using page_count_arithmetic [of 5242880 2 "paging_start demo_layout"] by simp

end
