(* ===== verification/Process.thy ===== *)
theory Process
  imports Paging FatMount
begin

text \<open>
  \<^verbatim>\<open>src/src/process.c\<close> and \<^verbatim>\<open>src/src/header/process/process.h\<close>: process control blocks, the
  creation of a process (its address space, its program, its initial context) and its
  destruction. The state of the kernel here is the paging state, the file system, the
  physical memory and the process table. The program is loaded by the code's own \<open>read\<close>,
  through the new address space: \<open>view\<close> is the memory seen through a directory, \<open>commit\<close>
  stores a changed view back to physical memory, and a store to an unmapped page is a page
  fault.
\<close>

section \<open>Process control blocks\<close>

datatype process_state = NO_PROCESS | PROCESS_STATE_READY | PROCESS_STATE_RUNNING | PROCESS_STATE_BLOCKED

text \<open>The values of the C enumeration, which order the states.\<close>

primrec state_code :: "process_state \<Rightarrow> nat" where
  "state_code NO_PROCESS = 0"
| "state_code PROCESS_STATE_READY = 1"
| "state_code PROCESS_STATE_RUNNING = 2"
| "state_code PROCESS_STATE_BLOCKED = 3"

lemma state_code_inj: "state_code a = state_code b \<longleftrightarrow> a = b"
  by (cases a; cases b) simp_all

instantiation process_state :: linorder
begin

definition less_eq_process_state :: "process_state \<Rightarrow> process_state \<Rightarrow> bool" where
  "less_eq_process_state a b \<longleftrightarrow> state_code a \<le> state_code b"

definition less_process_state :: "process_state \<Rightarrow> process_state \<Rightarrow> bool" where
  "less_process_state a b \<longleftrightarrow> state_code a < state_code b"

instance
  by standard (auto simp: less_eq_process_state_def less_process_state_def state_code_inj)

end

record cpu_register =
  edi :: u32
  esi :: u32
  ebp :: u32
  esp :: u32
  ebx :: u32
  edx :: u32
  ecx :: u32
  eax :: u32
  gs :: u32
  fs_seg :: u32
  es :: u32
  ds :: u32

record cpu_context =
  cpu :: cpu_register
  eip :: u32
  eflags :: u32
  page_directory_virtual_addr :: u32

record pcb =
  pid :: u32
  pname :: "u8 list"
  pstate :: process_state
  pcontext :: cpu_context
  virtual_addr_used :: "u32 list"
  page_frame_used_count :: u32

definition zero_cpu :: cpu_register where
  "zero_cpu = \<lparr>edi = 0, esi = 0, ebp = 0, esp = 0, ebx = 0, edx = 0, ecx = 0, eax = 0,
     gs = 0, fs_seg = 0, es = 0, ds = 0\<rparr>"

definition zero_pcb :: pcb where
  "zero_pcb = \<lparr>pid = 0, pname = replicate 32 0, pstate = NO_PROCESS,
     pcontext = \<lparr>cpu = zero_cpu, eip = 0, eflags = 0, page_directory_virtual_addr = 0\<rparr>,
     virtual_addr_used = replicate 8 0, page_frame_used_count = 0\<rparr>"

definition PROCESS_PAGE_FRAME_COUNT_MAX :: nat where "PROCESS_PAGE_FRAME_COUNT_MAX = 8"
definition PROCESS_COUNT_MAX :: nat where "PROCESS_COUNT_MAX = 16"
definition CPU_EFLAGS_BASE_FLAG :: u32 where "CPU_EFLAGS_BASE_FLAG = 0x2"
definition CPU_EFLAGS_FLAG_INTERRUPT_ENABLE :: u32 where "CPU_EFLAGS_FLAG_INTERRUPT_ENABLE = 0x200"
definition USER_DATA_SEGMENT_SELECTOR :: u32 where "USER_DATA_SEGMENT_SELECTOR = 0x20"

declare PROCESS_PAGE_FRAME_COUNT_MAX_def [geometry] PROCESS_COUNT_MAX_def [geometry]

section \<open>The kernel's state\<close>

record sys =
  pg :: paging
  fs :: fat32
  pm :: mem
  process_list :: "pcb list"
  list_of_process :: "bool list"
  active_process_count :: u32

section \<open>Memory through a directory\<close>

definition view :: "page_directory \<Rightarrow> mem \<Rightarrow> mem" where
  "view d m = (\<lambda>va. case translate d False va of None \<Rightarrow> 0 | Some pa \<Rightarrow> m pa)"

definition commit :: "page_directory \<Rightarrow> mem \<Rightarrow> mem \<Rightarrow> mem" where
  "commit d m vm = (\<lambda>pa.
     case find (\<lambda>k. present_bit (flag (d ! k)) \<and> ucast (lower_address (d ! k)) = drop_bit 22 pa) [0..<PAGE_ENTRY_COUNT] of
       None \<Rightarrow> m pa
     | Some k \<Rightarrow> vm (push_bit 22 (of_nat k) OR (pa AND 0x3FFFFF)))"

text \<open>
  \<open>read(request)\<close> with the current directory. The kernel's variables lie in the page at 3 GB,
  which every directory maps without the user bit: a store there changes some variable of the
  kernel, and the model stops with the fault \<open>Kernel_Access\<close>.
\<close>

definition read_through :: "layout \<Rightarrow> driver_request \<Rightarrow> fat32 \<Rightarrow> paging \<Rightarrow> mem \<Rightarrow> ((int \<times> mem) res) option" where
  "read_through L rq f p m =
     (case pd_get L p (paging_get_current_page_directory_addr p) of
        Inl e \<Rightarrow> Some (Inl e)
      | Inr d \<Rightarrow>
          (case fs_read rq f (view d m) of
             None \<Rightarrow> None
           | Some (Inl e) \<Rightarrow> Some (Inl e)
           | Some (Inr (r, vm)) \<Rightarrow>
               if \<exists>va. stores_to rq f va \<and> translate d False va = None then Some (Inl Page_Fault)
               else if \<exists>va. stores_to rq f va \<and> translate d True va = None then Some (Inl Kernel_Access)
               else Some (Inr (r, commit d m vm))))"

section \<open>Operations\<close>

definition process_get_current_running_pcb_pointer :: "pcb list \<Rightarrow> nat option" where
  "process_get_current_running_pcb_pointer ps =
     find (\<lambda>i. pstate (ps ! i) = PROCESS_STATE_RUNNING) [0..<PROCESS_COUNT_MAX]"

definition process_list_get_inactive_index :: "bool list \<Rightarrow> int" where
  "process_list_get_inactive_index used =
     (case first_clear used PROCESS_COUNT_MAX of None \<Rightarrow> -1 | Some i \<Rightarrow> int i)"

text \<open>Lines 99--118: the new process's control block.\<close>

definition new_pcb :: "driver_request \<Rightarrow> u32 \<Rightarrow> u32 \<Rightarrow> pcb \<Rightarrow> pcb" where
  "new_pcb request page_dir p_index old =
     (let sel = USER_DATA_SEGMENT_SELECTOR OR 0x3; c = pcontext old;
          r = (cpu c)\<lparr>ds := sel, es := sel, fs_seg := sel, gs := sel, ebp := 0xBFFFFFFC, esp := 0xBFFFFFFC\<rparr> in
      old\<lparr>pstate := PROCESS_STATE_READY,
          pcontext := c\<lparr>cpu := r, eip := rq_buf request,
            eflags := eflags c OR (CPU_EFLAGS_BASE_FLAG OR CPU_EFLAGS_FLAG_INTERRUPT_ENABLE),
            page_directory_virtual_addr := page_dir\<rparr>,
          pname := rq_name request @ drop 8 (pname old),
          pid := p_index\<rparr>)"

definition process_create_user_process :: "layout \<Rightarrow> driver_request \<Rightarrow> sys \<Rightarrow> ((int \<times> sys) res) option" where
  "process_create_user_process L request s =
     (if active_process_count s \<ge> of_nat PROCESS_COUNT_MAX then Some (Inr (1, s))
      else if rq_buf request \<ge> KERNEL_VIRTUAL_ADDRESS_BASE then Some (Inr (2, s))
      else
        let page_frame_count_needed =
              ceil_div (rq_buffer_size request + of_nat PAGE_FRAME_SIZE) (of_nat PAGE_FRAME_SIZE) in
        if \<not> paging_allocate_check page_frame_count_needed (pg s) \<or>
           page_frame_count_needed > of_nat PROCESS_PAGE_FRAME_COUNT_MAX
        then Some (Inr (3, s))
        else
          let p_index = unat (active_process_count s);
              (page_dir, p1) = paging_create_new_page_directory L (pg s);
              old_page_dir = paging_get_current_page_directory_addr p1;
              p2 = paging_use_page_directory page_dir p1 in
          case bindE (paging_allocate_user_page_frame L page_dir (rq_buf request) p2) (\<lambda>(_, p3).
               paging_allocate_user_page_frame L page_dir 0xBFFFFFFC p3) of
            Inl e \<Rightarrow> Some (Inl e)
          | Inr (_, p4) \<Rightarrow>
              (case read_through L request (fs s) p4 (pm s) of
                 None \<Rightarrow> None
               | Some (Inl e) \<Rightarrow> Some (Inl e)
               | Some (Inr (_, m)) \<Rightarrow>
                   Some (Inr (0, s\<lparr>pg := paging_use_page_directory old_page_dir p4, pm := m,
                     process_list := (process_list s)
                       [p_index := new_pcb request page_dir (of_nat p_index) (process_list s ! p_index)],
                     active_process_count := active_process_count s + 1\<rparr>))))"

definition process_list_release :: "nat \<Rightarrow> pcb list \<Rightarrow> pcb list res" where
  "process_list_release index ps =
     bindE (arr_get ps index) (\<lambda>p.
     Inr (ps[index := p\<lparr>pstate := PROCESS_STATE_READY, pid := 0, page_frame_used_count := 0,
                       virtual_addr_used := replicate (length (virtual_addr_used p)) 0\<rparr>]))"

definition paging_release_page_directory :: "layout \<Rightarrow> nat \<Rightarrow> sys \<Rightarrow> sys res" where
  "paging_release_page_directory L i s =
     bindE (arr_get (process_list s) i) (\<lambda>p.
     Inr (s\<lparr>pg := snd (paging_free_page_directory L (page_directory_virtual_addr (pcontext p)) (pg s))\<rparr>))"

definition process_destroy :: "layout \<Rightarrow> u32 \<Rightarrow> sys \<Rightarrow> (bool \<times> sys) res" where
  "process_destroy L p s =
     (if p \<ge> of_nat PROCESS_COUNT_MAX then Inr (False, s)
      else if list_of_process s ! unat p then Inr (False, s)
      else case find (\<lambda>i. pid (process_list s ! i) = p) [0..<PROCESS_COUNT_MAX] of
             None \<Rightarrow> Inl Null_Pointer
           | Some i \<Rightarrow>
               let page_dir = page_directory_virtual_addr (pcontext (process_list s ! i)) in
               Inr (True, s\<lparr>
                 pg := snd (paging_free_page_directory L page_dir (pg s)),
                 list_of_process := (list_of_process s)[unat p := False],
                 process_list := (process_list s)[unat p := zero_pcb],
                 active_process_count := active_process_count s - 1\<rparr>))"

section \<open>Addresses and frames\<close>

lemma offset_mask: "(0x3FFFFF :: u32) = mask 22"
  by (simp add: mask_eq_exp_minus_1)

lemma frame_of_pa: "drop_bit 22 (push_bit 22 (ucast (w :: 10 word)) OR (va AND 0x3FFFFF) :: u32) = ucast w"
  unfolding offset_mask by (rule bit_word_eqI) (auto simp: bit_simps dest: bit_imp_le_length)

lemma offset_of_pa: "(push_bit 22 x OR (va AND 0x3FFFFF)) AND 0x3FFFFF = (va AND 0x3FFFFF :: u32)"
  unfolding offset_mask by (rule bit_word_eqI) (auto simp: bit_simps)

lemma page_index_word: "of_nat (page_index va) = (drop_bit 22 va :: u32)"
proof -
  have m: "(0x3FF :: u32) = mask 10" by (simp add: mask_eq_exp_minus_1)
  have "drop_bit 22 va AND 0x3FF = drop_bit 22 va"
    unfolding m by (rule bit_word_eqI) (auto simp: bit_simps dest: bit_imp_le_length)
  then show ?thesis by (simp add: page_index_def)
qed

lemma va_split: "push_bit 22 (of_nat (page_index va)) OR (va AND 0x3FFFFF) = va"
  unfolding page_index_word offset_mask by (rule bit_word_eqI) (auto simp: bit_simps)

text \<open>Two entries of a directory never share a frame.\<close>

definition frames_distinct :: "page_directory \<Rightarrow> bool" where
  "frames_distinct d \<longleftrightarrow> (\<forall>k<1024. \<forall>l<1024. present_bit (flag (d ! k)) \<and> present_bit (flag (d ! l)) \<and>
     lower_address (d ! k) = lower_address (d ! l) \<longrightarrow> k = l)"

lemma unat_ucast10: "unat (ucast (a :: 10 word) :: u32) = unat a"
proof -
  have "unat a < 2 ^ 10" using unsigned_less [of a] by simp
  then show ?thesis by (simp add: unsigned_ucast_eq take_bit_nat_eq_self)
qed

lemma ucast10_of_nat: "k < 1024 \<Longrightarrow> (ucast (of_nat k :: 10 word) :: u32) = of_nat k"
  by (rule word_unat_eq_iff [THEN iffD2]) (simp add: unat_ucast10 unat_10 unat_of_nat32)

lemma ucast10_inj: "(ucast (a :: 10 word) :: u32) = ucast b \<longleftrightarrow> a = b"
proof
  assume "(ucast a :: u32) = ucast b"
  then have "unat (ucast a :: u32) = unat (ucast b :: u32)" by simp
  then have "unat a = unat b" by (simp only: unat_ucast10)
  then show "a = b" by (rule word_unat_eq_iff [THEN iffD2])
qed simp

lemma commit_mapped:
  assumes "frames_distinct d" and "translate d False va = Some pa"
  shows "commit d m vm pa = vm va"
proof -
  let ?P = "\<lambda>k. present_bit (flag (d ! k)) \<and> ucast (lower_address (d ! k)) = drop_bit 22 pa"
  have e: "present_bit (flag (d ! page_index va))" "pa = push_bit 22 (ucast (lower_address (d ! page_index va))) OR (va AND 0x3FFFFF)"
    using assms(2) by (auto simp: translate_def Let_def split: if_splits)
  have here: "?P (page_index va)" using e frame_of_pa by simp
  have only: "k = page_index va" if "k < 1024" "?P k" for k
    using that here page_index_lt [of va] assms(1) ucast10_inj [of "lower_address (d ! k)"]
    unfolding frames_distinct_def by metis
  have "find ?P [0..<PAGE_ENTRY_COUNT] = Some (page_index va)"
    unfolding find_upt_Some page_constants
  proof (intro conjI allI impI)
    fix j assume "0 \<le> j \<and> j < page_index va"
    then show "\<not> ?P j" using only [of j] page_index_lt [of va] by linarith
  qed (use here in simp_all)
  then show ?thesis
    unfolding commit_def using va_split [of va] offset_of_pa e(2) by simp
qed

lemma commit_unmapped:
  assumes "\<And>k. k < 1024 \<Longrightarrow> present_bit (flag (d ! k)) \<Longrightarrow> ucast (lower_address (d ! k)) \<noteq> drop_bit 22 pa"
  shows "commit d m vm pa = m pa"
proof -
  have "find (\<lambda>k. present_bit (flag (d ! k)) \<and> ucast (lower_address (d ! k)) = drop_bit 22 pa) [0..<PAGE_ENTRY_COUNT] = None"
    using assms unfolding find_upt_None page_constants by auto
  then show ?thesis by (simp add: commit_def)
qed

text \<open>A store of the whole view that differs from it nowhere on a frame leaves the frame alone.\<close>

lemma commit_same:
  assumes "frames_distinct d"
    and "\<And>va. translate d False va = Some pa \<Longrightarrow> vm va = m pa"
  shows "commit d m vm pa = m pa"
proof (cases "\<exists>k<1024. present_bit (flag (d ! k)) \<and> ucast (lower_address (d ! k)) = drop_bit 22 pa")
  case False
  then show ?thesis by (intro commit_unmapped) auto
next
  case True
  then obtain k where k: "k < 1024" "present_bit (flag (d ! k))" "ucast (lower_address (d ! k)) = drop_bit 22 pa" by auto
  let ?va = "push_bit 22 (of_nat k) OR (pa AND 0x3FFFFF) :: u32"
  have "drop_bit 22 ?va = of_nat k"
    using frame_of_pa [of "of_nat k" pa] ucast10_of_nat [OF k(1)] by simp
  then have "(of_nat (page_index ?va) :: u32) = of_nat k" by (simp only: page_index_word)
  then have "page_index ?va = k"
    using k(1) page_index_lt [of ?va] of_nat32_eq_iff [of "page_index ?va" k] by simp
  then have "translate d False ?va = Some pa"
    using k(2,3) va_split [of pa] page_index_word [of pa] offset_of_pa by (simp add: translate_def)
  then show ?thesis using commit_mapped [OF assms(1)] assms(2) by metis
qed

section \<open>The new address space\<close>

lemma page_index_nat: "page_index va = unat va div 4194304"
proof -
  have "unat (of_nat (page_index va) :: u32) = unat va div 4194304"
    unfolding page_index_word by (simp add: unat_drop_bit_eq drop_bit_eq_div unat_div)
  then show ?thesis using page_index_lt [of va] unat_of_nat32 [of "page_index va"] by simp
qed

lemma offset_nat: "unat (va AND 0x3FFFFF :: u32) = unat va mod 4194304"
  unfolding offset_mask by (simp add: take_bit_eq_mask [symmetric] unsigned_take_bit_eq take_bit_eq_mod unat_mod)

text \<open>Addresses that stay inside one page.\<close>

lemma within_page:
  assumes "unat a mod 4194304 + k < 4194304"
  shows "page_index (a + of_nat k) = page_index a" and "(a + of_nat k) AND 0x3FFFFF = (a AND 0x3FFFFF) + of_nat k"
proof -
  have split: "unat a = 4194304 * (unat a div 4194304) + unat a mod 4194304" by simp
  have "unat a div 4194304 < 1024" using page_index_lt [of a] by (simp add: page_index_nat)
  then have small: "unat a + k < 4294967296" using split assms by linarith
  have k: "unat (of_nat k :: u32) = k" using small by (intro unat_of_nat32) simp
  have sum: "unat (a + of_nat k) = unat a + k"
    using small by (subst unat_add_lem [THEN iffD1]) (simp_all add: k)
  have dm: "(unat a + k) div 4194304 = unat a div 4194304 \<and> (unat a + k) mod 4194304 = unat a mod 4194304 + k"
  proof -
    have e: "unat a + k = (unat a mod 4194304 + k) + 4194304 * (unat a div 4194304)" using split by simp
    have "(unat a + k) div 4194304 = (unat a mod 4194304 + k) div 4194304 + unat a div 4194304"
      unfolding e [THEN arg_cong, of "\<lambda>x. x div 4194304"] by (subst div_mult_self2) simp_all
    moreover have "(unat a + k) mod 4194304 = (unat a mod 4194304 + k) mod 4194304"
      unfolding e [THEN arg_cong, of "\<lambda>x. x mod 4194304"] by (simp only: mod_mult_self2)
    ultimately show ?thesis using assms by simp
  qed
  then show "page_index (a + of_nat k) = page_index a" by (simp add: page_index_nat sum)
  have "unat ((a AND 0x3FFFFF) + of_nat k) = unat a mod 4194304 + k"
    using assms by (subst unat_add_lem [THEN iffD1]) (simp_all add: k offset_nat)
  then show "(a + of_nat k) AND 0x3FFFFF = (a AND 0x3FFFFF) + of_nat k"
    by (intro word_unat_eq_iff [THEN iffD2]) (simp add: offset_nat sum dm)
qed

text \<open>A directory with one code page, one stack page and the kernel's page.\<close>

definition process_space :: "page_directory \<Rightarrow> nat \<Rightarrow> nat \<Rightarrow> nat \<Rightarrow> bool" where
  "process_space d c f1 f2 \<longleftrightarrow> (\<forall>k<1024.
     (present_bit (flag (d ! k)) \<longleftrightarrow> k = c \<or> k = 0x2FF \<or> k = 0x300) \<and>
     (user_bit (flag (d ! k)) \<longleftrightarrow> k = c \<or> k = 0x2FF) \<and>
     (k = c \<longrightarrow> lower_address (d ! k) = of_nat f1) \<and>
     (k = 0x2FF \<longrightarrow> lower_address (d ! k) = of_nat f2) \<and>
     (k = 0x300 \<longrightarrow> lower_address (d ! k) = of_nat 0))"

lemma of_nat10_eq: "f < 1024 \<Longrightarrow> g < 1024 \<Longrightarrow> (of_nat f :: 10 word) = of_nat g \<longleftrightarrow> f = g"
  using unat_10 by metis

lemma process_space_distinct:
  assumes "process_space d c f1 f2" and "f1 < 32" and "f2 < 32" and "f1 \<noteq> f2" and "f1 \<noteq> 0" and "f2 \<noteq> 0"
  shows "frames_distinct d"
  unfolding frames_distinct_def
proof (intro allI impI)
  fix k l assume a: "k < 1024" "l < 1024"
    "present_bit (flag (d ! k)) \<and> present_bit (flag (d ! l)) \<and> lower_address (d ! k) = lower_address (d ! l)"
  then have kl: "k = c \<or> k = 0x2FF \<or> k = 0x300" "l = c \<or> l = 0x2FF \<or> l = 0x300"
    using assms(1) by (auto simp: process_space_def)
  have ne: "(of_nat f1 :: 10 word) \<noteq> of_nat f2" "(of_nat f1 :: 10 word) \<noteq> of_nat 0" "(of_nat f2 :: 10 word) \<noteq> of_nat 0"
    using assms of_nat10_eq [of f1 f2] of_nat10_eq [of f1 0] of_nat10_eq [of f2 0] by simp_all
  have low: "lower_address (d ! k) = (if k = c then of_nat f1 else if k = 0x2FF then of_nat f2 else of_nat 0)"
    "lower_address (d ! l) = (if l = c then of_nat f1 else if l = 0x2FF then of_nat f2 else of_nat 0)"
    using a kl assms(1) unfolding process_space_def by metis+
  show "k = l" using a(3) kl ne ne [symmetric] unfolding low by (auto split: if_splits)
qed

lemma process_space_translate:
  assumes "process_space d c f1 f2" and "f1 < 32" and "f2 < 32" and "page_index va = c"
  shows "translate d user va = Some (of_nat (f1 * PAGE_FRAME_SIZE) + (va AND 0x3FFFFF))"
  using assms page_index_lt [of va] unfolding process_space_def by (intro translate_frame) auto

lemma run_addr: "unat (va - a :: u32) = k \<Longrightarrow> va = a + of_nat k"
proof -
  assume "unat (va - a) = k"
  then have "of_nat k = va - a" by auto
  then show "va = a + of_nat k" by simp
qed

section \<open>Creation\<close>

text \<open>
  The circumstances of a creation that gets as far as loading the program: \<open>i\<close> is the
  directory it will use, \<open>f1\<close> and \<open>f2\<close> the frames for code and stack, \<open>bs\<close> the bytes \<open>read\<close>
  stores, which stay within the code page.
\<close>

definition create_ready ::
  "layout \<Rightarrow> driver_request \<Rightarrow> nat \<Rightarrow> nat \<Rightarrow> nat \<Rightarrow> int \<Rightarrow> u8 list \<Rightarrow> sys \<Rightarrow> bool" where
  "create_ready L rq i f1 f2 r bs s \<longleftrightarrow>
     layout_ok L \<and> paging_ok (pg s) \<and> 0 < cr3 (pg s) \<and> cr3 (pg s) < 0x40000000 \<and>
     unat (active_process_count s) < 16 \<and> length (process_list s) = 16 \<and>
     rq_buf rq < KERNEL_VIRTUAL_ADDRESS_BASE \<and> page_index (rq_buf rq) \<noteq> 0x2FF \<and>
     ceil_div (rq_buffer_size rq + of_nat PAGE_FRAME_SIZE) (of_nat PAGE_FRAME_SIZE) \<le> 8 \<and>
     0 < ceil_div (rq_buffer_size rq + of_nat PAGE_FRAME_SIZE) (of_nat PAGE_FRAME_SIZE) \<and>
     first_clear (page_directory_used (pg s)) PAGING_DIRECTORY_TABLE_MAX_COUNT = Some i \<and>
     first_clear (page_frame_map (pg s)) PAGE_FRAME_MAX_COUNT = Some f1 \<and>
     first_clear ((page_frame_map (pg s))[f1 := True]) PAGE_FRAME_MAX_COUNT = Some f2 \<and>
     (\<forall>m. fs_read rq (fs s) m = Some (Inr (r, mem_write m (rq_buf rq) bs))) \<and>
     unat (rq_buf rq) mod 4194304 + length bs \<le> 4194304"

definition space_after :: "layout \<Rightarrow> driver_request \<Rightarrow> nat \<Rightarrow> nat \<Rightarrow> nat \<Rightarrow> sys \<Rightarrow> paging" where
  "space_after L rq i f1 f2 s =
     allocated i 0xBFFFFFFC f2 (allocated i (rq_buf rq) f1 (paging_use_page_directory (pd_addr L i) (created i (pg s))))"

lemma page_index_low: "va < KERNEL_VIRTUAL_ADDRESS_BASE \<Longrightarrow> page_index va < 0x300"
  by (simp add: page_index_nat KERNEL_VIRTUAL_ADDRESS_BASE_def word_less_nat_alt div_less_iff_less_mult)

lemma page_index_stack: "page_index 0xBFFFFFFC = 0x2FF"
  by (simp add: page_index_nat)

lemma all_dirs_use [simp]: "all_dirs (paging_use_page_directory a st) = all_dirs st"
  by (simp add: paging_use_page_directory_def)

lemma use_fields [simp]:
  "page_frame_map (paging_use_page_directory a st) = page_frame_map st"
  "page_directory_used (paging_use_page_directory a st) = page_directory_used st"
  "page_directory_list (paging_use_page_directory a st) = page_directory_list st"
  "free_page_frame_count (paging_use_page_directory a st) = free_page_frame_count st"
  by (simp_all add: paging_use_page_directory_def)

lemma allocated_fields [simp]:
  "page_frame_map (allocated i va f st) = (page_frame_map st)[f := True]"
  "page_directory_used (allocated i va f st) = page_directory_used st"
  "cr3 (allocated i va f st) = cr3 st"
  "free_page_frame_count (allocated i va f st) = free_page_frame_count st - 1"
  by (simp_all add: allocated_def)

lemma length_list_allocated [simp]: "length (page_directory_list (allocated i va f st)) = length (page_directory_list st)"
  by (simp add: allocated_def set_dir_def)

lemma created_fields [simp]:
  "page_frame_map (created i st) = page_frame_map st"
  "page_directory_used (created i st) = (page_directory_used st)[i := True]"
  "free_page_frame_count (created i st) = free_page_frame_count st"
  "cr3 (created i st) = cr3 st"
  "length (page_directory_list (created i st)) = length (page_directory_list st)"
  by (simp_all add: created_def)

lemma all_dirs_allocated:
  "length (page_directory_list st) = 32 \<Longrightarrow> i < 33 \<Longrightarrow> f < 1024 \<Longrightarrow>
   all_dirs (allocated i va f st) = (all_dirs st)[i := (all_dirs st ! i)
     [page_index va := (all_dirs st ! i ! page_index va)\<lparr>flag := user_flags, lower_address := of_nat f\<rparr>]]"
  using frame_bits_frame [of f] by (simp add: allocated_def update_entry_def del: of_nat_mult)

lemma all_dirs_created:
  "length (page_directory_list st) = 32 \<Longrightarrow> i < 32 \<Longrightarrow>
   all_dirs (created i st) = (all_dirs st)[i := blank_directory[0x300 := kernel_pde]]"
  by (simp add: created_def all_dirs_def list_update_append)

lemma create_ready_facts:
  assumes "create_ready L rq i f1 f2 r bs s"
  shows "i < 32" "\<not> page_directory_used (pg s) ! i" "f1 < 32" "f2 < 32" "f1 \<noteq> f2" "f1 \<noteq> 0" "f2 \<noteq> 0"
    "\<not> page_frame_map (pg s) ! f1" "\<not> page_frame_map (pg s) ! f2"
    "paging_ok (created i (pg s))"
    "paging_ok (allocated i (rq_buf rq) f1 (paging_use_page_directory (pd_addr L i) (created i (pg s))))"
    "paging_ok (space_after L rq i f1 f2 s)"
proof -
  have ok: "paging_ok (pg s)" and fi: "first_clear (page_directory_used (pg s)) PAGING_DIRECTORY_TABLE_MAX_COUNT = Some i"
    and ff: "first_clear (page_frame_map (pg s)) PAGE_FRAME_MAX_COUNT = Some f1"
    "first_clear ((page_frame_map (pg s))[f1 := True]) PAGE_FRAME_MAX_COUNT = Some f2"
    using assms by (auto simp: create_ready_def)
  note D = paging_ok_D [OF ok]
  show i: "i < 32" "\<not> page_directory_used (pg s) ! i" using fi by (auto simp: first_clear_Some page_constants)
  show f1: "f1 < 32" "\<not> page_frame_map (pg s) ! f1" using ff by (auto simp: first_clear_Some page_constants)
  have f2': "f2 < 32" "\<not> (page_frame_map (pg s))[f1 := True] ! f2" using ff by (auto simp: first_clear_Some page_constants)
  show "f2 < 32" "f1 \<noteq> f2" using f2' D(1) f1 by auto
  show "\<not> page_frame_map (pg s) ! f2" using f2' \<open>f1 \<noteq> f2\<close> by simp
  show "f1 \<noteq> 0" "f2 \<noteq> 0" using D(5) f1 \<open>\<not> page_frame_map (pg s) ! f2\<close> by metis+
  show c: "paging_ok (created i (pg s))" by (rule paging_ok_created [OF ok i(1)])
  have used: "page_directory_used (created i (pg s)) ! i" using i D(3) by simp
  show a1: "paging_ok (allocated i (rq_buf rq) f1 (paging_use_page_directory (pd_addr L i) (created i (pg s))))"
    using c used ff(1) i by (intro paging_ok_allocated) (simp_all add: paging_ok_use)
  show "paging_ok (space_after L rq i f1 f2 s)"
    unfolding space_after_def by (rule paging_ok_allocated [OF a1]) (use used ff(2) i in simp_all)
qed

lemma space_after_dir:
  assumes "create_ready L rq i f1 f2 r bs s"
  shows "process_space (all_dirs (space_after L rq i f1 f2 s) ! i) (page_index (rq_buf rq)) f1 f2"
    and "j < 33 \<Longrightarrow> j \<noteq> i \<Longrightarrow> all_dirs (space_after L rq i f1 f2 s) ! j = all_dirs (pg s) ! j"
proof -
  note F = create_ready_facts [OF assms]
  have ok: "paging_ok (pg s)" and buf: "page_index (rq_buf rq) < 0x300" "page_index (rq_buf rq) \<noteq> 0x2FF"
    using assms page_index_low by (auto simp: create_ready_def)
  have len: "length (page_directory_list (pg s)) = 32" using paging_ok_D(2) [OF ok] .
  have bl: "length blank_directory = 1024" by (simp add: blank_directory_def page_constants)
  have d: "all_dirs (space_after L rq i f1 f2 s) = (all_dirs (pg s))[i := blank_directory
      [0x300 := kernel_pde,
       page_index (rq_buf rq) := zero_pde\<lparr>flag := user_flags, lower_address := of_nat f1\<rparr>,
       0x2FF := zero_pde\<lparr>flag := user_flags, lower_address := of_nat f2\<rparr>]]"
    using F(1,3,4) len bl buf
    by (simp add: space_after_def all_dirs_allocated all_dirs_created page_index_stack blank_nth)
  show "process_space (all_dirs (space_after L rq i f1 f2 s) ! i) (page_index (rq_buf rq)) f1 f2"
    using F(1) len bl buf
    by (auto simp: d process_space_def nth_list_update blank_nth user_flags_def kernel_pde_def zero_pde_def no_flags_def)
  show "j < 33 \<Longrightarrow> j \<noteq> i \<Longrightarrow> all_dirs (space_after L rq i f1 f2 s) ! j = all_dirs (pg s) ! j"
    by (simp add: d)
qed

lemma allocate_both:
  assumes "create_ready L rq i f1 f2 r bs s"
  shows "bindE (paging_allocate_user_page_frame L (pd_addr L i) (rq_buf rq)
             (paging_use_page_directory (pd_addr L i) (created i (pg s)))) (\<lambda>(_, p3).
           paging_allocate_user_page_frame L (pd_addr L i) 0xBFFFFFFC p3) = Inr (True, space_after L rq i f1 f2 s)"
proof -
  note F = create_ready_facts [OF assms]
  have L: "layout_ok L" and ff: "first_clear (page_frame_map (pg s)) PAGE_FRAME_MAX_COUNT = Some f1"
    "first_clear ((page_frame_map (pg s))[f1 := True]) PAGE_FRAME_MAX_COUNT = Some f2"
    using assms by (auto simp: create_ready_def)
  have a: "dir_addr L i = pd_addr L i" using F(1) by (simp add: dir_addr_def)
  have "paging_allocate_user_page_frame L (dir_addr L i) (rq_buf rq)
      (paging_use_page_directory (pd_addr L i) (created i (pg s))) =
      Inr (True, allocated i (rq_buf rq) f1 (paging_use_page_directory (pd_addr L i) (created i (pg s))))"
    using F(1,10) L ff(1) by (intro allocate_effect) (simp_all add: paging_ok_use)
  moreover have "paging_allocate_user_page_frame L (dir_addr L i) 0xBFFFFFFC
      (allocated i (rq_buf rq) f1 (paging_use_page_directory (pd_addr L i) (created i (pg s)))) =
      Inr (True, space_after L rq i f1 f2 s)"
    unfolding space_after_def using F(1) ff(2) by (intro allocate_effect [OF F(11) L]) simp_all
  ultimately show ?thesis by (simp add: a)
qed

lemma current_space:
  assumes "create_ready L rq i f1 f2 r bs s"
  shows "pd_get L (space_after L rq i f1 f2 s) (paging_get_current_page_directory_addr (space_after L rq i f1 f2 s)) =
    Inr (all_dirs (space_after L rq i f1 f2 s) ! i)"
proof -
  note F = create_ready_facts [OF assms]
  have L: "layout_ok L" using assms by (simp add: create_ready_def)
  have "KERNEL_VIRTUAL_ADDRESS_BASE < pd_addr L i" using pd_addr_above [OF L F(1)] .
  then have "paging_get_current_page_directory_addr (space_after L rq i f1 f2 s) = dir_addr L i"
    using F(1) by (simp add: paging_get_current_page_directory_addr_def space_after_def dir_addr_def paging_use_page_directory_def)
  then show ?thesis
    using pd_get_dir [OF L, of i "space_after L rq i f1 f2 s"] F(1) paging_ok_D(2) [OF F(12)] by simp
qed

text \<open>What \<open>read\<close> does through the new address space.\<close>

lemma read_new_space:
  assumes "create_ready L rq i f1 f2 r bs s"
  defines "d \<equiv> all_dirs (space_after L rq i f1 f2 s) ! i"
  shows "\<exists>m'. read_through L rq (fs s) (space_after L rq i f1 f2 s) (pm s) = Some (Inr (r, m')) \<and>
    (\<forall>k<length bs. m' (of_nat (f1 * PAGE_FRAME_SIZE) + (rq_buf rq AND 0x3FFFFF) + of_nat k) = bs ! k) \<and>
    (\<forall>pa. drop_bit 22 pa \<noteq> (of_nat f1 :: u32) \<longrightarrow> m' pa = pm s pa)"
proof -
  note F = create_ready_facts [OF assms(1)]
  have rd: "\<And>m. fs_read rq (fs s) m = Some (Inr (r, mem_write m (rq_buf rq) bs))"
    and fit: "unat (rq_buf rq) mod 4194304 + length bs \<le> 4194304"
    using assms(1) by (auto simp: create_ready_def)
  have sp: "process_space d (page_index (rq_buf rq)) f1 f2"
    unfolding d_def by (rule space_after_dir(1) [OF assms(1)])
  have dist: "frames_distinct d" using sp F(3,4,5,6,7) by (rule process_space_distinct)
  have tr: "translate d user va = Some (of_nat (f1 * PAGE_FRAME_SIZE) + (va AND 0x3FFFFF))"
    if "page_index va = page_index (rq_buf rq)" for user va
    using process_space_translate [OF sp F(3,4) that] .
  have page: "page_index (rq_buf rq + of_nat k) = page_index (rq_buf rq)"
      "(rq_buf rq + of_nat k) AND 0x3FFFFF = (rq_buf rq AND 0x3FFFFF) + of_nat k" if "k < length bs" for k
    using within_page [of "rq_buf rq" k] that fit by simp_all
  have run: "page_index va = page_index (rq_buf rq)" if "unat (va - rq_buf rq) < length bs" for va
    using page(1) [OF that] run_addr [OF refl, of va "rq_buf rq"] by metis
  let ?vm = "mem_write (view d (pm s)) (rq_buf rq) bs"
  have noflt: "\<not> (\<exists>va. stores_to rq (fs s) va \<and> translate d user va = None)" for user
    using tr run unfolding stores_to_run [OF rd] by auto
  then have thr: "read_through L rq (fs s) (space_after L rq i f1 f2 s) (pm s) = Some (Inr (r, commit d (pm s) ?vm))"
    unfolding read_through_def current_space [OF assms(1)] d_def [symmetric] by (simp add: rd)
  have "commit d (pm s) ?vm (of_nat (f1 * PAGE_FRAME_SIZE) + (rq_buf rq AND 0x3FFFFF) + of_nat k) = bs ! k"
    if k: "k < length bs" for k
  proof -
    have "translate d False (rq_buf rq + of_nat k) =
        Some (of_nat (f1 * PAGE_FRAME_SIZE) + (rq_buf rq AND 0x3FFFFF) + of_nat k)"
      unfolding tr [OF page(1) [OF k]] page(2) [OF k] by (simp only: add.assoc)
    then have "commit d (pm s) ?vm (of_nat (f1 * PAGE_FRAME_SIZE) + (rq_buf rq AND 0x3FFFFF) + of_nat k) = ?vm (rq_buf rq + of_nat k)"
      by (rule commit_mapped [OF dist])
    also have "\<dots> = bs ! k" using k fit by (intro mem_write_at) simp_all
    finally show ?thesis .
  qed
  moreover have "commit d (pm s) ?vm pa = pm s pa" if "drop_bit 22 pa \<noteq> (of_nat f1 :: u32)" for pa
  proof (rule commit_same [OF dist])
    fix va assume va: "translate d False va = Some pa"
    have "\<not> unat (va - rq_buf rq) < length bs"
    proof
      assume "unat (va - rq_buf rq) < length bs"
      then have pi: "page_index va = page_index (rq_buf rq)" by (rule run)
      have "lower_address (d ! page_index va) = of_nat f1"
        using sp page_index_lt [of "rq_buf rq"] unfolding process_space_def pi by blast
      then have "drop_bit 22 pa = ucast (of_nat f1 :: 10 word)"
        using va frame_of_pa by (auto simp: translate_def Let_def split: if_splits)
      then show False using that ucast10_of_nat [of f1] F(3) by simp
    qed
    then show "?vm va = pm s pa" using va by (simp add: mem_write_outside view_def)
  qed
  ultimately show ?thesis using thr by blast
qed

lemma create_effect_process:
  assumes cr: "create_ready L rq i f1 f2 r bs s"
    and m: "read_through L rq (fs s) (space_after L rq i f1 f2 s) (pm s) = Some (Inr (r, m'))"
  shows "process_create_user_process L rq s = Some (Inr (0, s\<lparr>
    pg := (space_after L rq i f1 f2 s)\<lparr>cr3 := cr3 (pg s)\<rparr>, pm := m',
    process_list := (process_list s)[unat (active_process_count s) :=
      new_pcb rq (pd_addr L i) (active_process_count s) (process_list s ! unat (active_process_count s))],
    active_process_count := active_process_count s + 1\<rparr>))"
proof -
  note F = create_ready_facts [OF cr]
  have c: "layout_ok L" "paging_ok (pg s)" "0 < cr3 (pg s)" "cr3 (pg s) < 0x40000000"
    "unat (active_process_count s) < 16" "rq_buf rq < KERNEL_VIRTUAL_ADDRESS_BASE"
    "ceil_div (rq_buffer_size rq + of_nat PAGE_FRAME_SIZE) (of_nat PAGE_FRAME_SIZE) \<le> 8"
    "0 < ceil_div (rq_buffer_size rq + of_nat PAGE_FRAME_SIZE) (of_nat PAGE_FRAME_SIZE)"
    and fi: "first_clear (page_directory_used (pg s)) PAGING_DIRECTORY_TABLE_MAX_COUNT = Some i"
    and ff: "first_clear (page_frame_map (pg s)) PAGE_FRAME_MAX_COUNT = Some f1"
    using cr by (simp_all add: create_ready_def)
  let ?need = "ceil_div (rq_buffer_size rq + of_nat PAGE_FRAME_SIZE) (of_nat PAGE_FRAME_SIZE)"
  have chk: "paging_allocate_check ?need (pg s)"
  proof -
    have "0 < free_page_frame_count (pg s)" using free_frame_exists [OF c(2)] ff by simp
    then have "1 \<le> free_page_frame_count (pg s)" by (simp add: word_le_nat_alt word_less_nat_alt)
    moreover have "unat ?need \<le> 8" using c(7) by (simp add: word_le_nat_alt)
    ultimately show ?thesis using page_count_arithmetic_check [of ?need "pg s"] c(8) by simp
  qed
  have act: "\<not> active_process_count s \<ge> of_nat PROCESS_COUNT_MAX"
    using c(5) by (simp add: PROCESS_COUNT_MAX_def word_le_nat_alt)
  have need8: "\<not> ?need > of_nat PROCESS_PAGE_FRAME_COUNT_MAX"
    using c(7) by (simp add: PROCESS_PAGE_FRAME_COUNT_MAX_def not_less)
  have enough: "\<not> (\<not> paging_allocate_check ?need (pg s) \<or> ?need > of_nat PROCESS_PAGE_FRAME_COUNT_MAX)"
    using chk need8 by simp
  have low: "\<not> rq_buf rq \<ge> KERNEL_VIRTUAL_ADDRESS_BASE" using c(6) by simp
  have new: "paging_create_new_page_directory L (pg s) = (pd_addr L i, created i (pg s))"
    by (rule create_effect [OF c(2) fi])
  have restore: "paging_use_page_directory (paging_get_current_page_directory_addr (created i (pg s))) (space_after L rq i f1 f2 s) =
      (space_after L rq i f1 f2 s)\<lparr>cr3 := cr3 (pg s)\<rparr>"
  proof -
    have "unat (cr3 (pg s) + KERNEL_VIRTUAL_ADDRESS_BASE) = unat (cr3 (pg s)) + unat KERNEL_VIRTUAL_ADDRESS_BASE"
      using c(4) by (intro unat_add_lem [THEN iffD1]) (simp add: KERNEL_VIRTUAL_ADDRESS_BASE_def word_less_nat_alt)
    then have "KERNEL_VIRTUAL_ADDRESS_BASE < cr3 (pg s) + KERNEL_VIRTUAL_ADDRESS_BASE"
      using c(3) by (simp add: word_less_nat_alt)
    then show ?thesis by (simp add: paging_use_page_directory_def paging_get_current_page_directory_addr_def)
  qed
  show ?thesis
    unfolding process_create_user_process_def Let_def if_not_P [OF act] if_not_P [OF low]
      if_not_P [OF enough] new prod.case
    using allocate_both [OF cr] m restore by simp
qed

text \<open>The program's bytes, as a user access through the new directory sees them.\<close>

lemma program_in_place:
  assumes cr: "create_ready L rq i f1 f2 r bs s"
    and m: "read_through L rq (fs s) (space_after L rq i f1 f2 s) (pm s) = Some (Inr (r, m'))" and k: "k < length bs"
  shows "\<exists>pa. translate (all_dirs ((space_after L rq i f1 f2 s)\<lparr>cr3 := c\<rparr>) ! i) True (rq_buf rq + of_nat k) = Some pa \<and> m' pa = bs ! k"
proof -
  note F = create_ready_facts [OF cr]
  have fit: "unat (rq_buf rq) mod 4194304 + length bs \<le> 4194304" using cr by (simp add: create_ready_def)
  have code: "\<forall>k<length bs. m' (of_nat (f1 * PAGE_FRAME_SIZE) + (rq_buf rq AND 0x3FFFFF) + of_nat k) = bs ! k"
    using read_new_space [OF cr] m by auto
  have k4: "unat (rq_buf rq) mod 4194304 + k < 4194304" using k fit by simp
  have "all_dirs ((space_after L rq i f1 f2 s)\<lparr>cr3 := c\<rparr>) = all_dirs (space_after L rq i f1 f2 s)" by (simp add: all_dirs_def)
  then have "translate (all_dirs ((space_after L rq i f1 f2 s)\<lparr>cr3 := c\<rparr>) ! i) True (rq_buf rq + of_nat k) =
      Some (of_nat (f1 * PAGE_FRAME_SIZE) + ((rq_buf rq + of_nat k) AND 0x3FFFFF))"
    using process_space_translate [OF space_after_dir(1) [OF cr] F(3,4)] within_page(1) [OF k4] by simp
  then show ?thesis using code k unfolding within_page(2) [OF k4] by (simp add: add.assoc)
qed

section \<open>The properties\<close>

text \<open>A kernel with nothing running yet, and the 3000-byte file of the file system's examples as a program.\<close>

definition demo_sys :: sys where
  "demo_sys = \<lparr>pg = paging_start demo_layout, fs = demo_written (\<lambda>_. 0), pm = (\<lambda>_. 0),
     process_list = replicate 16 zero_pcb, list_of_process = replicate 16 False, active_process_count = 0\<rparr>"

definition demo_program :: "u8 list" where
  "demo_program = file_bytes (storage (demo_written (\<lambda>_. 0))) (new_clusters demo_request demo_fs)"

lemma demo_program_read:
  "fs_read demo_request (demo_written (\<lambda>_. 0)) m = Some (Inr (0, mem_write m (rq_buf demo_request) demo_program))"
proof -
  have lim: "2 \<le> read_limit (rq_buffer_size demo_request)" by (simp add: read_limit_def demo_request_def)
  have "length (rq_name demo_request) = 8" using demo_request_ok(1) by (simp add: request_ok_def)
  then show ?thesis
    using fs_read_chain [of demo_request "demo_written (\<lambda>_. 0)", OF _ _ demo_name_not_zero _ demo_file_size demo_written_length demo_written_chain]
      demo_written_entry lim
    by (simp add: demo_new_clusters demo_program_def)
qed

lemma demo_create_ready: "create_ready demo_layout demo_request 0 1 2 0 demo_program demo_sys"
proof -
  have need: "unat (ceil_div (rq_buffer_size demo_request + of_nat PAGE_FRAME_SIZE) (of_nat PAGE_FRAME_SIZE)) = 2"
    using ceil_div_small [of "rq_buffer_size demo_request + of_nat PAGE_FRAME_SIZE"]
    by (simp add: demo_request_def page_constants)
  have clear: "first_clear (page_directory_used (paging_start demo_layout)) PAGING_DIRECTORY_TABLE_MAX_COUNT = Some 0"
      "first_clear (page_frame_map (paging_start demo_layout)) PAGE_FRAME_MAX_COUNT = Some 1"
      "first_clear ((page_frame_map (paging_start demo_layout))[1 := True]) PAGE_FRAME_MAX_COUNT = Some 2"
    by (auto simp: first_clear_Some page_constants paging_start_def less_Suc_eq numeral_2_eq_2)
  have len: "length demo_program = 4096" by (simp add: demo_program_def demo_new_clusters)
  have rq: "rq_buf demo_request = 0x1000" by (simp add: demo_request_def)
  have cr3: "cr3 (paging_start demo_layout) = 0x100000"
    by (simp add: paging_start_def demo_layout_def KERNEL_VIRTUAL_ADDRESS_BASE_def)
  show ?thesis
    unfolding create_ready_def
    using need clear len demo_program_read paging_start_ok demo_layout_ok rq
    by (simp add: demo_sys_def cr3 page_index_nat word_le_nat_alt word_less_nat_alt KERNEL_VIRTUAL_ADDRESS_BASE_def)
qed

text \<open>
  A creation that is refused changes nothing: with 16 active processes the code is 1,
  with an entry point in the kernel's part 2, and when more than 8 frames would be needed or
  no frame at all is free 3.
\<close>

theorem process_create_refusals:
  shows "(16 \<le> unat (active_process_count s) \<longrightarrow> process_create_user_process L rq s = Some (Inr (1, s))) \<and>
    (unat (active_process_count s) < 16 \<and> KERNEL_VIRTUAL_ADDRESS_BASE \<le> rq_buf rq \<longrightarrow>
       process_create_user_process L rq s = Some (Inr (2, s))) \<and>
    (unat (active_process_count s) < 16 \<and> rq_buf rq < KERNEL_VIRTUAL_ADDRESS_BASE \<and>
     (8 < ceil_div (rq_buffer_size rq + of_nat PAGE_FRAME_SIZE) (of_nat PAGE_FRAME_SIZE) \<or>
      \<not> paging_allocate_check (ceil_div (rq_buffer_size rq + of_nat PAGE_FRAME_SIZE) (of_nat PAGE_FRAME_SIZE)) (pg s)) \<longrightarrow>
       process_create_user_process L rq s = Some (Inr (3, s)))"
  by (auto simp: process_create_user_process_def Let_def PROCESS_COUNT_MAX_def PROCESS_PAGE_FRAME_COUNT_MAX_def
      word_le_nat_alt word_less_nat_alt)

theorem process_create_refusals_witness:
  "process_create_user_process demo_layout demo_request (demo_sys\<lparr>active_process_count := 16\<rparr>) =
     Some (Inr (1, demo_sys\<lparr>active_process_count := 16\<rparr>))"
  using process_create_refusals [of "demo_sys\<lparr>active_process_count := 16\<rparr>" demo_layout demo_request] by simp

text \<open>
  C28. A creation that is not refused, with two free frames, a free directory and a program
  whose bytes fit the code page. It returns 0 whatever \<open>read\<close> returned. The slot numbered by
  the count of active processes, whatever it held, becomes a ready process with that number
  as pid, the program's address as instruction pointer and a new directory; in that
  directory the program's bytes are at the entry point, for user accesses; the caller's
  directory is current again; and the memory that any user page of any other directory
  translates to is unchanged.
\<close>

theorem process_create_loads:
  assumes "create_ready L rq i f1 f2 r bs s"
  defines "p \<equiv> unat (active_process_count s)"
  shows "\<exists>s'. process_create_user_process L rq s = Some (Inr (0, s')) \<and>
    (\<forall>q. q \<noteq> p \<longrightarrow> process_list s' ! q = process_list s ! q) \<and>
    pstate (process_list s' ! p) = PROCESS_STATE_READY \<and> pid (process_list s' ! p) = of_nat p \<and>
    eip (pcontext (process_list s' ! p)) = rq_buf rq \<and>
    page_directory_virtual_addr (pcontext (process_list s' ! p)) = pd_addr L i \<and>
    active_process_count s' = active_process_count s + 1 \<and> cr3 (pg s') = cr3 (pg s) \<and>
    (\<forall>k<length bs. \<exists>pa. translate (all_dirs (pg s') ! i) True (rq_buf rq + of_nat k) = Some pa \<and> pm s' pa = bs ! k) \<and>
    (\<forall>j<33. j \<noteq> i \<longrightarrow> all_dirs (pg s') ! j = all_dirs (pg s) ! j \<and>
       (\<forall>va pa. translate (all_dirs (pg s) ! j) True va = Some pa \<longrightarrow> pm s' pa = pm s pa))"
proof -
  note F = create_ready_facts [OF assms(1)]
  have ok: "paging_ok (pg s)" and p16: "p < 16" "length (process_list s) = 16"
    and fit: "unat (rq_buf rq) mod 4194304 + length bs \<le> 4194304"
    using assms(1) by (auto simp: create_ready_def p_def)
  obtain m' where m: "read_through L rq (fs s) (space_after L rq i f1 f2 s) (pm s) = Some (Inr (r, m'))"
    and code: "\<forall>k<length bs. m' (of_nat (f1 * PAGE_FRAME_SIZE) + (rq_buf rq AND 0x3FFFFF) + of_nat k) = bs ! k"
    and other: "\<forall>pa. drop_bit 22 pa \<noteq> (of_nat f1 :: u32) \<longrightarrow> m' pa = pm s pa"
    using read_new_space [OF assms(1)] by blast
  let ?pg = "(space_after L rq i f1 f2 s)\<lparr>cr3 := cr3 (pg s)\<rparr>"
  note img = program_in_place [OF assms(1) m]
  have iso: "m' pa = pm s pa" if j: "j < 33" and t: "translate (all_dirs (pg s) ! j) True va = Some pa" for j va pa
  proof -
    let ?e = "all_dirs (pg s) ! j ! page_index va"
    have e: "user_page ?e" "pa = push_bit 22 (ucast (lower_address ?e)) OR (va AND 0x3FFFFF)"
      using t by (auto simp: translate_def Let_def user_page_def split: if_splits)
    have "backed (pg s) j (page_index va) (unat (lower_address ?e))"
      using j e(1) by (simp add: backed_def)
    then have "page_frame_map (pg s) ! unat (lower_address ?e)" using paging_ok_D(7) [OF ok] by blast
    then have ne: "unat (lower_address ?e) \<noteq> f1" using F(8) by auto
    have "drop_bit 22 pa = ucast (lower_address ?e)" using e(2) frame_of_pa by simp
    moreover have "ucast (lower_address ?e) \<noteq> (of_nat f1 :: u32)"
    proof
      assume "ucast (lower_address ?e) = (of_nat f1 :: u32)"
      then have "unat (ucast (lower_address ?e) :: u32) = unat (of_nat f1 :: u32)" by (rule arg_cong)
      then show False using ne F(3) unat_of_nat32 [of f1] by (simp add: unat_ucast10)
    qed
    ultimately show ?thesis using other by simp
  qed
  show ?thesis
    using create_effect_process [OF assms(1) m] img iso p16 space_after_dir(2) [OF assms(1)]
    by (simp add: p_def [symmetric] new_pcb_def Let_def) (simp add: p_def)
qed

theorem process_create_loads_witness:
  "\<exists>s'. process_create_user_process demo_layout demo_request demo_sys = Some (Inr (0, s')) \<and>
    pstate (process_list s' ! 0) = PROCESS_STATE_READY \<and> active_process_count s' = 1 \<and>
    (\<forall>k<length demo_program. \<exists>pa. translate (all_dirs (pg s') ! 0) True (rq_buf demo_request + of_nat k) = Some pa \<and>
       pm s' pa = demo_program ! k)"
  using process_create_loads [OF demo_create_ready] by (auto simp: demo_sys_def)

text \<open>
  The memory check accepts a creation as soon as one frame is free, but a process takes
  two. With exactly one free frame the creation passes the check, takes the frame for the
  code, and then indexes the frame table with -1 for the stack.
\<close>

theorem process_create_one_frame:
  assumes "layout_ok L" and "paging_ok (pg s)" and "free_page_frame_count (pg s) = 1"
    and "unat (active_process_count s) < 16" and "rq_buf rq < KERNEL_VIRTUAL_ADDRESS_BASE"
    and "unat (rq_buffer_size rq) \<le> 12582912"
    and "first_clear (page_directory_used (pg s)) PAGING_DIRECTORY_TABLE_MAX_COUNT = Some i"
  shows "process_create_user_process L rq s = Some (Inl Out_Of_Bounds)"
proof -
  let ?need = "ceil_div (rq_buffer_size rq + of_nat PAGE_FRAME_SIZE) (of_nat PAGE_FRAME_SIZE)"
  obtain f where f: "first_clear (page_frame_map (pg s)) PAGE_FRAME_MAX_COUNT = Some f"
    using free_frame_exists [OF assms(2)] assms(3) by auto
  have i: "i < 32" using assms(7) by (simp add: first_clear_Some page_constants)
  have sum: "unat (rq_buffer_size rq + of_nat PAGE_FRAME_SIZE) = unat (rq_buffer_size rq) + 4194304"
    using assms(6) by (subst unat_add_lem [THEN iffD1]) (simp_all add: page_constants)
  have "unat ?need = (unat (rq_buffer_size rq) + 4194304 + 4194303) div 4194304"
    using assms(6) by (subst ceil_div_small) (simp_all add: sum)
  moreover have "1 \<le> (unat (rq_buffer_size rq) + 4194304 + 4194303) div 4194304 \<and>
      (unat (rq_buffer_size rq) + 4194304 + 4194303) div 4194304 \<le> 4"
    using assms(6) by linarith
  ultimately have need: "1 \<le> unat ?need" "unat ?need \<le> 4" by simp_all
  then have enough: "\<not> (\<not> paging_allocate_check ?need (pg s) \<or> ?need > of_nat PROCESS_PAGE_FRAME_COUNT_MAX)"
    using page_count_arithmetic_check [of ?need "pg s"] assms(3)
    by (simp add: PROCESS_PAGE_FRAME_COUNT_MAX_def word_less_nat_alt)
  have act: "\<not> active_process_count s \<ge> of_nat PROCESS_COUNT_MAX"
    using assms(4) by (simp add: PROCESS_COUNT_MAX_def word_le_nat_alt)
  have low: "\<not> rq_buf rq \<ge> KERNEL_VIRTUAL_ADDRESS_BASE" using assms(5) by simp
  have ok1: "paging_ok (paging_use_page_directory (pd_addr L i) (created i (pg s)))"
    using paging_ok_created [OF assms(2) i] by (simp add: paging_ok_use)
  let ?p2 = "allocated i (rq_buf rq) f (paging_use_page_directory (pd_addr L i) (created i (pg s)))"
  have a: "dir_addr L i = pd_addr L i" using i by (simp add: dir_addr_def)
  have one: "paging_allocate_user_page_frame L (dir_addr L i) (rq_buf rq)
      (paging_use_page_directory (pd_addr L i) (created i (pg s))) = Inr (True, ?p2)"
    using i f by (intro allocate_effect [OF ok1 assms(1)]) simp_all
  have ok2: "paging_ok ?p2"
    by (rule paging_ok_allocated [OF ok1]) (use i f paging_ok_D(3) [OF assms(2)] in simp_all)
  have "free_page_frame_count ?p2 = 0" using assms(3) by simp
  then have "first_clear (page_frame_map ?p2) PAGE_FRAME_MAX_COUNT = None"
    using free_frame_exists [OF ok2] by auto
  then have two: "paging_allocate_user_page_frame L (dir_addr L i) 0xBFFFFFFC ?p2 = Inl Out_Of_Bounds"
    by (rule allocate_no_frame)
  show ?thesis
    unfolding process_create_user_process_def Let_def if_not_P [OF act] if_not_P [OF low]
      if_not_P [OF enough] create_effect [OF assms(2,7)] prod.case
    using one two by (simp add: a)
qed

theorem process_create_one_frame_witness:
  "process_create_user_process demo_layout demo_request (demo_sys\<lparr>pg := paging_tight demo_layout\<rparr>) = Some (Inl Out_Of_Bounds)"
proof (rule process_create_one_frame [OF demo_layout_ok])
  show "first_clear (page_directory_used (pg (demo_sys\<lparr>pg := paging_tight demo_layout\<rparr>))) PAGING_DIRECTORY_TABLE_MAX_COUNT = Some 0"
    by (simp add: first_clear_Some page_constants paging_tight_def paging_start_def)
qed (simp_all add: paging_tight_ok, simp_all add: paging_tight_def demo_sys_def demo_request_def KERNEL_VIRTUAL_ADDRESS_BASE_def)

section \<open>Destruction\<close>

lemma find_pid_Some:
  "find (\<lambda>i. pid (ps ! i) = p) [0..<PROCESS_COUNT_MAX] = Some i \<longleftrightarrow>
     i < 16 \<and> pid (ps ! i) = p \<and> (\<forall>j<i. pid (ps ! j) \<noteq> p)"
  unfolding find_upt_Some PROCESS_COUNT_MAX_def by auto

lemma find_pid_None:
  "find (\<lambda>i. pid (ps ! i) = p) [0..<PROCESS_COUNT_MAX] = None \<longleftrightarrow> (\<forall>i<16. pid (ps ! i) \<noteq> p)"
  unfolding find_upt_None PROCESS_COUNT_MAX_def by auto

text \<open>
  Every branch of \<open>process_destroy\<close>. A pid of 16 or more is refused. For a smaller one
  (the flags of \<open>list_of_process\<close> are never set, so they are all clear) the first block
  with that pid gives the directory that is released; if there is none the code
  dereferences NULL. The slot numbered by the pid is cleared, and the number of active
  processes goes down by one, from zero to 2 to the 32 minus one.
\<close>

theorem process_destroy_branches:
  assumes "list_of_process s = replicate 16 False"
  shows "process_destroy L p s =
    (if 16 \<le> unat p then Inr (False, s)
     else if \<forall>i<16. pid (process_list s ! i) \<noteq> p then Inl Null_Pointer
     else Inr (True, s\<lparr>
       pg := snd (paging_free_page_directory L (page_directory_virtual_addr (pcontext
               (process_list s ! (LEAST i. i < 16 \<and> pid (process_list s ! i) = p)))) (pg s)),
       process_list := (process_list s)[unat p := zero_pcb],
       active_process_count := active_process_count s - 1\<rparr>))"
proof (cases "16 \<le> unat p")
  case True
  then show ?thesis by (simp add: process_destroy_def PROCESS_COUNT_MAX_def word_le_nat_alt)
next
  case False
  then have p: "\<not> p \<ge> of_nat PROCESS_COUNT_MAX" "unat p < 16" by (simp_all add: PROCESS_COUNT_MAX_def word_le_nat_alt)
  have l: "\<not> list_of_process s ! unat p" "(list_of_process s)[unat p := False] = list_of_process s"
    using assms p(2) by (simp_all add: list_update_same_conv)
  show ?thesis
  proof (cases "find (\<lambda>i. pid (process_list s ! i) = p) [0..<PROCESS_COUNT_MAX]")
    case None
    then have "\<forall>i<16. pid (process_list s ! i) \<noteq> p" unfolding find_pid_None .
    then show ?thesis unfolding process_destroy_def if_not_P [OF p(1)] None using l p by simp
  next
    case (Some i)
    then have i: "i < 16" "pid (process_list s ! i) = p" "\<forall>j<i. pid (process_list s ! j) \<noteq> p"
      unfolding find_pid_Some by auto
    have "(LEAST i. i < 16 \<and> pid (process_list s ! i) = p) = i"
      using i by (intro Least_equality) (auto simp: not_less [symmetric])
    then show ?thesis unfolding process_destroy_def if_not_P [OF p(1)] Some using l p i by auto
  qed
qed

theorem process_destroy_branches_witness:
  "process_destroy demo_layout 3 demo_sys = Inl Null_Pointer"
proof -
  have l: "list_of_process demo_sys = replicate 16 False" by (simp add: demo_sys_def)
  have "\<forall>i<16. pid (process_list demo_sys ! i) \<noteq> 3" by (simp add: demo_sys_def zero_pcb_def)
  then show ?thesis using process_destroy_branches [OF l, of demo_layout 3] by simp
qed

lemma released_fields [simp]:
  "page_frame_map (released i st) = page_frame_map st"
  "page_directory_used (released i st) = (page_directory_used st)[i := False]"
  "free_page_frame_count (released i st) = free_page_frame_count st"
  by (simp_all add: released_def)

lemma paging_ok_cr3: "paging_ok (st\<lparr>cr3 := c\<rparr>) = paging_ok st"
proof -
  have "backed (st\<lparr>cr3 := c\<rparr>) = backed st" by (intro ext) (simp add: backed_def)
  then show ?thesis by (simp add: paging_ok_def paging_shape_def)
qed

lemma destroy_created:
  assumes cr: "create_ready L rq i f1 f2 r bs s" and lst: "list_of_process s = replicate 16 False"
    and new: "\<forall>j < unat (active_process_count s). pid (process_list s ! j) \<noteq> active_process_count s"
  shows "\<exists>s1 s2. process_create_user_process L rq s = Some (Inr (0, s1)) \<and>
    process_destroy L (active_process_count s) s1 = Inr (True, s2) \<and>
    pg s2 = released i ((space_after L rq i f1 f2 s)\<lparr>cr3 := cr3 (pg s)\<rparr>) \<and>
    active_process_count s2 = active_process_count s \<and>
    process_list s2 = (process_list s)[unat (active_process_count s) := zero_pcb]"
proof -
  let ?p = "active_process_count s"
  note F = create_ready_facts [OF cr]
  have L: "layout_ok L" and p16: "unat ?p < 16" "length (process_list s) = 16"
    using cr by (auto simp: create_ready_def)
  obtain m' where m: "read_through L rq (fs s) (space_after L rq i f1 f2 s) (pm s) = Some (Inr (r, m'))"
    using read_new_space [OF cr] by blast
  let ?pg = "(space_after L rq i f1 f2 s)\<lparr>cr3 := cr3 (pg s)\<rparr>"
  let ?new = "new_pcb rq (pd_addr L i) ?p (process_list s ! unat ?p)"
  let ?s1 = "s\<lparr>pg := ?pg, pm := m', process_list := (process_list s)[unat ?p := ?new], active_process_count := ?p + 1\<rparr>"
  have c: "process_create_user_process L rq s = Some (Inr (0, ?s1))" by (rule create_effect_process [OF cr m])
  have "paging_ok ?pg" using F(12) by (simp add: paging_ok_cr3)
  then have rel: "paging_free_page_directory L (pd_addr L i) ?pg = (True, released i ?pg)"
    by (rule free_directory_effect [OF _ L F(1)])
  have pn: "pid ?new = ?p" "page_directory_virtual_addr (pcontext ?new) = pd_addr L i"
    by (simp_all add: new_pcb_def Let_def)
  have fnd: "find (\<lambda>j. pid (process_list ?s1 ! j) = ?p) [0..<PROCESS_COUNT_MAX] = Some (unat ?p)"
    unfolding find_pid_Some using p16 pn new by auto
  have act: "\<not> ?p \<ge> of_nat PROCESS_COUNT_MAX" using p16 by (simp add: PROCESS_COUNT_MAX_def word_le_nat_alt)
  have "process_destroy L ?p ?s1 = Inr (True, ?s1\<lparr>pg := released i ?pg,
      list_of_process := (replicate 16 False)[unat ?p := False],
      process_list := (process_list s)[unat ?p := zero_pcb], active_process_count := ?p\<rparr>)"
    unfolding process_destroy_def if_not_P [OF act] fnd using lst p16 pn rel by simp
  then show ?thesis using c by auto
qed

text \<open>
  A process that exits gives back its slot and its page directory but not its memory.
  After a creation and the destruction of the process it made, the table of directories and
  the count of active processes are as before and the slot is empty, but the two frames are
  still marked used, two fewer are free, and no directory maps them any more.
\<close>

theorem process_exit_leaks_frames:
  assumes "create_ready L rq i f1 f2 r bs s" and "list_of_process s = replicate 16 False"
    and "\<forall>j < unat (active_process_count s). pid (process_list s ! j) \<noteq> active_process_count s"
  shows "\<exists>s1 s2. process_create_user_process L rq s = Some (Inr (0, s1)) \<and>
    process_destroy L (active_process_count s) s1 = Inr (True, s2) \<and>
    page_directory_used (pg s2) = page_directory_used (pg s) \<and>
    active_process_count s2 = active_process_count s \<and>
    pstate (process_list s2 ! unat (active_process_count s)) = NO_PROCESS \<and>
    page_frame_map (pg s2) = (page_frame_map (pg s))[f1 := True, f2 := True] \<and>
    unat (free_page_frame_count (pg s2)) + 2 = unat (free_page_frame_count (pg s)) \<and>
    (\<forall>j k. \<not> backed (pg s2) j k f1 \<and> \<not> backed (pg s2) j k f2)"
proof -
  note F = create_ready_facts [OF assms(1)]
  have ok: "paging_ok (pg s)" and p16: "unat (active_process_count s) < 16" "length (process_list s) = 16"
    using assms(1) by (auto simp: create_ready_def)
  obtain s1 s2 where s: "process_create_user_process L rq s = Some (Inr (0, s1))"
    "process_destroy L (active_process_count s) s1 = Inr (True, s2)"
    "pg s2 = released i ((space_after L rq i f1 f2 s)\<lparr>cr3 := cr3 (pg s)\<rparr>)"
    "active_process_count s2 = active_process_count s"
    "process_list s2 = (process_list s)[unat (active_process_count s) := zero_pcb]"
    using destroy_created [OF assms] by blast
  have "(page_directory_used (pg s))[i := True, i := False] = page_directory_used (pg s)"
    using F(2) by (metis (full_types) list_update_id list_update_overwrite)
  then have used: "page_directory_used (pg s2) = page_directory_used (pg s)"
    by (simp add: s(3) space_after_def)
  have map: "page_frame_map (pg s2) = (page_frame_map (pg s))[f1 := True, f2 := True]"
    by (simp add: s(3) space_after_def)
  have ok2: "paging_ok (pg s2)" unfolding s(3) by (rule paging_ok_released) (use F(1,12) in \<open>simp_all add: paging_ok_cr3\<close>)
  have len: "length (page_frame_map (pg s)) = 32" using paging_ok_D(1) [OF ok] .
  have "unat (free_page_frame_count (pg s)) = Suc (Suc (unat (free_page_frame_count (pg s2))))"
    unfolding paging_ok_D(6) [OF ok] paging_ok_D(6) [OF ok2] map
    using card_clear_update(1) [OF len F(3,8)] card_clear_update(1) [of "(page_frame_map (pg s))[f1 := True]" f2] F len by simp
  moreover have "\<not> backed (pg s2) j k f" if "f = f1 \<or> f = f2" for j k f
  proof
    assume b: "backed (pg s2) j k f"
    then have jk: "j < 33" "k < 1024" by (auto simp: backed_def)
    have lens: "length (page_directory_list (space_after L rq i f1 f2 s)) = 32" using paging_ok_D(2) [OF F(12)] .
    have dirs: "all_dirs (pg s2) = (all_dirs (space_after L rq i f1 f2 s))[i := blank_directory]"
      unfolding s(3) released_def all_dirs_def using lens F(1) by (simp add: list_update_append)
    show False
    proof (cases "j = i")
      case True
      then show False using b jk dirs lens not_user by (simp add: backed_def blank_nth)
    next
      case False
      then have "all_dirs (pg s2) ! j = all_dirs (pg s) ! j" using dirs space_after_dir(2) [OF assms(1) jk(1)] by simp
      then have "backed (pg s) j k f" using b by (simp add: backed_def)
      then show False using paging_ok_D(7) [OF ok] that F(8,9) by blast
    qed
  qed
  ultimately show ?thesis using s(1,2,4,5) used map p16 by (auto simp: zero_pcb_def)
qed

theorem process_exit_leaks_frames_witness:
  "\<exists>s1 s2. process_create_user_process demo_layout demo_request demo_sys = Some (Inr (0, s1)) \<and>
    process_destroy demo_layout 0 s1 = Inr (True, s2) \<and> active_process_count s2 = 0 \<and>
    unat (free_page_frame_count (pg s2)) = 29"
proof -
  have "unat (free_page_frame_count (pg demo_sys)) = 31" by (simp add: demo_sys_def paging_start_def page_constants)
  moreover have "active_process_count demo_sys = 0" "list_of_process demo_sys = replicate 16 False"
    by (simp_all add: demo_sys_def)
  ultimately show ?thesis using process_exit_leaks_frames [OF demo_create_ready] by auto
qed

text \<open>
  C35. The slot of a new process is the number of active ones, not a free one. With two
  processes, in slots 0 and 1, destroying the first and creating another overwrites the
  second one's block: slot 0 stays empty and no slot holds the process that was in slot 1.
\<close>

theorem process_slot_overwritten:
  assumes "list_of_process s0 = replicate 16 False" and "length (process_list s0) = 16"
    and "active_process_count s0 = 2" and "pid (process_list s0 ! 0) = 0"
    and "process_destroy L 0 s0 = Inr (True, s)" and "create_ready L rq i f1 f2 r bs s"
  shows "\<exists>s'. process_create_user_process L rq s = Some (Inr (0, s')) \<and>
    process_list s' = (process_list s0)[0 := zero_pcb, 1 := new_pcb rq (pd_addr L i) 1 (process_list s0 ! 1)] \<and>
    pid (process_list s' ! 1) = 1 \<and> eip (pcontext (process_list s' ! 1)) = rq_buf rq"
proof -
  have fnd: "find (\<lambda>i. pid (process_list s0 ! i) = 0) [0..<PROCESS_COUNT_MAX] = Some 0"
    unfolding find_pid_Some using assms(4) by simp
  have s: "process_list s = (process_list s0)[0 := zero_pcb]" "active_process_count s = 1"
    using assms(1,3,5) fnd by (auto simp: process_destroy_def PROCESS_COUNT_MAX_def Let_def)
  obtain m' where m: "read_through L rq (fs s) (space_after L rq i f1 f2 s) (pm s) = Some (Inr (r, m'))"
    using read_new_space [OF assms(6)] by blast
  show ?thesis
    using create_effect_process [OF assms(6) m] assms(2) by (simp add: s) (simp add: new_pcb_def Let_def)
qed

definition demo_two :: sys where
  "demo_two = demo_sys\<lparr>active_process_count := 2,
     process_list := (replicate 16 zero_pcb)[0 := zero_pcb\<lparr>pstate := PROCESS_STATE_READY\<rparr>,
       1 := zero_pcb\<lparr>pid := 1, pstate := PROCESS_STATE_READY\<rparr>]\<rparr>"

theorem process_slot_overwritten_witness:
  "\<exists>s s'. process_destroy demo_layout 0 demo_two = Inr (True, s) \<and>
    process_create_user_process demo_layout demo_request s = Some (Inr (0, s')) \<and>
    eip (pcontext (process_list s' ! 1)) = 0x1000"
proof -
  have pid0: "pid (process_list demo_two ! 0) = 0" and cnt: "active_process_count demo_two = 2"
    and lst: "list_of_process demo_two = replicate 16 False" and len: "length (process_list demo_two) = 16"
    by (simp_all add: demo_two_def demo_sys_def zero_pcb_def)
  have fnd: "find (\<lambda>i. pid (process_list demo_two ! i) = 0) [0..<PROCESS_COUNT_MAX] = Some 0"
    unfolding find_pid_Some using pid0 by simp
  have pd: "page_directory_virtual_addr (pcontext (process_list demo_two ! 0)) = 0"
    by (simp add: demo_two_def zero_pcb_def)
  have "pd_index demo_layout 0 = None"
    using pd_addr_not_0 [OF demo_layout_ok] pd_index_lt [of demo_layout 0] by (cases "pd_index demo_layout 0") auto
  then have free: "paging_free_page_directory demo_layout 0 st = (False, st)" for st
    by (simp add: paging_free_page_directory_def)
  let ?s = "demo_two\<lparr>process_list := (process_list demo_two)[0 := zero_pcb], active_process_count := 1\<rparr>"
  have d: "process_destroy demo_layout 0 demo_two = Inr (True, ?s)"
    using fnd pd free lst cnt by (simp add: process_destroy_def PROCESS_COUNT_MAX_def)
       (simp add: demo_two_def demo_sys_def list_update_same_conv)
  have "create_ready demo_layout demo_request 0 1 2 0 demo_program ?s"
    using demo_create_ready len by (simp add: create_ready_def demo_two_def)
  from process_slot_overwritten [OF lst len cnt pid0 d this] show ?thesis
    using d by (auto simp: demo_request_def)
qed

end
