(* ===== verification/Scheduler.thy ===== *)
theory Scheduler
  imports Process
begin

text \<open>
  \<^verbatim>\<open>src/src/scheduler.c\<close> and the timer branch of the interrupt handler: saving the context of
  the running process, and the round-robin choice of the next one. The scan for a ready
  process is \<open>seek\<close>, the code's while loop, as a \<open>partial_function\<close>; \<open>seek_ends\<close> proves that
  it always ends. \<open>process_context_switch\<close> does not return, so a switch is the state it leaves
  together with the context it loads. \<open>next_ready\<close> is the abstract choice (the first ready
  process after the running one, in cyclic order), which the code refines.
\<close>

section \<open>The code\<close>

definition scheduler_save_context_to_current_running_pcb :: "cpu_context \<Rightarrow> pcb list \<Rightarrow> pcb list" where
  "scheduler_save_context_to_current_running_pcb ctx ps =
     (case process_get_current_running_pcb_pointer ps of
        None \<Rightarrow> ps
      | Some i \<Rightarrow> ps[i := (ps ! i)\<lparr>pcontext := ctx\<rparr>])"

definition succ_slot :: "nat \<Rightarrow> nat" where
  "succ_slot i = (if i + 1 < PROCESS_COUNT_MAX then i + 1 else 0)"

partial_function (option) seek :: "pcb list \<Rightarrow> nat \<Rightarrow> nat \<Rightarrow> nat option" where
  "seek ps idx_run idx_next =
     (if pstate (ps ! idx_next) \<noteq> PROCESS_STATE_READY \<and> idx_next \<noteq> idx_run
      then seek ps idx_run (succ_slot idx_next) else Some idx_next)"

definition scheduler_switch_to_next_process :: "sys \<Rightarrow> (sys \<times> cpu_context) option" where
  "scheduler_switch_to_next_process s =
     (let (idx_run, ps) = (case process_get_current_running_pcb_pointer (process_list s) of
             Some i \<Rightarrow> (i, process_list s)
           | None \<Rightarrow> (0, (process_list s)[0 := (process_list s ! 0)\<lparr>pstate := PROCESS_STATE_RUNNING\<rparr>])) in
      case seek ps idx_run (succ_slot idx_run) of
        None \<Rightarrow> None
      | Some idx_next \<Rightarrow>
          let ps1 = ps[idx_run := (ps ! idx_run)\<lparr>pstate := PROCESS_STATE_READY\<rparr>];
              ps2 = ps1[idx_next := (ps1 ! idx_next)\<lparr>pstate := PROCESS_STATE_RUNNING\<rparr>];
              ctx = pcontext (ps2 ! idx_next) in
          Some (s\<lparr>process_list := ps2,
                  pg := paging_use_page_directory (page_directory_virtual_addr ctx) (pg s)\<rparr>, ctx))"

text \<open>The registers of an interrupt frame and the timer branch of \<open>main_interrupt_handler\<close>.\<close>

record interrupt_frame =
  if_cpu :: cpu_register
  int_number :: u32
  error_code :: u32
  if_eip :: u32
  if_cs :: u32
  if_eflags :: u32

definition timer_interrupt :: "interrupt_frame \<Rightarrow> sys \<Rightarrow> (sys \<times> cpu_context) option" where
  "timer_interrupt frame s =
     (let ctx = \<lparr>cpu = if_cpu frame, eip = if_eip frame, eflags = if_eflags frame,
                 page_directory_virtual_addr = paging_get_current_page_directory_addr (pg s)\<rparr> in
      scheduler_switch_to_next_process
        (s\<lparr>process_list := scheduler_save_context_to_current_running_pcb ctx (process_list s)\<rparr>))"

section \<open>The cyclic scan\<close>

text \<open>The slot \<open>d\<close> places after \<open>i\<close>.\<close>

definition after :: "nat \<Rightarrow> nat \<Rightarrow> nat" where
  "after i d = (i + d) mod 16"

text \<open>How many places \<open>j\<close> lies after \<open>i\<close>, from 1 (the next slot) to 16 (\<open>i\<close> itself).\<close>

definition ahead :: "nat \<Rightarrow> nat \<Rightarrow> nat" where
  "ahead i j = (if i < j then j - i else j + 16 - i)"

lemma succ_slot_mod: "i < 16 \<Longrightarrow> succ_slot i = (i + 1) mod 16"
  by (simp add: succ_slot_def PROCESS_COUNT_MAX_def mod_Suc)

lemma after_cases: "i < 16 \<Longrightarrow> d \<le> 16 \<Longrightarrow> after i d = (if i + d < 16 then i + d else i + d - 16)"
  by (auto simp: after_def le_mod_geq)

lemma ahead_bounds: "i < 16 \<Longrightarrow> j < 16 \<Longrightarrow> 1 \<le> ahead i j \<and> ahead i j \<le> 16"
  by (auto simp: ahead_def)

lemma after_ahead: "i < 16 \<Longrightarrow> j < 16 \<Longrightarrow> after i (ahead i j) = j"
  using ahead_bounds [of i j] by (simp add: after_cases) (simp add: ahead_def)

lemma ahead_after: "i < 16 \<Longrightarrow> 1 \<le> d \<Longrightarrow> d \<le> 16 \<Longrightarrow> ahead i (after i d) = d"
  by (simp add: after_cases) (auto simp: ahead_def)

lemma after_lt [simp]: "after i d < 16"
  by (simp add: after_def)

lemma after_16: "i < 16 \<Longrightarrow> after i 16 = i"
  by (simp add: after_def)

lemma succ_after: "succ_slot (after i d) = after i (Suc d)"
  by (simp add: succ_slot_mod) (simp add: after_def mod_simps)

text \<open>The abstract choice.\<close>

definition next_ready :: "pcb list \<Rightarrow> nat \<Rightarrow> nat" where
  "next_ready ps i =
     (case find (\<lambda>d. pstate (ps ! after i d) = PROCESS_STATE_READY) [1..<16] of None \<Rightarrow> i | Some d \<Rightarrow> after i d)"

lemma after_ne: "i < 16 \<Longrightarrow> 1 \<le> d \<Longrightarrow> d < 16 \<Longrightarrow> after i d \<noteq> i"
  using ahead_after [of i d] ahead_after [of i 16] by (auto simp: after_16)

lemma seek_from:
  assumes "i < 16" and "1 \<le> d" and "d \<le> 16"
  shows "seek ps i (after i d) =
    Some (case find (\<lambda>e. pstate (ps ! after i e) = PROCESS_STATE_READY) [d..<16] of None \<Rightarrow> i | Some e \<Rightarrow> after i e)"
  using assms(2,3)
proof (induction "16 - d" arbitrary: d)
  case 0
  then have "d = 16" by simp
  then show ?case using assms(1) by (simp add: seek.simps [of ps i] after_16)
next
  case (Suc n)
  then have d: "d < 16" by simp
  then have upt: "[d..<16] = d # [Suc d..<16]" by (rule upt_conv_Cons)
  show ?case
  proof (cases "pstate (ps ! after i d) = PROCESS_STATE_READY")
    case True
    then show ?thesis unfolding upt by (simp add: seek.simps [of ps i])
  next
    case False
    have "seek ps i (after i d) = seek ps i (after i (Suc d))"
      using False after_ne [OF assms(1) Suc.prems(1) d] by (simp add: seek.simps [of ps i "after i d"] succ_after)
    then show ?thesis using Suc.hyps(1) [of "Suc d"] Suc.hyps(2) d False unfolding upt by simp
  qed
qed

lemma seek_ends: "i < 16 \<Longrightarrow> seek ps i (succ_slot i) = Some (next_ready ps i)"
  using seek_from [of i 1 ps] by (simp add: next_ready_def succ_slot_mod after_def)

section \<open>One switch\<close>

definition running :: "pcb list \<Rightarrow> nat \<Rightarrow> bool" where
  "running ps i \<longleftrightarrow> i < 16 \<and> pstate (ps ! i) = PROCESS_STATE_RUNNING \<and>
     (\<forall>j<16. j \<noteq> i \<longrightarrow> pstate (ps ! j) \<noteq> PROCESS_STATE_RUNNING)"

lemma running_pointer: "running ps i \<Longrightarrow> process_get_current_running_pcb_pointer ps = Some i"
  by (simp add: running_def process_get_current_running_pcb_pointer_def find_upt_Some PROCESS_COUNT_MAX_def)

lemma next_ready_lt: "i < 16 \<Longrightarrow> next_ready ps i < 16"
  by (simp add: next_ready_def split: option.split)

lemma next_ready_ready: "next_ready ps i \<noteq> i \<Longrightarrow> pstate (ps ! next_ready ps i) = PROCESS_STATE_READY"
  by (auto simp: next_ready_def find_upt_Some split: option.split)

lemma next_ready_self: "i < 16 \<Longrightarrow> next_ready ps i = i \<longleftrightarrow> (\<forall>j<16. j \<noteq> i \<longrightarrow> pstate (ps ! j) \<noteq> PROCESS_STATE_READY)"
proof
  assume i: "i < 16" and eq: "next_ready ps i = i"
  have none: "find (\<lambda>d. pstate (ps ! after i d) = PROCESS_STATE_READY) [1..<16] = None"
    using eq after_ne [OF i] by (auto simp: next_ready_def find_upt_Some split: option.splits)
  show "\<forall>j<16. j \<noteq> i \<longrightarrow> pstate (ps ! j) \<noteq> PROCESS_STATE_READY"
  proof (intro allI impI)
    fix j assume j: "j < 16" "j \<noteq> i"
    have "ahead i j < 16" using j i by (auto simp: ahead_def)
    then show "pstate (ps ! j) \<noteq> PROCESS_STATE_READY"
      using none ahead_bounds [OF i j(1)] after_ahead [OF i j(1)] unfolding find_upt_None by metis
  qed
next
  assume i: "i < 16" and no: "\<forall>j<16. j \<noteq> i \<longrightarrow> pstate (ps ! j) \<noteq> PROCESS_STATE_READY"
  then have "find (\<lambda>d. pstate (ps ! after i d) = PROCESS_STATE_READY) [1..<16] = None"
    using after_ne [OF i] unfolding find_upt_None by auto
  then show "next_ready ps i = i" by (simp add: next_ready_def)
qed

definition switched :: "nat \<Rightarrow> pcb list \<Rightarrow> pcb list" where
  "switched i ps =
     (let ps1 = ps[i := (ps ! i)\<lparr>pstate := PROCESS_STATE_READY\<rparr>]; n = next_ready ps i in
      ps1[n := (ps1 ! n)\<lparr>pstate := PROCESS_STATE_RUNNING\<rparr>])"

lemma switched_nth:
  assumes "length ps = 16" and "i < 16" and "j < 16"
  shows "switched i ps ! j = (if j = next_ready ps i then (ps ! j)\<lparr>pstate := PROCESS_STATE_RUNNING\<rparr>
    else if j = i then (ps ! j)\<lparr>pstate := PROCESS_STATE_READY\<rparr> else ps ! j)"
  using assms next_ready_lt [OF assms(2), of ps] by (auto simp: switched_def Let_def nth_list_update)

lemma length_switched [simp]: "length (switched i ps) = length ps"
  by (simp add: switched_def Let_def)

lemma switch_effect:
  assumes "process_get_current_running_pcb_pointer (process_list s) = Some i" and "length (process_list s) = 16"
  defines "n \<equiv> next_ready (process_list s) i"
  shows "scheduler_switch_to_next_process s =
    Some (s\<lparr>process_list := switched i (process_list s),
      pg := paging_use_page_directory (page_directory_virtual_addr (pcontext (process_list s ! n))) (pg s)\<rparr>,
      pcontext (process_list s ! n))"
proof -
  have i: "i < 16" using assms(1)
    by (auto simp: process_get_current_running_pcb_pointer_def find_upt_Some PROCESS_COUNT_MAX_def)
  have n: "n < 16" unfolding n_def by (rule next_ready_lt [OF i])
  have "pcontext (switched i (process_list s) ! n) = pcontext (process_list s ! n)"
    using switched_nth [OF assms(2) i n] by (simp add: n_def)
  then show ?thesis
    unfolding scheduler_switch_to_next_process_def assms(1) Let_def option.case prod.case seek_ends [OF i]
    by (simp add: switched_def Let_def n_def)
qed

lemma switched_running:
  assumes "running ps i" and "length ps = 16"
  shows "running (switched i ps) (next_ready ps i)"
proof -
  have i: "i < 16" using assms(1) by (simp add: running_def)
  show ?thesis
    using assms next_ready_lt [OF i, of ps] switched_nth [OF assms(2) i]
    by (auto simp: running_def)
qed

text \<open>
  C21. A switch with one process running always ends. It chooses the first ready process
  after the running one in cyclic order, and the running one itself when no other is ready;
  afterwards exactly the chosen process is running, the old one is ready, the other
  processes keep their state and no context changes; the chosen process's directory is the
  one CR3 points to, and its saved context is the one loaded.
\<close>

theorem scheduler_switch_round_robin:
  assumes "running (process_list s) i" and "length (process_list s) = 16"
  defines "n \<equiv> next_ready (process_list s) i"
  shows "\<exists>s'. scheduler_switch_to_next_process s = Some (s', pcontext (process_list s ! n)) \<and>
    running (process_list s') n \<and> (n \<noteq> i \<longrightarrow> pstate (process_list s' ! i) = PROCESS_STATE_READY) \<and>
    (\<forall>d. 1 \<le> d \<and> d < ahead i n \<longrightarrow> pstate (process_list s ! after i d) \<noteq> PROCESS_STATE_READY) \<and>
    (n \<noteq> i \<longrightarrow> pstate (process_list s ! n) = PROCESS_STATE_READY) \<and>
    (\<forall>j<16. j \<noteq> i \<and> j \<noteq> n \<longrightarrow> process_list s' ! j = process_list s ! j) \<and>
    (\<forall>j<16. pcontext (process_list s' ! j) = pcontext (process_list s ! j)) \<and>
    (KERNEL_VIRTUAL_ADDRESS_BASE < page_directory_virtual_addr (pcontext (process_list s ! n)) \<longrightarrow>
       paging_get_current_page_directory_addr (pg s') = page_directory_virtual_addr (pcontext (process_list s ! n)))"
proof -
  have i: "i < 16" using assms(1) by (simp add: running_def)
  have n: "n < 16" unfolding n_def by (rule next_ready_lt [OF i])
  note sw = switch_effect [OF running_pointer [OF assms(1)] assms(2), folded n_def]
  have first: "pstate (process_list s ! after i d) \<noteq> PROCESS_STATE_READY" if d: "1 \<le> d" "d < ahead i n" for d
  proof (cases "find (\<lambda>d. pstate (process_list s ! after i d) = PROCESS_STATE_READY) [1..<16]")
    case None
    have "d < 16" using d ahead_bounds [OF i n] by simp
    then show ?thesis using None d(1) unfolding find_upt_None by blast
  next
    case (Some e)
    then have e: "1 \<le> e" "e < 16" "\<forall>j. 1 \<le> j \<and> j < e \<longrightarrow> pstate (process_list s ! after i j) \<noteq> PROCESS_STATE_READY"
      unfolding find_upt_Some by auto
    have "n = after i e" unfolding n_def next_ready_def Some by simp
    then have "ahead i n = e" using ahead_after [OF i e(1)] e(2) by simp
    then show ?thesis using e(3) d by blast
  qed
  have ctx: "pcontext (switched i (process_list s) ! j) = pcontext (process_list s ! j)" if "j < 16" for j
    using switched_nth [OF assms(2) i that] by simp
  show ?thesis
    using sw switched_running [OF assms(1,2)] first ctx next_ready_ready [of "process_list s" i]
      switched_nth [OF assms(2) i] i n
    by (auto simp: n_def paging_get_current_page_directory_addr_def paging_use_page_directory_def)
qed

text \<open>Two processes, the first one running.\<close>

definition demo_frame :: interrupt_frame where
  "demo_frame = \<lparr>if_cpu = zero_cpu\<lparr>eax := 7\<rparr>, int_number = 0x20, error_code = 0, if_eip = 0x1234,
     if_cs = 0x1B, if_eflags = 0x202\<rparr>"

definition demo_pair :: sys where
  "demo_pair = demo_sys\<lparr>process_list := (replicate 16 zero_pcb)
     [0 := zero_pcb\<lparr>pstate := PROCESS_STATE_RUNNING\<rparr>, 5 := zero_pcb\<lparr>pid := 5, pstate := PROCESS_STATE_READY\<rparr>]\<rparr>"

lemma demo_pair_running: "running (process_list demo_pair) 0" "length (process_list demo_pair) = 16"
  "pstate (process_list demo_pair ! 5) = PROCESS_STATE_READY"
  by (auto simp: running_def demo_pair_def demo_sys_def zero_pcb_def nth_list_update)

lemma demo_pair_next: "next_ready (process_list demo_pair) 0 = 5"
proof -
  have "find (\<lambda>d. pstate (process_list demo_pair ! after 0 d) = PROCESS_STATE_READY) [1..<16] = Some 5"
    unfolding find_upt_Some
    by (auto simp: after_cases demo_pair_def demo_sys_def zero_pcb_def nth_list_update)
  then show ?thesis by (simp add: next_ready_def after_def)
qed

theorem scheduler_switch_round_robin_witness:
  "\<exists>s'. scheduler_switch_to_next_process demo_pair = Some (s', pcontext (process_list demo_pair ! 5)) \<and>
    running (process_list s') 5 \<and> pstate (process_list s' ! 0) = PROCESS_STATE_READY"
  using scheduler_switch_round_robin [OF demo_pair_running(1,2)] unfolding demo_pair_next by auto

section \<open>Many ticks\<close>

fun ticks :: "interrupt_frame list \<Rightarrow> sys \<Rightarrow> sys option" where
  "ticks [] s = Some s"
| "ticks (f # frames) s = (case timer_interrupt f s of None \<Rightarrow> None | Some (s', _) \<Rightarrow> ticks frames s')"

definition saved_context :: "interrupt_frame \<Rightarrow> sys \<Rightarrow> cpu_context" where
  "saved_context f s = \<lparr>cpu = if_cpu f, eip = if_eip f, eflags = if_eflags f,
     page_directory_virtual_addr = paging_get_current_page_directory_addr (pg s)\<rparr>"

lemma next_ready_cong: "(\<And>j. j < 16 \<Longrightarrow> pstate (ps ! j) = pstate (qs ! j)) \<Longrightarrow> next_ready ps i = next_ready qs i"
  unfolding next_ready_def by simp

lemma timer_effect:
  fixes f :: interrupt_frame
  assumes "running (process_list s) i" and "length (process_list s) = 16"
  defines "ps \<equiv> (process_list s)[i := (process_list s ! i)\<lparr>pcontext := saved_context f s\<rparr>]"
    and "n \<equiv> next_ready (process_list s) i"
  shows "timer_interrupt f s = Some (s\<lparr>process_list := switched i ps,
      pg := paging_use_page_directory (page_directory_virtual_addr (pcontext (ps ! n))) (pg s)\<rparr>, pcontext (ps ! n))"
    and "running ps i" and "length ps = 16" and "next_ready ps i = n"
    and "\<And>j. j < 16 \<Longrightarrow> pstate (ps ! j) = pstate (process_list s ! j)"
proof -
  have i: "i < 16" using assms(1) by (simp add: running_def)
  show st: "\<And>j. j < 16 \<Longrightarrow> pstate (ps ! j) = pstate (process_list s ! j)"
    using assms(2) i by (auto simp: ps_def nth_list_update)
  show run: "running ps i" using assms(1) st i by (simp add: running_def)
  show len: "length ps = 16" using assms(2) by (simp add: ps_def)
  show nx: "next_ready ps i = n" unfolding n_def by (rule next_ready_cong) (rule st)
  have "scheduler_save_context_to_current_running_pcb (saved_context f s) (process_list s) = ps"
    by (simp add: scheduler_save_context_to_current_running_pcb_def running_pointer [OF assms(1)] ps_def)
  then show "timer_interrupt f s = Some (s\<lparr>process_list := switched i ps,
      pg := paging_use_page_directory (page_directory_virtual_addr (pcontext (ps ! n))) (pg s)\<rparr>, pcontext (ps ! n))"
    using switch_effect [of "s\<lparr>process_list := ps\<rparr>" i] running_pointer [OF run] len nx
    by (simp add: timer_interrupt_def saved_context_def Let_def)
qed

text \<open>
  A timer interrupt preempts without loss. The running process's block holds exactly the
  interrupted registers, instruction pointer, flags and page directory, every other block's
  context is untouched, and if no other process is ready the context loaded is the one just
  saved.
\<close>

theorem timer_saves_context:
  assumes "running (process_list s) i" and "length (process_list s) = 16"
  shows "\<exists>s' ctx. timer_interrupt f s = Some (s', ctx) \<and>
    pcontext (process_list s' ! i) = \<lparr>cpu = if_cpu f, eip = if_eip f, eflags = if_eflags f,
      page_directory_virtual_addr = paging_get_current_page_directory_addr (pg s)\<rparr> \<and>
    (\<forall>j<16. j \<noteq> i \<longrightarrow> pcontext (process_list s' ! j) = pcontext (process_list s ! j)) \<and>
    ((\<forall>j<16. j \<noteq> i \<longrightarrow> pstate (process_list s ! j) \<noteq> PROCESS_STATE_READY) \<longrightarrow>
       ctx = pcontext (process_list s' ! i) \<and> running (process_list s') i)"
proof -
  have i: "i < 16" using assms(1) by (simp add: running_def)
  let ?ps = "(process_list s)[i := (process_list s ! i)\<lparr>pcontext := saved_context f s\<rparr>]"
  note T = timer_effect [OF assms, where f = f]
  have ctx: "pcontext (switched i ?ps ! j) = pcontext (?ps ! j)" if "j < 16" for j
    using switched_nth [OF T(3) i that] by simp
  have self: "next_ready (process_list s) i = i"
    if "\<forall>j<16. j \<noteq> i \<longrightarrow> pstate (process_list s ! j) \<noteq> PROCESS_STATE_READY"
    using that next_ready_self [OF i] by blast
  have runself: "running (switched i ?ps) i"
    if "\<forall>j<16. j \<noteq> i \<longrightarrow> pstate (process_list s ! j) \<noteq> PROCESS_STATE_READY"
    using switched_running [OF T(2,3)] T(4) self [OF that] by simp
  have mine: "pcontext (switched i ?ps ! i) = saved_context f s" using ctx [OF i] i assms(2) by simp
  have other: "pcontext (switched i ?ps ! j) = pcontext (process_list s ! j)" if "j < 16" "j \<noteq> i" for j
    using ctx [OF that(1)] that(2) by simp
  have loaded: "pcontext (?ps ! next_ready (process_list s) i) = saved_context f s"
    if "\<forall>j<16. j \<noteq> i \<longrightarrow> pstate (process_list s ! j) \<noteq> PROCESS_STATE_READY"
    using self [OF that] i assms(2) by simp
  show ?thesis
    unfolding T(1) using mine other runself loaded by (simp add: saved_context_def [symmetric] del: list_update_id)
qed

theorem timer_saves_context_witness:
  "\<exists>s' ctx. timer_interrupt demo_frame demo_pair = Some (s', ctx) \<and> eip (pcontext (process_list s' ! 0)) = if_eip demo_frame"
  using timer_saves_context [OF demo_pair_running(1,2), of demo_frame] by force

lemma ahead_between:
  "i < 16 \<Longrightarrow> n < 16 \<Longrightarrow> j < 16 \<Longrightarrow> ahead i n < ahead i j \<Longrightarrow> ahead n j = ahead i j - ahead i n"
  unfolding ahead_def by (cases "i < n"; cases "i < j"; cases "n < j") simp_all

text \<open>The process chosen lies no further than any ready one.\<close>

lemma next_ready_closer:
  assumes "i < 16" and "j < 16" "j \<noteq> i" "pstate (ps ! j) = PROCESS_STATE_READY" and "next_ready ps i \<noteq> j"
  shows "ahead i (next_ready ps i) < ahead i j"
proof -
  let ?e = "ahead i j"
  have e: "?e < 16" "pstate (ps ! after i ?e) = PROCESS_STATE_READY"
    using assms after_ahead [OF assms(1,2)] by (auto simp: ahead_def)
  then obtain d where d: "find (\<lambda>d. pstate (ps ! after i d) = PROCESS_STATE_READY) [1..<16] = Some d"
    using ahead_bounds [OF assms(1,2)]
    by (cases "find (\<lambda>d. pstate (ps ! after i d) = PROCESS_STATE_READY) [1..<16]") (auto simp: find_upt_None)
  then have nd: "next_ready ps i = after i d" by (simp add: next_ready_def)
  have db: "1 \<le> d" "d < 16" "\<forall>e. 1 \<le> e \<and> e < d \<longrightarrow> pstate (ps ! after i e) \<noteq> PROCESS_STATE_READY"
    using d unfolding find_upt_Some by auto
  have "d \<le> ?e" using db(3) e(2) ahead_bounds [OF assms(1,2)] by (meson not_le_imp_less)
  moreover have "d \<noteq> ?e" using nd assms(5) after_ahead [OF assms(1,2)] by auto
  ultimately show ?thesis using nd ahead_after [OF assms(1) db(1)] db(2) by simp
qed

text \<open>
  Under timer interrupts a ready process comes back, with the context its block holds: others
  are chosen first, but none further away, and no switch touches the context of a process
  that is not running.
\<close>

lemma comes_back:
  assumes "running (process_list s) i" and "length (process_list s) = 16"
    and "j < 16" and "j \<noteq> i" and "pstate (process_list s ! j) = PROCESS_STATE_READY"
    and "ahead i j \<le> length frames"
  shows "\<exists>k z s'. k < ahead i j \<and> ticks (take k frames) s = Some z \<and>
    timer_interrupt (frames ! k) z = Some (s', pcontext (process_list s ! j)) \<and> running (process_list s') j \<and>
    pg s' = paging_use_page_directory (page_directory_virtual_addr (pcontext (process_list s ! j))) (pg z)"
  using assms
proof (induction "ahead i j" arbitrary: i s frames rule: less_induct)
  case less
  have i: "i < 16" using less.prems(1) by (simp add: running_def)
  let ?n = "next_ready (process_list s) i"
  have n: "?n < 16" by (rule next_ready_lt [OF i])
  obtain f rest where fr: "frames = f # rest"
    using less.prems(6) ahead_bounds [OF i less.prems(3)] by (cases frames) auto
  note T = timer_effect [OF less.prems(1,2), where f = f]
  let ?ps = "(process_list s)[i := (process_list s ! i)\<lparr>pcontext := saved_context f s\<rparr>]"
  let ?s1 = "s\<lparr>process_list := switched i ?ps,
      pg := paging_use_page_directory (page_directory_virtual_addr (pcontext (?ps ! ?n))) (pg s)\<rparr>"
  have run1: "running (process_list ?s1) ?n" using switched_running [OF T(2,3)] T(4) by simp
  have ctx: "pcontext (?ps ! j) = pcontext (process_list s ! j)" using less.prems(4) by simp
  show ?case
  proof (cases "?n = j")
    case True
    then show ?thesis
      using T(1) fr run1 ctx ahead_bounds [OF i less.prems(3)] by (intro exI [of _ 0] exI [of _ s] exI [of _ ?s1]) simp
  next
    case False
    have lt: "ahead i ?n < ahead i j"
      using next_ready_closer [OF i less.prems(3-5)] False by simp
    have smaller: "ahead ?n j < ahead i j"
      using ahead_between [OF i n less.prems(3) lt] ahead_bounds [OF i n] lt by simp
    have j1: "pstate (process_list ?s1 ! j) = PROCESS_STATE_READY" "pcontext (process_list ?s1 ! j) = pcontext (process_list s ! j)"
      using switched_nth [OF T(3) i less.prems(3)] T(4) False less.prems(3-5) T(5) by simp_all
    have len1: "length (process_list ?s1) = 16" using T(3) by simp
    have "ahead ?n j \<le> length rest" using smaller less.prems(6) fr by simp
    from less.hyps [OF smaller run1 len1 less.prems(3) False [symmetric] j1(1) this]
    obtain k z s' where k: "k < ahead ?n j" "ticks (take k rest) ?s1 = Some z"
      "timer_interrupt (rest ! k) z = Some (s', pcontext (process_list s ! j))" "running (process_list s') j"
      "pg s' = paging_use_page_directory (page_directory_virtual_addr (pcontext (process_list s ! j))) (pg z)"
      unfolding j1(2) by blast
    have "ticks (take (Suc k) frames) s = Some z" "frames ! Suc k = rest ! k" using k(2) T(1) fr by simp_all
    moreover have "Suc k < ahead i j" using k(1) smaller by simp
    ultimately show ?thesis using k(3-5) by metis
  qed
qed

lemma ticks_snoc: "ticks (frames @ [f]) s = (case ticks frames s of None \<Rightarrow> None | Some z \<Rightarrow> map_option fst (timer_interrupt f z))"
  by (induction frames arbitrary: s) (auto split: option.split prod.split)

text \<open>
  C20. No starvation. With one process running and any ready process \<open>j\<close>, as long as only
  timer interrupts happen, with whatever registers, \<open>j\<close> is running after at most as many
  interrupts as there are slots from the running process to it, hence within 15.
\<close>

theorem scheduler_no_starvation:
  assumes "running (process_list s) i" and "length (process_list s) = 16"
    and "j < 16" and "j \<noteq> i" and "pstate (process_list s ! j) = PROCESS_STATE_READY"
    and "ahead i j \<le> length frames"
  shows "ahead i j \<le> 15 \<and>
    (\<exists>k s'. 1 \<le> k \<and> k \<le> ahead i j \<and> ticks (take k frames) s = Some s' \<and> running (process_list s') j)"
proof -
  have i: "i < 16" using assms(1) by (simp add: running_def)
  obtain k z s' where k: "k < ahead i j" "ticks (take k frames) s = Some z"
    "timer_interrupt (frames ! k) z = Some (s', pcontext (process_list s ! j))" "running (process_list s') j"
    using comes_back [OF assms] by blast
  have "ticks (take (Suc k) frames) s = Some s'"
    using k(1-3) assms(6) by (simp add: take_Suc_conv_app_nth ticks_snoc)
  moreover have "ahead i j \<le> 15" using assms(3,4) i by (auto simp: ahead_def)
  ultimately show ?thesis using k(1,4) by (intro conjI exI [of _ "Suc k"] exI [of _ s']) auto
qed

theorem scheduler_no_starvation_witness:
  "\<exists>k s'. 1 \<le> k \<and> k \<le> 5 \<and> ticks (take k (replicate 5 demo_frame)) demo_pair = Some s' \<and> running (process_list s') 5"
  using scheduler_no_starvation [OF demo_pair_running(1,2) _ _ demo_pair_running(3), of "replicate 5 demo_frame"]
  by (simp add: ahead_def)

lemma switch_none_running:
  fixes s :: sys
  assumes "\<forall>j<16. pstate (process_list s ! j) \<noteq> PROCESS_STATE_RUNNING" and "length (process_list s) = 16"
  defines "ps \<equiv> (process_list s)[0 := (process_list s ! 0)\<lparr>pstate := PROCESS_STATE_RUNNING\<rparr>]"
  shows "scheduler_switch_to_next_process s = Some (s\<lparr>process_list := switched 0 ps,
      pg := paging_use_page_directory (page_directory_virtual_addr (pcontext (ps ! next_ready ps 0))) (pg s)\<rparr>,
      pcontext (ps ! next_ready ps 0))"
    and "running ps 0"
proof -
  have none: "process_get_current_running_pcb_pointer (process_list s) = None"
    using assms(1) by (simp add: process_get_current_running_pcb_pointer_def find_upt_None PROCESS_COUNT_MAX_def)
  have len: "length ps = 16" using assms(2) by (simp add: ps_def)
  have sk: "seek ps 0 (succ_slot 0) = Some (next_ready ps 0)" by (rule seek_ends) simp
  show run: "running ps 0" using assms(1,2) by (auto simp: running_def nth_list_update ps_def)
  have "scheduler_switch_to_next_process s = scheduler_switch_to_next_process (s\<lparr>process_list := ps\<rparr>)"
    unfolding scheduler_switch_to_next_process_def Let_def none ps_def [symmetric] using running_pointer [OF run] by (simp add: sk)
  then show "scheduler_switch_to_next_process s = Some (s\<lparr>process_list := switched 0 ps,
      pg := paging_use_page_directory (page_directory_virtual_addr (pcontext (ps ! next_ready ps 0))) (pg s)\<rparr>,
      pcontext (ps ! next_ready ps 0))"
    using switch_effect [of "s\<lparr>process_list := ps\<rparr>" 0] running_pointer [OF run] len by simp
qed


text \<open>
  With no process running, a switch uses slot 0 as if its process were: whatever it
  holds, an exited process included, it comes out ready or running and can be chosen from
  then on.
\<close>

theorem scheduler_revives_slot_0:
  assumes "\<forall>j<16. pstate (process_list s ! j) \<noteq> PROCESS_STATE_RUNNING" and "length (process_list s) = 16"
  shows "\<exists>s' ctx. scheduler_switch_to_next_process s = Some (s', ctx) \<and>
    (pstate (process_list s' ! 0) = PROCESS_STATE_READY \<or> pstate (process_list s' ! 0) = PROCESS_STATE_RUNNING) \<and>
    pcontext (process_list s' ! 0) = pcontext (process_list s ! 0)"
proof -
  let ?ps = "(process_list s)[0 := (process_list s ! 0)\<lparr>pstate := PROCESS_STATE_RUNNING\<rparr>]"
  have "length ?ps = 16" using assms(2) by simp
  then show ?thesis
    using switch_none_running(1) [OF assms] switched_nth [of ?ps 0 0] assms(2) by (cases "process_list s") auto
qed

theorem scheduler_revives_slot_0_witness:
  "\<exists>s' ctx. pstate (process_list demo_sys ! 0) = NO_PROCESS \<and>
    scheduler_switch_to_next_process demo_sys = Some (s', ctx) \<and>
    pstate (process_list s' ! 0) \<noteq> NO_PROCESS"
proof -
  have "\<forall>j<16. pstate (process_list demo_sys ! j) = NO_PROCESS" "length (process_list demo_sys) = 16"
    by (simp_all add: demo_sys_def zero_pcb_def)
  then show ?thesis using scheduler_revives_slot_0 [of demo_sys] by auto
qed

end
