(* ===== verification/Ports.thy ===== *)
theory Ports
  imports Prelude
begin

text \<open>
  The I/O ports and the interrupt controllers: \<^verbatim>\<open>src/src/portio.c\<close> and the PIC and PIT
  functions of \<^verbatim>\<open>src/src/interrupt.c\<close>. The devices behind the ports are not part of the
  program: a \<open>bus\<close> gives what an output does to their state and what an input returns, and
  is an argument of everything here. What the code relies on is stated by predicates on the
  bus: \<open>crtc_ok\<close> for the cursor registers of the display, \<open>pic_ok\<close> for a pair of 8259
  controllers, as their data sheets describe them.
\<close>

section \<open>Ports\<close>

record 'd bus =
  bus_out :: "u16 \<Rightarrow> u8 \<Rightarrow> 'd \<Rightarrow> 'd"
  bus_in :: "u16 \<Rightarrow> 'd \<Rightarrow> u8 \<times> 'd"

definition out :: "'d bus \<Rightarrow> u16 \<Rightarrow> u8 \<Rightarrow> 'd \<Rightarrow> 'd" where
  "out B port data d = bus_out B port data d"

definition in_port :: "'d bus \<Rightarrow> u16 \<Rightarrow> 'd \<Rightarrow> u8 \<times> 'd" where
  "in_port B port d = bus_in B port d"

section \<open>The interrupt controllers and the timer\<close>

definition PIC1_COMMAND :: u16 where "PIC1_COMMAND = 0x20"
definition PIC1_DATA :: u16 where "PIC1_DATA = 0x21"
definition PIC2_COMMAND :: u16 where "PIC2_COMMAND = 0xA0"
definition PIC2_DATA :: u16 where "PIC2_DATA = 0xA1"
definition PIC1_OFFSET :: u8 where "PIC1_OFFSET = 0x20"
definition PIC2_OFFSET :: u8 where "PIC2_OFFSET = 0x28"
definition PIC_ACK :: u8 where "PIC_ACK = 0x20"
definition ICW1_ICW4 :: u8 where "ICW1_ICW4 = 0x01"
definition ICW1_INIT :: u8 where "ICW1_INIT = 0x10"
definition ICW4_8086 :: u8 where "ICW4_8086 = 0x01"
definition PIC_DISABLE_ALL_MASK :: u8 where "PIC_DISABLE_ALL_MASK = 0xFF"
definition IRQ_TIMER :: nat where "IRQ_TIMER = 0"
definition IRQ_KEYBOARD :: nat where "IRQ_KEYBOARD = 1"

lemmas pic_constants = PIC1_COMMAND_def PIC1_DATA_def PIC2_COMMAND_def PIC2_DATA_def PIC1_OFFSET_def
  PIC2_OFFSET_def PIC_ACK_def ICW1_ICW4_def ICW1_INIT_def ICW4_8086_def PIC_DISABLE_ALL_MASK_def
  IRQ_TIMER_def IRQ_KEYBOARD_def

definition PIT_COMMAND_REGISTER_PIO :: u16 where "PIT_COMMAND_REGISTER_PIO = 0x43"
definition PIT_CHANNEL_0_DATA_PIO :: u16 where "PIT_CHANNEL_0_DATA_PIO = 0x40"
definition PIT_MAX_FREQUENCY :: u32 where "PIT_MAX_FREQUENCY = 1193182"
definition PIT_TIMER_FREQUENCY :: u32 where "PIT_TIMER_FREQUENCY = 1000"
definition PIT_TIMER_COUNTER :: u32 where "PIT_TIMER_COUNTER = PIT_MAX_FREQUENCY div PIT_TIMER_FREQUENCY"
definition PIT_COMMAND_VALUE :: u8 where
  "PIT_COMMAND_VALUE = 0 OR push_bit 1 0b011 OR push_bit 4 0b11 OR push_bit 6 0b00"

definition io_wait :: "'d bus \<Rightarrow> 'd \<Rightarrow> 'd" where
  "io_wait B d = out B 0x80 0 d"

definition pic_ack :: "'d bus \<Rightarrow> u8 \<Rightarrow> 'd \<Rightarrow> 'd" where
  "pic_ack B irq d =
     (let d1 = (if irq \<ge> 8 then out B PIC2_COMMAND PIC_ACK d else d) in out B PIC1_COMMAND PIC_ACK d1)"

definition pic_remap :: "'d bus \<Rightarrow> 'd \<Rightarrow> 'd" where
  "pic_remap B d =
     (let w = io_wait B;
          d1 = w (out B PIC1_COMMAND (ICW1_INIT OR ICW1_ICW4) d);
          d2 = w (out B PIC2_COMMAND (ICW1_INIT OR ICW1_ICW4) d1);
          d3 = w (out B PIC1_DATA PIC1_OFFSET d2);
          d4 = w (out B PIC2_DATA PIC2_OFFSET d3);
          d5 = w (out B PIC1_DATA 0b0100 d4);
          d6 = w (out B PIC2_DATA 0b0010 d5);
          d7 = w (out B PIC1_DATA ICW4_8086 d6);
          d8 = w (out B PIC2_DATA ICW4_8086 d7);
          d9 = out B PIC1_DATA PIC_DISABLE_ALL_MASK d8
      in out B PIC2_DATA PIC_DISABLE_ALL_MASK d9)"

definition activate_keyboard_interrupt :: "'d bus \<Rightarrow> 'd \<Rightarrow> 'd" where
  "activate_keyboard_interrupt B d =
     (let (v, d1) = in_port B PIC1_DATA d in out B PIC1_DATA (v AND NOT (push_bit IRQ_KEYBOARD 1)) d1)"

definition activate_timer_interrupt :: "'d bus \<Rightarrow> 'd \<Rightarrow> 'd" where
  "activate_timer_interrupt B d =
     (let n = PIT_TIMER_COUNTER;
          d1 = out B PIT_COMMAND_REGISTER_PIO PIT_COMMAND_VALUE d;
          d2 = out B PIT_CHANNEL_0_DATA_PIO (ucast (n AND 0xFF)) d1;
          d3 = out B PIT_CHANNEL_0_DATA_PIO (ucast (drop_bit 8 n AND 0xFF)) d2;
          (v, d4) = in_port B PIC1_DATA d3
      in out B PIC1_DATA (v AND NOT (push_bit IRQ_TIMER 1)) d4)"

section \<open>An 8259 pair, by its data sheet\<close>

text \<open>
  Where a controller is in its initialisation sequence, its vector base and its mask. A
  write with bit 4 set to the command port starts the sequence; the next three data writes
  are the vector base, the cascade wiring and the mode; a data write outside the sequence
  sets the mask, and a data read returns it.
\<close>

datatype pic_phase = Ready | Want_ICW2 | Want_ICW3 | Want_ICW4

record pic =
  phase :: pic_phase
  vector_base :: u8
  mask_bits :: u8

definition pic_command :: "u8 \<Rightarrow> pic \<Rightarrow> pic" where
  "pic_command v p = (if bit v 4 then p\<lparr>phase := Want_ICW2, mask_bits := 0\<rparr> else p)"

definition pic_data :: "u8 \<Rightarrow> pic \<Rightarrow> pic" where
  "pic_data v p = (case phase p of
     Ready \<Rightarrow> p\<lparr>mask_bits := v\<rparr>
   | Want_ICW2 \<Rightarrow> p\<lparr>phase := Want_ICW3, vector_base := v\<rparr>
   | Want_ICW3 \<Rightarrow> p\<lparr>phase := Want_ICW4\<rparr>
   | Want_ICW4 \<Rightarrow> p\<lparr>phase := Ready\<rparr>)"

text \<open>\<open>m\<close> and \<open>s\<close> read the two controllers off the device state.\<close>

definition pic_ok :: "'d bus \<Rightarrow> ('d \<Rightarrow> pic) \<Rightarrow> ('d \<Rightarrow> pic) \<Rightarrow> bool" where
  "pic_ok B m s \<longleftrightarrow>
     (\<forall>port v d. m (bus_out B port v d) =
        (if port = 0x20 then pic_command v (m d) else if port = 0x21 then pic_data v (m d) else m d)) \<and>
     (\<forall>port v d. s (bus_out B port v d) =
        (if port = 0xA0 then pic_command v (s d) else if port = 0xA1 then pic_data v (s d) else s d)) \<and>
     (\<forall>d. phase (m d) = Ready \<longrightarrow> fst (bus_in B 0x21 d) = mask_bits (m d)) \<and>
     (\<forall>port d. m (snd (bus_in B port d)) = m d \<and> s (snd (bus_in B port d)) = s d)"

definition demo_pic_bus :: "(pic \<times> pic) bus" where
  "demo_pic_bus = \<lparr>
     bus_out = (\<lambda>port v (m, s). (if port = 0x20 then pic_command v m else if port = 0x21 then pic_data v m else m,
                                 if port = 0xA0 then pic_command v s else if port = 0xA1 then pic_data v s else s)),
     bus_in = (\<lambda>port (m, s). (mask_bits m, (m, s)))\<rparr>"

lemma demo_pic_ok: "pic_ok demo_pic_bus fst snd"
  by (simp add: pic_ok_def demo_pic_bus_def split: prod.split)

lemma pic_out:
  assumes "pic_ok B m s"
  shows "m (out B port v d) = (if port = 0x20 then pic_command v (m d) else if port = 0x21 then pic_data v (m d) else m d)"
    and "s (out B port v d) = (if port = 0xA0 then pic_command v (s d) else if port = 0xA1 then pic_data v (s d) else s d)"
  using assms unfolding pic_ok_def out_def by blast+

lemma pic_in:
  assumes "pic_ok B m s"
  shows "m (snd (in_port B port d)) = m d" and "s (snd (in_port B port d)) = s d"
    and "phase (m d) = Ready \<Longrightarrow> fst (in_port B 0x21 d) = mask_bits (m d)"
  using assms unfolding pic_ok_def in_port_def by blast+

lemma pic_out_ports:
  assumes "pic_ok B m s"
  shows "m (out B PIC1_COMMAND v d) = pic_command v (m d)" "m (out B PIC1_DATA v d) = pic_data v (m d)"
    "m (out B PIC2_COMMAND v d) = m d" "m (out B PIC2_DATA v d) = m d" "m (io_wait B d) = m d"
    "m (out B PIT_COMMAND_REGISTER_PIO v d) = m d" "m (out B PIT_CHANNEL_0_DATA_PIO v d) = m d"
    "s (out B PIC2_COMMAND v d) = pic_command v (s d)" "s (out B PIC2_DATA v d) = pic_data v (s d)"
    "s (out B PIC1_COMMAND v d) = s d" "s (out B PIC1_DATA v d) = s d" "s (io_wait B d) = s d"
    "s (out B PIT_COMMAND_REGISTER_PIO v d) = s d" "s (out B PIT_CHANNEL_0_DATA_PIO v d) = s d"
  unfolding io_wait_def pic_out [OF assms] pic_constants PIT_COMMAND_REGISTER_PIO_def PIT_CHANNEL_0_DATA_PIO_def
  by simp_all

lemma pic_remap_state:
  assumes "pic_ok B m s"
  shows "m (pic_remap B d) = \<lparr>phase = Ready, vector_base = 0x20, mask_bits = 0xFF\<rparr>"
    and "s (pic_remap B d) = \<lparr>phase = Ready, vector_base = 0x28, mask_bits = 0xFF\<rparr>"
proof -
  have icw: "pic_command (ICW1_INIT OR ICW1_ICW4) p = p\<lparr>phase := Want_ICW2, mask_bits := 0\<rparr>" for p
    by (simp add: pic_command_def pic_constants bit_iff_odd)
  show "m (pic_remap B d) = \<lparr>phase = Ready, vector_base = 0x20, mask_bits = 0xFF\<rparr>"
    by (simp add: pic_remap_def Let_def pic_out_ports [OF assms] icw pic_data_def)
       (simp add: PIC1_OFFSET_def PIC_DISABLE_ALL_MASK_def)
  show "s (pic_remap B d) = \<lparr>phase = Ready, vector_base = 0x28, mask_bits = 0xFF\<rparr>"
    by (simp add: pic_remap_def Let_def pic_out_ports [OF assms] icw pic_data_def)
       (simp add: PIC2_OFFSET_def PIC_DISABLE_ALL_MASK_def)
qed

lemma activate_state:
  assumes "pic_ok B m s" and "phase (m d) = Ready"
  shows "m (activate_keyboard_interrupt B d) = (m d)\<lparr>mask_bits := mask_bits (m d) AND NOT 2\<rparr>"
    and "s (activate_keyboard_interrupt B d) = s d"
    and "m (activate_timer_interrupt B d) = (m d)\<lparr>mask_bits := mask_bits (m d) AND NOT 1\<rparr>"
    and "s (activate_timer_interrupt B d) = s d"
proof -
  have p: "PIC1_DATA = 0x21" by (simp add: pic_constants)
  have data: "phase q = Ready \<Longrightarrow> pic_data v q = q\<lparr>mask_bits := v\<rparr>" for v q by (simp add: pic_data_def)
  obtain v d1 where i: "in_port B 0x21 d = (v, d1)" by fastforce
  have d1: "m d1 = m d" "s d1 = s d" "v = mask_bits (m d)"
    using pic_in(1,2) [OF assms(1), where port = "0x21" and d = d] pic_in(3) [OF assms] i by simp_all
  have k: "activate_keyboard_interrupt B d = out B PIC1_DATA (v AND NOT 2) d1"
    using i by (simp add: activate_keyboard_interrupt_def p IRQ_KEYBOARD_def)
  show "m (activate_keyboard_interrupt B d) = (m d)\<lparr>mask_bits := mask_bits (m d) AND NOT 2\<rparr>"
    "s (activate_keyboard_interrupt B d) = s d"
    unfolding k pic_out_ports [OF assms(1)] using d1 assms(2) by (simp_all add: data)
  define e where "e = out B PIT_CHANNEL_0_DATA_PIO (ucast (drop_bit 8 PIT_TIMER_COUNTER AND 0xFF))
    (out B PIT_CHANNEL_0_DATA_PIO (ucast (PIT_TIMER_COUNTER AND 0xFF)) (out B PIT_COMMAND_REGISTER_PIO PIT_COMMAND_VALUE d))"
  have e: "m e = m d" "s e = s d" unfolding e_def pic_out_ports [OF assms(1)] by simp_all
  obtain w e1 where j: "in_port B 0x21 e = (w, e1)" by fastforce
  have e1: "m e1 = m d" "s e1 = s d" "w = mask_bits (m d)"
    using pic_in(1,2) [OF assms(1), where port = "0x21" and d = e] pic_in(3) [OF assms(1), where d = e] j assms(2) e by simp_all
  have t: "activate_timer_interrupt B d = out B PIC1_DATA (w AND NOT 1) e1"
    using j by (simp add: activate_timer_interrupt_def Let_def p e_def [symmetric] IRQ_TIMER_def)
  show "m (activate_timer_interrupt B d) = (m d)\<lparr>mask_bits := mask_bits (m d) AND NOT 1\<rparr>"
    "s (activate_timer_interrupt B d) = s d"
    unfolding t pic_out_ports [OF assms(1)] using e1 assms(2) by (simp_all add: data)
qed

lemma pic_ack_state:
  assumes "pic_ok B m s"
  shows "m (pic_ack B irq d) = m d" and "s (pic_ack B irq d) = s d"
proof -
  have ack: "pic_command PIC_ACK q = q" for q by (simp add: pic_command_def PIC_ACK_def bit_iff_odd)
  show "m (pic_ack B irq d) = m d" "s (pic_ack B irq d) = s d"
    by (simp_all add: pic_ack_def Let_def pic_out_ports [OF assms] ack)
qed

lemma mask_timer_keyboard:
  assumes "n < 8"
  shows "bit (0xFC :: u8) n \<longleftrightarrow> n \<noteq> IRQ_TIMER \<and> n \<noteq> IRQ_KEYBOARD"
proof -
  have "n = 0 \<or> n = 1 \<or> n = 2 \<or> n = 3 \<or> n = 4 \<or> n = 5 \<or> n = 6 \<or> n = 7" using assms by auto
  then show ?thesis unfolding IRQ_TIMER_def IRQ_KEYBOARD_def by (elim disjE) (simp_all add: bit_iff_odd)
qed

text \<open>
  Interrupt setup. Whatever the state of the two controllers, after the remapping the
  master delivers its interrupts from vector 0x20 and the slave from 0x28, with all lines
  masked; activating the keyboard and then the timer unmasks exactly lines 1 and 0 of the
  master, and acknowledging an interrupt changes none of this.
\<close>

theorem interrupt_setup:
  fixes B :: "'d bus"
  assumes "pic_ok B m s"
  shows "vector_base (m (pic_remap B d)) = 0x20 \<and> vector_base (s (pic_remap B d)) = 0x28 \<and>
    mask_bits (m (pic_remap B d)) = 0xFF \<and> mask_bits (s (pic_remap B d)) = 0xFF \<and>
    (let d2 = activate_timer_interrupt B (activate_keyboard_interrupt B (pic_remap B d)) in
     vector_base (m d2) = 0x20 \<and> vector_base (s d2) = 0x28 \<and> mask_bits (s d2) = 0xFF \<and>
     (\<forall>n<8. bit (mask_bits (m d2)) n = (n \<noteq> IRQ_TIMER \<and> n \<noteq> IRQ_KEYBOARD)) \<and>
     m (pic_ack B irq d2) = m d2 \<and> s (pic_ack B irq d2) = s d2)"
proof -
  note r = pic_remap_state [OF assms, of d]
  have k: "m (activate_keyboard_interrupt B (pic_remap B d)) = \<lparr>phase = Ready, vector_base = 0x20, mask_bits = 0xFD\<rparr>"
    "s (activate_keyboard_interrupt B (pic_remap B d)) = s (pic_remap B d)"
    using activate_state(1,2) [OF assms, of "pic_remap B d"] r by simp_all
  have t: "m (activate_timer_interrupt B (activate_keyboard_interrupt B (pic_remap B d))) =
      \<lparr>phase = Ready, vector_base = 0x20, mask_bits = 0xFC\<rparr>"
    "s (activate_timer_interrupt B (activate_keyboard_interrupt B (pic_remap B d))) = s (pic_remap B d)"
    using activate_state(3,4) [OF assms, of "activate_keyboard_interrupt B (pic_remap B d)"] k by simp_all
  show ?thesis
    unfolding Let_def using r t pic_ack_state [OF assms] mask_timer_keyboard by (simp add: IRQ_TIMER_def IRQ_KEYBOARD_def)
qed

definition demo_pics :: "pic \<times> pic" where
  "demo_pics = (\<lparr>phase = Want_ICW3, vector_base = 8, mask_bits = 0\<rparr>, \<lparr>phase = Ready, vector_base = 0x70, mask_bits = 0\<rparr>)"

theorem interrupt_setup_witness:
  "(let d2 = activate_timer_interrupt demo_pic_bus (activate_keyboard_interrupt demo_pic_bus (pic_remap demo_pic_bus demo_pics)) in
    vector_base (fst d2) = 0x20 \<and> \<not> bit (mask_bits (fst d2)) 1 \<and> bit (mask_bits (fst d2)) 5)"
  using interrupt_setup [OF demo_pic_ok, of demo_pics] by (simp add: Let_def IRQ_TIMER_def IRQ_KEYBOARD_def)

end
