(* ===== verification/Console.thy ===== *)
theory Console
  imports Ports
begin

text \<open>
  \<^verbatim>\<open>src/src/framebuffer.c\<close>: the 80 by 25 text display. The state is the text memory (a byte
  for every offset from its base), the software cursor of \<open>putchar\<close> and \<open>puts\<close>, and the
  devices behind the ports, where the display controller keeps the hardware cursor.
  \<open>crtc_ok\<close> is what the code relies on of that controller: an index register selects the
  register that the data port reads and writes.
\<close>

section \<open>State and operations\<close>

record 'd console =
  text_memory :: "nat \<Rightarrow> u8"
  cur_row :: int
  cur_col :: int
  dev :: 'd

definition CURSOR_PORT_CMD :: u16 where "CURSOR_PORT_CMD = 0x3D4"
definition CURSOR_PORT_DATA :: u16 where "CURSOR_PORT_DATA = 0x3D5"

definition framebuffer_set_cursor :: "'d bus \<Rightarrow> u8 \<Rightarrow> u8 \<Rightarrow> 'd \<Rightarrow> 'd" where
  "framebuffer_set_cursor B r c d =
     (let position = of_nat (unat r * 80 + unat c) :: u16;
          d1 = out B CURSOR_PORT_CMD 0x0F d;
          d2 = out B CURSOR_PORT_DATA (ucast (position AND 0xFF)) d1;
          d3 = out B CURSOR_PORT_CMD 0x0E d2
      in out B CURSOR_PORT_DATA (ucast (drop_bit 8 position AND 0xFF)) d3)"

definition framebuffer_get_cursor :: "'d bus \<Rightarrow> 'd \<Rightarrow> (int \<times> int) \<times> 'd" where
  "framebuffer_get_cursor B d =
     (let d1 = out B CURSOR_PORT_CMD 0x0E d;
          (hi, d2) = in_port B CURSOR_PORT_DATA d1;
          d3 = out B CURSOR_PORT_CMD 0x0F d2;
          (lo, d4) = in_port B CURSOR_PORT_DATA d3;
          offset = push_bit 8 (uint hi) + uint lo
      in ((offset div 80, offset mod 80), d4))"

definition framebuffer_write :: "u8 \<Rightarrow> u8 \<Rightarrow> u8 \<Rightarrow> u8 \<Rightarrow> u8 \<Rightarrow> (nat \<Rightarrow> u8) \<Rightarrow> nat \<Rightarrow> u8" where
  "framebuffer_write row col c fg bg fb =
     fb((unat row * 80 + unat col) * 2 := c,
        (unat row * 80 + unat col) * 2 + 1 := push_bit 4 bg OR (fg AND 0x0F))"

text \<open>\<open>memset(FRAMEBUFFER_MEMORY_OFFSET, 0, n)\<close>.\<close>

definition clear_text :: "nat \<Rightarrow> (nat \<Rightarrow> u8) \<Rightarrow> nat \<Rightarrow> u8" where
  "clear_text n fb = fold (\<lambda>i fb. fb(i := 0)) [0..<n] fb"

definition framebuffer_clear :: "'d console \<Rightarrow> 'd console" where
  "framebuffer_clear s =
     s\<lparr>text_memory := clear_text (80 * 25 * 2) (text_memory s), cur_col := 0, cur_row := 0\<rparr>"

definition putchar :: "u8 \<Rightarrow> u8 \<Rightarrow> 'd console \<Rightarrow> 'd console" where
  "putchar c color s =
     s\<lparr>text_memory := framebuffer_write (of_int (cur_row s)) (of_int (cur_col s)) c color 0 (text_memory s)\<rparr>"

text \<open>Starting a new line, with the wrap to a cleared screen; one character of \<open>puts\<close>.\<close>

definition next_line :: "'d console \<Rightarrow> 'd console" where
  "next_line s =
     (let s1 = s\<lparr>cur_row := cur_row s + 1, cur_col := 0\<rparr> in
      if cur_row s1 = 24 then framebuffer_clear (s1\<lparr>cur_row := 0\<rparr>) else s1)"

definition puts_char :: "u8 \<Rightarrow> u8 \<Rightarrow> 'd console \<Rightarrow> 'd console" where
  "puts_char color c s =
     (if c = 0x0A then next_line s
      else let s1 = (if cur_col s = 80 then next_line s else s); s2 = putchar c color s1
           in s2\<lparr>cur_col := cur_col s2 + 1\<rparr>)"

definition puts :: "'d bus \<Rightarrow> u8 list \<Rightarrow> u8 \<Rightarrow> 'd console \<Rightarrow> 'd console" where
  "puts B str color s =
     (let s1 = fold (puts_char color) str s;
          fb = framebuffer_write (of_int (cur_row s1)) (of_int (cur_col s1)) 0 0xF 0 (text_memory s1)
      in s1\<lparr>text_memory := fb,
            dev := framebuffer_set_cursor B (of_int (cur_row s1)) (of_int (cur_col s1)) (dev s1)\<rparr>)"

section \<open>The hardware cursor\<close>

definition crtc_ok :: "'d bus \<Rightarrow> ('d \<Rightarrow> u8) \<Rightarrow> ('d \<Rightarrow> u8 \<Rightarrow> u8) \<Rightarrow> bool" where
  "crtc_ok B sel regs \<longleftrightarrow>
     (\<forall>d i. sel (bus_out B 0x3D4 i d) = i \<and> regs (bus_out B 0x3D4 i d) = regs d) \<and>
     (\<forall>d v. sel (bus_out B 0x3D5 v d) = sel d \<and> regs (bus_out B 0x3D5 v d) = (regs d)(sel d := v)) \<and>
     (\<forall>d. fst (bus_in B 0x3D5 d) = regs d (sel d) \<and> sel (snd (bus_in B 0x3D5 d)) = sel d \<and>
          regs (snd (bus_in B 0x3D5 d)) = regs d)"

lemma crtc_rules:
  assumes "crtc_ok B sel regs"
  shows "sel (out B CURSOR_PORT_CMD i d) = i" "regs (out B CURSOR_PORT_CMD i d) = regs d"
    "sel (out B CURSOR_PORT_DATA v d) = sel d" "regs (out B CURSOR_PORT_DATA v d) = (regs d)(sel d := v)"
    "fst (in_port B CURSOR_PORT_DATA d) = regs d (sel d)" "sel (snd (in_port B CURSOR_PORT_DATA d)) = sel d"
    "regs (snd (in_port B CURSOR_PORT_DATA d)) = regs d"
  using assms unfolding crtc_ok_def out_def in_port_def CURSOR_PORT_CMD_def CURSOR_PORT_DATA_def by simp_all

lemma set_cursor_regs:
  fixes r c :: u8
  assumes "crtc_ok B sel regs"
  defines "position \<equiv> of_nat (unat r * 80 + unat c) :: u16"
  shows "regs (framebuffer_set_cursor B r c d) =
    (regs d)(0x0F := ucast (position AND 0xFF), 0x0E := ucast (drop_bit 8 position AND 0xFF))"
  by (simp add: framebuffer_set_cursor_def Let_def crtc_rules [OF assms(1)] position_def)

lemma get_cursor_regs:
  assumes "crtc_ok B sel regs"
  shows "fst (framebuffer_get_cursor B d) =
      ((push_bit 8 (uint (regs d 0x0E)) + uint (regs d 0x0F)) div 80,
       (push_bit 8 (uint (regs d 0x0E)) + uint (regs d 0x0F)) mod 80)"
    and "regs (snd (framebuffer_get_cursor B d)) = regs d"
proof -
  let ?d1 = "out B CURSOR_PORT_CMD 0x0E d"
  obtain hi d2 where i: "in_port B CURSOR_PORT_DATA ?d1 = (hi, d2)" by fastforce
  have hi: "hi = regs d 0x0E" "regs d2 = regs d"
    using crtc_rules(5,7) [OF assms, of ?d1] i by (simp_all add: crtc_rules [OF assms])
  obtain lo d4 where j: "in_port B CURSOR_PORT_DATA (out B CURSOR_PORT_CMD 0x0F d2) = (lo, d4)" by fastforce
  have lo: "lo = regs d 0x0F" "regs d4 = regs d"
    using crtc_rules(5,7) [OF assms, of "out B CURSOR_PORT_CMD 0x0F d2"] j hi by (simp_all add: crtc_rules [OF assms])
  show "fst (framebuffer_get_cursor B d) =
      ((push_bit 8 (uint (regs d 0x0E)) + uint (regs d 0x0F)) div 80,
       (push_bit 8 (uint (regs d 0x0E)) + uint (regs d 0x0F)) mod 80)"
    "regs (snd (framebuffer_get_cursor B d)) = regs d"
    by (simp_all add: framebuffer_get_cursor_def Let_def i j hi lo)
qed

lemma bytes_of_u16:
  fixes w :: u16
  shows "push_bit 8 (uint (ucast (drop_bit 8 w AND 0xFF) :: u8)) + uint (ucast (w AND 0xFF) :: u8) = uint w"
proof -
  have m: "(0xFF :: u16) = mask 8" by (simp add: mask_eq_exp_minus_1)
  have lt: "uint w < 65536" using unsigned_less [of w] by simp
  have lo: "uint (ucast (w AND 0xFF) :: u8) = uint w mod 256"
    unfolding m by (simp add: unsigned_ucast_eq take_bit_eq_mask [symmetric] unsigned_take_bit_eq take_bit_eq_mod uint_mod_distrib)
  have "uint (drop_bit 8 w) = uint w div 256"
    by (simp add: uint_div_distrib drop_bit_eq_div)
  then have hi: "uint (ucast (drop_bit 8 w AND 0xFF) :: u8) = uint w div 256 mod 256"
    unfolding m by (simp add: unsigned_ucast_eq take_bit_eq_mask [symmetric] unsigned_take_bit_eq take_bit_eq_mod uint_mod_distrib)
  have "uint w div 256 mod 256 = uint w div 256" using lt by (intro mod_pos_pos_trivial) (simp_all add: div_int_pos_iff)
  then show ?thesis unfolding lo hi by (simp add: push_bit_eq_mult)
qed

lemma cursor_position:
  assumes "crtc_ok B sel regs"
  shows "fst (framebuffer_get_cursor B (framebuffer_set_cursor B r c d)) =
    (int (unat r * 80 + unat c) div 80, int (unat r * 80 + unat c) mod 80)"
proof -
  let ?p = "unat r * 80 + unat c"
  have "unat r < 256" "unat c < 256" using unsigned_less [of r] unsigned_less [of c] by simp_all
  then have p: "?p < 65536" by linarith
  have up: "uint (of_nat ?p :: u16) = int ?p"
    using p by (simp only: unsigned_of_nat) (simp add: take_bit_nat_eq_self)
  have "fst (framebuffer_get_cursor B (framebuffer_set_cursor B r c d)) = (uint (of_nat ?p :: u16) div 80, uint (of_nat ?p :: u16) mod 80)"
    unfolding get_cursor_regs(1) [OF assms(1)] set_cursor_regs [OF assms(1)] by (simp only: fun_upd_apply) (simp add: bytes_of_u16)
  then show ?thesis unfolding up .
qed

section \<open>The text on the screen\<close>

definition on_screen :: "'d console \<Rightarrow> bool" where
  "on_screen s \<longleftrightarrow> 0 \<le> cur_row s \<and> cur_row s < 24 \<and> 0 \<le> cur_col s \<and> cur_col s \<le> 80"

definition cell :: "nat \<Rightarrow> nat \<Rightarrow> nat" where
  "cell r c = (r * 80 + c) * 2"

definition screen_bytes :: nat where "screen_bytes = 4000"

lemma unat_of_int8: "0 \<le> x \<Longrightarrow> x < 256 \<Longrightarrow> unat (of_int x :: u8) = nat x"
  by (simp add: unat_eq_nat_uint uint_word_of_int_eq take_bit_int_eq_self)

lemma framebuffer_write_at:
  assumes "on_screen s"
  shows "framebuffer_write (of_int (cur_row s)) (of_int (cur_col s)) ch fg bg fb =
    fb(cell (nat (cur_row s)) (nat (cur_col s)) := ch,
       Suc (cell (nat (cur_row s)) (nat (cur_col s))) := push_bit 4 bg OR (fg AND 0x0F))"
  using assms by (simp add: framebuffer_write_def cell_def unat_of_int8 on_screen_def)

lemma cell_bound: "r \<le> 23 \<Longrightarrow> c \<le> 80 \<Longrightarrow> Suc (cell r c) < screen_bytes"
  by (simp add: cell_def screen_bytes_def)

lemma on_screen_cell: "on_screen s \<Longrightarrow> Suc (cell (nat (cur_row s)) (nat (cur_col s))) < screen_bytes"
proof -
  assume "on_screen s"
  then have "nat (cur_row s) \<le> 23" "nat (cur_col s) \<le> 80" by (auto simp: on_screen_def)
  then show ?thesis by (rule cell_bound)
qed

lemma clear_text_above: "n \<le> i \<Longrightarrow> clear_text n fb i = fb i"
  unfolding clear_text_def by (induction n) auto

lemma framebuffer_clear_on_screen:
  "on_screen (framebuffer_clear s)" "screen_bytes \<le> i \<Longrightarrow> text_memory (framebuffer_clear s) i = text_memory s i"
  "dev (framebuffer_clear s) = dev s" "cur_col (framebuffer_clear s) = 0"
  by (simp_all add: framebuffer_clear_def on_screen_def screen_bytes_def clear_text_above)

lemma next_line_on_screen:
  assumes "on_screen s"
  shows "on_screen (next_line s)" "screen_bytes \<le> i \<Longrightarrow> text_memory (next_line s) i = text_memory s i"
    "dev (next_line s) = dev s" "cur_col (next_line s) = 0"
proof -
  show "on_screen (next_line s)"
  proof (cases "cur_row s + 1 = 24")
    case True
    then show ?thesis by (simp add: next_line_def Let_def framebuffer_clear_on_screen)
  next
    case False
    then show ?thesis using assms by (auto simp: next_line_def Let_def on_screen_def)
  qed
  show "screen_bytes \<le> i \<Longrightarrow> text_memory (next_line s) i = text_memory s i"
    "dev (next_line s) = dev s"
    by (simp_all add: next_line_def Let_def framebuffer_clear_on_screen)
  show "cur_col (next_line s) = 0"
    by (simp add: next_line_def Let_def framebuffer_clear_on_screen)
qed

lemma putchar_step:
  fixes ch color :: u8
  assumes "on_screen s" and "cur_col s < 80"
  defines "t \<equiv> putchar ch color s"
  shows "on_screen (t\<lparr>cur_col := cur_col t + 1\<rparr>)"
    and "text_memory t = (text_memory s)(cell (nat (cur_row s)) (nat (cur_col s)) := ch,
           Suc (cell (nat (cur_row s)) (nat (cur_col s))) := color AND 0x0F)"
    and "cur_row t = cur_row s" "cur_col t = cur_col s" "dev t = dev s"
  using assms(1,2) by (simp_all add: t_def putchar_def framebuffer_write_at [OF assms(1)] on_screen_def)

lemma puts_char_on_screen:
  assumes "on_screen s"
  shows "on_screen (puts_char color ch s)"
    "screen_bytes \<le> i \<Longrightarrow> text_memory (puts_char color ch s) i = text_memory s i"
    "dev (puts_char color ch s) = dev s"
proof -
  let ?s = "if cur_col s = 80 then next_line s else s"
  have s: "on_screen ?s" "cur_col ?s < 80" "dev ?s = dev s"
    "screen_bytes \<le> i \<Longrightarrow> text_memory ?s i = text_memory s i"
    using assms next_line_on_screen [OF assms] by (auto simp: on_screen_def)
  note p = putchar_step [OF s(1,2), where ch = ch and color = color]
  note n = next_line_on_screen [OF assms]
  note b = on_screen_cell [OF s(1)]
  show "on_screen (puts_char color ch s)" using p n by (auto simp: puts_char_def Let_def)
  show "dev (puts_char color ch s) = dev s" using p n s by (simp add: puts_char_def Let_def)
  show "text_memory (puts_char color ch s) i = text_memory s i" if i: "screen_bytes \<le> i"
  proof (cases "ch = 0x0A")
    case True
    then show ?thesis using n(2) [OF i] by (simp add: puts_char_def)
  next
    case False
    then have "text_memory (puts_char color ch s) i = text_memory (putchar ch color ?s) i"
      by (simp add: puts_char_def Let_def)
    also have "\<dots> = text_memory ?s i"
    proof -
      define k where "k = cell (nat (cur_row ?s)) (nat (cur_col ?s))"
      have "i \<noteq> k" "i \<noteq> Suc k" using b i unfolding k_def [symmetric] by simp_all
      then show ?thesis unfolding p(2) k_def [symmetric] by (simp only: fun_upd_apply if_False)
    qed
    finally show ?thesis using s(4) [OF i] by simp
  qed
qed

lemma fold_puts_on_screen:
  assumes "on_screen s"
  shows "on_screen (fold (puts_char color) str s) \<and> dev (fold (puts_char color) str s) = dev s \<and>
    (\<forall>i. screen_bytes \<le> i \<longrightarrow> text_memory (fold (puts_char color) str s) i = text_memory s i)"
  using assms
proof (induction str arbitrary: s)
  case (Cons ch str)
  note c = puts_char_on_screen [OF Cons.prems, where color = color and ch = ch]
  show ?case using Cons.IH [OF c(1)] c(2,3) by simp
qed simp

lemma puts_state:
  fixes color :: u8 and str :: "u8 list"
  assumes "on_screen s"
  defines "t \<equiv> fold (puts_char color) str s"
  shows "cur_row (puts B str color s) = cur_row t" "cur_col (puts B str color s) = cur_col t"
    "text_memory (puts B str color s) = (text_memory t)(cell (nat (cur_row t)) (nat (cur_col t)) := 0,
       Suc (cell (nat (cur_row t)) (nat (cur_col t))) := 0x0F)"
    "dev (puts B str color s) = framebuffer_set_cursor B (of_int (cur_row t)) (of_int (cur_col t)) (dev s)"
proof -
  have t: "on_screen t" "dev t = dev s" using fold_puts_on_screen [OF assms(1), where color = color and str = str]
    by (simp_all add: t_def)
  have "puts B str color s = t\<lparr>text_memory := framebuffer_write (of_int (cur_row t)) (of_int (cur_col t)) 0 0xF 0 (text_memory t),
      dev := framebuffer_set_cursor B (of_int (cur_row t)) (of_int (cur_col t)) (dev t)\<rparr>"
    by (simp add: puts_def Let_def t_def)
  then show "cur_row (puts B str color s) = cur_row t" "cur_col (puts B str color s) = cur_col t"
    "text_memory (puts B str color s) = (text_memory t)(cell (nat (cur_row t)) (nat (cur_col t)) := 0,
       Suc (cell (nat (cur_row t)) (nat (cur_col t))) := 0x0F)"
    "dev (puts B str color s) = framebuffer_set_cursor B (of_int (cur_row t)) (of_int (cur_col t)) (dev s)"
    using t by (simp_all add: framebuffer_write_at)
qed

text \<open>A text that fits on the current line is stored cell by cell from the cursor on.\<close>

definition line_cells :: "u8 \<Rightarrow> u8 list \<Rightarrow> 'd console \<Rightarrow> nat \<Rightarrow> u8" where
  "line_cells color str s i =
     (let base = cell (nat (cur_row s)) (nat (cur_col s)) in
      if base \<le> i \<and> i < base + 2 * length str
      then (if even (i - base) then str ! ((i - base) div 2) else color AND 0x0F) else text_memory s i)"

lemma puts_char_line:
  fixes color ch :: u8
  assumes "on_screen s" and "cur_col s < 80" and "ch \<noteq> 0x0A"
  defines "t \<equiv> puts_char color ch s"
  shows "on_screen t" "cur_row t = cur_row s" "cur_col t = cur_col s + 1"
    "text_memory t = (text_memory s)(cell (nat (cur_row s)) (nat (cur_col s)) := ch,
       Suc (cell (nat (cur_row s)) (nat (cur_col s))) := color AND 0x0F)"
  using assms(2,3) putchar_step [OF assms(1,2), where ch = ch and color = color]
  by (auto simp: t_def puts_char_def Let_def)

lemma line_cells_Cons:
  assumes "on_screen s" and "cur_col s < 80" and "ch \<noteq> 0x0A"
  shows "line_cells color str (puts_char color ch s) = line_cells color (ch # str) s"
proof
  fix i
  note l = puts_char_line [OF assms, where color = color]
  have col: "nat (cur_col s + 1) = Suc (nat (cur_col s))" using assms(1) by (simp add: on_screen_def nat_add_distrib)
  define b where "b = cell (nat (cur_row s)) (nat (cur_col s))"
  have b': "cell (nat (cur_row s)) (Suc (nat (cur_col s))) = b + 2" by (simp add: b_def cell_def)
  consider "i < b" | "i = b" | "i = Suc b" | k where "i = b + 2 + k" by (metis add_2_eq_Suc' le_Suc_ex le_add_diff_inverse not_less_eq not_less less_Suc_eq)
  then show "line_cells color str (puts_char color ch s) i = line_cells color (ch # str) s i"
  proof cases
    case 4
    then show ?thesis unfolding line_cells_def Let_def l(2,3,4) col b' b_def [symmetric] by simp
  qed (unfold line_cells_def Let_def l(2,3,4) col b' b_def [symmetric], simp_all)
qed

lemma fold_puts_line:
  assumes "on_screen s" and "0x0A \<notin> set str" and "cur_col s + int (length str) \<le> 80"
  shows "cur_row (fold (puts_char color) str s) = cur_row s \<and>
    cur_col (fold (puts_char color) str s) = cur_col s + int (length str) \<and>
    text_memory (fold (puts_char color) str s) = line_cells color str s"
  using assms
proof (induction str arbitrary: s)
  case Nil
  then show ?case by (auto simp: line_cells_def fun_eq_iff Let_def)
next
  case (Cons ch str)
  have p: "cur_col s < 80" "ch \<noteq> 0x0A" using Cons.prems by auto
  note l = puts_char_line [OF Cons.prems(1) p, where color = color]
  have "cur_col (puts_char color ch s) + int (length str) \<le> 80" using Cons.prems(3) l(3) by simp
  then show ?case
    using Cons.IH [OF l(1)] Cons.prems(2) l line_cells_Cons [OF Cons.prems(1) p, where color = color and str = str] by simp
qed

section \<open>Properties\<close>

text \<open>
  C39. The text stays on the screen. From a cursor in rows 0 to 23 and columns 0 to 80, puts
  leaves it there for every text, and no byte outside the 4000 of the display is written.
\<close>

theorem puts_stays_on_screen:
  assumes "on_screen s"
  shows "on_screen (puts B str color s) \<and>
    (\<forall>i. screen_bytes \<le> i \<longrightarrow> text_memory (puts B str color s) i = text_memory s i)"
proof -
  define t where "t = fold (puts_char color) str s"
  note p = puts_state [OF assms, where B = B and color = color and str = str, folded t_def]
  have t: "on_screen t" "screen_bytes \<le> i \<Longrightarrow> text_memory t i = text_memory s i" for i
    using fold_puts_on_screen [OF assms, where color = color and str = str] by (simp_all add: t_def)
  define k where "k = cell (nat (cur_row t)) (nat (cur_col t))"
  have k: "Suc k < screen_bytes" using on_screen_cell [OF t(1)] by (simp add: k_def)
  have "text_memory (puts B str color s) i = text_memory s i" if "screen_bytes \<le> i" for i
    using that k t(2) [OF that] by (simp add: p(3) k_def [symmetric])
  then show ?thesis using t(1) p(1,2) by (simp add: on_screen_def)
qed

definition demo_console :: "(u8 \<times> (u8 \<Rightarrow> u8)) console" where
  "demo_console = \<lparr>text_memory = (\<lambda>i. 0x11), cur_row = 23, cur_col = 79, dev = (0, (\<lambda>r. 0))\<rparr>"

definition demo_crtc :: "(u8 \<times> (u8 \<Rightarrow> u8)) bus" where
  "demo_crtc = \<lparr>
     bus_out = (\<lambda>port v (i, r). if port = 0x3D4 then (v, r) else if port = 0x3D5 then (i, r(i := v)) else (i, r)),
     bus_in = (\<lambda>port (i, r). (r i, (i, r)))\<rparr>"

lemma demo_crtc_ok: "crtc_ok demo_crtc fst snd"
  by (simp add: crtc_ok_def demo_crtc_def split: prod.split)

lemma demo_console_on_screen: "on_screen demo_console"
  by (simp add: on_screen_def demo_console_def)

theorem puts_stays_on_screen_witness:
  "on_screen (puts demo_crtc [0x41, 0x42, 0x0A, 0x43] 0xF demo_console) \<and>
   text_memory (puts demo_crtc [0x41, 0x42, 0x0A, 0x43] 0xF demo_console) 4000 = 0x11"
  using puts_stays_on_screen [OF demo_console_on_screen, of demo_crtc "[0x41, 0x42, 0x0A, 0x43]" "0xF"]
  by (simp add: screen_bytes_def demo_console_def)

text \<open>
  A text without a newline that fits on the line is what the screen shows: its characters
  stand with their colour in the cells from the cursor on, the cell after them is blanked, the
  rest of the display is as it was, the cursor is behind the text, and the hardware cursor
  reads back at the same place, which for a text that ends in the last column is the first
  column of the next row.
\<close>

theorem puts_shows_line:
  assumes "crtc_ok B sel regs" and "on_screen s" and "0x0A \<notin> set str"
    and "cur_col s + int (length str) \<le> 80"
  shows "let base = cell (nat (cur_row s)) (nat (cur_col s)); after = base + 2 * length str;
             t = puts B str color s in
    (\<forall>k<length str. text_memory t (base + 2 * k) = str ! k \<and> text_memory t (base + 2 * k + 1) = color AND 0x0F) \<and>
    text_memory t after = 0 \<and> text_memory t (after + 1) = 0x0F \<and>
    (\<forall>i. i < base \<or> after + 2 \<le> i \<longrightarrow> text_memory t i = text_memory s i) \<and>
    cur_row t = cur_row s \<and> cur_col t = cur_col s + int (length str) \<and>
    fst (framebuffer_get_cursor B (dev t)) =
      ((cur_row t * 80 + cur_col t) div 80, (cur_row t * 80 + cur_col t) mod 80)"
proof -
  define t where "t = fold (puts_char color) str s"
  define base where "base = cell (nat (cur_row s)) (nat (cur_col s))"
  note p = puts_state [OF assms(2), where B = B and color = color and str = str, folded t_def]
  have l: "cur_row t = cur_row s" "cur_col t = cur_col s + int (length str)" "text_memory t = line_cells color str s"
    using fold_puts_line [OF assms(2-4), where color = color] by (simp_all add: t_def)
  have ge: "0 \<le> cur_row s" "0 \<le> cur_col s" "cur_row s < 24" using assms(2) by (simp_all add: on_screen_def)
  then have "nat (cur_col s + int (length str)) = nat (cur_col s) + length str" by (simp add: nat_add_distrib)
  then have after: "cell (nat (cur_row t)) (nat (cur_col t)) = base + 2 * length str"
    unfolding l by (simp add: base_def cell_def algebra_simps)
  have mem: "text_memory (puts B str color s) =
      (line_cells color str s)(base + 2 * length str := 0, Suc (base + 2 * length str) := 0x0F)"
    unfolding p(3) after unfolding l(3) ..
  have cells: "line_cells color str s (base + 2 * k) = str ! k" "line_cells color str s (base + 2 * k + 1) = color AND 0x0F"
    if "k < length str" for k using that by (simp_all add: line_cells_def base_def [symmetric])
  have rest: "line_cells color str s i = text_memory s i" if "i < base \<or> base + 2 * length str + 2 \<le> i" for i
    using that by (auto simp: line_cells_def base_def [symmetric])
  have "unat (of_int (cur_row t) :: u8) = nat (cur_row t)" "unat (of_int (cur_col t) :: u8) = nat (cur_col t)"
    using ge assms(4) unfolding l by (intro unat_of_int8; linarith)+
  then have hw: "fst (framebuffer_get_cursor B (dev (puts B str color s))) =
      ((cur_row t * 80 + cur_col t) div 80, (cur_row t * 80 + cur_col t) mod 80)"
    unfolding p(4) cursor_position [OF assms(1)] using ge unfolding l by simp
  show ?thesis
    unfolding Let_def base_def [symmetric] hw p(1,2) mem
    using cells rest l by simp
qed

theorem puts_shows_line_witness:
  "text_memory (puts demo_crtc [0x41] 0x4 demo_console) 3838 = 0x41 \<and>
   fst (framebuffer_get_cursor demo_crtc (dev (puts demo_crtc [0x41] 0x4 demo_console))) = (24, 0)"
  using puts_shows_line [OF demo_crtc_ok demo_console_on_screen, of "[0x41]" "0x4"]
  by (simp add: Let_def cell_def demo_console_def)

end
