(* ===== verification/Keyboard.thy ===== *)
theory Keyboard
  imports Console "HOL-Library.Char_ord"
begin

text \<open>
  \<^verbatim>\<open>src/src/keyboard.c\<close>: the four scancode tables, the state of the driver (with the static
  variables of the interrupt routine) and the routine itself, which echoes a key on the
  display at the hardware cursor. The keyboard's data port belongs to the bus.
\<close>

section \<open>The scancode tables\<close>

text \<open>
  Rows 4 to 15 of each table are the same: the keypad's minus and plus, and zeros.
\<close>

definition keypad_rows :: "u8 list" where
  "keypad_rows = replicate 10 0 @ codes ''-'' @ replicate 3 0 @ codes ''+'' @ replicate 1 0 @ replicate 176 0"

definition keyboard_scancode_1_to_ascii_map :: "u8 list" where
  "keyboard_scancode_1_to_ascii_map =
     [0, 0x1B] @ codes ''1234567890-='' @ [8, 9] @
     codes ''qwertyuiop[]'' @ [10, 0] @ codes ''as'' @
     codes ''dfghjkl;'' @ [39] @ codes ''`'' @ [0, 92] @ codes ''zxcv'' @
     codes ''bnm,./'' @ [0] @ codes ''*'' @ [0] @ codes '' '' @ replicate 6 0 @ keypad_rows"

definition keyboard_scancode_shift_to_ascii_map :: "u8 list" where
  "keyboard_scancode_shift_to_ascii_map =
     [0, 0x1B] @ codes ''!@#$%^&*()_+'' @ [8, 9] @
     codes ''QWERTYUIOP{}'' @ [10, 0] @ codes ''AS'' @
     codes ''DFGHJKL:'' @ [34] @ codes ''`'' @ [0, 92] @ codes ''ZXCV'' @
     codes ''BNM<>?'' @ [0] @ codes ''*'' @ [0] @ codes '' '' @ replicate 6 0 @ keypad_rows"

definition keyboard_scancode_capslock_to_ascii_map :: "u8 list" where
  "keyboard_scancode_capslock_to_ascii_map =
     [0, 0x1B] @ codes ''1234567890-='' @ [8, 9] @
     codes ''QWERTYUIOP[]'' @ [10, 0] @ codes ''AS'' @
     codes ''DFGHJKL;'' @ [39] @ codes ''`'' @ [0, 92] @ codes ''ZXCV'' @
     codes ''BNM,./'' @ [0] @ codes ''*'' @ [0] @ codes '' '' @ replicate 6 0 @ keypad_rows"

definition keyboard_scancode_shift_capslock_to_ascii_map :: "u8 list" where
  "keyboard_scancode_shift_capslock_to_ascii_map =
     [0, 0x1B] @ codes ''!@#$%^&*()_+'' @ [8, 9] @
     codes ''qwertyuiop{}'' @ [10, 0] @ codes ''as'' @
     codes ''dfghjkl:'' @ [34] @ codes ''`'' @ [0, 92] @ codes ''zxcv'' @
     codes ''bnm<>?'' @ [0] @ codes ''*'' @ [0] @ codes '' '' @ replicate 6 0 @ keypad_rows"

lemmas scancode_tables = keyboard_scancode_1_to_ascii_map_def keyboard_scancode_shift_to_ascii_map_def
  keyboard_scancode_capslock_to_ascii_map_def keyboard_scancode_shift_capslock_to_ascii_map_def

section \<open>The driver state and the interrupt routine\<close>

record keyboard =
  read_extended_mode :: bool
  keyboard_input_on :: bool
  keyboard_buffer :: u8
  isShift :: bool
  isCapsLock :: bool
  maxCol :: int
  maxRow :: int

definition KEYBOARD_DATA_PORT :: u16 where "KEYBOARD_DATA_PORT = 0x60"

definition keyboard_start :: keyboard where
  "keyboard_start = \<lparr>read_extended_mode = False, keyboard_input_on = False, keyboard_buffer = 0,
     isShift = False, isCapsLock = False, maxCol = - 1, maxRow = 0\<rparr>"

definition keyboard_state_activate :: "keyboard \<Rightarrow> keyboard" where
  "keyboard_state_activate k = k\<lparr>keyboard_input_on := True\<rparr>"

definition keyboard_state_deactivate :: "keyboard \<Rightarrow> keyboard" where
  "keyboard_state_deactivate k = k\<lparr>keyboard_input_on := False\<rparr>"

text \<open>The character a caller gets, and the buffer emptied.\<close>

definition get_keyboard_buffer :: "keyboard \<Rightarrow> u8 \<times> keyboard" where
  "get_keyboard_buffer k = (keyboard_buffer k, k\<lparr>keyboard_buffer := 0\<rparr>)"

definition cursor_write :: "int \<times> int \<Rightarrow> u8 \<Rightarrow> (nat \<Rightarrow> u8) \<Rightarrow> nat \<Rightarrow> u8" where
  "cursor_write cur c = framebuffer_write (of_int (fst cur)) (of_int (snd cur)) c 0xF 0"

text \<open>The backspace key.\<close>

definition backspace_key :: "int \<times> int \<Rightarrow> keyboard \<Rightarrow> (nat \<Rightarrow> u8) \<Rightarrow> keyboard \<times> (int \<times> int) \<times> (nat \<Rightarrow> u8)" where
  "backspace_key cur k fb =
     (let k1 = k\<lparr>keyboard_buffer := 8\<rparr>; (row, col) = cur in
      if col > 0 \<and> col \<le> 79 then
        (let fb1 = cursor_write (row, col - 1) 0 fb in
         if col > 0 then
           (let c1 = col - 1 in
            (if c1 \<ge> maxCol k1 then k1\<lparr>maxCol := maxCol k1 - 1\<rparr> else k1, (row, c1), fb1))
         else (k1, (row, col), fb1))
      else if row > 0 then (k1, (row - 1, 79), cursor_write (row - 1, 79) 0 fb)
      else (k1, (row, col), fb))"

text \<open>The enter key.\<close>

definition enter_key :: "int \<times> int \<Rightarrow> keyboard \<Rightarrow> keyboard \<times> (int \<times> int)" where
  "enter_key cur k =
     (let k1 = k\<lparr>keyboard_buffer := 10\<rparr>; row = fst cur + 1;
          k2 = (if row > maxRow k1 then k1\<lparr>maxRow := row\<rparr> else k1)
      in (k2\<lparr>maxCol := 0\<rparr>, (row, 0)))"

text \<open>The table lookup of a character key.\<close>

definition scancode_lookup :: "bool \<Rightarrow> bool \<Rightarrow> u8 \<Rightarrow> u8" where
  "scancode_lookup shift caps scancode =
     (if shift \<and> \<not> caps then keyboard_scancode_shift_to_ascii_map ! unat scancode
      else if \<not> shift \<and> caps then keyboard_scancode_capslock_to_ascii_map ! unat scancode
      else if shift \<and> caps then keyboard_scancode_shift_capslock_to_ascii_map ! unat scancode
      else keyboard_scancode_1_to_ascii_map ! unat scancode)"

definition advance :: "int \<times> int \<Rightarrow> keyboard \<Rightarrow> keyboard \<times> (int \<times> int)" where
  "advance cur k =
     (let (row, col) = (fst cur, snd cur + 1) in
      if col \<ge> 80 then
        (let r1 = row + 1; k1 = (if r1 > maxRow k then k\<lparr>maxRow := r1\<rparr> else k)
         in (k1\<lparr>maxCol := 0\<rparr>, (r1, 0)))
      else (k, (row, col)))"

text \<open>
  What a pressed key does: \<open>None\<close> in place of the new cursor is an early return.
\<close>

definition press_key ::
  "u8 \<Rightarrow> int \<times> int \<Rightarrow> keyboard \<Rightarrow> (nat \<Rightarrow> u8) \<Rightarrow> keyboard \<times> (int \<times> int) option \<times> (nat \<Rightarrow> u8)" where
  "press_key scancode cur k fb =
     (if scancode = 0x0E then
        (let (k1, cur1, fb1) = backspace_key cur k fb in (k1, Some cur1, fb1))
      else if scancode = 0x4B then (k\<lparr>keyboard_buffer := 0\<rparr>, None, fb)
      else if scancode = 0x4D then (k\<lparr>keyboard_buffer := 0\<rparr>, None, fb)
      else if scancode = 0x1C then (let (k1, cur1) = enter_key cur k in (k1, Some cur1, fb))
      else
        (let k1 = k\<lparr>keyboard_buffer := scancode_lookup (isShift k) (isCapsLock k) scancode\<rparr> in
         if scancode \<noteq> 0 \<and> keyboard_buffer k1 = 0 then (k1, None, fb)
         else (let fb1 = cursor_write cur (keyboard_buffer k1) fb; (k2, cur1) = advance cur k1
               in (k2, Some cur1, fb1))))"

definition keyboard_isr :: "'d bus \<Rightarrow> keyboard \<Rightarrow> 'd console \<Rightarrow> keyboard \<times> 'd console" where
  "keyboard_isr B k s =
     (let (scancode, d1) = in_port B KEYBOARD_DATA_PORT (dev s);
          (p1, d2) = framebuffer_get_cursor B d1;
          (k1, d3) = (if snd p1 \<noteq> 0
                      then (let (p2, d) = framebuffer_get_cursor B d2 in (k\<lparr>maxCol := snd p2\<rparr>, d))
                      else (k, d2))
      in if scancode = 0x3A \<and> \<not> isCapsLock k1 then (k1\<lparr>isCapsLock := True\<rparr>, s\<lparr>dev := pic_ack B 1 d3\<rparr>)
         else if scancode = 0x3A \<and> isCapsLock k1 then (k1\<lparr>isCapsLock := False\<rparr>, s\<lparr>dev := pic_ack B 1 d3\<rparr>)
         else if (scancode = 0x2A \<or> scancode = 0x36) \<and> \<not> isShift k1 then
           (k1\<lparr>isShift := True\<rparr>, s\<lparr>dev := pic_ack B 1 d3\<rparr>)
         else if (scancode = 0xAA \<or> scancode = 0xB6) \<and> isShift k1 then
           (k1\<lparr>isShift := False\<rparr>, s\<lparr>dev := pic_ack B 1 d3\<rparr>)
         else
           (let (cur, d4) = framebuffer_get_cursor B d3 in
            if keyboard_input_on k1 \<and> scancode < 0x80 then
              (case press_key scancode cur k1 (text_memory s) of
                 (k2, None, fb) \<Rightarrow> (k2, s\<lparr>text_memory := fb, dev := pic_ack B 1 d4\<rparr>)
               | (k2, Some cur1, fb) \<Rightarrow>
                   (let fb1 = cursor_write cur1 0 fb;
                        d5 = framebuffer_set_cursor B (of_int (fst cur1)) (of_int (snd cur1)) d4;
                        d6 = pic_ack B 1 d5
                    in (k2, s\<lparr>text_memory := fb1, dev := pic_ack B 1 d6\<rparr>)))
            else (k1, s\<lparr>dev := pic_ack B 1 d4\<rparr>)))"

section \<open>What the tables say\<close>

text \<open>
  The layout in one rule: shift selects the second symbol of a key, and for a letter shift
  and caps lock cancel each other.
\<close>

definition is_letter :: "u8 \<Rightarrow> bool" where
  "is_letter c \<longleftrightarrow> 0x61 \<le> c \<and> c \<le> 0x7A"

definition key_character :: "bool \<Rightarrow> bool \<Rightarrow> u8 \<Rightarrow> u8" where
  "key_character shift caps scancode =
     (let c = keyboard_scancode_1_to_ascii_map ! unat scancode in
      if is_letter c then (if shift \<noteq> caps then c - 0x20 else c)
      else if shift then keyboard_scancode_shift_to_ascii_map ! unat scancode else c)"

lemma codes_simps [simp]: "codes [] = []" "codes (ch # cs) = of_char ch # codes cs"
  by (simp_all add: codes_def)

lemma length_keypad [simp]: "length keypad_rows = 192"
  by (simp add: keypad_rows_def)

lemma length_tables [simp]:
  "length keyboard_scancode_1_to_ascii_map = 256" "length keyboard_scancode_shift_to_ascii_map = 256"
  "length keyboard_scancode_capslock_to_ascii_map = 256" "length keyboard_scancode_shift_capslock_to_ascii_map = 256"
  by (simp_all add: scancode_tables)

lemma keypad_map:
  "map (\<lambda>c. if is_letter c then f c else c) keypad_rows = keypad_rows"
  "\<forall>c \<in> set keypad_rows. \<not> is_letter c"
  by (simp_all add: keypad_rows_def is_letter_def word_le_nat_alt)

lemma zip_map_self: "map (\<lambda>(c, x). if P c then f c else x) (zip xs ys) = ys"
  if "length xs = length ys" and "\<forall>c \<in> set xs. \<not> P c"
  using that by (induction xs ys rule: list_induct2) auto

lemma capslock_table:
  "keyboard_scancode_capslock_to_ascii_map =
   map (\<lambda>c. if is_letter c then c - 0x20 else c) keyboard_scancode_1_to_ascii_map"
  by (simp add: scancode_tables keypad_map) (simp add: is_letter_def word_le_nat_alt)

lemma shift_table:
  "keyboard_scancode_shift_to_ascii_map =
   map (\<lambda>(c, x). if is_letter c then c - 0x20 else x)
     (zip keyboard_scancode_1_to_ascii_map keyboard_scancode_shift_to_ascii_map)"
  by (simp add: scancode_tables zip_map_self keypad_map) (simp add: is_letter_def word_le_nat_alt)

lemma shift_capslock_table:
  "keyboard_scancode_shift_capslock_to_ascii_map =
   map (\<lambda>(c, x). if is_letter c then c else x)
     (zip keyboard_scancode_1_to_ascii_map keyboard_scancode_shift_to_ascii_map)"
  by (simp add: scancode_tables zip_map_self keypad_map) (simp add: is_letter_def word_le_nat_alt)

lemma lookup_is_key_character:
  "scancode_lookup shift caps scancode = key_character shift caps scancode"
proof -
  have n: "unat scancode < 256" using unsigned_less [of scancode] by simp
  have "keyboard_scancode_capslock_to_ascii_map ! unat scancode = key_character False True scancode"
    by (subst capslock_table) (simp add: n key_character_def Let_def)
  moreover have "keyboard_scancode_shift_to_ascii_map ! unat scancode = key_character True False scancode"
    by (subst shift_table) (simp add: n key_character_def Let_def)
  moreover have "keyboard_scancode_shift_capslock_to_ascii_map ! unat scancode = key_character True True scancode"
    by (subst shift_capslock_table) (simp add: n key_character_def Let_def)
  ultimately show ?thesis by (cases shift; cases caps) (simp_all add: scancode_lookup_def key_character_def Let_def)
qed

section \<open>The interrupt routine\<close>

text \<open>
  What the routine relies on: the display controller keeps the cursor registers, and the
  other ports it uses do not disturb them. \<open>hw_cursor\<close> is the position the registers hold.
\<close>

definition display_bus :: "'d bus \<Rightarrow> ('d \<Rightarrow> u8) \<Rightarrow> ('d \<Rightarrow> u8 \<Rightarrow> u8) \<Rightarrow> bool" where
  "display_bus B sel regs \<longleftrightarrow> crtc_ok B sel regs \<and>
     (\<forall>port v d. port \<noteq> 0x3D4 \<and> port \<noteq> 0x3D5 \<longrightarrow> regs (bus_out B port v d) = regs d) \<and>
     (\<forall>port d. regs (snd (bus_in B port d)) = regs d)"

definition hw_cursor :: "'d bus \<Rightarrow> 'd \<Rightarrow> int \<times> int" where
  "hw_cursor B d = fst (framebuffer_get_cursor B d)"

lemma display_crtc: "display_bus B sel regs \<Longrightarrow> crtc_ok B sel regs"
  by (simp add: display_bus_def)

lemma pic_ack_regs: "display_bus B sel regs \<Longrightarrow> regs (pic_ack B irq d) = regs d"
  by (simp add: display_bus_def pic_ack_def out_def pic_constants Let_def)

lemma in_port_regs: "display_bus B sel regs \<Longrightarrow> regs (snd (in_port B port d)) = regs d"
  by (simp add: display_bus_def in_port_def)

lemma hw_cursor_cong:
  assumes "display_bus B sel regs" and "regs d = regs d'"
  shows "hw_cursor B d = hw_cursor B d'"
  unfolding hw_cursor_def get_cursor_regs(1) [OF display_crtc [OF assms(1)]] assms(2) ..

lemma hw_cursor_bounds:
  assumes "crtc_ok B sel regs" and "hw_cursor B d = (r, c)"
  shows "0 \<le> c" "c < 80" "0 \<le> r"
  using assms(2) unfolding hw_cursor_def get_cursor_regs(1) [OF assms(1)] by (auto simp: push_bit_eq_mult div_int_pos_iff)

lemma hw_cursor_set:
  assumes "crtc_ok B sel regs" and "0 \<le> r" "r < 256" "0 \<le> c" "c < 80"
  shows "hw_cursor B (framebuffer_set_cursor B (of_int r) (of_int c) d) = (r, c)"
  unfolding hw_cursor_def cursor_position [OF assms(1)] using assms(2-5)
  by (simp add: unat_of_int8)

lemma hw_cursor_acked:
  assumes "display_bus B sel regs" and "0 \<le> r" "r < 256" "0 \<le> c" "c < 80"
  shows "hw_cursor B (pic_ack B i (pic_ack B j (framebuffer_set_cursor B (of_int r) (of_int c) d))) = (r, c)"
proof -
  have "regs (pic_ack B i (pic_ack B j (framebuffer_set_cursor B (of_int r) (of_int c) d))) =
      regs (framebuffer_set_cursor B (of_int r) (of_int c) d)"
    by (simp add: pic_ack_regs [OF assms(1)])
  from hw_cursor_cong [OF assms(1) this] show ?thesis
    using hw_cursor_set [OF display_crtc [OF assms(1)] assms(2-5)] by simp
qed

text \<open>The register reads at the start of the routine leave the display as it was.\<close>

definition seen_col :: "int \<Rightarrow> keyboard \<Rightarrow> keyboard" where
  "seen_col c k = (if c \<noteq> 0 then k\<lparr>maxCol := c\<rparr> else k)"

definition isr_after ::
  "'d bus \<Rightarrow> u8 \<Rightarrow> int \<times> int \<Rightarrow> 'd \<Rightarrow> 'd \<Rightarrow> keyboard \<Rightarrow> 'd console \<Rightarrow> keyboard \<times> 'd console" where
  "isr_after B scancode cur d3 d4 k1 s =
     (if scancode = 0x3A then (k1\<lparr>isCapsLock := \<not> isCapsLock k1\<rparr>, s\<lparr>dev := pic_ack B 1 d3\<rparr>)
      else if (scancode = 0x2A \<or> scancode = 0x36) \<and> \<not> isShift k1 then (k1\<lparr>isShift := True\<rparr>, s\<lparr>dev := pic_ack B 1 d3\<rparr>)
      else if (scancode = 0xAA \<or> scancode = 0xB6) \<and> isShift k1 then (k1\<lparr>isShift := False\<rparr>, s\<lparr>dev := pic_ack B 1 d3\<rparr>)
      else if keyboard_input_on k1 \<and> scancode < 0x80 then
        (case press_key scancode cur k1 (text_memory s) of
           (k2, None, fb) \<Rightarrow> (k2, s\<lparr>text_memory := fb, dev := pic_ack B 1 d4\<rparr>)
         | (k2, Some cur1, fb) \<Rightarrow>
             (k2, s\<lparr>text_memory := cursor_write cur1 0 fb, dev := pic_ack B 1 (pic_ack B 1
                 (framebuffer_set_cursor B (of_int (fst cur1)) (of_int (snd cur1)) d4))\<rparr>))
      else (k1, s\<lparr>dev := pic_ack B 1 d4\<rparr>))"

lemma isr_reads:
  fixes s :: "'d console"
  assumes "display_bus B sel regs" and "fst (in_port B KEYBOARD_DATA_PORT (dev s)) = scancode"
    and "hw_cursor B (dev s) = (r, c)"
  obtains d3 d4 :: 'd where "regs d3 = regs (dev s)" "regs d4 = regs (dev s)"
    "keyboard_isr B k s = isr_after B scancode (r, c) d3 d4 (seen_col c k) s"
proof -
  note keep = get_cursor_regs(2) [OF display_crtc [OF assms(1)]]
  obtain d1 where d1: "in_port B KEYBOARD_DATA_PORT (dev s) = (scancode, d1)"
    using assms(2) by (metis prod.collapse)
  have r1: "regs d1 = regs (dev s)" using in_port_regs [OF assms(1)] d1 by (metis snd_conv)
  have get: "\<exists>e'. framebuffer_get_cursor B e = ((r, c), e') \<and> regs e' = regs (dev s)" if "regs e = regs (dev s)" for e
  proof -
    have "fst (framebuffer_get_cursor B e) = (r, c)"
      using hw_cursor_cong [OF assms(1) that] assms(3) by (simp add: hw_cursor_def)
    then show ?thesis using keep [of e] that by (metis prod.collapse)
  qed
  obtain d2 where d2: "framebuffer_get_cursor B d1 = ((r, c), d2)" "regs d2 = regs (dev s)" using get [OF r1] by blast
  obtain d2' where d2': "framebuffer_get_cursor B d2 = ((r, c), d2')" "regs d2' = regs (dev s)" using get [OF d2(2)] by blast
  define d3 where "d3 = (if c \<noteq> 0 then d2' else d2)"
  have r3: "regs d3 = regs (dev s)" by (simp add: d3_def d2 d2')
  obtain d4 where d4: "framebuffer_get_cursor B d3 = ((r, c), d4)" "regs d4 = regs (dev s)" using get [OF r3] by blast
  have k1: "(if snd (r, c) \<noteq> 0 then (let (p2, d) = framebuffer_get_cursor B d2 in (k\<lparr>maxCol := snd p2\<rparr>, d)) else (k, d2)) =
      (seen_col c k, d3)"
    by (simp add: d2' d3_def seen_col_def)
  show ?thesis
  proof (rule that [OF r3 d4(2)])
    show "keyboard_isr B k s = isr_after B scancode (r, c) d3 d4 (seen_col c k) s"
      unfolding keyboard_isr_def d1 Let_def prod.case d2(1) k1 [unfolded Let_def] d4(1)
      by (simp add: isr_after_def split: prod.split option.split)
  qed
qed

section \<open>Properties\<close>

text \<open>The bytes of position \<open>p\<close>, counted in cells: a character on the default colours.\<close>

definition show_at :: "int \<Rightarrow> u8 \<Rightarrow> (nat \<Rightarrow> u8) \<Rightarrow> nat \<Rightarrow> u8" where
  "show_at p ch fb = fb(2 * nat p := ch, Suc (2 * nat p) := 0x0F)"

lemma cursor_write_show:
  assumes "0 \<le> r" "r < 256" "0 \<le> c" "c < 256"
  shows "cursor_write (r, c) ch fb = show_at (r * 80 + c) ch fb"
proof -
  have "nat (r * 80 + c) = nat r * 80 + nat c" using assms by (simp add: nat_add_distrib nat_mult_distrib)
  then show ?thesis using assms by (simp add: cursor_write_def framebuffer_write_def show_at_def unat_of_int8 mult.commute)
qed

lemma no_character:
  "key_character sh ca 0 = 0" "key_character sh ca 0x2A = 0" "key_character sh ca 0x36 = 0"
  "key_character sh ca 0x3A = 0" "key_character sh ca 0x4B = 0" "key_character sh ca 0x4D = 0"
  by (simp_all add: key_character_def scancode_tables keypad_rows_def is_letter_def word_le_nat_alt nth_append Let_def)

lemma next_cell:
  fixes r c :: int
  assumes "0 \<le> c" "c < 80"
  shows "(r * 80 + c + 1) div 80 = (if c = 79 then r + 1 else r)"
    "(r * 80 + c + 1) mod 80 = (if c = 79 then 0 else c + 1)"
proof -
  have e: "r * 80 + c + 1 = (c + 1) + r * 80" by simp
  have s: "((c + 1) + r * 80) div 80 = r + (c + 1) div 80" "((c + 1) + r * 80) mod 80 = (c + 1) mod 80" by simp_all
  show "(r * 80 + c + 1) div 80 = (if c = 79 then r + 1 else r)"
    "(r * 80 + c + 1) mod 80 = (if c = 79 then 0 else c + 1)"
    unfolding e s using assms by (auto simp: div_pos_pos_trivial mod_pos_pos_trivial)
qed

lemma advance_result:
  assumes "0 \<le> c" "c < 80"
  shows "snd (advance (r, c) k) = ((r * 80 + c + 1) div 80, (r * 80 + c + 1) mod 80)"
    "keyboard_buffer (fst (advance (r, c) k)) = keyboard_buffer k"
    "isShift (fst (advance (r, c) k)) = isShift k" "isCapsLock (fst (advance (r, c) k)) = isCapsLock k"
    "keyboard_input_on (fst (advance (r, c) k)) = keyboard_input_on k"
proof -
  have dm: "(r * 80 + c + 1) div 80 = (if c = 79 then r + 1 else r)" "(r * 80 + c + 1) mod 80 = (if c = 79 then 0 else c + 1)"
    by (rule next_cell [OF assms])+
  show "snd (advance (r, c) k) = ((r * 80 + c + 1) div 80, (r * 80 + c + 1) mod 80)"
    unfolding dm using assms by (simp add: advance_def Let_def)
qed (simp_all add: advance_def Let_def)

text \<open>Scan code 0 has no character, but the code takes it for one.\<close>

lemma press_character:
  assumes "key_character (isShift k) (isCapsLock k) scancode \<noteq> 0 \<or> scancode = 0" and "scancode \<noteq> 0x0E" "scancode \<noteq> 0x1C"
    and "0 \<le> r" "r < 25" "0 \<le> c" "c < 80"
  defines "ch \<equiv> key_character (isShift k) (isCapsLock k) scancode"
  shows "\<exists>k' cur. press_key scancode (r, c) k fb = (k', Some cur, show_at (r * 80 + c) ch fb) \<and>
    cur = ((r * 80 + c + 1) div 80, (r * 80 + c + 1) mod 80) \<and>
    keyboard_buffer k' = ch \<and> isShift k' = isShift k \<and> isCapsLock k' = isCapsLock k \<and>
    keyboard_input_on k' = keyboard_input_on k"
proof -
  have no: "scancode \<noteq> 0x4B" "scancode \<noteq> 0x4D" using assms(1) no_character by auto
  define k1 where "k1 = k\<lparr>keyboard_buffer := ch\<rparr>"
  have k1: "keyboard_buffer k1 = ch" "isShift k1 = isShift k" "isCapsLock k1 = isCapsLock k"
    "keyboard_input_on k1 = keyboard_input_on k" by (simp_all add: k1_def)
  have "\<not> (scancode \<noteq> 0 \<and> ch = 0)" using assms(1) by (auto simp: ch_def)
  then have "press_key scancode (r, c) k fb =
      (fst (advance (r, c) k1), Some (snd (advance (r, c) k1)), cursor_write (r, c) ch fb)"
    using assms(2,3) no k1(1)
    by (simp add: press_key_def lookup_is_key_character ch_def [symmetric] k1_def [symmetric] Let_def split: prod.split)
  then show ?thesis
    using advance_result [OF assms(6,7), of r k1] k1 assms(4-7) by (simp add: cursor_write_show)
qed

text \<open>
  Typing. When input is on and the key of a character is pressed with the hardware cursor
  at row \<open>r\<close>, column \<open>c\<close>, the next caller of \<open>get_keyboard_buffer\<close> gets the character of the
  key under shift and caps lock; the display shows it at the cursor, blanks the position after
  it and changes nothing else; and the cursor moves there, to the first column of the next row
  after the last column.
\<close>

theorem keyboard_isr_types:
  assumes "display_bus B sel regs" and "fst (in_port B KEYBOARD_DATA_PORT (dev s)) = scancode"
    and "hw_cursor B (dev s) = (r, c)" and "r < 25"
    and "keyboard_input_on k" and "scancode < 0x80" and "scancode \<noteq> 0x0E" "scancode \<noteq> 0x1C"
    and "key_character (isShift k) (isCapsLock k) scancode \<noteq> 0"
  shows "let (k', s') = keyboard_isr B k s; ch = key_character (isShift k) (isCapsLock k) scancode;
             p = r * 80 + c in
    fst (get_keyboard_buffer k') = ch \<and> isShift k' = isShift k \<and> isCapsLock k' = isCapsLock k \<and>
    text_memory s' = show_at (p + 1) 0 (show_at p ch (text_memory s)) \<and>
    hw_cursor B (dev s') = ((p + 1) div 80, (p + 1) mod 80)"
proof -
  note crtc = display_crtc [OF assms(1)]
  note b = hw_cursor_bounds [OF crtc assms(3)]
  define k1 where "k1 = seen_col c k"
  have k1: "isShift k1 = isShift k" "isCapsLock k1 = isCapsLock k" "keyboard_input_on k1"
    using assms(5) by (simp_all add: k1_def seen_col_def)
  obtain d3 d4 where d: "regs d3 = regs (dev s)" "regs d4 = regs (dev s)"
      "keyboard_isr B k s = isr_after B scancode (r, c) d3 d4 k1 s"
    using isr_reads [OF assms(1-3), of k] k1_def by metis
  define ch where "ch = key_character (isShift k) (isCapsLock k) scancode"
  let ?p = "r * 80 + c"
  obtain k2 where k2: "press_key scancode (r, c) k1 (text_memory s) =
      (k2, Some ((?p + 1) div 80, (?p + 1) mod 80), show_at ?p ch (text_memory s))"
    "keyboard_buffer k2 = ch" "isShift k2 = isShift k" "isCapsLock k2 = isCapsLock k"
    using press_character [of k1 scancode r c "text_memory s"] assms(4,7-9) b k1 by (auto simp: ch_def)
  have no: "scancode \<noteq> 0x3A" "scancode \<noteq> 0x2A" "scancode \<noteq> 0x36" "scancode \<noteq> 0xAA" "scancode \<noteq> 0xB6"
    using assms(6,9) no_character by (auto simp: word_less_nat_alt)
  have n: "0 \<le> (?p + 1) div 80" "(?p + 1) div 80 < 256" "0 \<le> (?p + 1) mod 80" "(?p + 1) mod 80 < 80"
    using b assms(4) by (simp_all add: div_int_pos_iff)
  have isr: "keyboard_isr B k s = (k2, s\<lparr>text_memory := cursor_write ((?p + 1) div 80, (?p + 1) mod 80) 0 (show_at ?p ch (text_memory s)),
      dev := pic_ack B 1 (pic_ack B 1 (framebuffer_set_cursor B (of_int ((?p + 1) div 80)) (of_int ((?p + 1) mod 80)) d4))\<rparr>)"
    unfolding d(3) isr_after_def k2(1) using no k1(3) assms(6) by simp
  have hw: "hw_cursor B (pic_ack B 1 (pic_ack B 1 (framebuffer_set_cursor B (of_int ((?p + 1) div 80)) (of_int ((?p + 1) mod 80)) d4))) =
      ((?p + 1) div 80, (?p + 1) mod 80)"
    by (rule hw_cursor_acked [OF assms(1) n])
  have w: "cursor_write ((?p + 1) div 80, (?p + 1) mod 80) 0 fb = show_at (?p + 1) 0 fb" for fb
    by (subst cursor_write_show) (use n in \<open>simp_all add: div_mult_mod_eq\<close>)
  show ?thesis
    unfolding Let_def isr prod.case ch_def [symmetric] by (simp add: hw w k2 get_keyboard_buffer_def)
qed

lemma press_enter:
  "press_key 0x1C (r, c) k fb = (fst (enter_key (r, c) k), Some (r + 1, 0), fb)"
  "keyboard_buffer (fst (enter_key (r, c) k)) = 10"
  by (simp_all add: press_key_def enter_key_def Let_def)

definition back_one :: "int \<Rightarrow> int \<Rightarrow> int" where
  "back_one r c = (if c > 0 then r * 80 + c - 1 else if r > 0 then r * 80 - 1 else 0)"

lemma back_one_cell:
  assumes "0 \<le> r" "r < 25" "0 \<le> c" "c < 80"
  shows "0 \<le> back_one r c div 80" "back_one r c div 80 < 256" "0 \<le> back_one r c mod 80" "back_one r c mod 80 < 80"
    "(back_one r c div 80, back_one r c mod 80) =
     (if c > 0 then (r, c - 1) else if r > 0 then (r - 1, 79) else (r, c))"
proof -
  have d: "(a * 80 + b) div 80 = a" "(a * 80 + b) mod 80 = b" if "0 \<le> b" "b < 80" for a b :: int
    using that by simp_all
  show cell: "(back_one r c div 80, back_one r c mod 80) =
     (if c > 0 then (r, c - 1) else if r > 0 then (r - 1, 79) else (r, c))"
  proof -
    consider "c > 0" | "c = 0" "r > 0" | "c = 0" "r = 0" using assms(1,3) by linarith
    then show ?thesis
    proof cases
      case 1
      then have "back_one r c = r * 80 + (c - 1)" by (simp add: back_one_def)
      then show ?thesis using d [of "c - 1" r] 1 assms(4) by simp
    next
      case 2
      then have "back_one r c = (r - 1) * 80 + 79" by (simp add: back_one_def)
      then show ?thesis using d [of 79 "r - 1"] 2 by simp
    qed (simp add: back_one_def)
  qed
  show "0 \<le> back_one r c div 80" "back_one r c div 80 < 256" using cell assms by (auto split: if_splits)
  show "0 \<le> back_one r c mod 80" "back_one r c mod 80 < 80" by simp_all
qed

lemma show_at_twice [simp]: "show_at p ch (show_at p ch' fb) = show_at p ch fb"
  by (auto simp: show_at_def fun_eq_iff)

lemma press_backspace:
  assumes "0 \<le> r" "r < 25" "0 \<le> c" "c < 80"
  defines "cur \<equiv> (back_one r c div 80, back_one r c mod 80)"
  shows "\<exists>k' fb'. press_key 0x0E (r, c) k fb = (k', Some cur, fb') \<and> keyboard_buffer k' = 8 \<and>
    cursor_write cur 0 fb' = show_at (back_one r c) 0 fb"
proof -
  note b = back_one_cell [OF assms(1-4)]
  have w: "cursor_write cur 0 f = show_at (back_one r c) 0 f" for f
    unfolding cur_def by (subst cursor_write_show) (use b in \<open>simp_all add: div_mult_mod_eq\<close>)
  have cur: "cur = (if c > 0 then (r, c - 1) else if r > 0 then (r - 1, 79) else (r, c))"
    using b(5) by (simp add: cur_def)
  consider "c > 0" | "c = 0" "r > 0" | "c = 0" "r = 0" using assms(1,3) by linarith
  then show ?thesis
  proof cases
    case 1
    then have "cur = (r, c - 1)" using cur by simp
    then show ?thesis using 1 assms(4) w by (simp add: press_key_def backspace_key_def Let_def)
  next
    case 2
    then have "cur = (r - 1, 79)" using cur by simp
    then show ?thesis using 2 w by (simp add: press_key_def backspace_key_def Let_def)
  next
    case 3
    then have "cur = (0, 0)" using cur by simp
    then show ?thesis using 3 w by (simp add: press_key_def backspace_key_def Let_def)
  qed
qed

lemma press_arrow:
  "press_key 0x4B cur k fb = (k\<lparr>keyboard_buffer := 0\<rparr>, None, fb)"
  "press_key 0x4D cur k fb = (k\<lparr>keyboard_buffer := 0\<rparr>, None, fb)"
  by (simp_all add: press_key_def)

text \<open>
  The other keys. Caps lock toggles and shift follows its key, with the display as it was;
  while input is off, and on the release of a key, nothing is typed. With input on, enter
  delivers a newline and starts the next row; backspace delivers its code, blanks the position
  before the cursor, across the row boundary and not before the first position, and moves
  there; the arrow keys deliver nothing and leave the display.
\<close>

theorem keyboard_isr_controls:
  assumes "display_bus B sel regs" and "fst (in_port B KEYBOARD_DATA_PORT (dev s)) = scancode"
    and "hw_cursor B (dev s) = (r, c)" and "r < 25"
  shows "let (k', s') = keyboard_isr B k s;
             same = (text_memory s' = text_memory s \<and> hw_cursor B (dev s') = (r, c)) in
    (scancode = 0x3A \<longrightarrow> isCapsLock k' = (\<not> isCapsLock k) \<and> same) \<and>
    (scancode \<in> {0x2A, 0x36} \<and> \<not> isShift k \<longrightarrow> isShift k' \<and> same) \<and>
    (scancode \<in> {0xAA, 0xB6} \<and> isShift k \<longrightarrow> \<not> isShift k' \<and> same) \<and>
    (\<not> keyboard_input_on k \<or> 0x80 \<le> scancode \<longrightarrow> keyboard_buffer k' = keyboard_buffer k \<and> same) \<and>
    (keyboard_input_on k \<and> scancode = 0x1C \<longrightarrow> keyboard_buffer k' = 10 \<and>
       text_memory s' = show_at ((r + 1) * 80) 0 (text_memory s) \<and> hw_cursor B (dev s') = (r + 1, 0)) \<and>
    (keyboard_input_on k \<and> scancode = 0x0E \<longrightarrow> keyboard_buffer k' = 8 \<and>
       text_memory s' = show_at (back_one r c) 0 (text_memory s) \<and>
       hw_cursor B (dev s') = (back_one r c div 80, back_one r c mod 80)) \<and>
    (keyboard_input_on k \<and> scancode \<in> {0x4B, 0x4D} \<longrightarrow> keyboard_buffer k' = 0 \<and> same)"
proof -
  note b = hw_cursor_bounds [OF display_crtc [OF assms(1)] assms(3)]
  define k1 where "k1 = seen_col c k"
  have k1: "isShift k1 = isShift k" "isCapsLock k1 = isCapsLock k" "keyboard_input_on k1 = keyboard_input_on k"
    "keyboard_buffer k1 = keyboard_buffer k"
    by (simp_all add: k1_def seen_col_def)
  obtain d3 d4 where d: "regs d3 = regs (dev s)" "regs d4 = regs (dev s)"
      "keyboard_isr B k s = isr_after B scancode (r, c) d3 d4 k1 s"
    using isr_reads [OF assms(1-3), of k] k1_def by metis
  have at: "hw_cursor B (pic_ack B 1 e) = (r, c)" if "regs e = regs (dev s)" for e
    using hw_cursor_cong [OF assms(1), of "pic_ack B 1 e" "dev s"] assms(3) that by (simp add: pic_ack_regs [OF assms(1)])
  note rest = at [OF d(1)] at [OF d(2)]
  have low: "(0x1C :: u8) < 0x80" "(0x0E :: u8) < 0x80" "(0x4B :: u8) < 0x80" "(0x4D :: u8) < 0x80"
    by (simp_all add: word_less_nat_alt)
  obtain kb fb where bs: "press_key 0x0E (r, c) k1 (text_memory s) = (kb, Some (back_one r c div 80, back_one r c mod 80), fb)"
      "keyboard_buffer kb = 8"
      "cursor_write (back_one r c div 80, back_one r c mod 80) 0 fb = show_at (back_one r c) 0 (text_memory s)"
    using press_backspace [OF b(3) assms(4) b(1,2)] by blast
  have bs_hw: "hw_cursor B (pic_ack B 1 (pic_ack B 1 (framebuffer_set_cursor B (of_int (back_one r c div 80))
      (of_int (back_one r c mod 80)) d4))) = (back_one r c div 80, back_one r c mod 80)"
    by (rule hw_cursor_acked [OF assms(1) back_one_cell(1-4) [OF b(3) assms(4) b(1,2)]])
  have en: "hw_cursor B (pic_ack B 1 (pic_ack B 1 (framebuffer_set_cursor B (of_int (r + 1)) (of_int 0) d4))) = (r + 1, 0)"
    by (rule hw_cursor_acked [OF assms(1)]) (use b assms(4) in auto)
  have en_w: "cursor_write (r + 1, 0) 0 f = show_at ((r + 1) * 80) 0 f" for f
    by (subst cursor_write_show) (use b assms(4) in auto)
  show ?thesis
    unfolding d(3) isr_after_def Let_def
    by (auto simp: k1 rest low bs bs_hw press_enter press_arrow en [simplified] en_w split: prod.splits)
qed

text \<open>A keyboard holding one scancode, and a display controller.\<close>

definition demo_keys :: "u8 \<Rightarrow> (u8 \<times> (u8 \<Rightarrow> u8)) bus" where
  "demo_keys code = demo_crtc\<lparr>bus_in := (\<lambda>port (i, r). (if port = 0x60 then code else r i, (i, r)))\<rparr>"

lemma demo_keys_ok: "display_bus (demo_keys code) fst snd"
  by (simp add: display_bus_def crtc_ok_def demo_keys_def demo_crtc_def split: prod.split)

lemma demo_keys_scancode: "fst (in_port (demo_keys code) KEYBOARD_DATA_PORT d) = code"
  by (simp add: demo_keys_def demo_crtc_def in_port_def KEYBOARD_DATA_PORT_def split: prod.split)

lemma demo_keys_cursor: "hw_cursor (demo_keys code) (dev demo_console) = (0, 0)"
  unfolding hw_cursor_def get_cursor_regs(1) [OF display_crtc [OF demo_keys_ok]] by (simp add: demo_console_def)

definition demo_keyboard :: keyboard where
  "demo_keyboard = keyboard_state_activate (keyboard_start\<lparr>isShift := True\<rparr>)"

lemma demo_keyboard_simps:
  "keyboard_input_on demo_keyboard" "isShift demo_keyboard" "\<not> isCapsLock demo_keyboard"
  by (simp_all add: demo_keyboard_def keyboard_state_activate_def keyboard_start_def)

lemma demo_character: "key_character True False 0x1E = 0x41"
  by (simp add: key_character_def scancode_tables is_letter_def word_le_nat_alt nth_append Let_def)

theorem keyboard_isr_types_witness:
  "fst (get_keyboard_buffer (fst (keyboard_isr (demo_keys 0x1E) demo_keyboard demo_console))) = 0x41 \<and>
   text_memory (snd (keyboard_isr (demo_keys 0x1E) demo_keyboard demo_console)) 0 = 0x41 \<and>
   hw_cursor (demo_keys 0x1E) (dev (snd (keyboard_isr (demo_keys 0x1E) demo_keyboard demo_console))) = (0, 1)"
  using keyboard_isr_types [OF demo_keys_ok [of "0x1E"] demo_keys_scancode demo_keys_cursor, where k = demo_keyboard]
  by (simp add: demo_keyboard_simps demo_character show_at_def word_less_nat_alt Let_def split: prod.splits)

theorem keyboard_isr_controls_witness:
  "keyboard_buffer (fst (keyboard_isr (demo_keys 0x1C) demo_keyboard demo_console)) = 10 \<and>
   hw_cursor (demo_keys 0x1C) (dev (snd (keyboard_isr (demo_keys 0x1C) demo_keyboard demo_console))) = (1, 0)"
  using keyboard_isr_controls [OF demo_keys_ok [of "0x1C"] demo_keys_scancode demo_keys_cursor, where k = demo_keyboard]
  by (simp add: demo_keyboard_simps split: prod.splits)

end
