(* ===== verification/Cmos.thy ===== *)
theory Cmos
  imports Ports "HOL-Library.Monad_Syntax"
begin

text \<open>
  \<^verbatim>\<open>src/src/cmos.c\<close>: reading the time of day from the real-time clock. The wait for the end
  of an update is a loop that may not end, a \<open>partial_function\<close>; \<open>rtc_ok\<close> is what the code
  relies on of the clock chip: an index port, a data port, and an update flag that is raised
  for finitely many polls.
\<close>

section \<open>The routine\<close>

definition CMOS_ADDRESS :: u16 where "CMOS_ADDRESS = 0x70"
definition CMOS_DATA :: u16 where "CMOS_DATA = 0x71"
definition REG_SECONDS :: u8 where "REG_SECONDS = 0x00"
definition REG_MINUTES :: u8 where "REG_MINUTES = 0x02"
definition REG_HOURS :: u8 where "REG_HOURS = 0x04"

record time =
  second :: u8
  minute :: u8
  hour :: u8

definition is_update_cmos :: "'d bus \<Rightarrow> 'd \<Rightarrow> u8 \<times> 'd" where
  "is_update_cmos B d = (let d1 = out B CMOS_ADDRESS 0x0A d; (v, d2) = in_port B CMOS_DATA d1 in (v AND 0x80, d2))"

definition get_cmos_reg :: "'d bus \<Rightarrow> u8 \<Rightarrow> 'd \<Rightarrow> u8 \<times> 'd" where
  "get_cmos_reg B reg d = in_port B CMOS_DATA (out B CMOS_ADDRESS reg d)"

definition set_cmos_reg :: "'d bus \<Rightarrow> u8 \<Rightarrow> u8 \<Rightarrow> 'd \<Rightarrow> 'd" where
  "set_cmos_reg B reg value d = out B CMOS_DATA value (out B CMOS_ADDRESS reg d)"

definition bcd_to_binary :: "u8 \<Rightarrow> u8" where
  "bcd_to_binary bcd = of_int (uint (bcd AND 0x0F) + uint bcd div 16 * 10)"

partial_function (option) wait_update :: "'d bus \<Rightarrow> 'd \<Rightarrow> 'd option" where
  "wait_update B d = (case is_update_cmos B d of (v, d1) \<Rightarrow> if v \<noteq> 0 then wait_update B d1 else Some d1)"

definition numToStrLeft :: "int \<Rightarrow> u8" where
  "numToStrLeft num = (if num < 10 then 48 else of_int (num div 10 OR 48))"

definition numToStrRight :: "int \<Rightarrow> u8" where
  "numToStrRight num = (if num < 10 then of_int (num OR 48) else of_int (num mod 10 OR 48))"

text \<open>The correction of the raw values when register B says they are in BCD.\<close>

definition adjust_time :: "u8 \<Rightarrow> time \<Rightarrow> time" where
  "adjust_time regB t =
     (if regB AND 0x04 = 0 then
        t\<lparr>second := of_int (uint (second t AND 0x0F) + uint (second t) div 16 * 10),
          hour := of_int ((((uint (hour t AND 0x0F) + uint (hour t AND 0x70) div 16 * 10) OR uint (hour t AND 0x80)) + 7)
                          mod 24)\<rparr>
      else t)"

definition read_cmos :: "'d bus \<Rightarrow> 'd \<Rightarrow> (time \<times> u8 list \<times> 'd) option" where
  "read_cmos B d = Option.bind (wait_update B d) (\<lambda>d0.
     let (s, d1) = get_cmos_reg B REG_SECONDS d0;
         (m, d2) = get_cmos_reg B REG_MINUTES d1;
         (h, d3) = get_cmos_reg B REG_HOURS d2;
         (regB, d4) = get_cmos_reg B 0x0B d3;
         t = adjust_time regB \<lparr>second = bcd_to_binary s, minute = bcd_to_binary m, hour = h\<rparr>
     in Some (t, [numToStrLeft (uint (hour t)), numToStrRight (uint (hour t)),
                  numToStrLeft (uint (minute t)), numToStrRight (uint (minute t)),
                  numToStrLeft (uint (second t)), numToStrRight (uint (second t))], d4))"

section \<open>The clock chip\<close>

definition rtc_ok :: "'d bus \<Rightarrow> ('d \<Rightarrow> u8) \<Rightarrow> ('d \<Rightarrow> u8 \<Rightarrow> u8) \<Rightarrow> ('d \<Rightarrow> nat) \<Rightarrow> bool" where
  "rtc_ok B sel regs busy \<longleftrightarrow>
     (\<forall>d i. sel (bus_out B 0x70 i d) = i \<and> regs (bus_out B 0x70 i d) = regs d \<and> busy (bus_out B 0x70 i d) = busy d) \<and>
     (\<forall>d. regs (snd (bus_in B 0x71 d)) = regs d) \<and>
     (\<forall>d. sel d = 0x0A \<longrightarrow> (fst (bus_in B 0x71 d) AND 0x80 \<noteq> 0) = (busy d > 0) \<and>
                             busy (snd (bus_in B 0x71 d)) = busy d - 1) \<and>
     (\<forall>d. sel d \<noteq> 0x0A \<longrightarrow> fst (bus_in B 0x71 d) = regs d (sel d))"

text \<open>A number below 100 in BCD, and the two characters that show it.\<close>

definition bcd :: "nat \<Rightarrow> u8" where
  "bcd n = of_nat (16 * (n div 10) + n mod 10)"

definition digits :: "nat \<Rightarrow> u8 list" where
  "digits n = [of_nat (48 + n div 10), of_nat (48 + n mod 10)]"

lemma rtc_poll:
  assumes "rtc_ok B sel regs busy" and "is_update_cmos B d = (v, d1)"
  shows "v \<noteq> 0 \<longleftrightarrow> busy d > 0" "regs d1 = regs d" "busy d1 = busy d - 1"
proof -
  define d0 where "d0 = bus_out B 0x70 0x0A d"
  have d0: "sel d0 = 0x0A" "regs d0 = regs d" "busy d0 = busy d"
    using assms(1) by (simp_all add: rtc_ok_def d0_def)
  have r: "regs (snd (bus_in B 0x71 d0)) = regs d0" using assms(1) unfolding rtc_ok_def by blast
  have b: "(fst (bus_in B 0x71 d0) AND 0x80 \<noteq> 0) = (busy d0 > 0) \<and> busy (snd (bus_in B 0x71 d0)) = busy d0 - 1"
    using assms(1) d0(1) unfolding rtc_ok_def by blast
  have "is_update_cmos B d = (fst (bus_in B 0x71 d0) AND 0x80, snd (bus_in B 0x71 d0))"
    by (simp add: is_update_cmos_def out_def in_port_def CMOS_ADDRESS_def CMOS_DATA_def d0_def Let_def split: prod.split)
  then have "v = fst (bus_in B 0x71 d0) AND 0x80" "d1 = snd (bus_in B 0x71 d0)" using assms(2) by simp_all
  then show "v \<noteq> 0 \<longleftrightarrow> busy d > 0" "regs d1 = regs d" "busy d1 = busy d - 1"
    using r b d0(2,3) by simp_all
qed

lemma rtc_get:
  assumes "rtc_ok B sel regs busy" and "r \<noteq> 0x0A"
  shows "\<exists>d1. get_cmos_reg B r d = (regs d r, d1) \<and> regs d1 = regs d"
proof -
  define d0 where "d0 = bus_out B 0x70 r d"
  have d0: "sel d0 = r" "regs d0 = regs d" using assms(1) by (simp_all add: rtc_ok_def d0_def)
  have "regs (snd (bus_in B 0x71 d0)) = regs d0" "fst (bus_in B 0x71 d0) = regs d0 r"
    using assms(1) assms(2) d0(1) unfolding rtc_ok_def by blast+
  moreover have "get_cmos_reg B r d = bus_in B 0x71 d0"
    by (simp add: get_cmos_reg_def out_def in_port_def CMOS_ADDRESS_def CMOS_DATA_def d0_def)
  ultimately show ?thesis using d0(2) by (metis prod.collapse)
qed

lemma wait_update_returns:
  fixes B :: "'d bus"
  assumes "rtc_ok B sel regs busy"
  shows "\<exists>d'. wait_update B d = Some d' \<and> regs d' = regs d"
proof (induction "busy d" arbitrary: d)
  case 0
  obtain v d1 where i: "is_update_cmos B d = (v, d1)" by fastforce
  show ?case using rtc_poll [OF assms i] 0 i by (subst wait_update.simps) simp
next
  case (Suc n)
  obtain v d1 where i: "is_update_cmos B d = (v, d1)" by fastforce
  note p = rtc_poll [OF assms i]
  have "n = busy d1" using p(3) Suc.hyps(2) by simp
  from Suc.hyps(1) [OF this] obtain d' where "wait_update B d1 = Some d'" "regs d' = regs d1" by blast
  then show ?case using p i Suc.hyps(2) by (subst wait_update.simps) simp
qed

section \<open>Decimal digits\<close>

lemma and_values:
  fixes w :: u8
  shows "uint (w AND 0x0F) = uint w mod 16" "uint (w AND 0x70) div 16 = uint w div 16 mod 8"
    "uint w < 128 \<Longrightarrow> uint (w AND 0x80) = 0"
proof -
  have m: "(0x0F :: u8) = mask 4" "(0x70 :: u8) = push_bit 4 (mask 3)" "(0x80 :: u8) = push_bit 7 (mask 1)"
    by (simp_all add: mask_eq_exp_minus_1)
  show "uint (w AND 0x0F) = uint w mod 16"
    unfolding m take_bit_eq_mask [symmetric] unsigned_take_bit_eq by (simp add: take_bit_eq_mod)
  have e: "drop_bit 4 (w AND push_bit 4 (mask 3)) = take_bit 3 (drop_bit 4 w)"
    by (rule bit_eqI) (auto simp: bit_simps)
  have lt: "uint w < 256" using unsigned_less [of w] by simp
  have "uint (w AND 0x70) div 16 = uint (drop_bit 4 (w AND 0x70))"
    unfolding unsigned_drop_bit_eq using unsigned_less [of "w AND 0x70", where 'a = int] by (simp add: take_bit_eq_mod drop_bit_eq_div)
  also have "\<dots> = uint w div 16 mod 8"
    unfolding m e unsigned_take_bit_eq unsigned_drop_bit_eq using lt by (simp add: take_bit_eq_mod drop_bit_eq_div)
  finally show "uint (w AND 0x70) div 16 = uint w div 16 mod 8" .
  show "uint (w AND 0x80) = 0" if "uint w < 128"
  proof -
    have "\<not> bit w 7"
    proof
      assume "bit w 7"
      then have "bit (uint w) 7" by (simp add: bit_uint_iff)
      then have "odd (uint w div 2 ^ 7)" unfolding bit_iff_odd .
      then show False using that by simp
    qed
    then have "w AND push_bit 7 (mask 1) = 0"
      by (intro bit_eqI) (simp only: bit_and_iff bit_push_bit_iff bit_mask_iff bit_0_eq bot_apply, force simp: less_Suc_eq le_less)
    then show ?thesis unfolding m by simp
  qed
qed

lemma or_48: "0 \<le> x \<Longrightarrow> x < 10 \<Longrightarrow> x OR 48 = x + (48 :: int)"
proof -
  assume "0 \<le> x" "x < 10"
  then have "x = 0 \<or> x = 1 \<or> x = 2 \<or> x = 3 \<or> x = 4 \<or> x = 5 \<or> x = 6 \<or> x = 7 \<or> x = 8 \<or> x = 9" by presburger
  then show ?thesis by auto
qed

lemma digits_shown:
  "n < 100 \<Longrightarrow> [numToStrLeft (int n), numToStrRight (int n)] = digits n"
proof -
  assume n: "n < 100"
  show ?thesis
  proof (cases "n < 10")
    case True
    then show ?thesis by (simp add: numToStrLeft_def numToStrRight_def digits_def or_48)
  next
    case False
    have a: "int n div 10 OR 48 = int (n div 10) + 48" using n or_48 [of "int n div 10"] by (simp add: zdiv_int)
    have b: "int n mod 10 OR 48 = int (n mod 10) + 48" using or_48 [of "int n mod 10"] by (simp add: zmod_int)
    show ?thesis using False unfolding numToStrLeft_def numToStrRight_def digits_def a b by simp
  qed
qed

lemma uint_bcd: "n < 100 \<Longrightarrow> uint (bcd n) = int (16 * (n div 10) + n mod 10)"
proof -
  assume "n < 100"
  then have "n div 10 \<le> 9" "n mod 10 \<le> 9" by simp_all
  then have "16 * (n div 10) + n mod 10 < 256" by linarith
  then show ?thesis unfolding bcd_def unsigned_of_nat by (simp add: take_bit_nat_eq_self)
qed

lemma bcd_parts:
  assumes "n < 100"
  shows "uint (bcd n) mod 16 = int (n mod 10)" "uint (bcd n) div 16 = int (n div 10)"
  unfolding uint_bcd [OF assms] by (simp_all add: zmod_int zdiv_int)

lemma bcd_decode: "n < 100 \<Longrightarrow> bcd_to_binary (bcd n) = of_nat n"
proof -
  assume n: "n < 100"
  have "int (n mod 10) + int (n div 10) * 10 = int n" by (simp add: zmod_int zdiv_int)
  then show ?thesis unfolding bcd_to_binary_def and_values bcd_parts [OF n] by (metis of_int_of_nat_eq)
qed

lemma uint_of_nat8: "n < 256 \<Longrightarrow> uint (of_nat n :: u8) = int n"
  unfolding unsigned_of_nat by (simp add: take_bit_nat_eq_self)

lemma uint_of_int8: "0 \<le> x \<Longrightarrow> x < 256 \<Longrightarrow> uint (of_int x :: u8) = x"
  by (simp add: uint_word_of_int_eq take_bit_int_eq_self)

lemma adjust_hour:
  assumes "h < 24" and "regB AND 0x04 = 0" and "hour t = bcd h"
  shows "uint (hour (adjust_time regB t)) = int ((h + 7) mod 24)"
proof -
  have h: "h < 100" using assms(1) by simp
  have div8: "int (h div 10) mod 8 = int (h div 10)" using assms(1) by (intro mod_pos_pos_trivial) auto
  have "h div 10 \<le> 2" using assms(1) by simp
  then have lt: "uint (bcd h) < 128" unfolding uint_bcd [OF h] by simp
  have sum: "int (h mod 10) + int (h div 10) * 10 = int h" by (simp add: zmod_int zdiv_int)
  have "hour (adjust_time regB t) = of_int ((int h + 7) mod 24)"
    using assms(2,3) by (simp only: adjust_time_def refl if_True time.simps time.select_convs time.update_convs and_values bcd_parts [OF h]
        div8 sum and_values(3) [OF lt] or.right_neutral) simp
  moreover have "(int h + 7) mod 24 = int ((h + 7) mod 24)" by (simp add: zmod_int)
  ultimately show ?thesis using uint_of_int8 [of "int ((h + 7) mod 24)"] by simp
qed

lemma digits_inj: "a < 100 \<Longrightarrow> b < 100 \<Longrightarrow> digits a = digits b \<Longrightarrow> a = b"
proof -
  assume "a < 100" "b < 100" and eq: "digits a = digits b"
  then have lt: "a div 10 < 10" "b div 10 < 10" by simp_all
  have inj: "x = y" if "(of_nat (48 + x) :: u8) = of_nat (48 + y)" "x < 10" "y < 10" for x y :: nat
  proof -
    have "uint (of_nat (48 + x) :: u8) = uint (of_nat (48 + y) :: u8)" using that(1) by simp
    then show ?thesis using that(2,3) uint_of_nat8 [of "48 + x"] uint_of_nat8 [of "48 + y"] by linarith
  qed
  have "a div 10 = b div 10" "a mod 10 = b mod 10" using eq lt inj unfolding digits_def by auto
  then show ?thesis by (metis div_mult_mod_eq)
qed

lemma read_cmos_time:
  assumes "rtc_ok B sel regs busy" and "h < 24" "m < 60" "s < 60"
    and "regs d 0x04 = bcd h" "regs d 0x02 = bcd m" "regs d 0x00 = bcd s" and "regs d 0x0B AND 0x04 = 0"
  shows "\<exists>t d'. read_cmos B d = Some (t, digits ((h + 7) mod 24) @ digits m @ digits (s mod 16 + 10 * (s div 16)), d')"
proof -
  obtain d0 where d0: "wait_update B d = Some d0" "regs d0 = regs d" using wait_update_returns [OF assms(1)] by blast
  obtain d1 where d1: "get_cmos_reg B REG_SECONDS d0 = (bcd s, d1)" "regs d1 = regs d"
    using rtc_get [OF assms(1), of REG_SECONDS d0] d0 assms(7) by (auto simp: REG_SECONDS_def)
  obtain d2 where d2: "get_cmos_reg B REG_MINUTES d1 = (bcd m, d2)" "regs d2 = regs d"
    using rtc_get [OF assms(1), of REG_MINUTES d1] d1 assms(6) by (auto simp: REG_MINUTES_def)
  obtain d3 where d3: "get_cmos_reg B REG_HOURS d2 = (bcd h, d3)" "regs d3 = regs d"
    using rtc_get [OF assms(1), of REG_HOURS d2] d2 assms(5) by (auto simp: REG_HOURS_def)
  obtain d4 where d4: "get_cmos_reg B 0x0B d3 = (regs d 0x0B, d4)"
    using rtc_get [OF assms(1), of "0x0B" d3] d3 by auto
  define raw where "raw = \<lparr>second = bcd_to_binary (bcd s), minute = bcd_to_binary (bcd m), hour = bcd h\<rparr>"
  define t where "t = adjust_time (regs d 0x0B) raw"
  have m: "uint (minute t) = int m"
    using assms(3,8) by (simp add: t_def raw_def adjust_time_def bcd_decode uint_of_nat8)
  have h: "uint (hour t) = int ((h + 7) mod 24)"
    unfolding t_def by (rule adjust_hour [OF assms(2,8)]) (simp add: raw_def)
  have s16: "s mod 16 + 10 * (s div 16) < 100" 
  proof -
    have "s mod 16 < 16" "s div 16 < 4" using assms(4) by simp_all
    then show ?thesis by linarith
  qed
  have us: "uint (of_nat s :: u8) = int s" using assms(4) by (simp add: uint_of_nat8)
  have "uint (of_nat s AND (0x0F :: u8)) + uint (of_nat s :: u8) div 16 * 10 = int (s mod 16 + 10 * (s div 16))"
    unfolding and_values us by (simp add: zmod_int zdiv_int)
  then have "second t = of_int (int (s mod 16 + 10 * (s div 16)))"
    using assms(4,8) by (simp add: t_def raw_def adjust_time_def bcd_decode)
  then have s: "uint (second t) = int (s mod 16 + 10 * (s div 16))"
    using s16 uint_of_int8 [of "int (s mod 16 + 10 * (s div 16))"] by simp
  have "read_cmos B d = Some (t, [numToStrLeft (uint (hour t)), numToStrRight (uint (hour t))] @
      [numToStrLeft (uint (minute t)), numToStrRight (uint (minute t))] @
      [numToStrLeft (uint (second t)), numToStrRight (uint (second t))], d4)"
    by (simp add: read_cmos_def d0 d1 d2 d3 d4 t_def raw_def Let_def)
  also have "\<dots> = Some (t, digits ((h + 7) mod 24) @ digits m @ digits (s mod 16 + 10 * (s div 16)), d4)"
    unfolding h m s using assms(3) s16 by (subst digits_shown, simp)+ simp
  finally show ?thesis by blast
qed

section \<open>Property\<close>

text \<open>
  The time shown. With a clock in BCD and 24-hour mode whose update ends, \<open>read_cmos\<close>
  returns, and its six characters are the hour seven hours ahead of the clock's, the minute,
  and the second \<open>s\<close> decoded twice, \<open>s mod 16 + 10 * (s div 16)\<close>, which is the clock's
  second exactly below 16.
\<close>

theorem read_cmos_shows:
  assumes "rtc_ok B sel regs busy" and "h < 24" "m < 60" "s < 60"
    and "regs d 0x04 = bcd h" "regs d 0x02 = bcd m" "regs d 0x00 = bcd s" and "regs d 0x0B AND 0x04 = 0"
  shows "\<exists>t d'. read_cmos B d =
      Some (t, digits ((h + 7) mod 24) @ digits m @ digits (s mod 16 + 10 * (s div 16)), d') \<and>
    (digits (s mod 16 + 10 * (s div 16)) = digits s \<longleftrightarrow> s < 16)"
proof -
  have s16: "s mod 16 + 10 * (s div 16) < 100"
  proof -
    have "s mod 16 < 16" "s div 16 < 4" using assms(4) by simp_all
    then show ?thesis by linarith
  qed
  have "digits (s mod 16 + 10 * (s div 16)) = digits s \<longleftrightarrow> s < 16"
  proof
    assume "digits (s mod 16 + 10 * (s div 16)) = digits s"
    then have "s mod 16 + 10 * (s div 16) = s" using digits_inj [OF s16] assms(4) by simp
    moreover have "s mod 16 + 16 * (s div 16) = s" by simp
    ultimately have "s div 16 = 0" by linarith
    then show "s < 16" by (simp add: div_eq_0_iff)
  qed simp
  then show ?thesis using read_cmos_time [OF assms] by blast
qed

definition demo_rtc :: "(u8 \<times> nat) bus" where
  "demo_rtc = \<lparr>
     bus_out = (\<lambda>port v (i, n). if port = 0x70 then (v, n) else (i, n)),
     bus_in = (\<lambda>port (i, n). if i = 0x0A then (if n > 0 then 0x80 else 0, (i, n - 1))
        else (if i = 0x04 then bcd 22 else if i = 0x02 then bcd 5 else if i = 0x00 then bcd 59 else 0x02, (i, n)))\<rparr>"

definition demo_rtc_regs :: "u8 \<times> nat \<Rightarrow> u8 \<Rightarrow> u8" where
  "demo_rtc_regs d i = (if i = 0x04 then bcd 22 else if i = 0x02 then bcd 5 else if i = 0x00 then bcd 59 else 0x02)"

lemma demo_rtc_ok: "rtc_ok demo_rtc fst demo_rtc_regs snd"
  by (auto simp: rtc_ok_def demo_rtc_def demo_rtc_regs_def fun_eq_iff)

theorem read_cmos_shows_witness:
  "\<exists>t d'. read_cmos demo_rtc (0, 3) = Some (t, digits 5 @ digits 5 @ digits 41, d')"
  using read_cmos_shows [OF demo_rtc_ok, of 22 5 59 "(0, 3)"] by (simp add: demo_rtc_regs_def)

end
