(* ===== verification/Interrupts.thy ===== *)
theory Interrupts
  imports Scheduler Keyboard Cmos
begin

text \<open>
  The dispatcher of \<^verbatim>\<open>src/src/interrupt.c\<close>: the system calls, which a user program raises
  with a number in \<open>eax\<close> and arguments in \<open>ebx\<close>, \<open>ecx\<close> and \<open>edx\<close>, and the interrupt handler
  that hands an interrupt to the keyboard, the system calls or the scheduler. The whole
  kernel state is the \<open>sys\<close> of the processes, the keyboard driver and the console. Pointers
  a program passes are addresses of its own space: memory is read and written through the
  current page directory, and an address no page maps is a page fault. The code does not look
  where a pointer leads. One that leads into the page at 3 GB, where the kernel's code,
  variables and page tables and the display lie, is the fault \<open>Kernel_Access\<close>: what the
  program then does to the kernel is outside the model.
\<close>

section \<open>Memory of the calling program\<close>

text \<open>A run of bytes that lies in user pages; and the fault of an access to one that does not.\<close>

definition mapped :: "page_directory \<Rightarrow> u32 \<Rightarrow> nat \<Rightarrow> bool" where
  "mapped d a n \<longleftrightarrow> (\<forall>i<n. translate d True (a + of_nat i) \<noteq> None)"

definition access_fault :: "page_directory \<Rightarrow> u32 \<Rightarrow> nat \<Rightarrow> fault" where
  "access_fault d a n = (if \<forall>i<n. translate d False (a + of_nat i) \<noteq> None then Kernel_Access else Page_Fault)"

lemma user_translate: "translate d True va = Some pa \<Longrightarrow> translate d False va = Some pa"
  by (auto simp: translate_def Let_def split: if_splits)

lemma mapped_address:
  assumes "mapped d a n" and "i < n"
  obtains pa where "translate d True (a + of_nat i) = Some pa" "translate d False (a + of_nat i) = Some pa"
  using assms user_translate by (fastforce simp: mapped_def)

definition user_directory :: "layout \<Rightarrow> sys \<Rightarrow> page_directory res" where
  "user_directory L s = pd_get L (pg s) (paging_get_current_page_directory_addr (pg s))"

text \<open>Reading and writing a run of bytes at a pointer.\<close>

definition user_load :: "layout \<Rightarrow> u32 \<Rightarrow> nat \<Rightarrow> sys \<Rightarrow> (u8 list) res" where
  "user_load L a n s =
     bindE (user_directory L s) (\<lambda>d.
     if mapped d a n then Inr (mem_read (view d (pm s)) a n) else Inl (access_fault d a n))"

definition user_store :: "layout \<Rightarrow> u32 \<Rightarrow> u8 list \<Rightarrow> sys \<Rightarrow> sys res" where
  "user_store L a bs s =
     bindE (user_directory L s) (\<lambda>d.
     if mapped d a (length bs) then Inr (s\<lparr>pm := commit d (pm s) (mem_write (view d (pm s)) a bs)\<rparr>)
     else Inl (access_fault d a (length bs)))"

definition u32_of_bytes :: "u8 list \<Rightarrow> u32" where
  "u32_of_bytes bs = of_nat (foldr (\<lambda>b acc. unat b + 256 * acc) bs 0)"

text \<open>\<open>*(struct FAT32DriverRequest*) p\<close>: 23 packed bytes.\<close>

definition request_of :: "u8 list \<Rightarrow> driver_request" where
  "request_of bs = \<lparr>rq_buf = u32_of_bytes (take 4 bs), rq_name = take 8 (drop 4 bs), rq_ext = take 3 (drop 12 bs),
     rq_parent_cluster_number = u32_of_bytes (take 4 (drop 15 bs)),
     rq_buffer_size = u32_of_bytes (take 4 (drop 19 bs))\<rparr>"

definition user_request :: "layout \<Rightarrow> u32 \<Rightarrow> sys \<Rightarrow> driver_request res" where
  "user_request L p s = bindE (user_load L p 23 s) (\<lambda>bs. Inr (request_of bs))"

text \<open>\<open>read_directory\<close> and \<open>write\<close> with the caller's memory.\<close>

definition read_directory_through :: "layout \<Rightarrow> driver_request \<Rightarrow> sys \<Rightarrow> (int \<times> sys) res" where
  "read_directory_through L rq s =
     bindE (user_directory L s) (\<lambda>d.
     bindE (read_directory rq (fs s) (view d (pm s))) (\<lambda>(r, vm).
     if r = 0 \<and> \<not> mapped d (rq_buf rq) CLUSTER_SIZE then Inl (access_fault d (rq_buf rq) CLUSTER_SIZE)
     else Inr (r, s\<lparr>pm := commit d (pm s) vm\<rparr>)))"

definition write_through ::
  "layout \<Rightarrow> dir_entry \<Rightarrow> dir_entry list \<Rightarrow> driver_request \<Rightarrow> sys \<Rightarrow> ((int \<times> sys) res) option" where
  "write_through L junk junk_table rq s =
     bindO (Some (user_directory L s)) (\<lambda>d.
     bindO (fs_write junk junk_table rq (fs s) (view d (pm s))) (\<lambda>(r, f, vm).
     let n = unat (clusters_needed (rq_buffer_size rq)) * CLUSTER_SIZE in
     if r = 0 \<and> rq_buffer_size rq \<noteq> 0 \<and> \<not> mapped d (rq_buf rq) n
     then Some (Inl (access_fault d (rq_buf rq) n))
     else Some (Inr (r, s\<lparr>fs := f, pm := commit d (pm s) vm\<rparr>))))"

section \<open>The kernel state\<close>

record 'd kernel =
  ksys :: sys
  kbd :: keyboard
  con :: "'d console"

text \<open>What surrounds the kernel: its memory layout, the devices, and the uninitialised
  stack objects of \<open>write\<close>.\<close>

record 'd machine =
  mlayout :: layout
  mbus :: "'d bus"
  mjunk :: dir_entry
  mjunk_table :: "dir_entry list"

definition with_sys :: "'d kernel \<Rightarrow> (sys res) option \<Rightarrow> (('d kernel) res) option" where
  "with_sys k r = bindO r (\<lambda>s. Some (Inr (k\<lparr>ksys := s\<rparr>)))"

text \<open>Storing the return code of a file system call at \<open>ecx\<close>.\<close>

definition return_code :: "layout \<Rightarrow> u32 \<Rightarrow> int \<Rightarrow> sys \<Rightarrow> (sys res) option" where
  "return_code L p r s = Some (user_store L p [of_int r] s)"

section \<open>Listing the processes\<close>

definition numbers :: "u8 list list" where
  "numbers = map codes [''0'', ''1'', ''2'', ''3'', ''4'', ''5'', ''6'', ''7'', ''8'', ''9'', ''10'', ''11'', ''12'',
     ''13'', ''14'', ''15'', ''16'']"

definition state_text :: "process_state \<Rightarrow> u8 list" where
  "state_text st = codes (case st of NO_PROCESS \<Rightarrow> ''NO_PROCESS'' | PROCESS_STATE_READY \<Rightarrow> ''PROCESS_STATE_READY''
     | PROCESS_STATE_RUNNING \<Rightarrow> ''PROCESS_STATE_RUNNING'' | PROCESS_STATE_BLOCKED \<Rightarrow> ''PROCESS_STATE_BLOCKED'')"

definition print_process :: "'d bus \<Rightarrow> pcb \<Rightarrow> 'd console \<Rightarrow> ('d console) res" where
  "print_process B p c =
     (if pstate p = NO_PROCESS then Inr c
      else bindE (arr_get numbers (unat (pid p))) (\<lambda>num.
        let c1 = puts B (codes ''Process Name  : '') 0xF c;
            c2 = puts B (take 8 (pname p)) 0xF c1;
            c3 = puts B (10 # codes ''Process Id    : '') 0xF c2;
            c4 = puts B (take 2 (num @ [0])) 0xF c3;
            c5 = puts B (10 # codes ''Process State : '') 0xF c4;
            c6 = puts B (state_text (pstate p)) 0xF c5
        in Inr (puts B [10] 0 c6)))"

fun print_processes :: "'d bus \<Rightarrow> pcb list \<Rightarrow> 'd console \<Rightarrow> ('d console) res" where
  "print_processes B [] c = Inr c"
| "print_processes B (p # ps) c = bindE (print_process B p c) (print_processes B ps)"

section \<open>The system calls\<close>

definition file_call :: "'d machine \<Rightarrow> cpu_register \<Rightarrow> 'd kernel \<Rightarrow>
    (driver_request \<Rightarrow> sys \<Rightarrow> ((int \<times> sys) res) option) \<Rightarrow> (('d kernel) res) option" where
  "file_call M r k f =
     with_sys k (bindO (Some (user_request (mlayout M) (ebx r) (ksys k))) (\<lambda>rq.
       bindO (f rq (ksys k)) (\<lambda>(c, s). return_code (mlayout M) (ecx r) c s)))"

definition read_call :: "layout \<Rightarrow> driver_request \<Rightarrow> sys \<Rightarrow> ((int \<times> sys) res) option" where
  "read_call L rq s = bindO (read_through L rq (fs s) (pg s) (pm s)) (\<lambda>(c, m). Some (Inr (c, s\<lparr>pm := m\<rparr>)))"

definition delete_call :: "driver_request \<Rightarrow> sys \<Rightarrow> ((int \<times> sys) res) option" where
  "delete_call rq s = bindO (fs_delete rq (fs s)) (\<lambda>(c, f). Some (Inr (c, s\<lparr>fs := f\<rparr>)))"

definition write_cluster_call :: "layout \<Rightarrow> u32 \<Rightarrow> u32 \<Rightarrow> sys \<Rightarrow> sys res" where
  "write_cluster_call L p cluster s =
     bindE (user_load L p CLUSTER_SIZE s) (\<lambda>bs.
     bindE (write_clusters (storage (fs s)) bs cluster 1) (\<lambda>im. Inr (s\<lparr>fs := (fs s)\<lparr>storage := im\<rparr>\<rparr>)))"

definition draw_call :: "cpu_register \<Rightarrow> u8 \<Rightarrow> 'd console \<Rightarrow> 'd console" where
  "draw_call r bg c =
     c\<lparr>text_memory := framebuffer_write (ucast (ebx r)) (ucast (ecx r)) (ucast (edx r)) 0xF bg (text_memory c)\<rparr>"

definition syscall :: "'d machine \<Rightarrow> cpu_register \<Rightarrow> 'd kernel \<Rightarrow> (('d kernel) res) option" where
  "syscall M r k =
     (let L = mlayout M; s = ksys k in
      if eax r = 0 then file_call M r k (read_call L)
      else if eax r = 1 then file_call M r k (\<lambda>rq s. Some (read_directory_through L rq s))
      else if eax r = 2 then file_call M r k (write_through L (mjunk M) (mjunk_table M))
      else if eax r = 3 then file_call M r k delete_call
      else if eax r = 4 then
        (let (ch, kb) = get_keyboard_buffer (kbd k) in
         with_sys (k\<lparr>kbd := kb\<rparr>) (Some (user_store L (ebx r) [ch] s)))
      else if eax r = 5 then
        (if (32 \<le> ebx r \<and> ebx r \<le> 127) \<or> ebx r = 0
         then Some (Inr (k\<lparr>con := putchar (ucast (ebx r)) 4 (con k)\<rparr>)) else Some (Inr k))
      else if eax r = 6 then
        Some (bindE (user_load L (ebx r) (unat (ecx r)) s) (\<lambda>str.
          Inr (k\<lparr>con := puts (mbus M) str (ucast (edx r)) (con k)\<rparr>)))
      else if eax r = 7 then Some (Inr (k\<lparr>kbd := keyboard_state_activate (kbd k)\<rparr>))
      else if eax r = 8 then Some (Inr (k\<lparr>con := framebuffer_clear (con k)\<rparr>))
      else if eax r = 9 then with_sys k (Some (bindE (process_destroy L (ebx r) s) (\<lambda>(_, s'). Inr s')))
      else if eax r = 10 then
        Some (bindE (print_processes (mbus M) (process_list s) (con k)) (\<lambda>c. Inr (k\<lparr>con := c\<rparr>)))
      else if eax r = 11 then Some (Inr k)
      else if eax r = 12 then
        (case read_cmos (mbus M) (dev (con k)) of
           None \<Rightarrow> None
         | Some (_, txt, d) \<Rightarrow> with_sys (k\<lparr>con := (con k)\<lparr>dev := d\<rparr>\<rparr>) (Some (user_store L (ebx r) txt s)))
      else if eax r = 13 then Some (Inr (k\<lparr>con := draw_call r 0 (con k)\<rparr>))
      else if eax r = 14 then with_sys k (Some (write_cluster_call L (ebx r) (ecx r) s))
      else if eax r = 15 then
        with_sys k (bindO (Some (user_request L (ebx r) s)) (\<lambda>rq.
          bindO (process_create_user_process L rq s) (\<lambda>(_, s'). Some (Inr s'))))
      else if eax r = 16 then Some (Inr (k\<lparr>con := draw_call r 0xF (con k)\<rparr>))
      else Some (Inr k))"

text \<open>
  The handler: the state it leaves and, when the timer switched processes, the context loaded.
\<close>

definition main_interrupt_handler ::
  "'d machine \<Rightarrow> interrupt_frame \<Rightarrow> 'd kernel \<Rightarrow> (('d kernel \<times> cpu_context option) res) option" where
  "main_interrupt_handler M frame k =
     (if int_number frame = ucast PIC1_OFFSET + of_nat IRQ_KEYBOARD then
        (let (kb, c) = keyboard_isr (mbus M) (kbd k) (con k) in Some (Inr (k\<lparr>kbd := kb, con := c\<rparr>, None)))
      else if int_number frame = 0x30 then bindO (syscall M (if_cpu frame) k) (\<lambda>k'. Some (Inr (k', None)))
      else if int_number frame = ucast PIC1_OFFSET + of_nat IRQ_TIMER then
        (let k1 = k\<lparr>con := (con k)\<lparr>dev := pic_ack (mbus M) 0 (dev (con k))\<rparr>\<rparr> in
         case timer_interrupt frame (ksys k) of
           None \<Rightarrow> None
         | Some (s, ctx) \<Rightarrow> Some (Inr (k1\<lparr>ksys := s\<rparr>, Some ctx)))
      else Some (Inr (k, None)))"

section \<open>Who may change what\<close>

text \<open>A physical byte a directory maps; and a state that differs from another only in the file
  system and in the bytes the directory maps.\<close>

definition reaches :: "page_directory \<Rightarrow> u32 \<Rightarrow> bool" where
  "reaches d pa \<longleftrightarrow> (\<exists>k<PAGE_ENTRY_COUNT. present_bit (flag (d ! k)) \<and> ucast (lower_address (d ! k)) = drop_bit 22 pa)"

definition kept :: "page_directory \<Rightarrow> sys \<Rightarrow> sys \<Rightarrow> bool" where
  "kept d s s' \<longleftrightarrow> pg s' = pg s \<and> process_list s' = process_list s \<and> list_of_process s' = list_of_process s \<and>
     active_process_count s' = active_process_count s \<and> (\<forall>pa. \<not> reaches d pa \<longrightarrow> pm s' pa = pm s pa)"

lemma with_sys_eq: "with_sys k r = Some (Inr k') \<longleftrightarrow> (\<exists>s. r = Some (Inr s) \<and> k' = k\<lparr>ksys := s\<rparr>)"
  by (auto simp: with_sys_def bindO_eq)

lemma kept_refl [simp]: "kept d s s"
  by (simp add: kept_def)

lemma kept_trans: "kept d s t \<Longrightarrow> kept d t u \<Longrightarrow> kept d s u"
  by (simp add: kept_def)

lemma kept_fs: "kept d s (s\<lparr>fs := f\<rparr>)"
  by (simp add: kept_def)

lemma kept_directory: "kept d s t \<Longrightarrow> user_directory L t = user_directory L s"
  by (simp add: kept_def user_directory_def)

lemma commit_unreached:
  assumes "\<not> reaches d pa"
  shows "commit d m vm pa = m pa"
proof -
  have "find (\<lambda>k. present_bit (flag (d ! k)) \<and> ucast (lower_address (d ! k)) = drop_bit 22 pa) [0..<PAGE_ENTRY_COUNT] = None"
    unfolding find_upt_None using assms unfolding reaches_def by blast
  then show ?thesis by (simp add: commit_def)
qed

lemma kept_commit: "kept d s (s\<lparr>fs := f, pm := commit d (pm s) vm\<rparr>)" "kept d s (s\<lparr>pm := commit d (pm s) vm\<rparr>)"
  by (simp_all add: kept_def commit_unreached)

lemma user_store_kept:
  assumes "user_store L a bs s = Inr s'" and "user_directory L s = Inr d"
  shows "kept d s s'" "fs s' = fs s"
  using assms by (auto simp: user_store_def kept_commit split: if_splits)

lemma read_call_kept:
  assumes "read_call L rq s = Some (Inr (c, s'))" and "user_directory L s = Inr d"
  shows "kept d s s'" "fs s' = fs s"
proof -
  obtain m where m: "read_through L rq (fs s) (pg s) (pm s) = Some (Inr (c, m))" "s' = s\<lparr>pm := m\<rparr>"
    using assms(1) by (auto simp: read_call_def bindO_eq)
  obtain vm where "m = commit d (pm s) vm"
    using m(1) assms(2) by (auto simp: read_through_def user_directory_def split: option.splits sum.splits if_splits)
  then show "kept d s s'" "fs s' = fs s" using m(2) by (simp_all add: kept_commit)
qed

lemma read_directory_kept:
  assumes "read_directory_through L rq s = Inr (c, s')" and "user_directory L s = Inr d"
  shows "kept d s s'" "fs s' = fs s"
  using assms by (auto simp: read_directory_through_def bindE_eq_Inr kept_commit split: if_splits)

lemma write_kept:
  assumes "write_through L junk tbl rq s = Some (Inr (c, s'))" and "user_directory L s = Inr d"
  shows "kept d s s'"
  using assms by (auto simp: write_through_def Let_def bindO_eq kept_commit split: if_splits)

lemma delete_kept:
  assumes "delete_call rq s = Some (Inr (c, s'))"
  shows "kept d s s'"
  using assms by (auto simp: delete_call_def bindO_eq kept_fs)

lemma file_call_kept:
  assumes "file_call M r k f = Some (Inr k')" and "user_directory (mlayout M) (ksys k) = Inr d"
    and "\<And>rq c s'. f rq (ksys k) = Some (Inr (c, s')) \<Longrightarrow> kept d (ksys k) s' \<and> (fs_kept \<longrightarrow> fs s' = fs (ksys k))"
  shows "kept d (ksys k) (ksys k') \<and> (fs_kept \<longrightarrow> fs (ksys k') = fs (ksys k)) \<and> kbd k' = kbd k \<and> con k' = con k"
proof -
  obtain rq c s1 s2 where f: "f rq (ksys k) = Some (Inr (c, s1))"
    and st: "user_store (mlayout M) (ecx r) [of_int c] s1 = Inr s2" and k': "k' = k\<lparr>ksys := s2\<rparr>"
    using assms(1) by (auto simp: file_call_def with_sys_eq bindO_eq return_code_def)
  note k = assms(3) [OF f]
  have "user_directory (mlayout M) s1 = Inr d" using k kept_directory assms(2) by metis
  note u = user_store_kept [OF st this]
  show ?thesis using k u k' kept_trans by auto
qed

text \<open>What one system call keeps.\<close>

definition call_keeps :: "u32 \<Rightarrow> page_directory \<Rightarrow> 'd kernel \<Rightarrow> 'd kernel \<Rightarrow> bool" where
  "call_keeps n d k k' \<longleftrightarrow>
     (n \<notin> {9, 15} \<longrightarrow> kept d (ksys k) (ksys k')) \<and> (n = 9 \<longrightarrow> pm (ksys k') = pm (ksys k)) \<and>
     (n \<notin> {2, 3, 14} \<longrightarrow> fs (ksys k') = fs (ksys k)) \<and>
     (n \<notin> {5, 6, 8, 10, 13, 16} \<longrightarrow> text_memory (con k') = text_memory (con k) \<and>
        cur_row (con k') = cur_row (con k) \<and> cur_col (con k') = cur_col (con k)) \<and>
     (n \<notin> {4, 7} \<longrightarrow> kbd k' = kbd k) \<and> (16 < n \<longrightarrow> k' = k)"

lemma destroy_keeps: "process_destroy L p s = Inr (b, s') \<Longrightarrow> pm s' = pm s \<and> fs s' = fs s"
  by (auto simp: process_destroy_def Let_def split: if_splits option.splits)

lemma create_keeps: "process_create_user_process L rq s = Some (Inr (c, s')) \<Longrightarrow> fs s' = fs s"
  by (auto simp: process_create_user_process_def Let_def split: if_splits option.splits sum.splits prod.splits)

lemma small_numbers:
  "\<not> 16 < (0 :: u32)" "\<not> 16 < (1 :: u32)" "\<not> 16 < (2 :: u32)" "\<not> 16 < (3 :: u32)" "\<not> 16 < (4 :: u32)"
  "\<not> 16 < (5 :: u32)" "\<not> 16 < (6 :: u32)" "\<not> 16 < (7 :: u32)" "\<not> 16 < (8 :: u32)" "\<not> 16 < (9 :: u32)"
  "\<not> 16 < (10 :: u32)" "\<not> 16 < (11 :: u32)" "\<not> 16 < (12 :: u32)" "\<not> 16 < (13 :: u32)" "\<not> 16 < (14 :: u32)"
  "\<not> 16 < (15 :: u32)" "\<not> 16 < (16 :: u32)"
  by (simp_all add: word_less_nat_alt)

lemma file_calls_keep:
  assumes "syscall M r k = Some (Inr k')" and "user_directory (mlayout M) (ksys k) = Inr d"
    and "eax r = 0 \<or> eax r = 1 \<or> eax r = 2 \<or> eax r = 3"
  shows "call_keeps (eax r) d k k'"
proof -
  let ?L = "mlayout M"
  have call: "kept d (ksys k) (ksys k') \<and> (fk \<longrightarrow> fs (ksys k') = fs (ksys k)) \<and> kbd k' = kbd k \<and> con k' = con k"
    if "file_call M r k f = Some (Inr k')"
      "\<And>rq c s'. f rq (ksys k) = Some (Inr (c, s')) \<Longrightarrow> kept d (ksys k) s' \<and> (fk \<longrightarrow> fs s' = fs (ksys k))" for f fk
    using file_call_kept [OF that(1) assms(2), of fk] that(2) by blast
  consider "eax r = 0" | "eax r = 1" | "eax r = 2" | "eax r = 3" using assms(3) by blast
  then show ?thesis
  proof cases
    case 1
    then have "file_call M r k (read_call ?L) = Some (Inr k')" using assms(1) by (simp add: syscall_def Let_def)
    from call [OF this, of True] show ?thesis
      using read_call_kept [OF _ assms(2)] by (auto simp: call_keeps_def 1 small_numbers)
  next
    case 2
    then have "file_call M r k (\<lambda>rq s. Some (read_directory_through ?L rq s)) = Some (Inr k')"
      using assms(1) by (simp add: syscall_def Let_def)
    from call [OF this, of True] show ?thesis
      using read_directory_kept [OF _ assms(2)] by (auto simp: call_keeps_def 2 small_numbers)
  next
    case 3
    then have "file_call M r k (write_through ?L (mjunk M) (mjunk_table M)) = Some (Inr k')"
      using assms(1) by (simp add: syscall_def Let_def)
    from call [OF this, of False] show ?thesis
      using write_kept [OF _ assms(2)] by (auto simp: call_keeps_def 3 small_numbers)
  next
    case 4
    then have "file_call M r k delete_call = Some (Inr k')" using assms(1) by (simp add: syscall_def Let_def)
    from call [OF this, of False] show ?thesis
      using delete_kept by (auto simp: call_keeps_def 4 small_numbers)
  qed
qed

lemma process_calls_keep:
  assumes "syscall M r k = Some (Inr k')" and "user_directory (mlayout M) (ksys k) = Inr d"
    and "eax r = 9 \<or> eax r = 14 \<or> eax r = 15 \<or> eax r = 4 \<or> eax r = 12"
  shows "call_keeps (eax r) d k k'"
proof -
  consider "eax r = 9" | "eax r = 14" | "eax r = 15" | "eax r = 4" | "eax r = 12" using assms(3) by blast
  then show ?thesis
  proof cases
    case 1
    then show ?thesis using assms(1)
      by (auto simp: syscall_def Let_def with_sys_eq bindE_eq_Inr call_keeps_def small_numbers destroy_keeps)
  next
    case 2
    then show ?thesis using assms(1)
      by (auto simp: syscall_def Let_def with_sys_eq bindE_eq_Inr write_cluster_call_def call_keeps_def small_numbers kept_fs)
  next
    case 3
    then show ?thesis using assms(1)
      by (auto simp: syscall_def Let_def with_sys_eq bindO_eq call_keeps_def small_numbers create_keeps)
  next
    case 4
    then show ?thesis using assms(1) user_store_kept [OF _ assms(2)]
      by (auto simp: syscall_def Let_def with_sys_eq call_keeps_def small_numbers split: prod.splits)
  next
    case 5
    then show ?thesis using assms(1) user_store_kept [OF _ assms(2)]
      by (auto simp: syscall_def Let_def with_sys_eq call_keeps_def small_numbers split: prod.splits option.splits)
  qed
qed

lemma display_calls_keep:
  assumes "syscall M r k = Some (Inr k')"
    and "eax r \<in> {5, 6, 7, 8, 10, 11, 13, 16}"
  shows "call_keeps (eax r) d k k'"
proof -
  consider "eax r = 5" | "eax r = 6" | "eax r = 7" | "eax r = 8" | "eax r = 10" | "eax r = 11" | "eax r = 13" | "eax r = 16"
    using assms(2) by blast
  then show ?thesis
    by cases (use assms(1) in \<open>auto simp: syscall_def Let_def bindE_eq_Inr call_keeps_def small_numbers split: if_splits\<close>)
qed

lemma unknown_call: "16 < eax r \<Longrightarrow> syscall M r k = Some (Inr k)"
proof -
  assume a: "16 < eax r"
  have "eax r \<notin> {0, 1, 2, 3, 4, 5, 6, 7, 8, 9, 10, 11, 12, 13, 14, 15, 16}"
    using a small_numbers by auto
  then show ?thesis by (simp add: syscall_def Let_def)
qed

lemma call_number_cases:
  fixes n :: u32
  shows "n \<in> {0, 1, 2, 3} \<or> n \<in> {9, 14, 15, 4, 12} \<or> n \<in> {5, 6, 7, 8, 10, 11, 13, 16} \<or> 16 < n"
proof (cases "16 < n")
  case False
  then have "unat n \<le> 16" by (simp add: word_less_nat_alt)
  moreover have "x \<in> {0, 1, 2, 3, 4, 5, 6, 7, 8, 9, 10, 11, 12, 13, 14, 15, 16}" if "x \<le> 16" for x :: nat
    unfolding insert_iff empty_iff using that by presburger
  ultimately have "unat n \<in> {0, 1, 2, 3, 4, 5, 6, 7, 8, 9, 10, 11, 12, 13, 14, 15, 16}" by blast
  moreover have "n = of_nat (unat n)" by simp
  ultimately show ?thesis by (elim insertE emptyE) auto
qed simp

lemma syscall_keeps:
  assumes "syscall M r k = Some (Inr k')" and "user_directory (mlayout M) (ksys k) = Inr d"
  shows "call_keeps (eax r) d k k'"
proof -
  consider "eax r \<in> {0, 1, 2, 3}" | "eax r \<in> {9, 14, 15, 4, 12}" | "eax r \<in> {5, 6, 7, 8, 10, 11, 13, 16}" | "16 < eax r"
    using call_number_cases [of "eax r"] by blast
  then show ?thesis
  proof cases
    case 1
    then show ?thesis using file_calls_keep [OF assms] by blast
  next
    case 2
    then show ?thesis using process_calls_keep [OF assms] by blast
  next
    case 3
    then show ?thesis using display_calls_keep [OF assms(1)] by blast
  next
    case 4
    then have "k' = k" using assms(1) unknown_call [OF 4, of M k] by simp
    then show ?thesis by (simp add: call_keeps_def)
  qed
qed


text \<open>
  The memory when one program has its space: the page tables after the calls that create a
  directory, give it frame 1 for its first page and load it. The program's bytes are the first
  4 MiB of its addresses.
\<close>

definition program_paging :: paging where
  "program_paging = paging_use_page_directory (pd_addr demo_layout 0) (allocated 0 0 1 (created 0 (paging_start demo_layout)))"

definition program_directory :: page_directory where
  "program_directory = all_dirs program_paging ! 0"

lemma program_directory_eq:
  "program_directory = blank_directory[0x300 := kernel_pde, 0 := zero_pde\<lparr>flag := user_flags, lower_address := 1\<rparr>]"
proof -
  have len: "length (page_directory_list (paging_start demo_layout)) = 32" by (simp add: paging_start_def page_constants)
  have b: "blank_directory[0x300 := kernel_pde] ! 0 = zero_pde" "length blank_directory = 1024"
    by (simp_all add: blank_directory_def page_constants)
  show ?thesis
    using len by (simp add: program_directory_def program_paging_def all_dirs_allocated all_dirs_created page_index_nat b)
qed

lemma program_directory_nth:
  "i < 1024 \<Longrightarrow> program_directory ! i =
    (if i = 0 then zero_pde\<lparr>flag := user_flags, lower_address := 1\<rparr> else if i = 0x300 then kernel_pde else zero_pde)"
  unfolding program_directory_eq by (auto simp: nth_list_update blank_directory_def PAGE_ENTRY_COUNT_def)

lemma program_directory_distinct: "frames_distinct program_directory"
  by (auto simp: frames_distinct_def program_directory_nth zero_pde_def no_flags_def kernel_pde_def)

lemma program_maps:
  assumes "unat a + n \<le> 4194304" and "0 < n"
  shows "mapped program_directory a n"
proof -
  have "page_index (a + of_nat i) = 0" if "i < n" for i
    using that assms within_page(1) [of a i] by (simp add: page_index_nat)
  then show ?thesis by (simp add: mapped_def translate_def program_directory_nth Let_def user_flags_def)
qed

lemma program_user_directory: "pg s = program_paging \<Longrightarrow> user_directory demo_layout s = Inr program_directory"
proof -
  have "length (page_directory_list program_paging) = 32"
    by (simp add: program_paging_def allocated_def created_def set_dir_def paging_start_def page_constants paging_use_page_directory_def)
  then show "pg s = program_paging \<Longrightarrow> user_directory demo_layout s = Inr program_directory"
    using pd_get_dir [OF demo_layout_ok, of 0 program_paging] pd_addr_above [OF demo_layout_ok, of 0]
    by (simp add: user_directory_def program_directory_def paging_get_current_page_directory_addr_def dir_addr_def)
       (simp add: program_paging_def paging_use_page_directory_def)
qed

text \<open>The kernel with this program, and a character waiting.\<close>

definition demo_machine :: "(u8 \<times> (u8 \<Rightarrow> u8)) machine" where
  "demo_machine = \<lparr>mlayout = demo_layout, mbus = demo_crtc, mjunk = zero_entry, mjunk_table = []\<rparr>"

definition demo_kernel :: "(u8 \<times> (u8 \<Rightarrow> u8)) kernel" where
  "demo_kernel = \<lparr>ksys = demo_sys\<lparr>pg := program_paging\<rparr>, kbd = demo_keyboard\<lparr>keyboard_buffer := 0x41\<rparr>, con = demo_console\<rparr>"

definition demo_getchar :: cpu_register where
  "demo_getchar = zero_cpu\<lparr>eax := 4, ebx := 0x1000\<rparr>"

lemma demo_directory: "user_directory demo_layout (ksys demo_kernel) = Inr program_directory"
  by (rule program_user_directory) (simp add: demo_kernel_def)

lemma demo_unreached: "\<not> reaches program_directory 0x800000"
proof -
  have "\<not> (present_bit (flag (program_directory ! n)) \<and> ucast (lower_address (program_directory ! n)) = (2 :: u32))" if "n < 1024" for n
    using that by (simp add: program_directory_nth kernel_pde_def zero_pde_def no_flags_def)
  then show ?thesis unfolding reaches_def PAGE_ENTRY_COUNT_def by (auto simp: drop_bit_eq_div)
qed

lemma demo_getchar_returns: "\<exists>k'. syscall demo_machine demo_getchar demo_kernel = Some (Inr k')"
proof -
  have "mapped program_directory 0x1000 1" by (rule program_maps) simp_all
  then obtain s' where "user_store demo_layout 0x1000 [0x41] (ksys demo_kernel) = Inr s'"
    by (simp add: user_store_def demo_directory)
  then show ?thesis
    by (simp add: syscall_def Let_def demo_getchar_def demo_machine_def demo_kernel_def zero_cpu_def get_keyboard_buffer_def
        with_sys_def)
qed


end
