(* ===== verification/Descriptors.thy ===== *)
theory Descriptors
  imports Prelude
begin

text \<open>
  \<^verbatim>\<open>src/src/gdt.c\<close>, \<^verbatim>\<open>src/src/idt.c\<close> and the task state segment of
  \<^verbatim>\<open>src/src/interrupt.c\<close>: the tables the processor reads. A bit field of \<open>n\<close> bits is an
  \<open>n word\<close>. \<open>descriptor_word\<close> and \<open>gate_word\<close> are the packed eight bytes of an entry, and
  the processor's view of an entry reads these, so that the order of the fields counts.
  The addresses of the interrupt stubs and of the task state are parameters.
\<close>

section \<open>Segment descriptors\<close>

record segment_descriptor =
  segment_low :: u16
  base_low :: u16
  base_mid :: u8
  type_bit :: "4 word"
  non_system :: "1 word"
  dpl :: "2 word"
  p_bit :: "1 word"
  seg_limit :: "4 word"
  avl :: "1 word"
  l_bit :: "1 word"
  default_op :: "1 word"
  g_bit :: "1 word"
  base_high :: u8

definition GDT_MAX_ENTRY_COUNT :: nat where "GDT_MAX_ENTRY_COUNT = 32"
definition GDT_KERNEL_CODE_SEGMENT_SELECTOR :: u16 where "GDT_KERNEL_CODE_SEGMENT_SELECTOR = 0x8"
definition GDT_KERNEL_DATA_SEGMENT_SELECTOR :: u16 where "GDT_KERNEL_DATA_SEGMENT_SELECTOR = 0x10"
definition GDT_USER_CODE_SEGMENT_SELECTOR :: u16 where "GDT_USER_CODE_SEGMENT_SELECTOR = 0x18"
definition GDT_USER_DATA_SEGMENT_SELECTOR :: u16 where "GDT_USER_DATA_SEGMENT_SELECTOR = 0x20"
definition GDT_TSS_SELECTOR :: u16 where "GDT_TSS_SELECTOR = 0x28"

lemmas selectors = GDT_KERNEL_CODE_SEGMENT_SELECTOR_def GDT_KERNEL_DATA_SEGMENT_SELECTOR_def
  GDT_USER_CODE_SEGMENT_SELECTOR_def GDT_USER_DATA_SEGMENT_SELECTOR_def GDT_TSS_SELECTOR_def

definition null_descriptor :: segment_descriptor where
  "null_descriptor = \<lparr>segment_low = 0, base_low = 0, base_mid = 0, type_bit = 0, non_system = 0, dpl = 0,
     p_bit = 0, seg_limit = 0, avl = 0, l_bit = 0, default_op = 0, g_bit = 0, base_high = 0\<rparr>"

definition flat_segment :: "4 word \<Rightarrow> 2 word \<Rightarrow> segment_descriptor" where
  "flat_segment ty lvl = \<lparr>segment_low = 0xFFFF, base_low = 0, base_mid = 0, type_bit = ty, non_system = 1,
     dpl = lvl, p_bit = 1, seg_limit = 0xF, avl = 0, l_bit = 0, default_op = 1, g_bit = 1, base_high = 0\<rparr>"

definition sizeof_TSSEntry :: u32 where "sizeof_TSSEntry = 104"

definition tss_descriptor :: segment_descriptor where
  "tss_descriptor = \<lparr>segment_low = ucast sizeof_TSSEntry, base_low = 0, base_mid = 0, type_bit = 0x9,
     non_system = 0, dpl = 0, p_bit = 1,
     seg_limit = ucast (drop_bit 16 (sizeof_TSSEntry AND push_bit 16 0xF)), avl = 0, l_bit = 0, default_op = 1,
     g_bit = 0, base_high = 0\<rparr>"

definition global_descriptor_table :: "segment_descriptor list" where
  "global_descriptor_table =
     [null_descriptor, flat_segment 0xA 0, flat_segment 0x2 0, flat_segment 0xA 3, flat_segment 0x2 3,
      tss_descriptor, null_descriptor] @ replicate (GDT_MAX_ENTRY_COUNT - 7) null_descriptor"

text \<open>\<open>base\<close> is the address of \<open>_interrupt_tss_entry\<close>.\<close>

definition gdt_install_tss :: "u32 \<Rightarrow> segment_descriptor list \<Rightarrow> segment_descriptor list" where
  "gdt_install_tss base gdt =
     gdt[5 := (gdt ! 5)\<lparr>base_high := ucast (drop_bit 24 (base AND push_bit 24 0xFF)),
                        base_mid := ucast (drop_bit 16 (base AND push_bit 16 0xFF)),
                        base_low := ucast (base AND 0xFFFF)\<rparr>]"

definition gdtr_size :: u16 where
  "gdtr_size = of_nat (8 * GDT_MAX_ENTRY_COUNT - 1)"

text \<open>The packed layout of an entry.\<close>

definition field :: "nat \<Rightarrow> 'a::len word \<Rightarrow> 64 word" where
  "field n w = push_bit n (ucast w)"

definition descriptor_word :: "segment_descriptor \<Rightarrow> 64 word" where
  "descriptor_word d =
     field 0 (segment_low d) OR field 16 (base_low d) OR field 32 (base_mid d) OR field 40 (type_bit d) OR
     field 44 (non_system d) OR field 45 (dpl d) OR field 47 (p_bit d) OR field 48 (seg_limit d) OR
     field 52 (avl d) OR field 53 (l_bit d) OR field 54 (default_op d) OR field 55 (g_bit d) OR field 56 (base_high d)"

section \<open>The task state\<close>

record tss_entry =
  prev_tss :: u32
  esp0 :: u32
  ss0 :: u32

definition interrupt_tss_entry :: tss_entry where
  "interrupt_tss_entry = \<lparr>prev_tss = 0, esp0 = 0, ss0 = ucast GDT_KERNEL_DATA_SEGMENT_SELECTOR\<rparr>"

definition set_tss_kernel_current_stack :: "u32 \<Rightarrow> tss_entry \<Rightarrow> tss_entry" where
  "set_tss_kernel_current_stack ebp t = t\<lparr>esp0 := ebp + 8\<rparr>"

section \<open>Interrupt gates\<close>

record idt_gate =
  offset_low :: u16
  segment :: u16
  reserved :: "5 word"
  r_bit_1 :: "3 word"
  r_bit_2 :: "3 word"
  gate_32 :: "1 word"
  r_bit_3 :: "1 word"
  gate_dpl :: "2 word"
  valid_bit :: "1 word"
  offset_high :: u16

definition IDT_MAX_ENTRY_COUNT :: nat where "IDT_MAX_ENTRY_COUNT = 256"
definition ISR_STUB_TABLE_LIMIT :: nat where "ISR_STUB_TABLE_LIMIT = 64"
definition INTERRUPT_GATE_R_BIT_1 :: "3 word" where "INTERRUPT_GATE_R_BIT_1 = 0b000"
definition INTERRUPT_GATE_R_BIT_2 :: "3 word" where "INTERRUPT_GATE_R_BIT_2 = 0b110"
definition INTERRUPT_GATE_R_BIT_3 :: "1 word" where "INTERRUPT_GATE_R_BIT_3 = 0"

definition zero_gate :: idt_gate where
  "zero_gate = \<lparr>offset_low = 0, segment = 0, reserved = 0, r_bit_1 = 0, r_bit_2 = 0, gate_32 = 0, r_bit_3 = 0,
     gate_dpl = 0, valid_bit = 0, offset_high = 0\<rparr>"

definition interrupt_descriptor_table :: "idt_gate list" where
  "interrupt_descriptor_table = replicate IDT_MAX_ENTRY_COUNT zero_gate"

definition set_interrupt_gate :: "u8 \<Rightarrow> u32 \<Rightarrow> u16 \<Rightarrow> u8 \<Rightarrow> idt_gate list \<Rightarrow> idt_gate list" where
  "set_interrupt_gate int_vector handler_address gdt_seg_selector privilege idt =
     idt[unat int_vector := (idt ! unat int_vector)
       \<lparr>offset_low := ucast (handler_address AND 0xFFFF), offset_high := ucast (drop_bit 16 handler_address),
        gate_dpl := ucast privilege, segment := gdt_seg_selector, r_bit_1 := INTERRUPT_GATE_R_BIT_1,
        r_bit_2 := INTERRUPT_GATE_R_BIT_2, r_bit_3 := INTERRUPT_GATE_R_BIT_3, gate_32 := 1, valid_bit := 1\<rparr>]"

definition set_gate_step :: "u32 list \<Rightarrow> nat \<Rightarrow> idt_gate list \<Rightarrow> idt_gate list" where
  "set_gate_step isr_stub_table i idt =
     set_interrupt_gate (of_nat i) (isr_stub_table ! i) GDT_KERNEL_CODE_SEGMENT_SELECTOR
       (if i \<ge> 0x30 \<and> i \<le> 0x3F then 3 else 0) idt"

definition initialize_idt :: "u32 list \<Rightarrow> idt_gate list \<Rightarrow> idt_gate list" where
  "initialize_idt isr_stub_table idt = fold (set_gate_step isr_stub_table) [0..<ISR_STUB_TABLE_LIMIT] idt"

definition idtr_size :: u16 where
  "idtr_size = of_nat (8 * IDT_MAX_ENTRY_COUNT - 1)"

definition gate_word :: "idt_gate \<Rightarrow> 64 word" where
  "gate_word d =
     field 0 (offset_low d) OR field 16 (segment d) OR field 32 (reserved d) OR field 37 (r_bit_1 d) OR
     field 40 (r_bit_2 d) OR field 43 (gate_32 d) OR field 44 (r_bit_3 d) OR field 45 (gate_dpl d) OR
     field 47 (valid_bit d) OR field 48 (offset_high d)"

section \<open>What the processor reads\<close>

text \<open>The fields of the eight bytes, as the processor's manual numbers their bits.\<close>

definition bits_at :: "nat \<Rightarrow> nat \<Rightarrow> 64 word \<Rightarrow> nat" where
  "bits_at n k w = unat (take_bit k (drop_bit n w))"

definition seg_base :: "64 word \<Rightarrow> nat" where
  "seg_base w = bits_at 16 24 w + 2 ^ 24 * bits_at 56 8 w"

definition seg_bytes :: "64 word \<Rightarrow> nat" where
  "seg_bytes w =
     (let limit = bits_at 0 16 w + 2 ^ 16 * bits_at 48 4 w in
      if bits_at 55 1 w = 1 then (limit + 1) * 4096 else limit + 1)"

definition seg_level :: "64 word \<Rightarrow> nat" where "seg_level w = bits_at 45 2 w"
definition seg_present :: "64 word \<Rightarrow> bool" where "seg_present w = (bits_at 47 1 w = 1)"
definition seg_code :: "64 word \<Rightarrow> bool" where "seg_code w = (bits_at 44 1 w = 1 \<and> bits_at 43 1 w = 1)"
definition seg_data :: "64 word \<Rightarrow> bool" where "seg_data w = (bits_at 44 1 w = 1 \<and> bits_at 43 1 w = 0)"
definition seg_tss :: "64 word \<Rightarrow> bool" where "seg_tss w = (bits_at 40 5 w = 9)"

definition selected :: "segment_descriptor list \<Rightarrow> u16 \<Rightarrow> 64 word" where
  "selected gdt sel = descriptor_word (gdt ! (unat sel div 8))"

definition gate_handler :: "64 word \<Rightarrow> nat" where
  "gate_handler w = bits_at 0 16 w + 2 ^ 16 * bits_at 48 16 w"

definition gate_kernel :: "64 word \<Rightarrow> bool" where
  "gate_kernel w = (bits_at 16 16 w = unat GDT_KERNEL_CODE_SEGMENT_SELECTOR)"

text \<open>An interrupt gate of 32 bits, present; and what software of a privilege level may raise.\<close>

definition gate_present :: "64 word \<Rightarrow> bool" where "gate_present w = (bits_at 40 5 w = 0xE \<and> bits_at 47 1 w = 1)"

definition may_raise :: "nat \<Rightarrow> 64 word \<Rightarrow> bool" where
  "may_raise cpl w = (gate_present w \<and> cpl \<le> bits_at 45 2 w)"

section \<open>Reading a packed field\<close>

lemma bit_field: "bit (field n (w :: 'a::len word)) i \<longleftrightarrow> i < 64 \<and> n \<le> i \<and> bit w (i - n)"
  by (auto simp: field_def bit_simps dest: bit_imp_le_length)

lemma bit_high: "LENGTH('a) \<le> i \<Longrightarrow> \<not> bit (w :: 'a::len word) i"
  by (meson bit_imp_le_length not_le)

lemma bits_at_field:
  assumes "k = LENGTH('a)" "n + k \<le> 64" and "\<And>i. i < k \<Longrightarrow> bit w (n + i) \<longleftrightarrow> bit (v :: 'a::len word) i"
  shows "bits_at n k w = unat v"
proof -
  have "bit (unat (take_bit k (drop_bit n w))) i = bit (unat v) i" for i
  proof (cases "i < LENGTH('a)")
    case True
    then show ?thesis using assms by (simp add: bit_unsigned_iff bit_simps)
  next
    case False
    then show ?thesis using assms(1) bit_high [of i v] by (simp add: bit_unsigned_iff bit_simps)
  qed
  then show ?thesis unfolding bits_at_def by (rule bit_eqI)
qed

lemma bits_at_split: "n + a + b \<le> 64 \<Longrightarrow> bits_at n (a + b) w = bits_at n a w + 2 ^ a * bits_at (n + a) b w"
proof -
  have "unat w < 18446744073709551616" using unsigned_less [of w] by simp
  then have v: "bits_at m k w = unat w div 2 ^ m mod 2 ^ k" for m k
    unfolding bits_at_def unsigned_take_bit_eq unsigned_drop_bit_eq by (simp add: take_bit_eq_mod drop_bit_eq_div)
  have "unat w div 2 ^ n mod 2 ^ (a + b) = 2 ^ a * (unat w div 2 ^ n div 2 ^ a mod 2 ^ b) + unat w div 2 ^ n mod 2 ^ a"
    unfolding power_add by (rule mod_mult2_eq)
  then show ?thesis unfolding v by (simp add: div_mult2_eq power_add)
qed

lemmas unpack = descriptor_word_def gate_word_def bit_or_iff bit_field bit_high

lemma descriptor_fields:
  "bits_at 0 16 (descriptor_word d) = unat (segment_low d)"
  "bits_at 16 16 (descriptor_word d) = unat (base_low d)"
  "bits_at 32 8 (descriptor_word d) = unat (base_mid d)"
  "bits_at 40 4 (descriptor_word d) = unat (type_bit d)"
  "bits_at 44 1 (descriptor_word d) = unat (non_system d)"
  "bits_at 45 2 (descriptor_word d) = unat (dpl d)"
  "bits_at 47 1 (descriptor_word d) = unat (p_bit d)"
  "bits_at 48 4 (descriptor_word d) = unat (seg_limit d)"
  "bits_at 55 1 (descriptor_word d) = unat (g_bit d)"
  "bits_at 56 8 (descriptor_word d) = unat (base_high d)"
  by (rule bits_at_field, simp, simp, simp add: unpack)+

lemma gate_fields:
  "bits_at 0 16 (gate_word d) = unat (offset_low d)"
  "bits_at 16 16 (gate_word d) = unat (segment d)"
  "bits_at 40 3 (gate_word d) = unat (r_bit_2 d)"
  "bits_at 43 1 (gate_word d) = unat (gate_32 d)"
  "bits_at 44 1 (gate_word d) = unat (r_bit_3 d)"
  "bits_at 45 2 (gate_word d) = unat (gate_dpl d)"
  "bits_at 47 1 (gate_word d) = unat (valid_bit d)"
  "bits_at 48 16 (gate_word d) = unat (offset_high d)"
  by (rule bits_at_field, simp, simp, simp add: unpack)+

lemma seg_base_descriptor:
  "seg_base (descriptor_word d) = unat (base_low d) + 2 ^ 16 * unat (base_mid d) + 2 ^ 24 * unat (base_high d)"
  using bits_at_split [of 16 16 8 "descriptor_word d"] by (simp add: seg_base_def descriptor_fields)

lemma descriptor_type:
  "bits_at 40 5 (descriptor_word d) = unat (type_bit d) + 16 * unat (non_system d)"
  using bits_at_split [of 40 4 1 "descriptor_word d"] by (simp add: descriptor_fields descriptor_fields [unfolded One_nat_def])

lemma descriptor_executable:
  "bits_at 43 1 (descriptor_word d) = unat (type_bit d) div 8"
proof -
  have lt: "bits_at 40 3 (descriptor_word d) < 8"
    using take_bit_nat_less_exp [of 3] by (simp add: bits_at_def unsigned_take_bit_eq) 
  show ?thesis using bits_at_split [of 40 3 1 "descriptor_word d"] lt by (simp add: descriptor_fields)
qed

text \<open>The three stores of \<open>gdt_install_tss\<close> hold the whole address.\<close>

lemma split_address:
  fixes b :: u32
  shows "unat (ucast (b AND 0xFFFF) :: u16) + 2 ^ 16 * unat (ucast (drop_bit 16 (b AND push_bit 16 0xFF)) :: u8) +
    2 ^ 24 * unat (ucast (drop_bit 24 (b AND push_bit 24 0xFF)) :: u8) = unat b"
proof -
  have m: "(0xFFFF :: u32) = mask 16" "(0xFF :: u32) = mask 8" by (simp_all add: mask_eq_exp_minus_1)
  have d: "drop_bit n (b AND push_bit n (mask 8)) = drop_bit n b AND mask 8" if "n < 32" for n
    by (rule bit_eqI) (auto simp: bit_simps dest: bit_imp_le_length)
  have u: "unat (ucast (drop_bit n b AND mask 8) :: u8) = unat b div 2 ^ n mod 256" if "n < 32" for n
    unfolding take_bit_eq_mask [symmetric] unsigned_ucast_eq unsigned_take_bit_eq unsigned_drop_bit_eq
    using u32_lt_size [of b] by (simp add: take_bit_eq_mod drop_bit_eq_div)
  have lo: "unat (ucast (b AND mask 16) :: u16) = unat b mod 65536"
    unfolding take_bit_eq_mask [symmetric] unsigned_ucast_eq unsigned_take_bit_eq by (simp add: take_bit_eq_mod)
  have hi: "unat b div 16777216 mod 256 = unat b div 16777216"
    using u32_lt_size [of b] by (intro mod_less less_mult_imp_div_less) simp
  have "unat b = unat b mod 65536 + 65536 * (unat b div 65536)" by simp
  also have "unat b div 65536 = unat b div 65536 mod 256 + 256 * (unat b div 65536 div 256)" by simp
  also have "unat b div 65536 div 256 = unat b div 16777216" by (simp add: div_mult2_eq [symmetric])
  finally show ?thesis unfolding m using d [of 16] d [of 24] u [of 16] u [of 24] lo hi by (simp add: algebra_simps)
qed

lemma split_handler:
  fixes a :: u32
  shows "unat (ucast (a AND 0xFFFF) :: u16) + 2 ^ 16 * unat (ucast (drop_bit 16 a) :: u16) = unat a"
proof -
  have m: "(0xFFFF :: u32) = mask 16" by (simp add: mask_eq_exp_minus_1)
  have lo: "unat (ucast (a AND 0xFFFF) :: u16) = unat a mod 65536"
    unfolding m take_bit_eq_mask [symmetric] unsigned_ucast_eq unsigned_take_bit_eq by (simp add: take_bit_eq_mod)
  have hi: "unat (ucast (drop_bit 16 a) :: u16) = unat a div 65536"
    unfolding unsigned_ucast_eq unsigned_drop_bit_eq using u32_lt_size [of a] less_mult_imp_div_less [of "unat a" 65536 65536]
    by (simp add: take_bit_eq_mod drop_bit_eq_div)
  show ?thesis unfolding lo hi by simp
qed

section \<open>Properties\<close>

text \<open>
  The segments. In the table the kernel loads, the four kernel and user selectors name
  present segments from address 0 over all 4 GiB, code or data as named, of the kernel's level
  0 or the user's level 3; after \<open>gdt_install_tss\<close> the task selector names a present,
  available task state of level 0 at exactly the address of the task state, whatever that
  address is, and the four segments are as before.
\<close>

theorem gdt_segments:
  "let gdt = gdt_install_tss base global_descriptor_table in
    (\<forall>(sel, level) \<in> {(GDT_KERNEL_CODE_SEGMENT_SELECTOR, 0), (GDT_KERNEL_DATA_SEGMENT_SELECTOR, 0),
                      (GDT_USER_CODE_SEGMENT_SELECTOR, 3), (GDT_USER_DATA_SEGMENT_SELECTOR, 3)}.
       seg_base (selected gdt sel) = 0 \<and> seg_bytes (selected gdt sel) = 2 ^ 32 \<and>
       seg_present (selected gdt sel) \<and> seg_level (selected gdt sel) = level) \<and>
    seg_code (selected gdt GDT_KERNEL_CODE_SEGMENT_SELECTOR) \<and>
    seg_code (selected gdt GDT_USER_CODE_SEGMENT_SELECTOR) \<and>
    seg_data (selected gdt GDT_KERNEL_DATA_SEGMENT_SELECTOR) \<and>
    seg_data (selected gdt GDT_USER_DATA_SEGMENT_SELECTOR) \<and>
    seg_tss (selected gdt GDT_TSS_SELECTOR) \<and> seg_present (selected gdt GDT_TSS_SELECTOR) \<and>
    seg_level (selected gdt GDT_TSS_SELECTOR) = 0 \<and> seg_base (selected gdt GDT_TSS_SELECTOR) = unat base \<and>
    104 \<le> seg_bytes (selected gdt GDT_TSS_SELECTOR)"
proof -
  let ?gdt = "gdt_install_tss base global_descriptor_table"
  have at: "?gdt ! 1 = flat_segment 0xA 0" "?gdt ! 2 = flat_segment 0x2 0" "?gdt ! 3 = flat_segment 0xA 3"
    "?gdt ! 4 = flat_segment 0x2 3"
    by (simp_all add: gdt_install_tss_def global_descriptor_table_def)
  have sel: "selected ?gdt GDT_KERNEL_CODE_SEGMENT_SELECTOR = descriptor_word (flat_segment 0xA 0)"
    "selected ?gdt GDT_KERNEL_DATA_SEGMENT_SELECTOR = descriptor_word (flat_segment 0x2 0)"
    "selected ?gdt GDT_USER_CODE_SEGMENT_SELECTOR = descriptor_word (flat_segment 0xA 3)"
    "selected ?gdt GDT_USER_DATA_SEGMENT_SELECTOR = descriptor_word (flat_segment 0x2 3)"
    using at by (simp_all add: selected_def selectors)
  define t where "t = ?gdt ! 5"
  have t: "selected ?gdt GDT_TSS_SELECTOR = descriptor_word t"
    by (simp add: selected_def selectors t_def)
  have t_fields: "type_bit t = 9" "non_system t = 0" "dpl t = 0" "p_bit t = 1" "segment_low t = 104" "g_bit t = 0"
    "seg_limit t = 0"
    "base_low t = ucast (base AND 0xFFFF)" "base_mid t = ucast (drop_bit 16 (base AND push_bit 16 0xFF))"
    "base_high t = ucast (drop_bit 24 (base AND push_bit 24 0xFF))"
    by (simp_all add: t_def gdt_install_tss_def global_descriptor_table_def tss_descriptor_def sizeof_TSSEntry_def)
  have flat: "seg_base (descriptor_word (flat_segment ty lvl)) = 0"
    "seg_bytes (descriptor_word (flat_segment ty lvl)) = 2 ^ 32"
    "seg_present (descriptor_word (flat_segment ty lvl))" "seg_level (descriptor_word (flat_segment ty lvl)) = unat lvl"
    "seg_code (descriptor_word (flat_segment ty lvl)) = (unat ty div 8 = 1)"
    "seg_data (descriptor_word (flat_segment ty lvl)) = (unat ty div 8 = 0)" for ty lvl
    unfolding seg_base_descriptor seg_bytes_def seg_present_def seg_level_def seg_code_def seg_data_def
      descriptor_fields descriptor_executable Let_def
    by (simp_all add: flat_segment_def)
  have tss: "seg_tss (descriptor_word t)" "seg_present (descriptor_word t)" "seg_level (descriptor_word t) = 0"
    "seg_base (descriptor_word t) = unat base" "104 \<le> seg_bytes (descriptor_word t)"
    unfolding seg_tss_def seg_present_def seg_level_def seg_base_descriptor seg_bytes_def descriptor_fields
      descriptor_type t_fields split_address Let_def by simp_all
  show ?thesis unfolding Let_def sel t using flat tss by (simp add: sel)
qed

theorem gdt_segments_witness:
  "seg_base (selected (gdt_install_tss 0xC0123456 global_descriptor_table) GDT_TSS_SELECTOR) = 0xC0123456 \<and>
   seg_level (selected (gdt_install_tss 0xC0123456 global_descriptor_table) GDT_USER_CODE_SEGMENT_SELECTOR) = 3"
  using gdt_segments [of "0xC0123456"] by (simp add: Let_def)

lemma length_interrupt_table [simp]: "length interrupt_descriptor_table = 256"
  by (simp add: interrupt_descriptor_table_def IDT_MAX_ENTRY_COUNT_def)

lemma set_gate_at:
  assumes "length idt = 256" "i < 64"
  shows "set_gate_step stubs i idt = idt[i := (idt ! i)
       \<lparr>offset_low := ucast (stubs ! i AND 0xFFFF), offset_high := ucast (drop_bit 16 (stubs ! i)),
        gate_dpl := ucast (if i \<ge> 0x30 \<and> i \<le> 0x3F then 3 else 0 :: u8), segment := GDT_KERNEL_CODE_SEGMENT_SELECTOR,
        r_bit_1 := INTERRUPT_GATE_R_BIT_1, r_bit_2 := INTERRUPT_GATE_R_BIT_2, r_bit_3 := INTERRUPT_GATE_R_BIT_3,
        gate_32 := 1, valid_bit := 1\<rparr>]"
proof -
  have "unat (of_nat i :: u8) = i" using assms(2) by (simp add: unat_of_nat take_bit_nat_eq_self)
  then show ?thesis by (simp add: set_gate_step_def set_interrupt_gate_def)
qed

lemma set_gates:
  assumes "n \<le> 64" "length idt = 256"
  shows "length (fold (set_gate_step stubs) [0..<n] idt) = 256 \<and>
    (\<forall>i<256. fold (set_gate_step stubs) [0..<n] idt ! i = (if i < n then set_gate_step stubs i idt ! i else idt ! i))"
  using assms
proof (induction n)
  case (Suc n)
  let ?idt = "fold (set_gate_step stubs) [0..<n] idt"
  have ih: "length ?idt = 256" "\<forall>i<256. ?idt ! i = (if i < n then set_gate_step stubs i idt ! i else idt ! i)"
    using Suc by simp_all
  have n: "n < 64" using Suc.prems by simp
  have "set_gate_step stubs n ?idt ! i = (if i < Suc n then set_gate_step stubs i idt ! i else idt ! i)" if "i < 256" for i
    using ih n that Suc.prems(2) by (simp add: set_gate_at nth_list_update)
  then show ?case using ih n by (simp add: set_gate_at)
qed simp

text \<open>
  C38. The interrupt gates. After \<open>initialize_idt\<close> the 64 vectors of the stub table are
  present 32-bit interrupt gates into the kernel's code segment, each to its own stub; user
  code may raise exactly the vectors 0x30 to 0x3F of them and the kernel all; the other
  vectors of the table are not present.
\<close>

theorem idt_gates:
  fixes stubs :: "u32 list"
  assumes "length stubs = ISR_STUB_TABLE_LIMIT"
  shows "let idt = initialize_idt stubs interrupt_descriptor_table; gate = (\<lambda>v. gate_word (idt ! v)) in
    length idt = IDT_MAX_ENTRY_COUNT \<and>
    (\<forall>v<ISR_STUB_TABLE_LIMIT. gate_present (gate v) \<and> gate_kernel (gate v) \<and>
       gate_handler (gate v) = unat (stubs ! v) \<and> may_raise 0 (gate v) \<and>
       may_raise 3 (gate v) = (0x30 \<le> v \<and> v \<le> 0x3F)) \<and>
    (\<forall>v. ISR_STUB_TABLE_LIMIT \<le> v \<and> v < IDT_MAX_ENTRY_COUNT \<longrightarrow>
       \<not> gate_present (gate v) \<and> \<not> may_raise 0 (gate v))"
proof -
  define idt where "idt = initialize_idt stubs interrupt_descriptor_table"
  have idt: "length idt = 256"
    "\<And>i. i < 256 \<Longrightarrow> idt ! i = (if i < 64 then set_gate_step stubs i interrupt_descriptor_table ! i
        else interrupt_descriptor_table ! i)"
    using set_gates [of 64 interrupt_descriptor_table stubs]
    unfolding idt_def initialize_idt_def ISR_STUB_TABLE_LIMIT_def by (simp_all del: upt_conv_Cons)
  have type5: "bits_at 40 5 (gate_word d) = unat (r_bit_2 d) + 8 * (unat (gate_32 d) + 2 * unat (r_bit_3 d))" for d
    using bits_at_split [of 40 3 2 "gate_word d"] bits_at_split [of 43 1 1 "gate_word d", unfolded one_add_one]
    by (simp add: gate_fields gate_fields [unfolded One_nat_def])
  have on: "gate_present (gate_word (idt ! v)) \<and> gate_kernel (gate_word (idt ! v)) \<and>
      gate_handler (gate_word (idt ! v)) = unat (stubs ! v) \<and> may_raise 0 (gate_word (idt ! v)) \<and>
      may_raise 3 (gate_word (idt ! v)) = (0x30 \<le> v \<and> v \<le> 0x3F)" if "v < 64" for v
  proof -
    define d where "d = idt ! v"
    have d: "offset_low d = ucast (stubs ! v AND 0xFFFF)" "offset_high d = ucast (drop_bit 16 (stubs ! v))"
      "gate_dpl d = ucast (if v \<ge> 0x30 \<and> v \<le> 0x3F then 3 else 0 :: u8)" "segment d = GDT_KERNEL_CODE_SEGMENT_SELECTOR"
      "r_bit_2 d = 6" "r_bit_3 d = 0" "gate_32 d = 1" "valid_bit d = 1"
      using idt(2) [of v] that
      by (simp_all add: d_def set_gate_at INTERRUPT_GATE_R_BIT_2_def INTERRUPT_GATE_R_BIT_3_def)
    have "may_raise 3 (gate_word d) = (0x30 \<le> v \<and> v \<le> 0x3F)"
      unfolding may_raise_def gate_present_def type5 gate_fields d by simp
    moreover have "gate_handler (gate_word d) = unat (stubs ! v)"
      unfolding gate_handler_def gate_fields d split_handler ..
    ultimately show ?thesis unfolding d_def [symmetric] gate_present_def gate_kernel_def may_raise_def type5 gate_fields
      using d by simp
  qed
  have off: "\<not> gate_present (gate_word (idt ! v))" if "64 \<le> v" "v < 256" for v
    using idt(2) [of v] that unfolding gate_present_def type5 gate_fields
    by (simp add: interrupt_descriptor_table_def IDT_MAX_ENTRY_COUNT_def zero_gate_def)
  then have "\<not> may_raise 0 (gate_word (idt ! v))" if "64 \<le> v" "v < 256" for v using that by (simp add: may_raise_def)
  then show ?thesis unfolding Let_def idt_def [symmetric] ISR_STUB_TABLE_LIMIT_def IDT_MAX_ENTRY_COUNT_def
    using idt(1) on off by blast
qed

theorem idt_gates_witness:
  "let gate = gate_word (initialize_idt (replicate 64 0xC0101234) interrupt_descriptor_table ! 0x30) in
    gate_handler gate = 0xC0101234 \<and> may_raise 3 gate"
  using idt_gates [of "replicate 64 0xC0101234"] by (simp add: Let_def ISR_STUB_TABLE_LIMIT_def)

end
