(* ===== verification/Disk.thy ===== *)
theory Disk
  imports Ports FatTypes
begin

text \<open>
  \<^verbatim>\<open>src/src/disk.c\<close> and the 16-bit ports of \<^verbatim>\<open>src/src/portio.c\<close>: the ATA driver of the
  kernel, which moves sectors through the drive's ports by polling. The drive is a parameter;
  \<open>ata_ok\<close> states the documented behaviour of a drive in 28-bit PIO mode, with any finite
  delay before it is ready. The result is a refinement: on such a drive the driver computes
  what the block device of \<open>Storage\<close> does, which the file system is verified over.
\<close>

section \<open>The driver\<close>

record 'd ata_bus =
  byte_ports :: "'d bus"
  word_out :: "u16 \<Rightarrow> u16 \<Rightarrow> 'd \<Rightarrow> 'd"
  word_in :: "u16 \<Rightarrow> 'd \<Rightarrow> u16 \<times> 'd"

definition out16 :: "'d ata_bus \<Rightarrow> u16 \<Rightarrow> u16 \<Rightarrow> 'd \<Rightarrow> 'd" where
  "out16 B port data d = word_out B port data d"

definition in16 :: "'d ata_bus \<Rightarrow> u16 \<Rightarrow> 'd \<Rightarrow> u16 \<times> 'd" where
  "in16 B port d = word_in B port d"

definition ATA_STATUS_BSY :: u8 where "ATA_STATUS_BSY = 0x80"
definition ATA_STATUS_RDY :: u8 where "ATA_STATUS_RDY = 0x40"
definition HALF_BLOCK_SIZE :: nat where "HALF_BLOCK_SIZE = BLOCK_SIZE div 2"

partial_function (option) ATA_busy_wait :: "'d ata_bus \<Rightarrow> 'd \<Rightarrow> 'd option" where
  "ATA_busy_wait B d = (case in_port (byte_ports B) 0x1F7 d of
     (v, d1) \<Rightarrow> if v AND ATA_STATUS_BSY \<noteq> 0 then ATA_busy_wait B d1 else Some d1)"

partial_function (option) ATA_DRQ_wait :: "'d ata_bus \<Rightarrow> 'd \<Rightarrow> 'd option" where
  "ATA_DRQ_wait B d = (case in_port (byte_ports B) 0x1F7 d of
     (v, d1) \<Rightarrow> if v AND ATA_STATUS_RDY = 0 then ATA_DRQ_wait B d1 else Some d1)"

text \<open>The register writes that both transfers start with.\<close>

definition ata_command :: "'d ata_bus \<Rightarrow> u32 \<Rightarrow> u8 \<Rightarrow> u8 \<Rightarrow> 'd \<Rightarrow> 'd" where
  "ata_command B logical_block_address block_count cmd d =
     (let P = byte_ports B;
          d1 = out P 0x1F6 (0xE0 OR (ucast (drop_bit 24 logical_block_address) AND 0xF)) d;
          d2 = out P 0x1F2 block_count d1;
          d3 = out P 0x1F3 (ucast logical_block_address) d2;
          d4 = out P 0x1F4 (ucast (drop_bit 8 logical_block_address)) d3;
          d5 = out P 0x1F5 (ucast (drop_bit 16 logical_block_address)) d4
      in out P 0x1F7 cmd d5)"

fun in_words :: "'d ata_bus \<Rightarrow> nat \<Rightarrow> 'd \<Rightarrow> u16 list \<times> 'd" where
  "in_words B 0 d = ([], d)"
| "in_words B (Suc n) d = (let (w, d1) = in16 B 0x1F0 d; (ws, d2) = in_words B n d1 in (w # ws, d2))"

fun out_words :: "'d ata_bus \<Rightarrow> u16 list \<Rightarrow> 'd \<Rightarrow> 'd" where
  "out_words B [] d = d"
| "out_words B (w # ws) d = out_words B ws (out16 B 0x1F0 w d)"

fun read_sectors :: "'d ata_bus \<Rightarrow> nat \<Rightarrow> 'd \<Rightarrow> (u16 list \<times> 'd) option" where
  "read_sectors B 0 d = Some ([], d)"
| "read_sectors B (Suc n) d =
     (case ATA_busy_wait B d of None \<Rightarrow> None | Some d1 \<Rightarrow>
      case ATA_DRQ_wait B d1 of None \<Rightarrow> None | Some d2 \<Rightarrow>
      let (ws, d3) = in_words B HALF_BLOCK_SIZE d2 in
      case read_sectors B n d3 of None \<Rightarrow> None | Some (vs, d4) \<Rightarrow> Some (ws @ vs, d4))"

text \<open>A byte buffer as the array of 16-bit words the code casts it to.\<close>

fun words_of_bytes :: "u8 list \<Rightarrow> u16 list" where
  "words_of_bytes (x # y # bs) = of_le16 [x, y] # words_of_bytes bs"
| "words_of_bytes bs = []"

definition bytes_of_words :: "u16 list \<Rightarrow> u8 list" where
  "bytes_of_words ws = concat (map le16 ws)"

text \<open>The bytes that \<open>read_blocks\<close> of the kernel stores at its pointer.\<close>

definition ata_read_blocks :: "'d ata_bus \<Rightarrow> u32 \<Rightarrow> u8 \<Rightarrow> 'd \<Rightarrow> (u8 list \<times> 'd) option" where
  "ata_read_blocks B lba block_count d =
     (case ATA_busy_wait B d of None \<Rightarrow> None | Some d1 \<Rightarrow>
      case read_sectors B (unat block_count) (ata_command B lba block_count 0x20 d1) of
        None \<Rightarrow> None | Some (ws, d2) \<Rightarrow> Some (bytes_of_words ws, d2))"

fun write_sectors :: "'d ata_bus \<Rightarrow> u16 list \<Rightarrow> nat list \<Rightarrow> 'd \<Rightarrow> ('d res) option" where
  "write_sectors B ws [] d = Some (Inr d)"
| "write_sectors B ws (i # ks) d =
     (case ATA_busy_wait B d of None \<Rightarrow> None | Some d1 \<Rightarrow>
      case ATA_DRQ_wait B d1 of None \<Rightarrow> None | Some d2 \<Rightarrow>
      if HALF_BLOCK_SIZE * i + HALF_BLOCK_SIZE > length ws then Some (Inl Out_Of_Bounds)
      else write_sectors B ws ks (out_words B (take HALF_BLOCK_SIZE (drop (HALF_BLOCK_SIZE * i) ws)) d2))"

definition ata_write_blocks :: "'d ata_bus \<Rightarrow> u8 list \<Rightarrow> u32 \<Rightarrow> u8 \<Rightarrow> 'd \<Rightarrow> ('d res) option" where
  "ata_write_blocks B bs lba block_count d =
     (case ATA_busy_wait B d of None \<Rightarrow> None | Some d1 \<Rightarrow>
      write_sectors B (words_of_bytes bs) [0..<unat block_count] (ata_command B lba block_count 0x30 d1))"

section \<open>The drive\<close>

text \<open>What a transfer has left to do: words to hand out, or the sector being collected, the
  number of sectors left and the words of it so far.\<close>

datatype transfer = Idle | Reading "u16 list" | Writing nat nat "u16 list"

record ata =
  head_reg :: u8
  count_reg :: u8
  low_reg :: u8
  mid_reg :: u8
  high_reg :: u8
  todo :: transfer
  medium :: image
  busy :: nat

definition settle :: "ata \<Rightarrow> ata" where
  "settle a = a\<lparr>busy := 0\<rparr>"

definition set_reg :: "u16 \<Rightarrow> u8 \<Rightarrow> ata \<Rightarrow> ata" where
  "set_reg port v a =
     (if port = 0x1F2 then a\<lparr>count_reg := v\<rparr> else if port = 0x1F3 then a\<lparr>low_reg := v\<rparr>
      else if port = 0x1F4 then a\<lparr>mid_reg := v\<rparr> else if port = 0x1F5 then a\<lparr>high_reg := v\<rparr>
      else if port = 0x1F6 then a\<lparr>head_reg := v\<rparr> else a)"

definition sector_of :: "ata \<Rightarrow> nat" where
  "sector_of a = unat (low_reg a) + 2 ^ 8 * unat (mid_reg a) + 2 ^ 16 * unat (high_reg a) +
     2 ^ 24 * unat (head_reg a AND 0xF)"

definition sectors_asked :: "ata \<Rightarrow> nat" where
  "sectors_asked a = (if count_reg a = 0 then 256 else unat (count_reg a))"

definition start :: "u8 \<Rightarrow> ata \<Rightarrow> ata" where
  "start cmd a =
     (if cmd = 0x20
      then a\<lparr>todo := Reading (words_of_bytes (img_load (medium a) (512 * sector_of a) (512 * sectors_asked a)))\<rparr>
      else if cmd = 0x30 then a\<lparr>todo := Writing (sector_of a) (sectors_asked a) []\<rparr> else a)"

definition take_word :: "u16 list \<Rightarrow> ata \<Rightarrow> ata" where
  "take_word ws a = a\<lparr>todo := (if ws = [] then Idle else Reading ws)\<rparr>"

definition give_word :: "nat \<Rightarrow> nat \<Rightarrow> u16 list \<Rightarrow> ata \<Rightarrow> ata" where
  "give_word n k vs a =
     (if length vs < 256 then a\<lparr>todo := Writing n k vs\<rparr>
      else a\<lparr>medium := img_store (medium a) (512 * n) (bytes_of_words vs),
             todo := (if k = 1 then Idle else Writing (n + 1) (k - 1) [])\<rparr>)"

text \<open>
  A drive, seen through \<open>vw\<close>. While it is not busy it takes register writes; a command, and
  the last word of a sector, may make it busy for any number of polls; while it is busy the
  status has BSY set, and when it is not it has BSY clear and RDY set.
\<close>

definition ata_ok :: "'d ata_bus \<Rightarrow> ('d \<Rightarrow> ata) \<Rightarrow> bool" where
  "ata_ok B vw \<longleftrightarrow>
     (\<forall>d. (fst (bus_in (byte_ports B) 0x1F7 d) AND 0x80 \<noteq> 0) = (busy (vw d) > 0) \<and>
          (busy (vw d) = 0 \<longrightarrow> fst (bus_in (byte_ports B) 0x1F7 d) AND 0x40 \<noteq> 0) \<and>
          vw (snd (bus_in (byte_ports B) 0x1F7 d)) = (vw d)\<lparr>busy := busy (vw d) - 1\<rparr>) \<and>
     (\<forall>d port v. busy (vw d) = 0 \<and> port \<in> {0x1F2, 0x1F3, 0x1F4, 0x1F5, 0x1F6} \<longrightarrow>
          vw (bus_out (byte_ports B) port v d) = set_reg port v (vw d)) \<and>
     (\<forall>d v. busy (vw d) = 0 \<and> todo (vw d) = Idle \<and> v \<in> {0x20, 0x30} \<longrightarrow>
          settle (vw (bus_out (byte_ports B) 0x1F7 v d)) = start v (vw d)) \<and>
     (\<forall>d w ws. busy (vw d) = 0 \<and> todo (vw d) = Reading (w # ws) \<longrightarrow>
          fst (word_in B 0x1F0 d) = w \<and> settle (vw (snd (word_in B 0x1F0 d))) = take_word ws (vw d) \<and>
          (length ws mod 256 \<noteq> 0 \<longrightarrow> busy (vw (snd (word_in B 0x1F0 d))) = 0)) \<and>
     (\<forall>d v n k vs. busy (vw d) = 0 \<and> todo (vw d) = Writing n k vs \<longrightarrow>
          settle (vw (word_out B 0x1F0 v d)) = give_word n k (vs @ [v]) (vw d) \<and>
          (length vs < 255 \<longrightarrow> busy (vw (word_out B 0x1F0 v d)) = 0))"

section \<open>Waiting\<close>

lemma settle_simps [simp]:
  "todo (settle a) = todo a" "medium (settle a) = medium a" "busy (settle a) = 0" "settle (settle a) = settle a"
  "busy a = 0 \<Longrightarrow> settle a = a" "settle (a\<lparr>busy := n\<rparr>) = settle a"
  by (simp_all add: settle_def)

lemma ata_poll:
  assumes "ata_ok B vw" and "in_port (byte_ports B) 0x1F7 d = (v, d1)"
  shows "v AND ATA_STATUS_BSY \<noteq> 0 \<longleftrightarrow> busy (vw d) > 0" "busy (vw d) = 0 \<Longrightarrow> v AND ATA_STATUS_RDY \<noteq> 0"
    "vw d1 = (vw d)\<lparr>busy := busy (vw d) - 1\<rparr>"
  using assms unfolding ata_ok_def in_port_def ATA_STATUS_BSY_def ATA_STATUS_RDY_def by (metis fst_conv snd_conv)+

lemma busy_wait_ends:
  assumes "ata_ok B vw"
  shows "\<exists>d'. ATA_busy_wait B d = Some d' \<and> vw d' = settle (vw d)"
proof (induction "busy (vw d)" arbitrary: d)
  case 0
  obtain v d1 where i: "in_port (byte_ports B) 0x1F7 d = (v, d1)" by fastforce
  show ?case using ata_poll [OF assms i] 0 i by (subst ATA_busy_wait.simps) (simp add: settle_def)
next
  case (Suc n)
  obtain v d1 where i: "in_port (byte_ports B) 0x1F7 d = (v, d1)" by fastforce
  note p = ata_poll [OF assms i]
  have "n = busy (vw d1)" using p(3) Suc.hyps(2) by simp
  from Suc.hyps(1) [OF this] obtain d' where "ATA_busy_wait B d1 = Some d'" "vw d' = settle (vw d1)" by blast
  then show ?case using p i Suc.hyps(2) by (subst ATA_busy_wait.simps) (simp add: settle_def)
qed

lemma DRQ_wait_ends:
  assumes "ata_ok B vw" and "busy (vw d) = 0"
  shows "\<exists>d'. ATA_DRQ_wait B d = Some d' \<and> vw d' = vw d"
proof -
  obtain v d1 where i: "in_port (byte_ports B) 0x1F7 d = (v, d1)" by fastforce
  show ?thesis using ata_poll [OF assms(1) i] assms(2) i by (subst ATA_DRQ_wait.simps) simp
qed

lemma waits_end:
  assumes "ata_ok B vw"
  obtains d1 d2 where "ATA_busy_wait B d = Some d1" "ATA_DRQ_wait B d1 = Some d2" "vw d2 = settle (vw d)"
proof -
  obtain d1 where d1: "ATA_busy_wait B d = Some d1" "vw d1 = settle (vw d)" using busy_wait_ends [OF assms] by blast
  obtain d2 where "ATA_DRQ_wait B d1 = Some d2" "vw d2 = vw d1"
    using DRQ_wait_ends [OF assms, of d1] d1(2) by auto
  then show ?thesis using that d1 by simp
qed

section \<open>Words and bytes\<close>

lemma length_words_of_bytes [simp]: "length (words_of_bytes bs) = length bs div 2"
  by (induction bs rule: words_of_bytes.induct) auto

lemma bytes_of_words_simps [simp]:
  "bytes_of_words [] = []" "bytes_of_words (w # ws) = le16 w @ bytes_of_words ws"
  "bytes_of_words (ws @ vs) = bytes_of_words ws @ bytes_of_words vs"
  by (simp_all add: bytes_of_words_def)

lemma bytes_of_words_of_bytes: "even (length bs) \<Longrightarrow> bytes_of_words (words_of_bytes bs) = bs"
  by (induction bs rule: words_of_bytes.induct) (auto simp: le16_of_le16)

lemma take_words: "take n (words_of_bytes bs) = words_of_bytes (take (2 * n) bs)"
  by (induction bs arbitrary: n rule: words_of_bytes.induct) (auto split: nat.split simp: take_Cons drop_Cons)

lemma drop_words: "drop n (words_of_bytes bs) = words_of_bytes (drop (2 * n) bs)"
  by (induction bs arbitrary: n rule: words_of_bytes.induct) (auto split: nat.split simp: take_Cons drop_Cons)

section \<open>Transfers\<close>

lemma ata_take:
  assumes "ata_ok B vw" and "busy (vw d) = 0" "todo (vw d) = Reading (w # ws)"
  shows "\<exists>d'. in16 B 0x1F0 d = (w, d') \<and> settle (vw d') = take_word ws (vw d) \<and>
    (length ws mod 256 \<noteq> 0 \<longrightarrow> busy (vw d') = 0)"
  using assms unfolding ata_ok_def in16_def by (metis prod.collapse)

lemma in_words_read:
  assumes "ata_ok B vw" and "256 dvd length rest"
    and "ws \<noteq> []" "length ws \<le> 256" and "busy (vw d) = 0" "todo (vw d) = Reading (ws @ rest)"
  shows "\<exists>d'. in_words B (length ws) d = (ws, d') \<and> settle (vw d') = take_word rest (vw d)"
  using assms(3-6)
proof (induction ws arbitrary: d)
  case (Cons w ws)
  obtain d1 where d1: "in16 B 0x1F0 d = (w, d1)" "settle (vw d1) = take_word (ws @ rest) (vw d)"
      "length (ws @ rest) mod 256 \<noteq> 0 \<longrightarrow> busy (vw d1) = 0"
    using ata_take [OF assms(1) Cons.prems(3), of w "ws @ rest"] Cons.prems(4) by auto
  show ?case
  proof (cases "ws = []")
    case True
    then show ?thesis using d1 by simp
  next
    case False
    have "length ws < 256" "length ws > 0" using Cons.prems(2) False by simp_all
    then have "length (ws @ rest) mod 256 \<noteq> 0" using assms(2) by (auto simp: dvd_def)
    then have b: "busy (vw d1) = 0" using d1(3) by blast
    then have v: "vw d1 = take_word (ws @ rest) (vw d)" using d1(2) by simp
    then have t: "todo (vw d1) = Reading (ws @ rest)" using False by (simp add: take_word_def)
    obtain d' where "in_words B (length ws) d1 = (ws, d')" "settle (vw d') = take_word rest (vw d1)"
      using Cons.IH [OF False _ b t] Cons.prems(2) by auto
    then show ?thesis using d1(1) v by (simp add: take_word_def)
  qed
qed simp

lemma read_sectors_read:
  assumes "ata_ok B vw"
    and "settle (vw d) = a" and "todo a = (if n = 0 then Idle else Reading ws)" and "length ws = 256 * n"
  shows "\<exists>d'. read_sectors B n d = Some (ws, d') \<and> settle (vw d') = a\<lparr>todo := Idle\<rparr>"
  using assms(2-4)
proof (induction n arbitrary: d a ws)
  case 0
  then show ?case by (cases a) auto
next
  case (Suc n)
  let ?w = "take 256 ws" and ?r = "drop 256 ws"
  obtain d1 d2 where w: "ATA_busy_wait B d = Some d1" "ATA_DRQ_wait B d1 = Some d2" "vw d2 = a"
    using waits_end [OF assms(1), of d] Suc.prems(1) by metis
  have b: "busy (vw d2) = 0" using Suc.prems(1) w(3) by (metis settle_simps(3))
  have t: "todo (vw d2) = Reading (?w @ ?r)" using Suc.prems(2) w(3) by simp
  have len: "length ?w = 256" "length ?r = 256 * n" using Suc.prems(3) by simp_all
  obtain d3 where d3: "in_words B 256 d2 = (?w, d3)" "settle (vw d3) = take_word ?r a"
    using in_words_read [OF assms(1) _ _ _ b t] len w(3) by force
  have "?r = [] \<longleftrightarrow> n = 0" using len(2) by (metis length_0_conv mult_is_0 zero_neq_numeral)
  then have t3: "todo (take_word ?r a) = (if n = 0 then Idle else Reading ?r)" by (simp add: take_word_def)
  obtain d4 where "read_sectors B n d3 = Some (?r, d4)" "settle (vw d4) = (take_word ?r a)\<lparr>todo := Idle\<rparr>"
    using Suc.IH [OF d3(2) t3 len(2)] by blast
  then show ?case using w(1,2) d3(1)
    by (simp add: HALF_BLOCK_SIZE_def BLOCK_SIZE_def take_word_def)
qed

lemma ata_give:
  assumes "ata_ok B vw" and "busy (vw d) = 0" "todo (vw d) = Writing n k vs"
  shows "settle (vw (out16 B 0x1F0 v d)) = give_word n k (vs @ [v]) (vw d)"
    "length vs < 255 \<Longrightarrow> busy (vw (out16 B 0x1F0 v d)) = 0"
  using assms unfolding ata_ok_def out16_def by blast+

lemma out_words_write:
  assumes "ata_ok B vw" and "ws \<noteq> []" and "length vs + length ws \<le> 256"
    and "busy (vw d) = 0" "todo (vw d) = Writing n k vs"
  shows "settle (vw (out_words B ws d)) = give_word n k (vs @ ws) (vw d)"
  using assms(2-5)
proof (induction ws arbitrary: d vs)
  case (Cons w ws)
  note g = ata_give [OF assms(1) Cons.prems(3,4), of w]
  show ?case
  proof (cases "ws = []")
    case True
    then show ?thesis using g by simp
  next
    case False
    have l: "length vs < 255" using Cons.prems(2) False by (cases ws) auto
    then have v: "vw (out16 B 0x1F0 w d) = give_word n k (vs @ [w]) (vw d)" using g by simp
    then have t: "todo (vw (out16 B 0x1F0 w d)) = Writing n k (vs @ [w])" using l by (simp add: give_word_def)
    have "settle (vw (out_words B ws (out16 B 0x1F0 w d))) = give_word n k ((vs @ [w]) @ ws) (vw (out16 B 0x1F0 w d))"
      using Cons.IH [OF False _ g(2) [OF l] t] Cons.prems(2) by simp
    then show ?thesis using v l by (simp add: give_word_def)
  qed
qed simp

lemma img_store_words:
  "img_store (img_store im (512 * n) (bytes_of_words vs)) (512 * Suc n) (bytes_of_words ws) =
   img_store im (512 * n) (bytes_of_words (vs @ ws))" if "length vs = 256"
proof -
  have "length (bytes_of_words us) = 2 * length us" for us
    by (induction us) (simp_all add: le16_def)
  then have "512 * Suc n = 512 * n + length (bytes_of_words vs)" using that by simp
  then show ?thesis by (simp only: img_store_append bytes_of_words_simps)
qed

lemma write_sectors_write:
  assumes "ata_ok B vw" and "256 * cnt \<le> length ws"
    and "i \<le> cnt" "settle (vw d) = a" "todo a = (if i = cnt then Idle else Writing (s + i) (cnt - i) [])"
  shows "\<exists>d'. write_sectors B ws [i..<cnt] d = Some (Inr d') \<and> settle (vw d') =
    a\<lparr>medium := img_store (medium a) (512 * (s + i)) (bytes_of_words (take (256 * (cnt - i)) (drop (256 * i) ws))),
      todo := Idle\<rparr>"
  using assms(3-5)
proof (induction "cnt - i" arbitrary: i d a)
  case 0
  then show ?case by (cases a) auto
next
  case (Suc n)
  let ?w = "take 256 (drop (256 * i) ws)" and ?a = "\<lambda>m t. a\<lparr>medium := m, todo := t\<rparr>"
  obtain d1 d2 where w: "ATA_busy_wait B d = Some d1" "ATA_DRQ_wait B d1 = Some d2" "vw d2 = a"
    using waits_end [OF assms(1), of d] Suc.prems(2) by metis
  have b: "busy (vw d2) = 0" using Suc.prems(2) w(3) by (metis settle_simps(3))
  have t: "todo (vw d2) = Writing (s + i) (cnt - i) []" using Suc w(3) by auto
  have len: "256 * i + 256 \<le> length ws" "length ?w = 256" "?w \<noteq> []" using Suc.hyps(2) assms(2) by auto
  let ?d3 = "out_words B ?w d2" and ?m = "img_store (medium a) (512 * (s + i)) (bytes_of_words ?w)"
  have d3: "settle (vw ?d3) = ?a ?m (if Suc i = cnt then Idle else Writing (s + Suc i) (cnt - Suc i) [])" (is "_ = ?b")
    using out_words_write [OF assms(1) len(3) _ b t] len(2) w(3) Suc.hyps(2) by (auto simp: give_word_def)
  have "n = cnt - Suc i" "Suc i \<le> cnt" using Suc.hyps(2) by simp_all
  from Suc.hyps(1) [OF this d3] obtain d' where
    d': "write_sectors B ws [Suc i..<cnt] ?d3 = Some (Inr d')" "settle (vw d') =
      ?b\<lparr>medium := img_store ?m (512 * (s + Suc i)) (bytes_of_words (take (256 * (cnt - Suc i)) (drop (256 * Suc i) ws))),
         todo := Idle\<rparr>" by auto
  have "take (256 * (cnt - i)) (drop (256 * i) ws) = ?w @ take (256 * (cnt - Suc i)) (drop (256 * Suc i) ws)"
  proof -
    have "256 * (cnt - i) = 256 + 256 * (cnt - Suc i)" using Suc.hyps(2) by simp
    then show ?thesis by (simp add: take_add add.commute)
  qed
  then have "settle (vw d') = ?a (img_store (medium a) (512 * (s + i))
      (bytes_of_words (take (256 * (cnt - i)) (drop (256 * i) ws)))) Idle"
    using d'(2) img_store_words [OF len(2), of "medium a" "s + i"] by simp
  moreover have "[i..<cnt] = i # [Suc i..<cnt]" using Suc.hyps(2) by (simp add: upt_conv_Cons)
  ultimately show ?case using w(1,2) d'(1) len(1) by (simp add: HALF_BLOCK_SIZE_def BLOCK_SIZE_def)
qed

section \<open>Commands\<close>

lemma busy_set_reg [simp]: "busy (set_reg port v a) = busy a"
  by (simp add: set_reg_def)

lemma ata_set:
  assumes "ata_ok B vw" and "port \<in> {0x1F2, 0x1F3, 0x1F4, 0x1F5, 0x1F6}" and "busy (vw d) = 0"
  shows "vw (out (byte_ports B) port v d) = set_reg port v (vw d)"
  using assms unfolding ata_ok_def out_def by blast

lemma ata_start:
  assumes "ata_ok B vw" and "cmd \<in> {0x20, 0x30}" and "busy (vw d) = 0" "todo (vw d) = Idle"
  shows "settle (vw (out (byte_ports B) 0x1F7 cmd d)) = start cmd (vw d)"
  using assms unfolding ata_ok_def out_def by blast

lemma small_lba:
  fixes lba :: u32
  assumes "unat lba < 8192"
  shows "unat (ucast lba :: u8) + 256 * unat (ucast (drop_bit 8 lba) :: u8) = unat lba"
    and "(ucast (drop_bit 16 lba) :: u8) = 0" and "(ucast (drop_bit 24 lba) :: u8) = 0"
proof -
  have "unat (ucast lba :: u8) = unat lba mod 256"
    by (simp add: unsigned_ucast_eq take_bit_eq_mod)
  moreover have "unat (ucast (drop_bit 8 lba) :: u8) = unat lba div 256 mod 256"
    unfolding unsigned_ucast_eq unsigned_drop_bit_eq unfolding take_bit_eq_mod drop_bit_eq_div by simp
  moreover have "unat lba div 256 mod 256 = unat lba div 256" using assms by simp
  ultimately show "unat (ucast lba :: u8) + 256 * unat (ucast (drop_bit 8 lba) :: u8) = unat lba" by simp
  have "unat (drop_bit 16 lba) = 0" "unat (drop_bit 24 lba) = 0"
    using assms unfolding unsigned_drop_bit_eq unfolding take_bit_eq_mod drop_bit_eq_div by simp_all
  then show "(ucast (drop_bit 16 lba) :: u8) = 0" "(ucast (drop_bit 24 lba) :: u8) = 0"
    by (simp_all add: unsigned_eq_0_iff)
qed

lemma ata_command_starts:
  assumes "ata_ok B vw" and "cmd \<in> {0x20, 0x30}" and "busy (vw d) = 0" "todo (vw d) = Idle" and "unat lba < 8192"
  obtains a where "settle (vw (ata_command B lba c cmd d)) = start cmd a" "sector_of a = unat lba"
    "count_reg a = c" "medium a = medium (vw d)" "busy a = 0"
proof -
  let ?P = "byte_ports B"
  define e where "e = out ?P 0x1F5 (ucast (drop_bit 16 lba)) (out ?P 0x1F4 (ucast (drop_bit 8 lba))
    (out ?P 0x1F3 (ucast lba) (out ?P 0x1F2 c (out ?P 0x1F6 (0xE0 OR (ucast (drop_bit 24 lba) AND 0xF)) d))))"
  have e: "vw e = set_reg 0x1F5 (ucast (drop_bit 16 lba)) (set_reg 0x1F4 (ucast (drop_bit 8 lba))
    (set_reg 0x1F3 (ucast lba) (set_reg 0x1F2 c (set_reg 0x1F6 (0xE0 OR (ucast (drop_bit 24 lba) AND 0xF)) (vw d)))))"
    and be: "busy (vw e) = 0"
    unfolding e_def by (simp_all add: ata_set [OF assms(1)] assms(3))
  have "(0xE0 OR (0 AND 0xF)) AND (0xF :: u8) = 0" by simp
  then have s: "sector_of (vw e) = unat lba"
    unfolding e sector_of_def set_reg_def small_lba(2,3) [OF assms(5)] using small_lba(1) [OF assms(5)] by simp
  have c: "count_reg (vw e) = c" "medium (vw e) = medium (vw d)" "todo (vw e) = Idle"
    unfolding e set_reg_def using assms(4) by simp_all
  have "ata_command B lba c cmd d = out ?P 0x1F7 cmd e" by (simp add: ata_command_def Let_def e_def)
  then show ?thesis using that [OF _ s c(1,2) be] ata_start [OF assms(1,2) be c(3)] by simp
qed

section \<open>The driver computes the block device\<close>

lemma ata_reads:
  assumes "ata_ok B vw" and "todo (vw d) = Idle" and "c \<noteq> 0" and "unat lba + unat c \<le> 8192"
  shows "\<exists>d'. ata_read_blocks B lba c d = Some (img_load (medium (vw d)) (512 * unat lba) (512 * unat c), d') \<and>
    todo (vw d') = Idle \<and> medium (vw d') = medium (vw d)"
proof -
  obtain d1 where d1: "ATA_busy_wait B d = Some d1" "vw d1 = settle (vw d)" using busy_wait_ends [OF assms(1)] by blast
  have "unat c > 0" using assms(3) by (simp add: unat_gt_0)
  then have lba: "unat lba < 8192" using assms(4) by simp
  obtain a where a: "settle (vw (ata_command B lba c 0x20 d1)) = start 0x20 a" "sector_of a = unat lba"
      "count_reg a = c" "medium a = medium (vw d)" "busy a = 0"
    using ata_command_starts [OF assms(1) _ _ _ lba, of "0x20" d1 c] d1(2) assms(2) by auto
  let ?bs = "img_load (medium (vw d)) (512 * unat lba) (512 * unat c)"
  have st: "start 0x20 a = a\<lparr>todo := Reading (words_of_bytes ?bs)\<rparr>"
    using a(2-4) assms(3) by (simp add: start_def sectors_asked_def)
  have t: "todo (start 0x20 a) = (if unat c = 0 then Idle else Reading (words_of_bytes ?bs))"
    using st \<open>unat c > 0\<close> by simp
  have "length (words_of_bytes ?bs) = 256 * unat c" by simp
  from read_sectors_read [OF assms(1) a(1) t this] obtain d2 where
    "read_sectors B (unat c) (ata_command B lba c 0x20 d1) = Some (words_of_bytes ?bs, d2)"
    "settle (vw d2) = (start 0x20 a)\<lparr>todo := Idle\<rparr>" by blast
  moreover from this have "todo (settle (vw d2)) = Idle" "medium (settle (vw d2)) = medium (vw d)"
    using st a(4) by simp_all
  then have "todo (vw d2) = Idle" "medium (vw d2) = medium (vw d)" by simp_all
  ultimately show ?thesis using d1(1) by (simp add: ata_read_blocks_def bytes_of_words_of_bytes)
qed

lemma ata_writes:
  assumes "ata_ok B vw" and "todo (vw d) = Idle" and "c \<noteq> 0" and "unat lba + unat c \<le> 8192"
    and "512 * unat c \<le> length bs"
  shows "\<exists>d'. ata_write_blocks B bs lba c d = Some (Inr d') \<and> todo (vw d') = Idle \<and>
    medium (vw d') = img_store (medium (vw d)) (512 * unat lba) (take (512 * unat c) bs)"
proof -
  obtain d1 where d1: "ATA_busy_wait B d = Some d1" "vw d1 = settle (vw d)" using busy_wait_ends [OF assms(1)] by blast
  have "unat c > 0" using assms(3) by (simp add: unat_gt_0)
  then have lba: "unat lba < 8192" using assms(4) by simp
  obtain a where a: "settle (vw (ata_command B lba c 0x30 d1)) = start 0x30 a" "sector_of a = unat lba"
      "count_reg a = c" "medium a = medium (vw d)" "busy a = 0"
    using ata_command_starts [OF assms(1) _ _ _ lba, of "0x30" d1 c] d1(2) assms(2) by auto
  have st: "start 0x30 a = a\<lparr>todo := Writing (unat lba) (unat c) []\<rparr>"
    using a(2,3) assms(3) by (simp add: start_def sectors_asked_def)
  have t: "todo (start 0x30 a) = (if 0 = unat c then Idle else Writing (unat lba + 0) (unat c - 0) [])"
    using st \<open>unat c > 0\<close> by simp
  have l: "256 * unat c \<le> length (words_of_bytes bs)" using assms(5) by simp
  from write_sectors_write [OF assms(1) l _ a(1) t] obtain d2 where
    "write_sectors B (words_of_bytes bs) [0..<unat c] (ata_command B lba c 0x30 d1) = Some (Inr d2)"
    and d2: "settle (vw d2) = (start 0x30 a)\<lparr>medium := img_store (medium (start 0x30 a)) (512 * unat lba)
      (bytes_of_words (take (256 * unat c) (words_of_bytes bs))), todo := Idle\<rparr>" by auto
  moreover have "bytes_of_words (take (256 * unat c) (words_of_bytes bs)) = take (512 * unat c) bs"
    using assms(5) by (simp add: take_words bytes_of_words_of_bytes)
  ultimately have "todo (settle (vw d2)) = Idle"
    "medium (settle (vw d2)) = img_store (medium (vw d)) (512 * unat lba) (take (512 * unat c) bs)"
    using st a(4) by simp_all
  then show ?thesis using d1(1) \<open>write_sectors _ _ _ _ = _\<close> by (simp add: ata_write_blocks_def)
qed

text \<open>
  C15. The kernel's disk driver implements the block device. On any drive that follows the
  28-bit PIO protocol, however many polls it stays busy, a transfer of at least one block
  within the first 4 MiB ends; a read returns exactly the bytes the block device of the file
  system returns, and a write leaves the medium as the block device leaves its image.
\<close>

theorem ata_driver_refines_storage:
  assumes "ata_ok B vw" and "todo (vw d) = Idle" and "c \<noteq> 0" and "unat lba + unat c \<le> 8192"
    and "512 * unat c \<le> length bs"
  shows "(\<exists>rs d'. ata_read_blocks B lba c d = Some (rs, d') \<and> read_blocks (medium (vw d)) lba c = Inr rs \<and>
            todo (vw d') = Idle \<and> medium (vw d') = medium (vw d)) \<and>
         (\<exists>d'. ata_write_blocks B bs lba c d = Some (Inr d') \<and>
            write_blocks (medium (vw d)) bs lba c = Inr (medium (vw d')) \<and> todo (vw d') = Idle)"
  unfolding read_blocks_def write_blocks_def read_blocks_loop_closed [OF assms(4) le0]
    write_blocks_loop_closed [OF assms(4,5) le0]
  using ata_reads [OF assms(1-4)] ata_writes [OF assms] by auto

text \<open>
  A transfer of no blocks is not a transfer of nothing: to the drive a count of 0 asks for
  256 sectors, of which the driver takes none, so that the drive is left inside a transfer.
\<close>

theorem ata_zero_blocks:
  assumes "ata_ok B vw" and "todo (vw d) = Idle" and "unat lba < 8192"
  shows "\<exists>d'. ata_read_blocks B lba 0 d = Some ([], d') \<and> todo (vw d') \<noteq> Idle"
proof -
  obtain d1 where d1: "ATA_busy_wait B d = Some d1" "vw d1 = settle (vw d)" using busy_wait_ends [OF assms(1)] by blast
  let ?d2 = "ata_command B lba 0 0x20 d1"
  obtain a where a: "settle (vw ?d2) = start 0x20 a"
    using ata_command_starts [OF assms(1) _ _ _ assms(3), of "0x20" d1 0] d1(2) assms(2) by auto
  have "todo (settle (vw ?d2)) \<noteq> Idle" unfolding a by (simp add: start_def)
  then show ?thesis using d1(1) by (simp add: ata_read_blocks_def bytes_of_words_def)
qed

section \<open>A drive that stays busy for two polls\<close>

definition demo_ata_bus :: "ata ata_bus" where
  "demo_ata_bus = \<lparr>
     byte_ports = \<lparr>
       bus_out = (\<lambda>port v a. if port = 0x1F7 then (start v a)\<lparr>busy := 2\<rparr> else set_reg port v a),
       bus_in = (\<lambda>port a. (if busy a > 0 then 0x80 else 0x40, a\<lparr>busy := busy a - 1\<rparr>))\<rparr>,
     word_out = (\<lambda>port v a. case todo a of
        Writing n k vs \<Rightarrow> (give_word n k (vs @ [v]) a)\<lparr>busy := (if length vs < 255 then 0 else 1)\<rparr> | _ \<Rightarrow> a),
     word_in = (\<lambda>port a. case todo a of
        Reading (w # ws) \<Rightarrow> (w, (take_word ws a)\<lparr>busy := (if length ws mod 256 = 0 then 1 else 0)\<rparr>) | _ \<Rightarrow> (0, a))\<rparr>"

lemma busy_of_commands [simp]:
  "busy (start v a) = busy a" "busy (take_word ws a) = busy a" "busy (give_word n k vs a) = busy a"
  by (simp_all add: start_def take_word_def give_word_def)

lemma demo_ata_ok: "ata_ok demo_ata_bus id"
  unfolding ata_ok_def demo_ata_bus_def by auto

definition demo_ata :: ata where
  "demo_ata = \<lparr>head_reg = 0, count_reg = 0, low_reg = 0, mid_reg = 0, high_reg = 0, todo = Idle,
     medium = (\<lambda>x. of_nat x), busy = 3\<rparr>"

theorem ata_driver_refines_storage_witness:
  "(\<exists>rs d'. ata_read_blocks demo_ata_bus 7 2 demo_ata = Some (rs, d') \<and>
      read_blocks (medium demo_ata) 7 2 = Inr rs \<and> todo d' = Idle) \<and>
   (\<exists>d'. ata_write_blocks demo_ata_bus (replicate 1024 5) 7 2 demo_ata = Some (Inr d') \<and>
      write_blocks (medium demo_ata) (replicate 1024 5) 7 2 = Inr (medium d'))"
  using ata_driver_refines_storage [OF demo_ata_ok, of demo_ata 2 7 "replicate 1024 5"]
  by (auto simp: demo_ata_def)

theorem ata_zero_blocks_witness:
  "\<exists>d'. ata_read_blocks demo_ata_bus 7 0 demo_ata = Some ([], d') \<and> todo d' \<noteq> Idle"
  using ata_zero_blocks [OF demo_ata_ok, of demo_ata 7] by (simp add: demo_ata_def)

end
