(* ===== verification/Shell.thy ===== *)
theory Shell
  imports Fat32
begin

text \<open>
  The user shell, first part of \<^verbatim>\<open>src/src/user-shell.c\<close>: its variables, the prompt and the
  commands ls, cd, cat, mkdir and rm. The shell is a program behind system calls: the file
  system calls are the operations of \<open>Fat32\<close> on \<open>disk\<close>, every other call is recorded in
  \<open>trace\<close>, in order. A text printed with system call 6 is the run of bytes at the pointer, so
  \<open>Put\<close> carries exactly as many bytes as the call asks for.

  A buffer of a request lives at address 0 of a memory of its own, whose first contents are
  those of the uninitialised object (\<open>junk\<close>). Integers that hold cluster numbers are 32-bit
  words, with -1 as 0xFFFFFFFF. An array of variable length lies on the stack, a page of 4 MiB:
  one that does not fit is a page fault, a read past its end a fault. The names that rm, cat and
  mkdir receive are such arrays, padded to eight bytes by the caller.
\<close>

section \<open>State\<close>

definition GREEN :: u8 where "GREEN = 0x0A"
definition GRAY :: u8 where "GRAY = 0x7"
definition BLUE :: u8 where "BLUE = 0x09"
definition RED :: u8 where "RED = 0x0C"
definition GOLD :: u8 where "GOLD = 0x6"
definition DARK_GREEN :: u8 where "DARK_GREEN = 0x2"
definition WHITE :: u8 where "WHITE = 0x0F"

definition KEYBOARD_BUFFER_SIZE :: nat where "KEYBOARD_BUFFER_SIZE = 256"

text \<open>System calls other than the file system's: text and colour, a program to start, or a
  call given by its registers.\<close>

datatype event = Put "u8 list" u8 | Start driver_request | Call u32 u32 u32 u32

record shell =
  CURRENT_DIR_CLUSTER_NUMBER :: u32
  CURRENT_DIR_PARENT_CLUSTER_NUMBER :: u32
  DEPTH :: nat
  DIR_PATH :: "u8 list list"
  DIR_CLUSTERS :: "u32 list"
  clock_is_running :: u32
  disk :: fat32
  trace :: "event list"

text \<open>The nodes of the queue of \<open>find\<close>.\<close>

record node_dir =
  nama :: "u8 list"
  cluster_path :: "u32 list"
  nEff :: nat
  nama_path :: "u8 list list"

text \<open>
  The uninitialised objects the commands find on the stack: memory of a buffer, the array of
  eight characters for the first name of a command and the one for the target of cp, the nine
  paths behind the first of mv's \<open>path_list\<close> and its \<open>temp_path\<close>, a word, the objects of \<open>write\<close>,
  and for \<open>find\<close> its queue and what its table and its return code hold in each round.
\<close>

record junk =
  junk_mem :: mem
  junk_name :: "u8 list"
  junk_dest :: "u8 list"
  junk_paths :: "u8 list list"
  junk_temp :: "u8 list"
  junk_word :: u32
  junk_entry :: dir_entry
  junk_table :: "dir_entry list"
  junk_queue :: "node_dir list"
  junk_round :: "nat \<Rightarrow> mem \<times> u32"

section \<open>System calls\<close>

definition call :: "event \<Rightarrow> shell \<Rightarrow> shell" where
  "call e s = s\<lparr>trace := trace s @ [e]\<rparr>"

definition put :: "u8 list \<Rightarrow> nat \<Rightarrow> u8 \<Rightarrow> shell \<Rightarrow> shell" where
  "put text n color = call (Put (take n text) color)"

definition say :: "string \<Rightarrow> u8 \<Rightarrow> shell \<Rightarrow> shell" where
  "say text color = put (codes text) (length text) color"

definition say_line :: "string \<Rightarrow> u8 \<Rightarrow> shell \<Rightarrow> shell" where
  "say_line text color = put (codes text @ [10]) (length text + 1) color"

text \<open>Reading a directory into a table of the caller.\<close>

definition table_request :: "u8 list \<Rightarrow> u32 \<Rightarrow> driver_request" where
  "table_request name parent = \<lparr>rq_buf = 0, rq_name = name, rq_ext = [0, 0, 0],
     rq_parent_cluster_number = parent, rq_buffer_size = of_nat CLUSTER_SIZE\<rparr>"

definition list_directory :: "mem \<Rightarrow> u8 list \<Rightarrow> u32 \<Rightarrow> shell \<Rightarrow> (int \<times> dir_entry list) res" where
  "list_directory jm name parent s =
     bindE (read_directory (table_request name parent) (disk s) jm) (\<lambda>(retcode, m).
     Inr (retcode, table_of (mem_read m 0 CLUSTER_SIZE)))"

text \<open>The current directory, as ls, mkdir, rm, cp and mv ask for it.\<close>

definition current_table :: "junk \<Rightarrow> shell \<Rightarrow> (int \<times> dir_entry list) res" where
  "current_table j s =
     bindE (arr_get (DIR_PATH s) (DEPTH s)) (\<lambda>name.
     list_directory (junk_mem j) name (CURRENT_DIR_PARENT_CLUSTER_NUMBER s) s)"

definition read_file :: "mem \<Rightarrow> driver_request \<Rightarrow> shell \<Rightarrow> ((int \<times> mem) res) option" where
  "read_file jm rq s = fs_read rq (disk s) jm"

text \<open>
  The compiler keeps the stack aligned to 16 bytes, so the storage of an array of variable
  length is a multiple of 16: what is stored behind the array but inside it hits nothing else.
\<close>

definition array_room :: "nat \<Rightarrow> nat" where "array_room n = 16 * ((n + 15) div 16)"

text \<open>
  Reading into an array of variable length on the stack, of as many bytes as the request says.
  \<open>read\<close> checks the size in units of a quarter cluster, so it may store past the array.
\<close>

definition STACK_PAGE :: nat where "STACK_PAGE = 0x400000"

definition read_array :: "junk \<Rightarrow> driver_request \<Rightarrow> shell \<Rightarrow> ((int \<times> mem) res) option" where
  "read_array j rq s =
     (if STACK_PAGE < unat (rq_buffer_size rq) then Some (Inl Page_Fault)
      else bindO (read_file (junk_mem j) rq s) (\<lambda>(retcode, m).
        if \<exists>a. unat (rq_buffer_size rq) \<le> unat (a - rq_buf rq) \<and> stores_to rq (disk s) a
        then Some (Inl Stack_Smash) else Some (Inr (retcode, m))))"

definition write_file :: "junk \<Rightarrow> driver_request \<Rightarrow> mem \<Rightarrow> shell \<Rightarrow> ((int \<times> shell) res) option" where
  "write_file j rq m s =
     bindO (fs_write (junk_entry j) (junk_table j) rq (disk s) m) (\<lambda>(retcode, f, _).
     Some (Inr (retcode, s\<lparr>disk := f\<rparr>)))"

definition delete_file :: "driver_request \<Rightarrow> shell \<Rightarrow> ((int \<times> shell) res) option" where
  "delete_file rq s = bindO (fs_delete rq (disk s)) (\<lambda>(retcode, f). Some (Inr (retcode, s\<lparr>disk := f\<rparr>)))"

definition write_table :: "dir_entry list \<Rightarrow> u32 \<Rightarrow> shell \<Rightarrow> shell res" where
  "write_table t cluster s =
     bindE (write_clusters (storage (disk s)) (table_bytes t) cluster 1) (\<lambda>im.
     Inr (s\<lparr>disk := (disk s)\<lparr>storage := im\<rparr>\<rparr>))"

section \<open>Names\<close>

text \<open>Characters up to the first zero byte of a name of eight bytes.\<close>

fun name_length :: "u8 list \<Rightarrow> nat" where
  "name_length [] = 0"
| "name_length (b # bs) = (if b = 0 then 0 else Suc (name_length bs))"

section \<open>The prompt\<close>

fun prompt_dirs :: "nat list \<Rightarrow> shell \<Rightarrow> shell res" where
  "prompt_dirs [] s = Inr s"
| "prompt_dirs (i # ks) s =
     bindE (arr_get (DIR_PATH s) i) (\<lambda>name.
     prompt_dirs ks (put name (name_length name) BLUE (say ''/'' BLUE s)))"

definition print_terminal_text :: "shell \<Rightarrow> shell res" where
  "print_terminal_text s =
     (let s1 = say '':'' GRAY (put (codes ''JatOS-IF2230'') 12 GREEN s) in
      bindE (if DEPTH s = 0 then Inr (say ''/'' BLUE s1) else prompt_dirs [1..<DEPTH s + 1] s1) (\<lambda>s2.
      Inr (say ''$ '' GRAY s2)))"

section \<open>ls\<close>

definition ls_entry :: "nat \<Rightarrow> dir_entry \<Rightarrow> shell \<Rightarrow> shell" where
  "ls_entry i e s =
     (if de_name e ! 0 = 0 then s
      else let n = name_length (de_name e) in
        if i = 0 then say ''/'' DARK_GREEN (put (de_name e) n DARK_GREEN s)
        else if de_attribute e = ATR_DIRECTORY then say ''/'' WHITE (put (de_name e) n WHITE (say ''  '' WHITE s))
        else let s1 = put (de_name e) n WHITE (say ''  '' WHITE s) in
          if de_ext e ! 0 \<noteq> 0 then put (de_ext e) 3 WHITE (say ''.'' WHITE s1) else s1)"

definition ls :: "junk \<Rightarrow> shell \<Rightarrow> shell res" where
  "ls j s =
     bindE (current_table j s) (\<lambda>(retcode, t).
     if retcode \<noteq> 0 then Inr (say_line ''ls gagal'' WHITE s)
     else Inr (say_line '''' WHITE (fold (\<lambda>i. ls_entry i (t ! i)) [0..<DIR_ENTRIES] s)))"

section \<open>cd\<close>

definition cd_dotdot :: "shell \<Rightarrow> shell res" where
  "cd_dotdot s =
     (let currDepth = DEPTH s in
      if currDepth > 0 then
        bindE (arr_set (DIR_CLUSTERS s) currDepth (- 1)) (\<lambda>cs.
        bindE (arr_get cs (if currDepth \<ge> 2 then currDepth - 2 else currDepth - 1)) (\<lambda>parent.
        bindE (arr_get cs (currDepth - 1)) (\<lambda>current.
        Inr (s\<lparr>DIR_CLUSTERS := cs, CURRENT_DIR_PARENT_CLUSTER_NUMBER := parent,
               CURRENT_DIR_CLUSTER_NUMBER := current, DEPTH := currDepth - 1\<rparr>))))
      else Inr s)"

text \<open>One component of the path, up to a slash or the end: the characters and where it stops.
  \<open>path\<close> of the code has room for eight.\<close>

function cd_component :: "u8 list \<Rightarrow> nat \<Rightarrow> nat \<Rightarrow> u8 list \<Rightarrow> (u8 list \<times> nat) res" where
  "cd_component command len i path =
     (if \<not> i < length command then Inl Out_Of_Bounds
      else if command ! i \<noteq> of_char CHR ''/'' \<and> i < len
      then (if length path < 8 then cd_component command len (i + 1) (path @ [command ! i]) else Inl Stack_Smash)
      else Inr (path, i))"
  by auto

termination cd_component by (relation "measure (\<lambda>(command, len, i, path). len - i)") auto

declare cd_component.simps [simp del]

definition is_subdir :: "u8 list \<Rightarrow> dir_entry \<Rightarrow> bool" where
  "is_subdir path e \<longleftrightarrow> de_name e ! 0 \<noteq> 0 \<and> de_attribute e = ATR_DIRECTORY \<and>
     length path = name_length (de_name e) \<and> bytes_cmp (take (length path) (de_name e)) path = 0"

text \<open>Entering one component from depth \<open>currDepth\<close>: the new depth, or None after the error
  message has been printed.\<close>

definition cd_step :: "mem \<Rightarrow> u8 list \<Rightarrow> nat \<Rightarrow> shell \<Rightarrow> (nat option \<times> shell) res" where
  "cd_step jm path currDepth s =
     bindE (arr_get (DIR_CLUSTERS s) (if currDepth = 0 then 0 else currDepth - 1)) (\<lambda>parent.
     bindE (arr_get (DIR_PATH s) currDepth) (\<lambda>name.
     bindE (list_directory jm name parent s) (\<lambda>(retcode, t).
     if retcode \<noteq> 0
     then Inr (None, say_line ''directory tidak ditemukan'' RED (say_line ''failed to read request'' RED s))
     else case find (\<lambda>k. is_subdir path (t ! k)) [1..<DIR_ENTRIES] of
            None \<Rightarrow> Inr (None, say_line ''directory tidak ditemukan'' RED s)
          | Some k \<Rightarrow>
              bindE (arr_set (DIR_PATH s) (currDepth + 1) (de_name (t ! k))) (\<lambda>ps.
              bindE (arr_set (DIR_CLUSTERS s) (currDepth + 1) (entry_cluster (t ! k))) (\<lambda>cs.
              Inr (Some (currDepth + 1), s\<lparr>DIR_PATH := ps, DIR_CLUSTERS := cs\<rparr>))))))"

lemma cd_component_stop: "cd_component command len i path = Inr (p, k) \<Longrightarrow> i \<le> k"
proof (induction command len i path rule: cd_component.induct)
  case (1 command len i path)
  from "1.prems" show ?case
    by (subst (asm) cd_component.simps) (use "1.IH" in \<open>auto split: if_splits\<close>)
qed

function cd_loop :: "mem \<Rightarrow> u8 list \<Rightarrow> nat \<Rightarrow> nat \<Rightarrow> nat \<Rightarrow> shell \<Rightarrow> (nat option \<times> shell) res" where
  "cd_loop jm command len i currDepth s =
     (if i < len then
        (case cd_component command len i [] of
           Inl e \<Rightarrow> Inl e
         | Inr (path, k) \<Rightarrow>
             (case cd_step jm path currDepth s of
                Inl e \<Rightarrow> Inl e
              | Inr (None, s1) \<Rightarrow> Inr (None, s1)
              | Inr (Some d, s1) \<Rightarrow> cd_loop jm command len (k + 1) d s1))
      else Inr (Some currDepth, s))"
  by auto

termination cd_loop
  by (relation "measure (\<lambda>(jm, command, len, i, d, s). len - i)") (auto dest: cd_component_stop)

declare cd_loop.simps [simp del]

definition starts_with :: "u8 list \<Rightarrow> string \<Rightarrow> bool" where
  "starts_with command word \<longleftrightarrow> bytes_cmp (take (length word) command) (codes word) = 0"

definition cd :: "junk \<Rightarrow> u8 list \<Rightarrow> nat \<Rightarrow> shell \<Rightarrow> shell res" where
  "cd j command len s =
     (if starts_with command ''cd ..'' then cd_dotdot s
      else bindE (cd_loop (junk_mem j) command len 3 (DEPTH s) s) (\<lambda>(d, s1).
        case d of
          None \<Rightarrow> Inr s1
        | Some currDepth \<Rightarrow>
            if currDepth = 0 then Inl Out_Of_Bounds
            else bindE (arr_get (DIR_CLUSTERS s1) (currDepth - 1)) (\<lambda>parent.
              bindE (arr_get (DIR_CLUSTERS s1) currDepth) (\<lambda>current.
              Inr (s1\<lparr>DEPTH := currDepth, CURRENT_DIR_PARENT_CLUSTER_NUMBER := parent,
                      CURRENT_DIR_CLUSTER_NUMBER := current\<rparr>)))))"

section \<open>cat\<close>

text \<open>Cluster number and size of the entry with a name, zero when there is none.\<close>

definition entry_named :: "dir_entry list \<Rightarrow> u8 list \<Rightarrow> u32 \<times> u32" where
  "entry_named t name = (case find_name t name of
     None \<Rightarrow> (0, 0) | Some i \<Rightarrow> (entry_cluster (t ! i), de_filesize (t ! i)))"

text \<open>
  The size of the buffer, in an \<open>int\<close>, which wraps around: for a file size above 0x7FFFF800
  and below 0x80000000 the loop does not end.
\<close>

partial_function (option) cat_size :: "u32 \<Rightarrow> u32 \<Rightarrow> u32 option" where
  "cat_size req_size file_size =
     (if sint req_size < sint file_size then cat_size (req_size + of_nat CLUSTER_SIZE) file_size else Some req_size)"

text \<open>The table of the current directory, as cat asks for it.\<close>

definition cat_table :: "junk \<Rightarrow> shell \<Rightarrow> (int \<times> dir_entry list) res" where
  "cat_table j s =
     bindE (arr_get (DIR_CLUSTERS s) (if DEPTH s = 0 then DEPTH s else DEPTH s - 1)) (\<lambda>num_cluster.
     bindE (arr_get (DIR_PATH s) (DEPTH s)) (\<lambda>name.
     list_directory (junk_mem j) name num_cluster s))"

text \<open>A file whose size is negative as an \<open>int\<close> is printed with its unsigned size, from the stack
  to the end of what is mapped.\<close>

definition cat :: "junk \<Rightarrow> u8 list \<Rightarrow> shell \<Rightarrow> (shell res) option" where
  "cat j filename s =
     bindO (Some (cat_table j s)) (\<lambda>(retcode, t).
     if retcode \<noteq> 0 then Some (Inr (put (codes ''dir table corrupt'' @ [10]) 17 WHITE s))
     else case entry_named t filename of (clust_number, file_size) \<Rightarrow>
       if clust_number = 0 then Some (Inr (say_line ''file tidak tersedia'' WHITE s))
       else case cat_size (of_nat CLUSTER_SIZE) file_size of None \<Rightarrow> None | Some req_size \<Rightarrow>
         bindO (Some (arr_get (DIR_CLUSTERS s) (DEPTH s))) (\<lambda>parent.
         let rq = \<lparr>rq_buf = 0, rq_name = filename, rq_ext = [0, 0, 0], rq_parent_cluster_number = parent,
                   rq_buffer_size = req_size\<rparr> in
         bindO (read_array j rq s) (\<lambda>(retcode, m).
         if retcode \<noteq> 0 then Some (Inr (say_line ''bukan file'' WHITE s))
         else if sint file_size < 0 then Some (Inl Page_Fault)
         else Some (Inr (say_line '''' WHITE
                (put (mem_read m 0 (unat file_size)) (unat file_size) GOLD s))))))"

section \<open>mkdir and rm\<close>

definition mkdir :: "junk \<Rightarrow> u8 list \<Rightarrow> shell \<Rightarrow> (shell res) option" where
  "mkdir j foldername s =
     bindO (Some (current_table j s)) (\<lambda>(retcode, t).
     if retcode \<noteq> 0 then Some (Inr (put (codes ''dir table corrupt'' @ [10]) 17 WHITE s))
     else let rq = \<lparr>rq_buf = 0, rq_name = foldername, rq_ext = [0, 0, 0],
                    rq_parent_cluster_number = CURRENT_DIR_CLUSTER_NUMBER s, rq_buffer_size = 0\<rparr> in
       bindO (write_file j rq (junk_mem j) s) (\<lambda>(retcode, s1).
       if retcode \<noteq> 0 then Some (Inr (say_line ''gagal'' WHITE s1)) else Some (Inr s1)))"

definition rm :: "junk \<Rightarrow> u8 list \<Rightarrow> shell \<Rightarrow> (shell res) option" where
  "rm j filename s =
     bindO (Some (current_table j s)) (\<lambda>(retcode, t).
     if retcode \<noteq> 0 then Some (Inr (put (codes ''dir table corrupt'' @ [10]) 17 WHITE s))
     else if fst (entry_named t filename) = 0 then Some (Inr (say_line ''file tidak tersedia'' WHITE s))
     else let rq = \<lparr>rq_buf = 0, rq_name = filename, rq_ext = codes ''txt'',
                    rq_parent_cluster_number = CURRENT_DIR_PARENT_CLUSTER_NUMBER s, rq_buffer_size = 0\<rparr> in
       bindO (delete_file rq s) (\<lambda>(retcode, s1).
       if retcode \<noteq> 0 then Some (Inr (say_line ''bukan file'' WHITE s1)) else Some (Inr s1)))"

end
