(* ===== verification/ShellLogo.thy ===== *)
theory ShellLogo
  imports Shell
begin

text \<open>
  \<open>print_jatos\<close> of \<^verbatim>\<open>src/src/user-shell.c\<close>: the logo the shell draws when it starts, letter
  by letter and then all at once, as the cells it paints with system call 16. Every call
  passes the address of a text of one blank, of which the kernel takes the low byte.
  The loops that only pass time have no effect here.
\<close>

definition letter_J :: "(u32 \<times> u32) list" where
  "letter_J =
    [(6, 23), (7, 22), (7, 23), (7, 24), (7, 25), (8, 23), (8, 24), (9, 24), (10, 24),
     (11, 24), (12, 24), (13, 24), (13, 23), (13, 18), (14, 19), (14, 20), (14, 21), (14, 22)]"

definition letter_A :: "(u32 \<times> u32) list" where
  "letter_A =
    [(9, 27), (9, 28), (9, 29), (10, 26), (10, 29), (10, 30), (11, 30), (12, 27), (12, 28),
     (12, 29), (12, 30), (13, 26), (13, 27), (13, 30), (14, 27), (14, 28), (14, 29), (14, 30)]"

definition letter_T :: "(u32 \<times> u32) list" where
  "letter_T =
    [(8, 33), (9, 33), (10, 32), (10, 33), (10, 34), (10, 35), (10, 36), (11, 33), (11, 35),
     (12, 33), (13, 33), (13, 34), (14, 34), (14, 35), (14, 36), (14, 37)]"

definition letter_O :: "(u32 \<times> u32) list" where
  "letter_O =
    [(6, 43), (6, 44), (6, 45), (7, 40), (7, 41), (7, 42), (7, 45), (7, 46), (7, 47), (8, 39),
     (8, 40), (8, 47), (8, 48), (9, 39), (9, 49), (10, 39), (10, 48), (10, 49), (11, 39),
     (11, 48), (11, 49), (12, 39), (12, 40), (12, 48), (12, 49), (13, 40), (13, 41), (13, 47),
     (13, 48), (14, 42), (14, 43), (14, 44), (14, 45), (14, 46), (14, 47), (14, 48)]"

definition letter_S :: "(u32 \<times> u32) list" where
  "letter_S =
    [(6, 54), (6, 55), (6, 56), (6, 57), (6, 58), (7, 52), (7, 53), (7, 54), (7, 58), (7, 59),
     (8, 52), (8, 53), (8, 58), (8, 59), (9, 53), (10, 54), (10, 55), (10, 56), (11, 57),
     (11, 58), (12, 58), (13, 58), (13, 51), (13, 52), (14, 53), (14, 54), (14, 55), (14, 56),
     (14, 57)]"

definition paint :: "u32 \<Rightarrow> (u32 \<times> u32) list \<Rightarrow> shell \<Rightarrow> shell" where
  "paint blank cells = fold (\<lambda>(row, col). call (Call 16 row col blank)) cells"

definition draw_letters :: "u32 \<Rightarrow> shell \<Rightarrow> shell" where
  "draw_letters blank s =
     paint blank letter_S (paint blank letter_O (paint blank letter_T (paint blank letter_A (paint blank letter_J s))))"

definition draw_at_once :: "u32 \<Rightarrow> shell \<Rightarrow> shell" where
  "draw_at_once blank s = paint blank (letter_J @ letter_A @ letter_T @ letter_O @ letter_S) s"

definition print_jatos :: "u32 \<Rightarrow> shell \<Rightarrow> shell" where
  "print_jatos blank s = call (Call 8 0 0 0) (draw_at_once blank (call (Call 8 0 0 0) (draw_letters blank s)))"

lemma paint_trace: "paint blank cells s = s\<lparr>trace := trace s @ map (\<lambda>(r, c). Call 16 r c blank) cells\<rparr>"
  by (induction cells arbitrary: s) (auto simp: paint_def call_def)

text \<open>Both drawings paint the same cells, all of them on the 25 by 80 screen, and nothing else happens.\<close>

definition logo :: "(u32 \<times> u32) list" where
  "logo = letter_J @ letter_A @ letter_T @ letter_O @ letter_S"

lemma logo_on_screen: "\<forall>(r, c) \<in> set logo. r < 25 \<and> c < 80"
  by (simp add: logo_def letter_J_def letter_A_def letter_T_def letter_O_def letter_S_def)

lemma print_jatos_trace:
  "print_jatos blank s = s\<lparr>trace := trace s @ map (\<lambda>(r, c). Call 16 r c blank) logo @ [Call 8 0 0 0] @
     map (\<lambda>(r, c). Call 16 r c blank) logo @ [Call 8 0 0 0]\<rparr>"
  by (simp add: print_jatos_def draw_letters_def draw_at_once_def paint_trace call_def logo_def)

end
