(* ===== verification/ShellCommands.thy ===== *)
theory ShellCommands
  imports ShellLogo
begin

text \<open>
  The user shell, second part of \<^verbatim>\<open>src/src/user-shell.c\<close>: find, kill, cp, mv and exec, the
  dispatcher and the main loop with its line editor. Writing past one of the fixed arrays of
  the code is a fault, as is an index outside a table.
\<close>

section \<open>find\<close>

text \<open>Storing the return code of a system call in the low byte of a word.\<close>

definition store_code :: "u32 \<Rightarrow> int \<Rightarrow> u32" where
  "store_code w r = (w AND NOT 0xFF) OR (of_int r AND 0xFF)"

definition target_name :: "u8 list \<Rightarrow> nat \<Rightarrow> u8 list" where
  "target_name command len = map (\<lambda>i. if 5 + i \<ge> len then 0 else command ! (5 + i)) [0..<8]"

fun print_path :: "u8 list list \<Rightarrow> shell \<Rightarrow> shell" where
  "print_path [] s = s"
| "print_path (p # ps) s = print_path ps (say ''/'' BLUE (put p (name_length p) BLUE s))"

definition print_found :: "u8 list \<Rightarrow> nat \<Rightarrow> node_dir \<Rightarrow> dir_entry \<Rightarrow> shell \<Rightarrow> shell" where
  "print_found target targetLen h e s =
     say_line '''' WHITE (put (de_name e) 8 BLUE (print_path (take (nEff h) (nama_path h))
       (say_line '' ditemukan pada'' WHITE (put target targetLen GRAY s))))"

text \<open>Adding a directory to the queue, with its path from the root.\<close>

definition enqueue :: "dir_entry \<Rightarrow> nat \<Rightarrow> node_dir list \<times> nat \<times> nat \<Rightarrow> (node_dir list \<times> nat \<times> nat) res" where
  "enqueue e qHead st =
     (let (queue, qTail, qNeff) = st; q1 = (if qTail + 1 + 1 = 512 then 0 else qTail + 1) in
      bindE (arr_get queue qHead) (\<lambda>h.
      bindE (arr_get queue q1) (\<lambda>old.
      let n = nEff h in
      if n \<ge> 10 then Inl Out_Of_Bounds
      else Inr (queue[q1 := \<lparr>nama = de_name e,
                  cluster_path = take n (cluster_path h) @ entry_cluster e # drop (n + 1) (cluster_path old),
                  nEff = n + 1,
                  nama_path = take n (nama_path h) @ de_name e # drop (n + 1) (nama_path old)\<rparr>], q1, qNeff + 1))))"

definition find_entry ::
  "u8 list \<Rightarrow> nat \<Rightarrow> nat \<Rightarrow> dir_entry list \<Rightarrow> shell \<Rightarrow> nat \<Rightarrow> node_dir list \<times> nat \<times> nat \<Rightarrow>
   ((node_dir list \<times> nat \<times> nat, shell) ctl) res" where
  "find_entry target targetLen qHead t s i st =
     (let e = t ! i in
      if bytes_cmp (de_name e) target = 0
      then bindE (arr_get (fst st) qHead) (\<lambda>h. Inr (Ret (print_found target targetLen h e s)))
      else if de_attribute e = ATR_DIRECTORY then bindE (enqueue e qHead st) (\<lambda>st1. Inr (Next st1))
      else Inr (Next st))"

partial_function (option) find_loop ::
  "junk \<Rightarrow> u8 list \<Rightarrow> nat \<Rightarrow> nat \<Rightarrow> node_dir list \<times> nat \<times> nat \<Rightarrow> shell \<Rightarrow> (shell res) option" where
  "find_loop j target targetLen qHead st s =
     (if snd (snd st) = 0 then Some (Inr (say_line ''file/folder tidak ditemukan'' RED s))
      else bindO (Some (arr_get (fst st) qHead)) (\<lambda>h.
        bindO (Some (arr_get (cluster_path h) (if nEff h = 1 then 0 else nEff h - 2))) (\<lambda>parent.
        bindO (Some (list_directory (fst (junk_round j qHead)) (nama h) parent s)) (\<lambda>(r, t).
        let s1 = (if store_code (snd (junk_round j qHead)) r \<noteq> 0 then say_line ''gagal baca'' RED s else s) in
        case forE (find_entry target targetLen qHead t s1) [1..<DIR_ENTRIES] st of
          Inl e \<Rightarrow> Some (Inl e)
        | Inr (Ret s2) \<Rightarrow> Some (Inr s2)
        | Inr (Next st1) \<Rightarrow> find_loop j target targetLen (qHead + 1) (fst st1, fst (snd st1), snd (snd st1) - 1) s1
        | Inr (Brk st1) \<Rightarrow> find_loop j target targetLen (qHead + 1) (fst st1, fst (snd st1), snd (snd st1) - 1) s1))))"

definition root_node :: "node_dir \<Rightarrow> node_dir" where
  "root_node old = old\<lparr>nama := root_name, cluster_path := (cluster_path old)[0 := 2], nEff := 1,
     nama_path := (nama_path old)[0 := root_name]\<rparr>"

definition find_command :: "junk \<Rightarrow> u8 list \<Rightarrow> nat \<Rightarrow> shell \<Rightarrow> (shell res) option" where
  "find_command j command len s =
     (if len > 13 then Some (Inr (say_line ''nama file terlalu panjang'' RED s))
      else let target = target_name command len; q = junk_queue j in
        if bytes_cmp root_name target = 0 then Some (Inr (say_line ''root'' WHITE s))
        else find_loop j target (min 8 (len - 5)) 0 (q[0 := root_node (q ! 0)], 0, 1) s)"

section \<open>kill\<close>

definition shell_numbers :: "u8 list list" where
  "shell_numbers = map codes [''0'', ''1'', ''2'', ''3'', ''4'', ''5'', ''6'', ''7'', ''8'', ''9'', ''10'', ''11'',
     ''12'', ''13'', ''14'', ''15'']"

definition pid_number :: "u8 list \<Rightarrow> nat option" where
  "pid_number pid = find (\<lambda>i. bytes_cmp (take 2 (shell_numbers ! i @ [0])) pid = 0) [0..<16]"

definition kill :: "u8 list \<Rightarrow> shell \<Rightarrow> shell" where
  "kill pid s =
     (let invalid = say_line ''pid tidak valid'' RED s in
      case pid_number pid of
        None \<Rightarrow> invalid
      | Some pidInt \<Rightarrow>
          if (pidInt > 0 \<and> clock_is_running s = 0) \<or> (pidInt > 1 \<and> clock_is_running s = 1) then invalid
          else let s1 = call (Call 9 (of_nat pidInt) 0 0) s in
            if pidInt = 1
            then fold (\<lambda>c. call (Call 13 24 c 32)) [72, 73, 74, 75, 76, 77, 78, 79] (s1\<lparr>clock_is_running := 0\<rparr>)
            else s1)"

section \<open>cp\<close>

text \<open>An argument of at most eight characters up to a blank; None when it is longer.\<close>

fun parse_name :: "u8 list \<Rightarrow> nat list \<Rightarrow> u8 list \<Rightarrow> u8 list option" where
  "parse_name command [] acc = Some acc"
| "parse_name command (i # ks) acc =
     (if command ! i = 32 then Some acc
      else if length acc > 7 then None
      else parse_name command ks (acc @ [command ! i]))"

text \<open>The array of eight characters it is stored in, the rest of it uninitialised.\<close>

definition in_array :: "u8 list \<Rightarrow> u8 list \<Rightarrow> u8 list" where
  "in_array uninitialised acc = acc @ drop (length acc) uninitialised"

partial_function (option) round_up :: "u32 \<Rightarrow> u32 \<Rightarrow> u32 option" where
  "round_up r n = (if r < n then round_up (r + of_nat CLUSTER_SIZE) n else Some r)"

definition copy_file :: "junk \<Rightarrow> u8 list \<Rightarrow> u8 list \<Rightarrow> dir_entry \<Rightarrow> shell \<Rightarrow> (shell res) option" where
  "copy_file j source dest e s =
     (case round_up 0 (de_filesize e) of None \<Rightarrow> None | Some rounded_file_size \<Rightarrow>
      let rq = \<lparr>rq_buf = 0, rq_name = source, rq_ext = [0, 0, 0],
                rq_parent_cluster_number = CURRENT_DIR_PARENT_CLUSTER_NUMBER s, rq_buffer_size = rounded_file_size\<rparr> in
      bindO (read_array j rq s) (\<lambda>(retcode, m).
      if retcode \<noteq> 0 then Some (Inr (say_line ''Copy gagal'' RED s))
      else let rq = \<lparr>rq_buf = 0, rq_name = dest, rq_ext = de_ext e,
                rq_parent_cluster_number = CURRENT_DIR_CLUSTER_NUMBER s, rq_buffer_size = de_filesize e\<rparr> in
        bindO (write_file j rq m s) (\<lambda>(retcode, s1).
        if retcode \<noteq> 0 then Some (Inr (say_line ''Copy gagal'' RED s1)) else Some (Inr s1))))"

definition cp :: "junk \<Rightarrow> u8 list \<Rightarrow> nat \<Rightarrow> shell \<Rightarrow> (shell res) option" where
  "cp j command len s =
     (case parse_name command [3..<len] [] of
        None \<Rightarrow> Some (Inr (say_line ''Source tidak valid'' RED s))
      | Some src \<Rightarrow>
      case parse_name command [length src + 4..<len] [] of
        None \<Rightarrow> Some (Inr (say_line ''Dest tidak valid'' RED s))
      | Some dst \<Rightarrow>
      if src = [] \<or> dst = [] then Some (Inr (say_line ''Input tidak valid'' RED s))
      else let s1 = say_line '''' WHITE (put dst (length dst) WHITE (say '' to '' WHITE
                      (put src (length src) WHITE (say ''Copying '' WHITE s)))) in
        bindO (Some (current_table j s1)) (\<lambda>(retcode, t).
        if retcode \<noteq> 0 then Some (Inr (put (codes ''dir table corrupt'' @ [10]) 17 WHITE s1))
        else case find_name t (in_array (junk_name j) src) of
            None \<Rightarrow> Some (Inr (say_line ''Source tidak valid'' RED s1))
          | Some i \<Rightarrow>
              if entry_cluster (t ! i) = 0 then Some (Inr (say_line ''Source tidak valid'' RED s1))
              else copy_file j (in_array (junk_name j) src) (in_array (junk_dest j) dst) (t ! i) s1))"

section \<open>mv\<close>

text \<open>\<open>mv\<close> keeps its target in an array of 512 zeros.\<close>

definition parse_word :: "u8 list \<Rightarrow> nat list \<Rightarrow> u8 list" where
  "parse_word command ks = takeWhile (\<lambda>c. c \<noteq> 32) (map ((!) command) ks)"

definition dest_array :: "u8 list \<Rightarrow> u8 list" where
  "dest_array dst = dst @ replicate (512 - length dst) 0"

definition mv_rename :: "junk \<Rightarrow> u8 list \<Rightarrow> u8 list \<Rightarrow> shell \<Rightarrow> shell res" where
  "mv_rename j source dst s =
     (if length dst > 8 then Inr (say_line ''Nama file target terlalu panjang'' RED s)
      else bindE (current_table j s) (\<lambda>(r, t).
        if store_code (junk_word j) r \<noteq> 0 then Inr (put (codes ''dir table corrupt'' @ [10]) 17 WHITE s)
        else case find_name t source of
            None \<Rightarrow> Inr (say_line ''File source tidak ditemukan'' RED s)
          | Some i \<Rightarrow> write_table (t[i := (t ! i)\<lparr>de_name := take 8 (dest_array dst)\<rparr>])
                        (CURRENT_DIR_PARENT_CLUSTER_NUMBER s) s))"

text \<open>Splitting the target at its slashes: depth, \<open>path_list\<close>, \<open>temp_path\<close> and \<open>temp_len\<close>. The
  message about an invalid name comes after the array has been overrun, so it never comes.\<close>

type_synonym split_state = "nat \<times> u8 list list \<times> u8 list \<times> nat"

definition mv_split :: "u8 list \<Rightarrow> nat \<Rightarrow> split_state \<Rightarrow> ((split_state, unit) ctl) res" where
  "mv_split dst i st =
     (let (depth, path_list, temp_path, temp_len) = st; slash = of_char CHR ''/'' in
      bindE (if dst ! i \<noteq> slash
             then (if temp_len < 8 then Inr (temp_path[temp_len := dst ! i], temp_len + 1) else Inl Stack_Smash)
             else Inr (temp_path, temp_len)) (\<lambda>(temp_path, temp_len).
      if temp_len > 8 then Inr (Ret ())
      else if dst ! i = slash \<or> i = length dst - 1
      then bindE (arr_set path_list (depth + 1) temp_path) (\<lambda>path_list.
             Inr (Next (depth + 1, path_list, replicate 8 0, 0)))
      else Inr (Next (depth, path_list, temp_path, temp_len))))"

text \<open>Following the path from the root; the last component gets the entry.\<close>

fun mv_walk :: "dir_entry \<Rightarrow> dir_entry list \<Rightarrow> u8 list list \<Rightarrow> nat \<Rightarrow> nat list \<Rightarrow> dir_entry list \<Rightarrow> u32 \<Rightarrow> u32 \<Rightarrow>
    shell \<Rightarrow> shell res" where
  "mv_walk e source_table path_list depth [] t final_parent prev_parent s = Inr s"
| "mv_walk e source_table path_list depth (i # ks) t final_parent prev_parent s =
     (if i = depth then
        (case free_slot t of
           None \<Rightarrow> mv_walk e source_table path_list depth ks t final_parent prev_parent s
         | Some k \<Rightarrow>
             bindE (write_table (t[k := e\<lparr>de_name := path_list ! i, de_user_attribute := UATTR_NOT_EMPTY,
                                     de_attribute := ATR_FILE\<rparr>]) final_parent s) (\<lambda>s1.
             write_table source_table (CURRENT_DIR_PARENT_CLUSTER_NUMBER s1) s1))
      else case find_name t (path_list ! i) of
          None \<Rightarrow> Inr (say_line ''Path tidak valid2'' RED s)
        | Some k \<Rightarrow>
            bindE (list_directory (\<lambda>_. 0) (path_list ! i) prev_parent s) (\<lambda>(r, t1).
            if r \<noteq> 0 then Inr (say_line ''Path tidak valid1'' RED s)
            else mv_walk e source_table path_list depth ks t1 (entry_cluster (t ! k)) (entry_cluster (t ! k)) s))"

definition mv_move :: "junk \<Rightarrow> u8 list \<Rightarrow> u8 list \<Rightarrow> shell \<Rightarrow> shell res" where
  "mv_move j source dst s =
     bindE (current_table j s) (\<lambda>(r, t).
     if store_code (junk_word j) r \<noteq> 0 then Inr (put (codes ''dir table corrupt'' @ [10]) 17 WHITE s)
     else case find_name t source of
         None \<Rightarrow> Inr (say_line ''File source tidak ditemukan'' RED s)
       | Some i \<Rightarrow>
           let e = t ! i; source_table = t[i := e\<lparr>de_name := replicate 8 0\<rparr>];
               path_list = root_name # junk_paths j in
           bindE (forE (mv_split dst) [1..<length dst] (0, path_list, junk_temp j, 0)) (\<lambda>c. case c of
             Ret _ \<Rightarrow> Inr (say_line ''Nama folder/file tidak valid'' RED s)
           | Brk _ \<Rightarrow> Inr s
           | Next (depth, path_list, _, _) \<Rightarrow>
               bindE (list_directory (junk_mem j) root_name 2 s) (\<lambda>(r, t1).
               if r \<noteq> 0 then Inr (say_line ''Path tidak valid1'' RED s)
               else mv_walk e source_table path_list depth [1..<depth + 1] t1 2 2 s)))"

definition mv :: "junk \<Rightarrow> u8 list \<Rightarrow> nat \<Rightarrow> shell \<Rightarrow> shell res" where
  "mv j command len s =
     (case parse_name command [3..<len] [] of
        None \<Rightarrow> Inr (say_line ''Source tidak valid'' RED s)
      | Some src \<Rightarrow>
          let dst = parse_word command [length src + 4..<len] in
          if src = [] \<or> dst = [] then Inr (say_line ''Input tidak valid'' RED s)
          else if command ! (length src + 4) \<noteq> of_char CHR ''/'' then mv_rename j (in_array (junk_name j) src) dst s
          else mv_move j (in_array (junk_name j) src) dst s)"

section \<open>exec\<close>

definition exec :: "junk \<Rightarrow> u8 list \<Rightarrow> nat \<Rightarrow> shell \<Rightarrow> shell" where
  "exec j command len s =
     (case parse_name command [5..<len] [] of
        None \<Rightarrow> say_line ''Program tidak valid'' RED s
      | Some prog_name \<Rightarrow>
          let rq = \<lparr>rq_buf = 0, rq_name = in_array (junk_name j) prog_name, rq_ext = [0, 0, 0],
                    rq_parent_cluster_number = ROOT_CLUSTER_NUMBER, rq_buffer_size = 0x100000\<rparr> in
          if bytes_cmp (take 5 (rq_name rq)) (codes ''clock'') \<noteq> 0 then say_line ''Program tidak ditemukan'' RED s
          else if clock_is_running s = 1 then say_line ''Clock sudah berjalan'' RED s
          else (call (Start rq) s)\<lparr>clock_is_running := 1\<rparr>)"

section \<open>The dispatcher\<close>

text \<open>
  \<open>executeCommand\<close> is a sequence of conditionals, some of which return: a stage gives the
  state and whether it goes on.
\<close>

type_synonym stage = "shell \<Rightarrow> (((shell, shell) ctl) res) option"

definition go_on :: "(shell res) option \<Rightarrow> (((shell, shell) ctl) res) option" where
  "go_on r = bindO r (\<lambda>s. Some (Inr (Next s)))"

definition return_now :: "(shell res) option \<Rightarrow> (((shell, shell) ctl) res) option" where
  "return_now r = bindO r (\<lambda>s. Some (Inr (Ret s)))"

definition and_then :: "(((shell, shell) ctl) res) option \<Rightarrow> stage \<Rightarrow> (((shell, shell) ctl) res) option" where
  "and_then r f = bindO r (\<lambda>c. case c of Next s \<Rightarrow> f s | Brk s \<Rightarrow> Some (Inr (Brk s)) | Ret s \<Rightarrow> Some (Inr (Ret s)))"

text \<open>
  The name handed to rm, cat and mkdir: what follows the command word, in an array of just that
  length, and the padding to eight bytes, which is stored behind the array.
\<close>

definition argument :: "u8 list \<Rightarrow> nat \<Rightarrow> nat \<Rightarrow> (u8 list) res" where
  "argument command k len =
     (let n = len - k; padding = k + 8 - len in
      if array_room n < n + padding then Inl Stack_Smash
      else Inr (take n (drop k command) @ replicate padding 0))"

definition stage_ls :: "junk \<Rightarrow> u8 list \<Rightarrow> stage" where
  "stage_ls j command s =
     (if starts_with command ''ls'' then go_on (Some (ls j s))
      else if starts_with command ''ps'' then go_on (Some (Inr (call (Call 10 0 0 0) s)))
      else Some (Inr (Next s)))"

definition stage_3 :: "junk \<Rightarrow> u8 list \<Rightarrow> nat \<Rightarrow> stage" where
  "stage_3 j command len s =
     (if starts_with command ''cd '' then go_on (Some (cd j command len s))
      else if starts_with command ''cp '' then go_on (cp j command len s)
      else if starts_with command ''rm '' then
        (if len > 11 then return_now (Some (Inr (say_line ''nama file terlalu panjang'' WHITE s)))
         else return_now (bindO (Some (argument command 3 len)) (\<lambda>name. rm j name s)))
      else if starts_with command ''mv '' then go_on (Some (mv j command len s))
      else Some (Inr (Next s)))"

definition stage_4 :: "junk \<Rightarrow> u8 list \<Rightarrow> nat \<Rightarrow> stage" where
  "stage_4 j command len s =
     (if starts_with command ''cat '' then
        (if len > 12 then return_now (Some (Inr (say_line ''nama file terlalu panjang'' WHITE s)))
         else return_now (bindO (Some (argument command 4 len)) (\<lambda>name. cat j name s)))
      else if starts_with command ''clear'' then return_now (Some (Inr (call (Call 8 0 0 0) s)))
      else if starts_with command ''exec '' then go_on (Some (Inr (exec j command len s)))
      else Some (Inr (Next s)))"

definition stage_5 :: "junk \<Rightarrow> u8 list \<Rightarrow> nat \<Rightarrow> stage" where
  "stage_5 j command len s =
     (if starts_with command ''find '' then return_now (find_command j command len s)
      else if starts_with command ''kill'' then
        (if len > 7 then Some (Inl Stack_Smash)
         else go_on (Some (Inr (kill (take (len - 5) (drop 5 command) @ replicate (7 - len) 0) s))))
      else Some (Inr (Next s)))"

definition stage_6 :: "junk \<Rightarrow> u8 list \<Rightarrow> nat \<Rightarrow> stage" where
  "stage_6 j command len s =
     (if starts_with command ''mkdir '' then
        (if len > 14 then return_now (Some (Inr (say_line ''nama folder terlalu panjang'' WHITE s)))
         else return_now (bindO (Some (argument command 6 len)) (\<lambda>name. mkdir j name s)))
      else Some (Inr (Next s)))"

definition at_length :: "bool \<Rightarrow> stage \<Rightarrow> stage" where
  "at_length b f s = (if b then f s else Some (Inr (Next s)))"

definition executeCommand :: "junk \<Rightarrow> u8 list \<Rightarrow> nat \<Rightarrow> shell \<Rightarrow> (shell res) option" where
  "executeCommand j command len s =
     bindO (and_then (stage_ls j command s)
       (at_length (len > 3) (\<lambda>s. and_then (stage_3 j command len s)
         (\<lambda>s. and_then (at_length (len > 4) (stage_4 j command len) s)
           (\<lambda>s. and_then (at_length (len > 5) (stage_5 j command len) s)
             (at_length (len > 6) (stage_6 j command len))))))) (\<lambda>c.
     case c of Next s \<Rightarrow> Some (Inr s) | Brk s \<Rightarrow> Some (Inr s) | Ret s \<Rightarrow> Some (Inr s))"

section \<open>The main loop\<close>

text \<open>The shell, its line buffer and the number of characters typed.\<close>

record session =
  sh :: shell
  line :: "u8 list"
  typed :: nat

definition main_start :: "u32 \<Rightarrow> fat32 \<Rightarrow> session res" where
  "main_start blank f =
     (let s0 = \<lparr>CURRENT_DIR_CLUSTER_NUMBER = 2, CURRENT_DIR_PARENT_CLUSTER_NUMBER = 2, DEPTH = 0,
                DIR_PATH = root_name # replicate 9 (replicate 8 0), DIR_CLUSTERS = 2 # replicate 9 (- 1),
                clock_is_running = 0, disk = f, trace = []\<rparr> in
      bindE (print_terminal_text (call (Call 7 0 0 0) (print_jatos blank s0))) (\<lambda>s1.
      bindE (print_terminal_text (call (Call 8 0 0 0) s1)) (\<lambda>s2.
      Inr \<lparr>sh = s2, line = replicate KEYBOARD_BUFFER_SIZE 0, typed = 0\<rparr>)))"

text \<open>One round of the loop, on the character the keyboard call delivers.\<close>

definition main_step :: "junk \<Rightarrow> u8 \<Rightarrow> session \<Rightarrow> (session res) option" where
  "main_step j keyboard_input st =
     (if keyboard_input = 0 then Some (Inr st)
      else if keyboard_input = 8 then
        (if typed st > 0
         then bindO (Some (arr_set (line st) (typed st - 1) 0)) (\<lambda>buf.
                Some (Inr (st\<lparr>typed := typed st - 1, line := buf\<rparr>)))
         else Some (Inr (st\<lparr>sh := call (Put [] 0) (sh st)\<rparr>)))
      else if keyboard_input = 10 then
        bindO (executeCommand j (line st) (typed st) (say_line '''' WHITE (sh st))) (\<lambda>s1.
        bindO (Some (print_terminal_text s1)) (\<lambda>s2.
        Some (Inr \<lparr>sh = s2, line = replicate KEYBOARD_BUFFER_SIZE 0, typed = 0\<rparr>)))
      else bindO (Some (arr_set (line st) (typed st) keyboard_input)) (\<lambda>buf.
        Some (Inr (st\<lparr>line := buf, typed := typed st + 1\<rparr>))))"

fun main_run :: "(junk \<times> u8) list \<Rightarrow> session \<Rightarrow> (session res) option" where
  "main_run [] st = Some (Inr st)"
| "main_run ((j, c) # cs) st = bindO (main_step j c st) (main_run cs)"

end
