(* ===== verification/ShellLocation.thy ===== *)
theory ShellLocation
  imports ShellCommands FatSpec
begin

text \<open>
  Where the shell is: the bookkeeping invariant of its current directory, kept by every
  command and every key, and \<open>cd\<close> as the implementation of walking a path in the directory
  tree, one step per component.
\<close>

section \<open>Frames of the shell's calls\<close>

lemma call_simps [simp]:
  "DEPTH (call e s) = DEPTH s" "DIR_PATH (call e s) = DIR_PATH s" "DIR_CLUSTERS (call e s) = DIR_CLUSTERS s"
  "CURRENT_DIR_CLUSTER_NUMBER (call e s) = CURRENT_DIR_CLUSTER_NUMBER s"
  "CURRENT_DIR_PARENT_CLUSTER_NUMBER (call e s) = CURRENT_DIR_PARENT_CLUSTER_NUMBER s"
  "clock_is_running (call e s) = clock_is_running s" "disk (call e s) = disk s" "trace (call e s) = trace s @ [e]"
  by (simp_all add: call_def)

lemma length_codes [simp]: "length (codes t) = length t"
  by (simp add: codes_def)

lemma say_call: "say t c = call (Put (codes t) c)" "say_line t c = call (Put (codes t @ [10]) c)"
  "put x n c = call (Put (take n x) c)"
  by (simp_all add: say_def say_line_def put_def)

text \<open>The fields that say where the shell is.\<close>

definition place :: "shell \<Rightarrow> u32 \<times> u32 \<times> nat \<times> u8 list list \<times> u32 list" where
  "place s = (CURRENT_DIR_CLUSTER_NUMBER s, CURRENT_DIR_PARENT_CLUSTER_NUMBER s, DEPTH s, DIR_PATH s, DIR_CLUSTERS s)"

lemma place_simps [simp]:
  "place (call e s) = place s" "place (s\<lparr>disk := f\<rparr>) = place s" "place (s\<lparr>trace := es\<rparr>) = place s"
  "place (s\<lparr>clock_is_running := c\<rparr>) = place s"
  "place (say t k s) = place s" "place (say_line t k s) = place s" "place (put x n k s) = place s"
  by (simp_all add: place_def say_call)

lemma table_ok_listed: "list_directory jm name parent s = Inr (r, t) \<Longrightarrow> table_ok t"
  by (auto simp: list_directory_def bindE_eq_Inr CLUSTER_SIZE_val intro!: table_ok_of)

section \<open>The bookkeeping invariant\<close>

definition place_ok :: "shell \<Rightarrow> bool" where
  "place_ok s \<longleftrightarrow> DEPTH s < 10 \<and> length (DIR_PATH s) = 10 \<and> length (DIR_CLUSTERS s) = 10 \<and>
     (\<forall>n \<in> set (DIR_PATH s). length n = 8) \<and> DIR_PATH s ! 0 = root_name \<and> DIR_CLUSTERS s ! 0 = ROOT_CLUSTER_NUMBER \<and>
     CURRENT_DIR_CLUSTER_NUMBER s = DIR_CLUSTERS s ! DEPTH s \<and>
     CURRENT_DIR_PARENT_CLUSTER_NUMBER s = DIR_CLUSTERS s ! (DEPTH s - 1)"

lemma place_ok_cong: "place s = place s' \<Longrightarrow> place_ok s = place_ok s'"
  by (simp add: place_def place_ok_def)

text \<open>The parts of it that hold while \<open>cd\<close> walks: the arrays, with the first \<open>d\<close> entries as they were.\<close>

definition arrays_ok :: "shell \<Rightarrow> bool" where
  "arrays_ok s \<longleftrightarrow> length (DIR_PATH s) = 10 \<and> length (DIR_CLUSTERS s) = 10 \<and> (\<forall>n \<in> set (DIR_PATH s). length n = 8)"

definition same_upto :: "nat \<Rightarrow> shell \<Rightarrow> shell \<Rightarrow> bool" where
  "same_upto d s s' \<longleftrightarrow> (\<forall>k\<le>d. DIR_PATH s' ! k = DIR_PATH s ! k \<and> DIR_CLUSTERS s' ! k = DIR_CLUSTERS s ! k) \<and>
     CURRENT_DIR_CLUSTER_NUMBER s' = CURRENT_DIR_CLUSTER_NUMBER s \<and>
     CURRENT_DIR_PARENT_CLUSTER_NUMBER s' = CURRENT_DIR_PARENT_CLUSTER_NUMBER s \<and> DEPTH s' = DEPTH s \<and>
     disk s' = disk s \<and> clock_is_running s' = clock_is_running s"

lemma same_upto_refl [simp]: "same_upto d s s"
  by (simp add: same_upto_def)

lemma same_upto_trans: "same_upto d s t \<Longrightarrow> same_upto d' t u \<Longrightarrow> d \<le> d' \<Longrightarrow> same_upto d s u"
  by (auto simp: same_upto_def)

lemma cd_step_arrays:
  assumes "cd_step jm path d s = Inr (r, s')" and "arrays_ok s"
  shows "arrays_ok s' \<and> same_upto d s s' \<and> (case r of None \<Rightarrow> True | Some d' \<Rightarrow> d' = d + 1 \<and> d' < 10)"
proof -
  obtain parent name rc t where l: "list_directory jm name parent s = Inr (rc, t)" and d: "d < 10"
    and st: "(if rc \<noteq> 0 then Inr (None, say_line ''directory tidak ditemukan'' RED (say_line ''failed to read request'' RED s))
      else case find (\<lambda>k. is_subdir path (t ! k)) [1..<DIR_ENTRIES] of
            None \<Rightarrow> Inr (None, say_line ''directory tidak ditemukan'' RED s)
          | Some k \<Rightarrow>
              bindE (arr_set (DIR_PATH s) (d + 1) (de_name (t ! k))) (\<lambda>ps.
              bindE (arr_set (DIR_CLUSTERS s) (d + 1) (entry_cluster (t ! k))) (\<lambda>cs.
              Inr (Some (d + 1), s\<lparr>DIR_PATH := ps, DIR_CLUSTERS := cs\<rparr>)))) = Inr (r, s')"
    using assms by (auto simp: cd_step_def bindE_eq_Inr arr_get_eq_Inr arrays_ok_def)
  have t: "table_ok t" using l by (rule table_ok_listed)
  show ?thesis
  proof (cases "rc \<noteq> 0 \<or> find (\<lambda>k. is_subdir path (t ! k)) [1..<DIR_ENTRIES] = None")
    case True
    then have "r = None" "place s' = place s" "disk s' = disk s" "clock_is_running s' = clock_is_running s"
      using st by (auto simp: say_call split: if_splits)
    then show ?thesis using assms(2) by (simp add: place_def arrays_ok_def same_upto_def)
  next
    case False
    then obtain k where k: "find (\<lambda>k. is_subdir path (t ! k)) [1..<DIR_ENTRIES] = Some k" "rc = 0" by auto
    then have "k < 64" by (simp add: find_upt_Some DIR_ENTRIES_val)
    then have n: "length (de_name (t ! k)) = 8" using t by (simp add: table_ok_def entry_ok_def)
    have s': "r = Some (d + 1)" "d + 1 < 10" "s' = s\<lparr>DIR_PATH := (DIR_PATH s)[d + 1 := de_name (t ! k)],
        DIR_CLUSTERS := (DIR_CLUSTERS s)[d + 1 := entry_cluster (t ! k)]\<rparr>"
      using st k assms(2) by (auto simp: bindE_eq_Inr arr_set_eq_Inr arrays_ok_def)
    show ?thesis using s' assms(2) n
      by (auto simp: arrays_ok_def same_upto_def dest!: set_update_subset_insert [THEN subsetD])
  qed
qed

lemma cd_loop_arrays:
  assumes "cd_loop jm command len i d s = Inr (r, s')" and "arrays_ok s" and "d < 10"
  shows "arrays_ok s' \<and> same_upto d s s' \<and> (case r of None \<Rightarrow> True | Some d' \<Rightarrow> d \<le> d' \<and> d' < 10 \<and> (i < len \<longrightarrow> d < d'))"
  using assms
proof (induction jm command len i d s arbitrary: r s' rule: cd_loop.induct)
  case (1 jm command len i d s)
  show ?case
  proof (cases "i < len")
    case False
    then show ?thesis using 1 by (subst (asm) cd_loop.simps) (auto split: option.split)
  next
    case True
    then obtain path k o1 s1 where c: "cd_component command len i [] = Inr (path, k)"
        and st: "cd_step jm path d s = Inr (o1, s1)"
      using "1.prems"(1) by (subst (asm) cd_loop.simps) (auto split: sum.splits prod.splits)
    note a = cd_step_arrays [OF st "1.prems"(2)]
    show ?thesis
    proof (cases o1)
      case None
      then show ?thesis using "1.prems"(1) True c st a by (subst (asm) cd_loop.simps) auto
    next
      case (Some d1)
      then have r: "cd_loop jm command len (k + 1) d1 s1 = Inr (r, s')"
        using "1.prems"(1) True c st by (subst (asm) cd_loop.simps) auto
      have d1: "d1 = d + 1" "d1 < 10" using a Some by simp_all
      have "arrays_ok s' \<and> same_upto d1 s1 s' \<and> (case r of None \<Rightarrow> True | Some d' \<Rightarrow> d1 \<le> d' \<and> d' < 10 \<and> (k + 1 < len \<longrightarrow> d1 < d'))"
        using "1.IH" [OF True c refl st refl Some r] a d1(2) by blast
      then show ?thesis using a d1 same_upto_trans [of d s s1 d1 s'] by (auto split: option.splits)
    qed
  qed
qed

lemma place_ok_arrays: "place_ok s \<Longrightarrow> arrays_ok s"
  by (simp add: place_ok_def arrays_ok_def)

lemma cd_place_ok:
  assumes "place_ok s" and "cd j command len s = Inr s'"
  shows "place_ok s'"
proof (cases "starts_with command ''cd ..''")
  case True
  then have "cd_dotdot s = Inr s'" using assms(2) by (simp add: cd_def)
  then show ?thesis using assms(1)
    by (cases "DEPTH s") (auto simp: cd_dotdot_def Let_def bindE_eq_Inr arr_get_eq_Inr arr_set_eq_Inr place_ok_def
        nth_list_update Suc_le_eq split: if_splits)
next
  case False
  then obtain r s1 where l: "cd_loop (junk_mem j) command len 3 (DEPTH s) s = Inr (r, s1)"
    using assms(2) by (auto simp: cd_def bindE_eq_Inr)
  have "DEPTH s < 10" using assms(1) by (simp add: place_ok_def)
  note a = cd_loop_arrays [OF l place_ok_arrays [OF assms(1)] this]
  have z: "DIR_PATH s1 ! 0 = root_name" "DIR_CLUSTERS s1 ! 0 = ROOT_CLUSTER_NUMBER"
    using a assms(1) by (auto simp: same_upto_def place_ok_def)
  show ?thesis
  proof (cases r)
    case None
    then have "s' = s1" using assms(2) False l by (simp add: cd_def)
    moreover have "DIR_CLUSTERS s1 ! (DEPTH s - 1) = DIR_CLUSTERS s ! (DEPTH s - 1)"
      using a by (auto simp: same_upto_def)
    ultimately show ?thesis using a z assms(1) by (auto simp: same_upto_def place_ok_def arrays_ok_def)
  next
    case (Some d)
    then show ?thesis using a z assms(2) False l
      by (auto simp: cd_def bindE_eq_Inr arr_get_eq_Inr place_ok_def arrays_ok_def split: if_splits)
  qed
qed

section \<open>The other commands stay where they are\<close>

lemma ls_entry_place [simp]: "place (ls_entry i e s) = place s" "disk (ls_entry i e s) = disk s"
  by (simp_all add: ls_entry_def Let_def say_call)

lemma fold_ls_place [simp]:
  "place (fold (\<lambda>i. ls_entry i (t ! i)) ks s) = place s" "disk (fold (\<lambda>i. ls_entry i (t ! i)) ks s) = disk s"
  by (induction ks arbitrary: s) simp_all

lemma ls_place: "ls j s = Inr s' \<Longrightarrow> place s' = place s \<and> disk s' = disk s"
  by (auto simp: ls_def bindE_eq_Inr say_call split: if_splits)

lemma cat_place: "cat j n s = Some (Inr s') \<Longrightarrow> place s' = place s"
  by (auto simp: cat_def bindO_eq Let_def split: if_splits prod.splits option.splits)

lemma write_file_place: "write_file j rq m s = Some (Inr (r, s')) \<Longrightarrow> place s' = place s"
  by (auto simp: write_file_def bindO_eq)

lemma delete_file_place: "delete_file rq s = Some (Inr (r, s')) \<Longrightarrow> place s' = place s"
  by (auto simp: delete_file_def bindO_eq)

lemma write_table_place: "write_table t c s = Inr s' \<Longrightarrow> place s' = place s"
  by (auto simp: write_table_def bindE_eq_Inr)

lemma mkdir_place: "mkdir j n s = Some (Inr s') \<Longrightarrow> place s' = place s"
  by (auto simp: mkdir_def bindO_eq Let_def split: if_splits dest: write_file_place)

lemma rm_place: "rm j n s = Some (Inr s') \<Longrightarrow> place s' = place s"
  by (auto simp: rm_def bindO_eq Let_def split: if_splits dest: delete_file_place)

lemma kill_place [simp]: "place (kill p s) = place s"
  by (simp add: kill_def Let_def split: option.split)

lemma exec_place [simp]: "place (exec j command len s) = place s"
  by (simp add: exec_def Let_def split: option.split)

lemma copy_file_place: "copy_file j a b e s = Some (Inr s') \<Longrightarrow> place s' = place s"
  by (auto simp: copy_file_def bindO_eq Let_def split: if_splits option.splits dest: write_file_place)

lemma cp_place: "cp j command len s = Some (Inr s') \<Longrightarrow> place s' = place s"
  by (auto simp: cp_def bindO_eq Let_def split: if_splits option.splits dest: copy_file_place)

lemma mv_rename_place: "mv_rename j a b s = Inr s' \<Longrightarrow> place s' = place s"
  by (auto simp: mv_rename_def bindE_eq_Inr split: if_splits option.splits dest: write_table_place)

lemma mv_walk_place: "mv_walk e st pl d ks t f p s = Inr s' \<Longrightarrow> place s' = place s"
proof (induction e st pl d ks t f p s rule: mv_walk.induct)
  case (2 e st pl d i ks t f p s)
  then show ?case by (auto simp: bindE_eq_Inr split: if_splits option.splits dest!: write_table_place)
qed simp

lemma mv_move_place:
  assumes "mv_move j a b s = Inr s'"
  shows "place s' = place s"
proof -
  obtain r t where c: "current_table j s = Inr (r, t)" using assms by (auto simp: mv_move_def bindE_eq_Inr)
  show ?thesis
  proof (cases "store_code (junk_word j) r \<noteq> 0 \<or> find_name t a = None")
    case True
    then show ?thesis using assms c by (auto simp: mv_move_def split: if_splits)
  next
    case False
    then obtain i where i: "find_name t a = Some i" by blast
    let ?F = "forE (mv_split b) [1..<length b] (0, root_name # junk_paths j, junk_temp j, 0)"
    obtain x where x: "?F = Inr x" using assms c False i by (auto simp: mv_move_def Let_def bindE_eq_Inr simp del: upt_Suc)
    show ?thesis
      using assms c False i x
      by (cases x) (auto simp: mv_move_def Let_def bindE_eq_Inr simp del: upt_Suc split: prod.split_asm if_splits dest: mv_walk_place)
  qed
qed

lemma mv_place: "mv j command len s = Inr s' \<Longrightarrow> place s' = place s"
  by (auto simp: mv_def Let_def split: if_splits option.splits dest: mv_rename_place mv_move_place)

lemma print_path_place [simp]: "place (print_path ps s) = place s"
  by (induction ps arbitrary: s) simp_all

lemma find_entries_ret:
  "forE (find_entry target n q t s) ks st = Inr (Ret s') \<Longrightarrow> place s' = place s"
  by (drule forE_invariant [where P = "\<lambda>_. True" and Q = "\<lambda>_. True" and R = "\<lambda>s'. place s' = place s"])
     (auto simp: find_entry_def Let_def bindE_eq_Inr print_found_def split: if_splits)

lemma find_loop_place:
  assumes "find_loop j target n q st s = Some r"
  shows "case r of Inl e \<Rightarrow> True | Inr s' \<Rightarrow> place s' = place s"
proof (rule find_loop.raw_induct [OF _ assms])
  fix find_loop :: "junk \<Rightarrow> u8 list \<Rightarrow> nat \<Rightarrow> nat \<Rightarrow> node_dir list \<times> nat \<times> nat \<Rightarrow> shell \<Rightarrow> (shell res) option"
    and j target n q st s r
  assume IH: "\<And>j target n q st s r. find_loop j target n q st s = Some r \<Longrightarrow> (case r of Inl e \<Rightarrow> True | Inr s' \<Rightarrow> place s' = place s)"
  assume "(if snd (snd st) = 0 then Some (Inr (say_line ''file/folder tidak ditemukan'' RED s))
      else bindO (Some (arr_get (fst st) q)) (\<lambda>h.
        bindO (Some (arr_get (cluster_path h) (if nEff h = 1 then 0 else nEff h - 2))) (\<lambda>parent.
        bindO (Some (list_directory (fst (junk_round j q)) (nama h) parent s)) (\<lambda>(r, t).
        let s1 = (if store_code (snd (junk_round j q)) r \<noteq> 0 then say_line ''gagal baca'' RED s else s) in
        case forE (find_entry target n q t s1) [1..<DIR_ENTRIES] st of
          Inl e \<Rightarrow> Some (Inl e)
        | Inr (Ret s2) \<Rightarrow> Some (Inr s2)
        | Inr (Next st1) \<Rightarrow> find_loop j target n (q + 1) (fst st1, fst (snd st1), snd (snd st1) - 1) s1
        | Inr (Brk st1) \<Rightarrow> find_loop j target n (q + 1) (fst st1, fst (snd st1), snd (snd st1) - 1) s1)))) = Some r"
  then show "case r of Inl e \<Rightarrow> True | Inr s' \<Rightarrow> place s' = place s"
    by (auto simp: bindO_def Let_def split: if_splits sum.split_asm ctl.split_asm prod.split_asm
        dest!: IH dest: find_entries_ret split: sum.split)
qed

lemma find_command_place: "find_command j command len s = Some (Inr s') \<Longrightarrow> place s' = place s"
  by (auto simp: find_command_def Let_def split: if_splits dest: find_loop_place)

section \<open>Commands and keys\<close>

text \<open>A stage keeps a property of states.\<close>

definition keeps :: "(shell \<Rightarrow> bool) \<Rightarrow> (((shell, shell) ctl) res) option \<Rightarrow> bool" where
  "keeps P r \<longleftrightarrow> (case r of Some (Inr (Next s)) \<Rightarrow> P s | Some (Inr (Brk s)) \<Rightarrow> P s | Some (Inr (Ret s)) \<Rightarrow> P s | _ \<Rightarrow> True)"

lemma keeps_basic [simp]: "keeps P (Some (Inr (Next s))) = P s" "keeps P (Some (Inl e))"
  by (simp_all add: keeps_def)

lemma keeps_go_on: "(\<And>s'. r = Some (Inr s') \<Longrightarrow> P s') \<Longrightarrow> keeps P (go_on r)"
  by (auto simp: keeps_def go_on_def bindO_def split: option.split sum.split)

lemma keeps_return: "(\<And>s'. r = Some (Inr s') \<Longrightarrow> P s') \<Longrightarrow> keeps P (return_now r)"
  by (auto simp: keeps_def return_now_def bindO_def split: option.split sum.split)

lemma and_then_simps [simp]:
  "and_then (Some (Inr (Next s))) f = f s" "and_then (Some (Inr (Ret s))) f = Some (Inr (Ret s))"
  "and_then (Some (Inr (Brk s))) f = Some (Inr (Brk s))" "and_then (Some (Inl e)) f = Some (Inl e)" "and_then None f = None"
  by (simp_all add: and_then_def)

lemma keeps_and_then:
  assumes "keeps P r" and "\<And>s. P s \<Longrightarrow> keeps P (f s)"
  shows "keeps P (and_then r f)"
proof (cases "\<exists>s. r = Some (Inr (Next s))")
  case True
  then show ?thesis using assms by auto
next
  case False
  then have "and_then r f = r" by (auto simp: and_then_def bindO_def split: option.split sum.split ctl.split)
  then show ?thesis using assms(1) by simp
qed

lemmas keeps_rules = keeps_go_on keeps_return keeps_and_then

lemma stage_ls_keeps: "place s = p \<Longrightarrow> keeps (\<lambda>s. place s = p) (stage_ls j command s)"
  by (auto simp: stage_ls_def intro!: keeps_go_on dest: ls_place)

lemma stage_4_keeps: "place s = p \<Longrightarrow> keeps (\<lambda>s. place s = p) (stage_4 j command len s)"
  by (auto simp: stage_4_def bindO_eq intro!: keeps_go_on keeps_return dest: cat_place)

lemma stage_5_keeps: "place s = p \<Longrightarrow> keeps (\<lambda>s. place s = p) (stage_5 j command len s)"
  by (auto simp: stage_5_def intro!: keeps_go_on keeps_return dest: find_command_place)

lemma stage_6_keeps: "place s = p \<Longrightarrow> keeps (\<lambda>s. place s = p) (stage_6 j command len s)"
  by (auto simp: stage_6_def bindO_eq intro!: keeps_return dest: mkdir_place)

lemma named_place: "bindO (Some a) (\<lambda>name. rm j name s) = Some (Inr s') \<Longrightarrow> place s' = place s"
  by (auto simp: bindO_eq dest: rm_place)

lemma stage_3_keeps:
  assumes "place_ok s"
  shows "keeps place_ok (stage_3 j command len s)"
    and "\<not> starts_with command ''cd '' \<Longrightarrow> keeps (\<lambda>s'. place s' = place s) (stage_3 j command len s)"
  using assms
  by (auto simp: stage_3_def place_ok_cong [OF place_simps(5)] place_ok_cong [OF place_simps(6)]
      intro!: keeps_go_on keeps_return
      dest: cp_place named_place mv_place cd_place_ok place_ok_cong)

lemma executeCommand_keeps:
  assumes "executeCommand j command len s = Some (Inr s')" and "P s"
    and "\<And>s. P s \<Longrightarrow> keeps P (stage_ls j command s)" "\<And>s. P s \<Longrightarrow> len > 3 \<Longrightarrow> keeps P (stage_3 j command len s)"
    and "\<And>s. P s \<Longrightarrow> keeps P (stage_4 j command len s)" "\<And>s. P s \<Longrightarrow> keeps P (stage_5 j command len s)"
    and "\<And>s. P s \<Longrightarrow> keeps P (stage_6 j command len s)"
  shows "P s'"
proof -
  let ?r = "and_then (stage_ls j command s)
       (at_length (len > 3) (\<lambda>s. and_then (stage_3 j command len s)
         (\<lambda>s. and_then (at_length (len > 4) (stage_4 j command len) s)
           (\<lambda>s. and_then (at_length (len > 5) (stage_5 j command len) s)
             (at_length (len > 6) (stage_6 j command len))))))"
  have "keeps P ?r"
    using assms(2-) by (auto simp: at_length_def intro!: keeps_and_then)
  then show ?thesis using assms(1) by (auto simp: executeCommand_def bindO_eq keeps_def split: ctl.splits)
qed

lemma executeCommand_place_ok:
  assumes "executeCommand j command len s = Some (Inr s')" and "place_ok s"
  shows "place_ok s'"
proof -
  have kept: "keeps (\<lambda>s'. place s' = place t) r \<Longrightarrow> place_ok t \<Longrightarrow> keeps place_ok r" for t r
    by (auto simp: keeps_def dest: place_ok_cong split: option.splits sum.splits ctl.splits)
  show ?thesis using assms
    by (rule executeCommand_keeps)
       (auto intro: kept stage_ls_keeps stage_3_keeps(1) stage_4_keeps stage_5_keeps stage_6_keeps)
qed

lemma executeCommand_place:
  assumes "executeCommand j command len s = Some (Inr s')" and "place_ok s" and "\<not> starts_with command ''cd ''"
  shows "place s' = place s"
  using assms(1)
proof (rule executeCommand_keeps)
  fix t assume t: "place t = place s"
  show "keeps (\<lambda>s'. place s' = place s) (stage_3 j command len t)"
    using stage_3_keeps(2) [OF _ assms(3), of t] t assms(2) place_ok_cong by metis
qed (auto intro: stage_ls_keeps stage_4_keeps stage_5_keeps stage_6_keeps)

lemma prompt_place: "print_terminal_text s = Inr s' \<Longrightarrow> place s' = place s \<and> disk s' = disk s"
proof -
  have "prompt_dirs ks t = Inr t' \<Longrightarrow> place t' = place t \<and> disk t' = disk t" for ks t t'
    by (induction ks arbitrary: t) (auto simp: bindE_eq_Inr say_call)
  then show "print_terminal_text s = Inr s' \<Longrightarrow> place s' = place s \<and> disk s' = disk s"
    by (fastforce simp: print_terminal_text_def Let_def bindE_eq_Inr say_call split: if_splits)
qed

lemma start_place_ok:
  assumes "main_start blank f = Inr st"
  shows "place_ok (sh st) \<and> disk (sh st) = f \<and> line st = replicate 256 0 \<and> typed st = 0"
proof -
  let ?s0 = "\<lparr>CURRENT_DIR_CLUSTER_NUMBER = 2, CURRENT_DIR_PARENT_CLUSTER_NUMBER = 2, DEPTH = 0,
                DIR_PATH = root_name # replicate 9 (replicate 8 0), DIR_CLUSTERS = 2 # replicate 9 (- 1),
                clock_is_running = 0, disk = f, trace = []\<rparr>"
  have p: "place (print_jatos blank s) = place s" "disk (print_jatos blank s) = disk s" for s
    by (simp_all add: print_jatos_trace)
  obtain s1 where s1: "print_terminal_text (call (Call 7 0 0 0) (print_jatos blank ?s0)) = Inr s1"
    and s2: "print_terminal_text (call (Call 8 0 0 0) s1) = Inr (sh st)"
    and st: "line st = replicate 256 0" "typed st = 0"
    using assms by (auto simp: main_start_def Let_def bindE_eq_Inr KEYBOARD_BUFFER_SIZE_def)
  have pl: "place (sh st) = place ?s0" "disk (sh st) = f"
    using prompt_place [OF s1] prompt_place [OF s2] by (simp_all add: p)
  have "place_ok ?s0" by (simp add: place_ok_def root_name_def ROOT_CLUSTER_NUMBER_def)
  then show ?thesis using pl st place_ok_cong by blast
qed

lemma main_step_ok:
  assumes "main_step j c st = Some (Inr st')" and "place_ok (sh st)" "length (line st) = 256" "typed st \<le> 256"
  shows "place_ok (sh st') \<and> length (line st') = 256 \<and> typed st' \<le> 256"
proof -
  have call: "place_ok (call e s) = place_ok s" for e s by (rule place_ok_cong) simp
  show ?thesis
  proof (cases "c = 10")
    case False
    then show ?thesis using assms
      by (auto simp: main_step_def bindO_eq arr_set_eq_Inr call split: if_splits)
  next
    case True
    then obtain s1 s2 where e: "executeCommand j (line st) (typed st) (say_line '''' WHITE (sh st)) = Some (Inr s1)"
      and p: "print_terminal_text s1 = Inr s2" and st': "sh st' = s2" "line st' = replicate 256 0" "typed st' = 0"
      using assms(1) by (auto simp: main_step_def bindO_eq KEYBOARD_BUFFER_SIZE_def)
    have "place_ok (say_line '''' WHITE (sh st))" using assms(2) by (simp add: say_call call)
    from executeCommand_place_ok [OF e this] have "place_ok s2" using prompt_place [OF p] place_ok_cong by blast
    then show ?thesis using st' by simp
  qed
qed

text \<open>
  C22. Wherever its commands lead, the shell knows where it is: after any keys, the depth is
  below 10, the arrays hold ten names of eight characters and ten clusters, the path starts
  at the root, and the current directory and its parent are the last two clusters of the
  path. No command other than \<open>cd\<close> moves the shell.
\<close>

theorem shell_knows_place:
  assumes "main_start blank f = Inr st0" and "main_run keys st0 = Some (Inr st)"
  shows "place_ok (sh st) \<and> typed st \<le> KEYBOARD_BUFFER_SIZE \<and>
    (\<forall>j s'. executeCommand j (line st) (typed st) (sh st) = Some (Inr s') \<longrightarrow>
       place_ok s' \<and> (\<not> starts_with (line st) ''cd '' \<longrightarrow> place s' = place (sh st)))"
proof -
  have "main_run keys st0 = Some (Inr st) \<Longrightarrow> place_ok (sh st0) \<Longrightarrow> length (line st0) = 256 \<Longrightarrow> typed st0 \<le> 256 \<Longrightarrow>
      place_ok (sh st) \<and> typed st \<le> 256" for st0
    by (induction keys st0 rule: main_run.induct) (auto simp: bindO_eq dest!: main_step_ok)
  then show ?thesis using assms start_place_ok [OF assms(1)] executeCommand_place_ok executeCommand_place
    by (simp add: KEYBOARD_BUFFER_SIZE_def)
qed

lemma main_starts: "\<exists>st. main_start blank f = Inr st"
proof -
  have p: "\<exists>s'. print_terminal_text s = Inr s' \<and> DEPTH s' = 0" if "DEPTH s = 0" for s
    using that by (simp add: print_terminal_text_def say_call)
  let ?s0 = "call (Call 7 0 0 0) (print_jatos blank
      \<lparr>CURRENT_DIR_CLUSTER_NUMBER = 2, CURRENT_DIR_PARENT_CLUSTER_NUMBER = 2, DEPTH = 0,
       DIR_PATH = root_name # replicate 9 (replicate 8 0), DIR_CLUSTERS = 2 # replicate 9 (- 1),
       clock_is_running = 0, disk = f, trace = []\<rparr>)"
  have "DEPTH ?s0 = 0" by (simp add: print_jatos_trace)
  from p [OF this] obtain s1 where s1: "print_terminal_text ?s0 = Inr s1" and d: "DEPTH s1 = 0" by blast
  obtain s2 where "print_terminal_text (call (Call 8 0 0 0) s1) = Inr s2"
    using p [of "call (Call 8 0 0 0) s1"] d by auto
  then show ?thesis using s1 by (simp add: main_start_def Let_def)
qed

definition demo_node :: node_dir where
  "demo_node = \<lparr>nama = replicate 8 0, cluster_path = replicate 10 0, nEff = 0, nama_path = replicate 10 (replicate 8 0)\<rparr>"

definition demo_shell_junk :: junk where
  "demo_shell_junk = \<lparr>junk_mem = (\<lambda>_. 0), junk_name = replicate 8 0, junk_dest = replicate 8 0, junk_paths = replicate 9 (replicate 8 0),
     junk_temp = replicate 8 0, junk_word = 0, junk_entry = zero_entry,
     junk_table = replicate 64 zero_entry, junk_queue = replicate 512 demo_node, junk_round = (\<lambda>_. (\<lambda>_. 0, 0))\<rparr>"

theorem shell_knows_place_witness:
  "\<exists>st0 st. main_start 0x400 demo_fs = Inr st0 \<and>
     main_run [(demo_shell_junk, 108), (demo_shell_junk, 115)] st0 = Some (Inr st) \<and> place_ok (sh st)"
proof -
  obtain st0 where st0: "main_start 0x400 demo_fs = Inr st0" using main_starts by blast
  then have "length (line st0) = 256" "typed st0 = 0" using start_place_ok by auto
  then obtain st where st: "main_run [(demo_shell_junk, 108), (demo_shell_junk, 115)] st0 = Some (Inr st)"
    by (simp add: main_step_def arr_set_def)
  show ?thesis using shell_knows_place [OF st0 st] st0 st by blast
qed

end
