(* ===== verification/ShellWalk.thy ===== *)
theory ShellWalk
  imports ShellLocation
begin

text \<open>
  Directories as a tree, and \<open>cd\<close> as a walk in it. The specification knows nothing of the
  shell's arrays: a location is the list of the clusters and names from the root, and a
  component of a path is looked up in the directory table of the cluster it has reached.
\<close>

section \<open>The tree of directories\<close>

definition directory_entry :: "dir_entry \<Rightarrow> bool" where
  "directory_entry e \<longleftrightarrow> de_name e ! 0 \<noteq> 0 \<and> de_attribute e = ATR_DIRECTORY"

text \<open>
  The clusters \<open>D\<close> are allocated and hold directories: the root is one of them and its first
  entry is its own; a folder in one of them is another one, and its name is not that of an
  earlier entry, which may be the folder's own: the first entry of a table is the folder itself.
\<close>

definition tree :: "fat32 \<Rightarrow> nat set \<Rightarrow> bool" where
  "tree f D \<longleftrightarrow> length (cluster_map f) = 512 \<and> 2 \<in> D \<and>
     (\<forall>c \<in> D. 2 \<le> c \<and> c < 512 \<and> cluster_map f ! c \<noteq> FAT32_FAT_EMPTY_ENTRY) \<and>
     find_name (dir_at f 2) root_name = Some 0 \<and> entry_cluster (dir_at f 2 ! 0) = ROOT_CLUSTER_NUMBER \<and>
     de_filesize (dir_at f 2 ! 0) = 0 \<and>
     (\<forall>c \<in> D. \<forall>k. 1 \<le> k \<and> k < 64 \<and> directory_entry (dir_at f c ! k) \<longrightarrow>
        find_name (dir_at f c) (de_name (dir_at f c ! k)) = Some k \<and> de_filesize (dir_at f c ! k) = 0 \<and>
        de_user_attribute (dir_at f c ! k) = UATTR_NOT_EMPTY \<and> unat (entry_cluster (dir_at f c ! k)) \<in> D)"

lemma tree_basics:
  assumes "tree f D"
  shows "length (cluster_map f) = 512" "2 \<in> D" "find_name (dir_at f 2) root_name = Some 0"
    "entry_cluster (dir_at f 2 ! 0) = ROOT_CLUSTER_NUMBER" "de_filesize (dir_at f 2 ! 0) = 0"
    "c \<in> D \<Longrightarrow> 2 \<le> c \<and> c < 512 \<and> cluster_map f ! c \<noteq> FAT32_FAT_EMPTY_ENTRY"
  using assms unfolding tree_def by blast+

lemma tree_child:
  assumes "tree f D" and "c \<in> D" and "1 \<le> k" "k < 64" "directory_entry (dir_at f c ! k)"
  shows "find_name (dir_at f c) (de_name (dir_at f c ! k)) = Some k" "de_filesize (dir_at f c ! k) = 0"
    "de_user_attribute (dir_at f c ! k) = UATTR_NOT_EMPTY" "unat (entry_cluster (dir_at f c ! k)) \<in> D"
  using assms unfolding tree_def by blast+

lemma treeI:
  assumes "length (cluster_map f) = 512" "2 \<in> D"
    "\<And>c. c \<in> D \<Longrightarrow> 2 \<le> c \<and> c < 512 \<and> cluster_map f ! c \<noteq> FAT32_FAT_EMPTY_ENTRY"
    "find_name (dir_at f 2) root_name = Some 0 \<and> entry_cluster (dir_at f 2 ! 0) = ROOT_CLUSTER_NUMBER \<and> de_filesize (dir_at f 2 ! 0) = 0"
    "\<And>c k. c \<in> D \<Longrightarrow> 1 \<le> k \<Longrightarrow> k < 64 \<Longrightarrow> directory_entry (dir_at f c ! k) \<Longrightarrow>
       find_name (dir_at f c) (de_name (dir_at f c ! k)) = Some k \<and> de_filesize (dir_at f c ! k) = 0 \<and>
       de_user_attribute (dir_at f c ! k) = UATTR_NOT_EMPTY \<and> unat (entry_cluster (dir_at f c ! k)) \<in> D"
  shows "tree f D"
  using assms unfolding tree_def by blast

type_synonym location = "(u32 \<times> u8 list) list"

inductive linked :: "fat32 \<Rightarrow> location \<Rightarrow> bool" for f where
  root: "linked f [(ROOT_CLUSTER_NUMBER, root_name)]"
| child: "linked f st \<Longrightarrow> t = dir_at f (unat (fst (last st))) \<Longrightarrow> 1 \<le> k \<Longrightarrow> k < 64 \<Longrightarrow> directory_entry (t ! k) \<Longrightarrow>
    linked f (st @ [(entry_cluster (t ! k), de_name (t ! k))])"

inductive_simps linked_one: "linked f [x]"

lemma length_name_dir [simp]: "k < 64 \<Longrightarrow> length (de_name (dir_at f c ! k)) = 8"
  using table_ok_dir_at [of f c] by (simp add: table_ok_def entry_ok_def del: table_ok_dir_at)

lemma linked_not_Nil: "linked f st \<Longrightarrow> st \<noteq> []"
  by (induction rule: linked.induct) auto

text \<open>The parent's cluster, as the shell computes it.\<close>

definition parent_cluster :: "location \<Rightarrow> u32" where
  "parent_cluster st = fst (st ! (length st - 2))"

lemma parent_cluster_snoc: "st \<noteq> [] \<Longrightarrow> parent_cluster (st @ [x]) = fst (last st)"
  by (simp add: parent_cluster_def last_conv_nth nth_append)

lemma linked_resolves:
  assumes "linked f st" and "tree f D"
  shows "unat (fst (last st)) \<in> D \<and> unat (parent_cluster st) < 512 \<and>
    (\<exists>e. lookup f (unat (parent_cluster st)) (snd (last st)) = Some e \<and> entry_cluster e = fst (last st) \<and> de_filesize e = 0)"
  using assms(1)
proof (cases rule: linked.cases)
  case root
  then show ?thesis using assms(2) by (simp add: tree_def parent_cluster_def ROOT_CLUSTER_NUMBER_def lookup_def)
next
  case (child st' t k)
  have "unat (fst (last st')) \<in> D" using child(2)
  proof (induction rule: linked.induct)
    case root
    then show ?case using assms(2) by (simp add: tree_def ROOT_CLUSTER_NUMBER_def)
  next
    case (child st t k)
    then show ?case using assms(2) by (simp add: tree_def)
  qed
  then show ?thesis using child assms(2) linked_not_Nil [OF child(2)]
    by (simp add: parent_cluster_snoc tree_def lookup_def)
qed

section \<open>Walking a path\<close>

definition slash :: u8 where "slash = of_char CHR ''/''"

function components :: "u8 list \<Rightarrow> u8 list list" where
  "components [] = []"
| "components (x # xs) = takeWhile (\<lambda>c. c \<noteq> slash) (x # xs) # components (tl (dropWhile (\<lambda>c. c \<noteq> slash) (x # xs)))"
  by pat_completeness auto

termination components
proof (relation "measure length")
  fix x :: u8 and xs
  show "(tl (dropWhile (\<lambda>c. c \<noteq> slash) (x # xs)), x # xs) \<in> measure length"
    using length_dropWhile_le [of "\<lambda>c. c \<noteq> slash" "x # xs"] by (simp add: le_imp_less_Suc)
qed simp

text \<open>The folder with a given name: the name of an entry ends at its first zero.\<close>

definition subfolder :: "fat32 \<Rightarrow> nat \<Rightarrow> u8 list \<Rightarrow> (u32 \<times> u8 list) option" where
  "subfolder f c n = map_option (\<lambda>k. (entry_cluster (dir_at f c ! k), de_name (dir_at f c ! k)))
     (find (\<lambda>k. directory_entry (dir_at f c ! k) \<and> takeWhile (\<lambda>b. b \<noteq> 0) (de_name (dir_at f c ! k)) = n) [1..<DIR_ENTRIES])"

fun walk :: "fat32 \<Rightarrow> location \<Rightarrow> u8 list list \<Rightarrow> location option" where
  "walk f st [] = Some st"
| "walk f st (n # ns) = (case subfolder f (unat (fst (last st))) n of
     None \<Rightarrow> None | Some x \<Rightarrow> walk f (st @ [x]) ns)"

definition location_at :: "nat \<Rightarrow> shell \<Rightarrow> location" where
  "location_at d s = zip (take (d + 1) (DIR_CLUSTERS s)) (take (d + 1) (DIR_PATH s))"

abbreviation location :: "shell \<Rightarrow> location" where
  "location s \<equiv> location_at (DEPTH s) s"

lemma location_at_facts:
  assumes "arrays_ok s" and "d < 10"
  shows "length (location_at d s) = d + 1" "location_at d s \<noteq> []"
    "last (location_at d s) = (DIR_CLUSTERS s ! d, DIR_PATH s ! d)"
    "parent_cluster (location_at d s) = DIR_CLUSTERS s ! (d - 1)"
proof -
  have len: "length (DIR_PATH s) = 10" "length (DIR_CLUSTERS s) = 10" using assms(1) by (simp_all add: arrays_ok_def)
  show l: "length (location_at d s) = d + 1" "location_at d s \<noteq> []"
    using len assms(2) by (auto simp: location_at_def)
  show "last (location_at d s) = (DIR_CLUSTERS s ! d, DIR_PATH s ! d)"
    using l len assms(2) by (simp add: last_conv_nth) (simp add: location_at_def)
  show "parent_cluster (location_at d s) = DIR_CLUSTERS s ! (d - 1)"
    using l len assms(2) by (simp add: parent_cluster_def) (simp add: location_at_def)
qed

lemma location_at_step:
  assumes "arrays_ok s" and "d + 1 < 10" and "length n = 8"
  shows "location_at (d + 1) (s\<lparr>DIR_PATH := (DIR_PATH s)[d + 1 := n], DIR_CLUSTERS := (DIR_CLUSTERS s)[d + 1 := c]\<rparr>) =
    location_at d s @ [(c, n)]"
  using assms by (simp add: location_at_def arrays_ok_def take_Suc_conv_app_nth)

section \<open>One step\<close>

lemma list_directory_found:
  assumes "unat parent < 2048" and "lookup (disk s) (unat parent) name = Some e" and "de_filesize e = 0"
    and "unat (entry_cluster e) < 2048"
  shows "list_directory jm name parent s = Inr (0, dir_at (disk s) (unat (entry_cluster e)))"
proof -
  have "read_directory (table_request name parent) (disk s) jm =
      Inr (0, mem_write jm 0 (cluster_at (storage (disk s)) (unat (entry_cluster e))))"
    using assms read_directory_found [of "table_request name parent" "disk s" e jm]
    by (simp add: table_request_def parent_of_def CLUSTER_SIZE_val)
  then show ?thesis
    using mem_read_write_same [of "cluster_at (storage (disk s)) (unat (entry_cluster e))" jm 0]
    by (simp add: list_directory_def CLUSTER_SIZE_val dir_at_def)
qed

lemma here_listed:
  assumes "linked (disk s) (location_at d s)" and "tree (disk s) D" and "arrays_ok s" and "d < 10"
  shows "list_directory jm (DIR_PATH s ! d) (DIR_CLUSTERS s ! (d - 1)) s = Inr (0, dir_at (disk s) (unat (DIR_CLUSTERS s ! d)))"
proof -
  note r = linked_resolves [OF assms(1,2)] and l = location_at_facts [OF assms(3,4)]
  obtain e where "lookup (disk s) (unat (DIR_CLUSTERS s ! (d - 1))) (DIR_PATH s ! d) = Some e"
    "entry_cluster e = DIR_CLUSTERS s ! d" "de_filesize e = 0"
    "unat (DIR_CLUSTERS s ! (d - 1)) < 512" "unat (DIR_CLUSTERS s ! d) \<in> D"
    using r l by auto
  moreover from this have "unat (DIR_CLUSTERS s ! d) < 512" using assms(2) by (auto simp: tree_def)
  ultimately show ?thesis using list_directory_found [of "DIR_CLUSTERS s ! (d - 1)" s "DIR_PATH s ! d" e jm] by simp
qed

lemma name_length_takeWhile: "name_length n = length (takeWhile (\<lambda>b. b \<noteq> 0) n)"
  by (induction n) simp_all

lemma is_subdir_iff:
  assumes "length (de_name e) = 8"
  shows "is_subdir p e \<longleftrightarrow> directory_entry e \<and> takeWhile (\<lambda>b. b \<noteq> 0) (de_name e) = p"
proof -
  define t where "t = takeWhile (\<lambda>b. b \<noteq> 0) (de_name e)"
  have t: "take (length t) (de_name e) = t" unfolding t_def by (rule takeWhile_eq_take [symmetric])
  have "bytes_cmp (take (length p) (de_name e)) p = 0 \<longleftrightarrow> t = p" if "length p = length t"
    unfolding that t by (rule bytes_cmp_eq_0) (simp add: that)
  moreover have "is_subdir p e \<longleftrightarrow> directory_entry e \<and> length p = length t \<and> bytes_cmp (take (length p) (de_name e)) p = 0"
    unfolding is_subdir_def directory_entry_def name_length_takeWhile t_def by blast
  ultimately show ?thesis unfolding t_def [symmetric] by blast
qed

lemma cd_step_walks:
  assumes "linked (disk s) (location_at d s)" and "tree (disk s) D" and "arrays_ok s" and "d + 1 < 10"
  shows "cd_step jm p d s =
    (case subfolder (disk s) (unat (DIR_CLUSTERS s ! d)) p of
       None \<Rightarrow> Inr (None, say_line ''directory tidak ditemukan'' RED s)
     | Some (c, n) \<Rightarrow> Inr (Some (d + 1), s\<lparr>DIR_PATH := (DIR_PATH s)[d + 1 := n], DIR_CLUSTERS := (DIR_CLUSTERS s)[d + 1 := c]\<rparr>))"
proof -
  let ?t = "dir_at (disk s) (unat (DIR_CLUSTERS s ! d))"
  have len: "length (DIR_PATH s) = 10" "length (DIR_CLUSTERS s) = 10" using assms(3) by (simp_all add: arrays_ok_def)
  have g: "arr_get (DIR_CLUSTERS s) (if d = 0 then 0 else d - 1) = Inr (DIR_CLUSTERS s ! (d - 1))"
    "arr_get (DIR_PATH s) d = Inr (DIR_PATH s ! d)"
    using assms(4) len by (auto simp: arr_get_def)
  have "list_directory jm (DIR_PATH s ! d) (DIR_CLUSTERS s ! (d - 1)) s = Inr (0, ?t)"
    using here_listed [OF assms(1-3)] assms(4) by simp
  moreover have n8: "length (de_name (?t ! k)) = 8" if "k < 64" for k
    using that table_ok_dir_at [of "disk s" "unat (DIR_CLUSTERS s ! d)"] by (simp add: table_ok_def entry_ok_def)
  have "find (\<lambda>k. is_subdir p (?t ! k)) [1..<DIR_ENTRIES] =
      find (\<lambda>k. directory_entry (?t ! k) \<and> takeWhile (\<lambda>b. b \<noteq> 0) (de_name (?t ! k)) = p) [1..<DIR_ENTRIES]"
  proof (rule find_cong)
    fix k assume "k \<in> set [1..<DIR_ENTRIES]"
    then have "k < DIR_ENTRIES" by simp
    then have "length (de_name (?t ! k)) = 8" using n8 unfolding DIR_ENTRIES_val by blast
    then show "is_subdir p (?t ! k) = (directory_entry (?t ! k) \<and> takeWhile (\<lambda>b. b \<noteq> 0) (de_name (?t ! k)) = p)"
      by (rule is_subdir_iff)
  qed rule
  ultimately have "cd_step jm p d s =
      (case find (\<lambda>k. directory_entry (?t ! k) \<and> takeWhile (\<lambda>b. b \<noteq> 0) (de_name (?t ! k)) = p) [1..<DIR_ENTRIES] of
         None \<Rightarrow> Inr (None, say_line ''directory tidak ditemukan'' RED s)
       | Some k \<Rightarrow>
           bindE (arr_set (DIR_PATH s) (d + 1) (de_name (?t ! k))) (\<lambda>ps.
           bindE (arr_set (DIR_CLUSTERS s) (d + 1) (entry_cluster (?t ! k))) (\<lambda>cs.
           Inr (Some (d + 1), s\<lparr>DIR_PATH := ps, DIR_CLUSTERS := cs\<rparr>))))"
    unfolding cd_step_def using g by simp
  then show ?thesis using assms(4) len by (simp add: subfolder_def arr_set_def split: option.split)
qed

section \<open>A whole path\<close>

text \<open>The characters of the command from \<open>i\<close> to its end.\<close>

definition remaining :: "u8 list \<Rightarrow> nat \<Rightarrow> nat \<Rightarrow> u8 list" where
  "remaining command len i = take (len - i) (drop i command)"

lemma remaining_simps:
  "i < len \<Longrightarrow> len < length command \<Longrightarrow> remaining command len i = command ! i # remaining command len (i + 1)"
  "len \<le> i \<Longrightarrow> remaining command len i = []"
  by (simp_all add: remaining_def Cons_nth_drop_Suc [symmetric] Suc_diff_Suc [symmetric])

lemma cd_component_scans:
  assumes "len < length command" and "i \<le> len"
    and "length path + length (takeWhile (\<lambda>c. c \<noteq> slash) (remaining command len i)) \<le> 8"
  shows "cd_component command len i path =
    Inr (path @ takeWhile (\<lambda>c. c \<noteq> slash) (remaining command len i),
         i + length (takeWhile (\<lambda>c. c \<noteq> slash) (remaining command len i)))"
  using assms
proof (induction "len - i" arbitrary: i path)
  case 0
  then show ?case by (subst cd_component.simps) (simp add: remaining_simps)
next
  case (Suc n)
  then have i: "i < len" "n = len - (i + 1)" by simp_all
  note r = remaining_simps(1) [OF i(1) Suc.prems(1)]
  show ?case
  proof (cases "command ! i = slash")
    case True
    then show ?thesis using Suc.prems i by (subst cd_component.simps) (simp add: r slash_def)
  next
    case False
    have "cd_component command len (i + 1) (path @ [command ! i]) =
        Inr ((path @ [command ! i]) @ takeWhile (\<lambda>c. c \<noteq> slash) (remaining command len (i + 1)),
             i + 1 + length (takeWhile (\<lambda>c. c \<noteq> slash) (remaining command len (i + 1))))"
      using Suc.prems i False by (intro Suc.hyps(1)) (simp_all add: r)
    then show ?thesis using Suc.prems i False by (subst cd_component.simps) (simp add: r slash_def)
  qed
qed

lemma remaining_after:
  "len \<le> length command \<Longrightarrow>
   remaining command len (i + length (takeWhile P (remaining command len i)) + 1) = tl (dropWhile P (remaining command len i))"
proof -
  assume "len \<le> length command"
  have "drop (length (takeWhile P xs)) xs = dropWhile P xs" for xs :: "u8 list"
    by (metis append_eq_conv_conj takeWhile_dropWhile_id)
  then have "tl (dropWhile P xs) = drop (length (takeWhile P xs) + 1) xs" for xs :: "u8 list"
    by (metis drop_Suc tl_drop Suc_eq_plus1)
  then show ?thesis by (simp add: remaining_def drop_take add.commute add.left_commute)
qed

lemma components_remaining:
  assumes "i < len" and "len < length command"
  shows "components (remaining command len i) = takeWhile (\<lambda>c. c \<noteq> slash) (remaining command len i) #
    components (remaining command len (i + length (takeWhile (\<lambda>c. c \<noteq> slash) (remaining command len i)) + 1))"
proof -
  obtain x xs where r: "remaining command len i = x # xs" using remaining_simps(1) [OF assms] by blast
  show ?thesis using remaining_after [of len command i "\<lambda>c. c \<noteq> slash"] assms(2) by (simp add: r del: dropWhile.simps takeWhile.simps)
qed

lemma subfolder_linked:
  assumes "subfolder f (unat (fst (last st))) n = Some (c, m)" and "linked f st"
  shows "linked f (st @ [(c, m)])" and "length m = 8"
proof -
  obtain k where k: "find (\<lambda>k. directory_entry (dir_at f (unat (fst (last st))) ! k) \<and>
      takeWhile (\<lambda>b. b \<noteq> 0) (de_name (dir_at f (unat (fst (last st))) ! k)) = n) [1..<DIR_ENTRIES] = Some k"
    and c: "c = entry_cluster (dir_at f (unat (fst (last st))) ! k)" "m = de_name (dir_at f (unat (fst (last st))) ! k)"
    using assms(1) by (auto simp: subfolder_def)
  then have k: "1 \<le> k" "k < 64" "directory_entry (dir_at f (unat (fst (last st))) ! k)"
    by (auto simp: find_upt_Some DIR_ENTRIES_val)
  show "linked f (st @ [(c, m)])" unfolding c by (rule linked.child [OF assms(2) refl k])
  show "length m = 8" unfolding c using k(2) by simp
qed

lemma cd_loop_walks:
  assumes "tree f D" and "len < length command"
    and "disk s = f" "linked f (location_at d s)" "arrays_ok s" "d + length (components (remaining command len i)) < 10"
    and "\<And>n. n \<in> set (components (remaining command len i)) \<Longrightarrow> length n \<le> 8"
  shows "case walk f (location_at d s) (components (remaining command len i)) of
      None \<Rightarrow> \<exists>s'. cd_loop jm command len i d s = Inr (None, s') \<and>
        trace s' = trace s @ [Put (codes ''directory tidak ditemukan'' @ [10]) RED]
    | Some st \<Rightarrow> \<exists>s' d'. cd_loop jm command len i d s = Inr (Some d', s') \<and> location_at d' s' = st \<and> linked f st \<and> trace s' = trace s"
  using assms(2-7)
proof (induction jm command len i d s rule: cd_loop.induct [case_names step])
  case (step jm command len i d s)
  show ?case
  proof (cases "i < len")
    case False
    then show ?thesis using step.prems by (subst cd_loop.simps) (simp add: remaining_simps)
  next
    case True
    let ?c = "takeWhile (\<lambda>c. c \<noteq> slash) (remaining command len i)"
    let ?rest = "components (remaining command len (i + length ?c + 1))"
    note cr = components_remaining [OF True step.prems(1)]
    have "length ?c \<le> 8" using step.prems(6) unfolding cr by simp
    then have comp: "cd_component command len i [] = Inr (?c, i + length ?c)"
      using cd_component_scans [OF step.prems(1), of i "[]"] True by simp
    have d: "d + 1 < 10" using step.prems(5) unfolding cr by simp
    have lin: "linked (disk s) (location_at d s)" "tree (disk s) D" using step.prems assms(1) by simp_all
    have last: "fst (last (location_at d s)) = DIR_CLUSTERS s ! d"
      using location_at_facts(3) [OF step.prems(4)] d by simp
    note st = cd_step_walks [OF lin step.prems(4) d, of jm ?c]
    have loop: "cd_loop jm command len i d s = (case cd_step jm ?c d s of
        Inl e \<Rightarrow> Inl e | Inr (None, s1) \<Rightarrow> Inr (None, s1)
      | Inr (Some d', s1) \<Rightarrow> cd_loop jm command len (i + length ?c + 1) d' s1)"
      using True comp by (subst cd_loop.simps) simp
    show ?thesis
    proof (cases "subfolder f (unat (DIR_CLUSTERS s ! d)) ?c")
      case None
      then show ?thesis unfolding loop st cr using step.prems(2) last by (simp add: say_call)
    next
      case (Some x)
      obtain c m where x: "x = (c, m)" by fastforce
      have sub: "subfolder f (unat (fst (last (location_at d s)))) ?c = Some (c, m)" using Some x last by simp
      note l = subfolder_linked [OF sub step.prems(3)]
      let ?s1 = "s\<lparr>DIR_PATH := (DIR_PATH s)[d + 1 := m], DIR_CLUSTERS := (DIR_CLUSTERS s)[d + 1 := c]\<rparr>"
      have cs: "cd_step jm ?c d s = Inr (Some (d + 1), ?s1)" using st Some x step.prems(2) by simp
      have loc: "location_at (d + 1) ?s1 = location_at d s @ [(c, m)]"
        by (rule location_at_step [OF step.prems(4) d l(2)])
      have ok: "arrays_ok ?s1" using step.prems(4) l(2)
        by (auto simp: arrays_ok_def dest!: set_update_subset_insert [THEN subsetD])
      have "case walk f (location_at (d + 1) ?s1) ?rest of
          None \<Rightarrow> \<exists>s'. cd_loop jm command len (i + length ?c + 1) (d + 1) ?s1 = Inr (None, s') \<and>
            trace s' = trace ?s1 @ [Put (codes ''directory tidak ditemukan'' @ [10]) RED]
        | Some st \<Rightarrow> \<exists>s' d'. cd_loop jm command len (i + length ?c + 1) (d + 1) ?s1 = Inr (Some d', s') \<and>
            location_at d' s' = st \<and> linked f st \<and> trace s' = trace ?s1"
      proof (rule step.IH [OF True comp refl cs refl refl])
        show "disk ?s1 = f" "linked f (location_at (d + 1) ?s1)" using step.prems(2) l(1) loc by simp_all
        show "d + 1 + length ?rest < 10" using step.prems(5) unfolding cr by simp
        show "length n \<le> 8" if "n \<in> set ?rest" for n using step.prems(6) that unfolding cr by simp
      qed (use step.prems(1) ok in simp_all)
      moreover have "cd_loop jm command len i d s = cd_loop jm command len (i + length ?c + 1) (d + 1) ?s1"
        unfolding loop cs by simp
      ultimately show ?thesis unfolding cr walk.simps sub option.case loc
        by (cases "walk f (location_at d s @ [(c, m)]) ?rest") auto
    qed
  qed
qed

lemma cd_loop_depth:
  assumes "cd_loop jm command len i d s = Inr (Some d', s')" and "arrays_ok s" and "d < 10" and "i < len"
  shows "0 < d' \<and> d' < 10 \<and> arrays_ok s' \<and> same_upto d s s'"
  using cd_loop_arrays [OF assms(1-3)] assms(4) by simp

lemma cd_dotdot_up:
  assumes "place_ok s"
  shows "\<exists>s'. cd_dotdot s = Inr s' \<and> disk s' = disk s \<and> trace s' = trace s \<and>
    location s' = (if DEPTH s = 0 then location s else butlast (location s))"
proof (cases "DEPTH s")
  case 0
  then show ?thesis by (simp add: cd_dotdot_def)
next
  case (Suc n)
  have d: "DEPTH s < 10" and len: "length (DIR_PATH s) = 10" "length (DIR_CLUSTERS s) = 10"
    using assms by (simp_all add: place_ok_def)
  have "location_at n (s\<lparr>DIR_CLUSTERS := (DIR_CLUSTERS s)[Suc n := - 1]\<rparr>) = butlast (location_at (Suc n) s)"
    using len d Suc by (simp add: location_at_def butlast_conv_take take_zip)
  then show ?thesis using Suc len d
    by (auto simp: cd_dotdot_def Let_def arr_set_def arr_get_def location_at_def)
qed

lemma cd_follows:
  assumes "place_ok s" and "tree (disk s) D" and "linked (disk s) (location s)"
    and "3 < len" and "len < length command"
    and "length (location s) + length (components (remaining command len 3)) \<le> 10"
    and "\<And>n. n \<in> set (components (remaining command len 3)) \<Longrightarrow> length n \<le> 8"
  shows "\<exists>s'. cd j command len s = Inr s' \<and> place_ok s' \<and> disk s' = disk s \<and>
    (if starts_with command ''cd ..''
     then location s' = (if DEPTH s = 0 then location s else butlast (location s)) \<and> trace s' = trace s
     else case walk (disk s) (location s) (components (remaining command len 3)) of
        Some st \<Rightarrow> location s' = st \<and> linked (disk s) (location s') \<and> trace s' = trace s
      | None \<Rightarrow> location s' = location s \<and>
          trace s' = trace s @ [Put (codes ''directory tidak ditemukan'' @ [10]) RED])"
proof -
  note ok = place_ok_arrays [OF assms(1)]
  have d: "DEPTH s < 10" using assms(1) by (simp add: place_ok_def)
  have len: "length (DIR_PATH s) = 10" "length (DIR_CLUSTERS s) = 10" using ok by (simp_all add: arrays_ok_def)
  have locs: "location_at e t = location_at e s" if "same_upto e s t" "arrays_ok t" "e < 10" for e t
    using that len by (auto simp: location_at_def same_upto_def arrays_ok_def intro!: arg_cong2 [of _ _ _ _ zip] nth_equalityI)
  show ?thesis
  proof (cases "starts_with command ''cd ..''")
    case True
    obtain s' where s': "cd_dotdot s = Inr s'" "disk s' = disk s" "trace s' = trace s"
      "location s' = (if DEPTH s = 0 then location s else butlast (location s))" using cd_dotdot_up [OF assms(1)] by blast
    have c: "cd j command len s = Inr s'" using s'(1) True by (simp add: cd_def)
    show ?thesis using c s' True cd_place_ok [OF assms(1) c] by simp
  next
    case False
    have "DEPTH s + length (components (remaining command len 3)) < 10"
      using assms(6) location_at_facts(1) [OF ok d] by simp
    note w = cd_loop_walks [OF assms(2,5) refl assms(3) ok this assms(7), of "junk_mem j"]
    show ?thesis
    proof (cases "walk (disk s) (location s) (components (remaining command len 3))")
      case None
      then obtain s' where s': "cd_loop (junk_mem j) command len 3 (DEPTH s) s = Inr (None, s')"
        "trace s' = trace s @ [Put (codes ''directory tidak ditemukan'' @ [10]) RED]" using w by auto
      have c: "cd j command len s = Inr s'" using s'(1) False by (simp add: cd_def)
      have a: "arrays_ok s'" "same_upto (DEPTH s) s s'" using cd_loop_arrays [OF s'(1) ok d] by simp_all
      then have "location s' = location s" "disk s' = disk s" using locs d by (simp_all add: same_upto_def)
      then show ?thesis using c s'(2) None False cd_place_ok [OF assms(1) c] by simp
    next
      case (Some st)
      then obtain s1 d' where s1: "cd_loop (junk_mem j) command len 3 (DEPTH s) s = Inr (Some d', s1)"
        "location_at d' s1 = st" "linked (disk s) st" "trace s1 = trace s" using w by auto
      note a = cd_loop_depth [OF s1(1) ok d assms(4)]
      have d'1: "d' - 1 < 10" using a by linarith
      let ?s' = "s1\<lparr>DEPTH := d', CURRENT_DIR_PARENT_CLUSTER_NUMBER := DIR_CLUSTERS s1 ! (d' - 1),
        CURRENT_DIR_CLUSTER_NUMBER := DIR_CLUSTERS s1 ! d'\<rparr>"
      have c: "cd j command len s = Inr ?s'"
        using s1(1) False a d'1 by (simp add: cd_def arr_get_def arrays_ok_def)
      moreover have "location ?s' = st" using s1(2) by (simp add: location_at_def)
      ultimately show ?thesis using s1 a Some False cd_place_ok [OF assms(1) c] by (simp add: same_upto_def)
    qed
  qed
qed

text \<open>
  C11. \<open>cd\<close> implements walking: from a location in the tree, with a path of components of at
  most eight characters that stays within ten levels, it reads no other state and returns;
  if every component is a folder it moves to where the path leads, otherwise it prints the
  message and the shell stays where it is. \<open>cd ..\<close> moves up one level, or nowhere at the root.
\<close>

theorem cd_walks:
  assumes "place_ok s" and "tree (disk s) D" and "linked (disk s) (location s)"
    and "3 < len" and "len < length command"
    and "length (location s) + length (components (remaining command len 3)) \<le> 10"
    and "\<And>n. n \<in> set (components (remaining command len 3)) \<Longrightarrow> length n \<le> 8"
  shows "\<exists>s'. cd j command len s = Inr s' \<and> place_ok s' \<and> disk s' = disk s \<and>
    (if starts_with command ''cd ..''
     then location s' = (if DEPTH s = 0 then location s else butlast (location s)) \<and> trace s' = trace s
     else case walk (disk s) (location s) (components (remaining command len 3)) of
        Some st \<Rightarrow> location s' = st \<and> linked (disk s) (location s') \<and> trace s' = trace s
      | None \<Rightarrow> location s' = location s \<and>
          trace s' = trace s @ [Put (codes ''directory tidak ditemukan'' @ [10]) RED])"
  by (rule cd_follows [OF assms(1-6)]) (rule assms(7))

end
