(* ===== verification/ShellFolders.thy ===== *)
theory ShellFolders
  imports ShellWalk
begin

text \<open>
  Folders made and shown by the shell: what \<open>mkdir\<close> does to the tree of directories, what \<open>ls\<close>
  prints, and the two together with \<open>cd\<close>.
\<close>

section \<open>A new folder\<close>

lemma after_mkdir_dirs:
  assumes "request_ok rq" and "entry_ok junk" and "length jt = 64" and "free_slot (dir_at f (parent_of rq)) = Some k"
    and "x \<noteq> parent_of rq" and "2 \<le> parent_of rq" and "2 \<le> x" and "length (cluster_map f) = 512"
  shows "dir_at (after_mkdir junk jt rq x f) (parent_of rq) = (dir_at f (parent_of rq))[k := folder_entry junk rq x]"
    and "dir_at (after_mkdir junk jt rq x f) x = init_directory_table jt (rq_name rq) (rq_parent_cluster_number rq)"
    and "c \<noteq> 1 \<Longrightarrow> c \<noteq> x \<Longrightarrow> c \<noteq> parent_of rq \<Longrightarrow> dir_at (after_mkdir junk jt rq x f) c = dir_at f c"
proof -
  have t1: "table_ok (init_directory_table jt (rq_name rq) (rq_parent_cluster_number rq))"
    using assms(1,3) by (intro init_directory_table_ok) (simp_all add: request_ok_def)
  have t2: "table_ok ((dir_at f (parent_of rq))[k := folder_entry junk rq x])"
    using assms(1,2) by (intro table_ok_update folder_entry_ok table_ok_dir_at)
  have cl: "cluster_at (storage (after_mkdir junk jt rq x f)) c =
      (if c = parent_of rq then table_bytes ((dir_at f (parent_of rq))[k := folder_entry junk rq x])
       else if c = 1 then fat_bytes ((cluster_map f)[x := FAT32_FAT_END_OF_FILE])
       else if c = x then table_bytes (init_directory_table jt (rq_name rq) (rq_parent_cluster_number rq))
       else cluster_at (storage f) c)" for c
    using assms t1 t2 by (simp add: after_mkdir_def Let_def)
  show "dir_at (after_mkdir junk jt rq x f) (parent_of rq) = (dir_at f (parent_of rq))[k := folder_entry junk rq x]"
    "dir_at (after_mkdir junk jt rq x f) x = init_directory_table jt (rq_name rq) (rq_parent_cluster_number rq)"
    "c \<noteq> 1 \<Longrightarrow> c \<noteq> x \<Longrightarrow> c \<noteq> parent_of rq \<Longrightarrow> dir_at (after_mkdir junk jt rq x f) c = dir_at f c"
    unfolding dir_at_def [of "after_mkdir junk jt rq x f"] cl using assms t1 t2 by (simp_all add: dir_at_def)
qed

lemma entry_cluster_folder [simp]: "entry_cluster (folder_entry junk rq x) = of_nat x"
  by (simp add: entry_cluster_def folder_entry_def halves_join)

lemma zero_not_directory [simp]: "\<not> directory_entry zero_entry"
  by (simp add: directory_entry_def zero_entry_fields)

text \<open>The hypotheses under which a folder can be made.\<close>

definition can_mkdir :: "driver_request \<Rightarrow> nat \<Rightarrow> nat \<Rightarrow> fat32 \<Rightarrow> bool" where
  "can_mkdir rq k x f \<longleftrightarrow> request_ok rq \<and> rq_buffer_size rq = 0 \<and> free_slot (dir_at f (parent_of rq)) = Some k \<and> 1 \<le> k \<and>
     find_name (dir_at f (parent_of rq)) (rq_name rq) = None \<and> (\<exists>xs. frees (cluster_map f) = x # xs)"

lemma find_name_other:
  assumes "table_ok t" and "entry_ok e" and "find_name t n = Some i" and "i \<noteq> k" and "de_name e \<noteq> n" and "length n = 8"
  shows "find_name (t[k := e]) n = Some i"
proof -
  have "length t = 64" using assms(1) by (simp add: table_ok_def)
  then show ?thesis using assms by (cases "k < 64") (auto simp: find_name_Some table_ok_update nth_list_update)
qed

text \<open>
  A table of the tree gets a new entry in a free slot, and possibly clusters without folders
  join: the tree and the places in it stay.
\<close>

lemma tree_with_entry:
  assumes t: "tree f D" and p: "p \<in> D" and k: "1 \<le> k" "free_slot (dir_at f p) = Some k"
    and e: "entry_ok e" "find_name (dir_at f p) (de_name e) = None"
    and dp: "dir_at f' p = (dir_at f p)[k := e]" and dc: "\<And>c. c \<in> D \<Longrightarrow> c \<noteq> p \<Longrightarrow> dir_at f' c = dir_at f c"
    and sub: "D \<subseteq> D'" and len: "length (cluster_map f') = 512"
    and alloc: "\<And>c. c \<in> D' \<Longrightarrow> 2 \<le> c \<and> c < 512 \<and> cluster_map f' ! c \<noteq> FAT32_FAT_EMPTY_ENTRY"
    and newdir: "\<And>c i. c \<in> D' \<Longrightarrow> c \<notin> D \<Longrightarrow> 1 \<le> i \<Longrightarrow> i < 64 \<Longrightarrow> \<not> directory_entry (dir_at f' c ! i)"
    and ed: "directory_entry e \<Longrightarrow> de_filesize e = 0 \<and> de_user_attribute e = UATTR_NOT_EMPTY \<and> unat (entry_cluster e) \<in> D'"
  shows "tree f' D'" and "linked f st \<Longrightarrow> linked f' st"
proof -
  have k64: "k < 64" "de_user_attribute (dir_at f p ! k) \<noteq> UATTR_NOT_EMPTY"
    using k(2) free_slot_lt by (auto simp: free_slot_def find_DIR_Some)
  have n8: "length (de_name e) = 8" using e(1) by (simp add: entry_ok_def)
  have kept: "find_name (dir_at f' p) n = Some i" if "find_name (dir_at f p) n = Some i" "i \<noteq> k" "length n = 8" for n i
    unfolding dp using that e by (intro find_name_other) auto
  have root: "find_name (dir_at f' 2) root_name = Some 0 \<and> entry_cluster (dir_at f' 2 ! 0) = ROOT_CLUSTER_NUMBER \<and>
      de_filesize (dir_at f' 2 ! 0) = 0"
    using tree_basics [OF t] kept [of root_name 0] k(1) dp dc [of 2] by (cases "p = 2") simp_all
  have "find_name (dir_at f' c) (de_name (dir_at f' c ! i)) = Some i \<and> de_filesize (dir_at f' c ! i) = 0 \<and>
      de_user_attribute (dir_at f' c ! i) = UATTR_NOT_EMPTY \<and> unat (entry_cluster (dir_at f' c ! i)) \<in> D'"
    if c: "c \<in> D'" and i: "1 \<le> i" "i < 64" "directory_entry (dir_at f' c ! i)" for c i
  proof -
    consider "c \<notin> D" | "c \<in> D" "c \<noteq> p" | "c = p" "i = k" | "c = p" "i \<noteq> k" by blast
    then show ?thesis
    proof cases
      case 1
      then show ?thesis using newdir c i by blast
    next
      case 2
      then show ?thesis using tree_child [OF t 2(1) i(1,2)] i(3) dc sub by auto
    next
      case 3
      have "find_name ((dir_at f p)[k := e]) (de_name e) = Some k"
        using e n8 k64(1) by (intro find_name_added) simp_all
      then show ?thesis using 3 dp k64(1) ed i(3) by simp
    next
      case 4
      then show ?thesis using tree_child [OF t p i(1,2)] i(2,3) dp kept sub by auto
    qed
  qed
  then show "tree f' D'" using root len alloc sub tree_basics(2) [OF t] by (intro treeI) auto
  show "linked f st \<Longrightarrow> linked f' st"
  proof (induction rule: linked.induct)
    case root
    show ?case by (rule linked.root)
  next
    case (child st t' i)
    let ?c = "unat (fst (last st))"
    have c: "?c \<in> D" using linked_resolves [OF child.hyps(1) t] by blast
    have used: "de_user_attribute (t' ! i) = UATTR_NOT_EMPTY"
      using tree_child(3) [OF t c] child.hyps(2-5) by blast
    then have "?c = p \<Longrightarrow> k \<noteq> i" using k64(2) child.hyps(2) by auto
    then have "dir_at f' ?c ! i = t' ! i" using child.hyps(2) dp dc c by (cases "?c = p") simp_all
    then show ?case using linked.child [OF child.IH refl child.hyps(3,4)] child.hyps(5) by simp
  qed
qed

lemma mkdir_facts:
  assumes "tree f D" and "can_mkdir rq k x f" and "parent_of rq \<in> D"
  shows "x \<notin> D" "2 \<le> x" "x < 512" "x \<noteq> parent_of rq" "2 \<le> parent_of rq" "free_slot (dir_at f (parent_of rq)) = Some k"
    "request_ok rq" "length (cluster_map f) = 512"
proof -
  have "x \<in> set (frees (cluster_map f))" using assms(2) by (auto simp: can_mkdir_def)
  then have x: "2 \<le> x" "x < 512" "cluster_map f ! x = FAT32_FAT_EMPTY_ENTRY" by (simp_all add: frees_set)
  then show "2 \<le> x" "x < 512" by simp_all
  show "x \<notin> D" using tree_basics(6) [OF assms(1)] x(3) by blast
  then show "x \<noteq> parent_of rq" using assms(3) by blast
  show "2 \<le> parent_of rq" using tree_basics(6) [OF assms(1,3)] by blast
  show "free_slot (dir_at f (parent_of rq)) = Some k" "request_ok rq" using assms(2) by (simp_all add: can_mkdir_def)
  show "length (cluster_map f) = 512" by (rule tree_basics(1) [OF assms(1)])
qed

lemma mkdir_dirs:
  assumes t: "tree f D" and cm: "can_mkdir rq k x f" and p: "parent_of rq \<in> D" and j: "entry_ok junk" "length jt = 64" and c: "c \<in> D"
  shows "dir_at (after_mkdir junk jt rq x f) c =
    (if c = parent_of rq then (dir_at f c)[k := folder_entry junk rq x] else dir_at f c)"
proof -
  note m = mkdir_facts [OF t cm p]
  have "c \<noteq> x" "c \<noteq> 1" using tree_basics(6) [OF t c] m(1) c by auto
  then show ?thesis using after_mkdir_dirs(1,3) [OF m(7) j m(6,4,5,2,8)] by metis
qed

lemma mkdir_tree:
  assumes t: "tree f D" and cm: "can_mkdir rq k x f" and p: "parent_of rq \<in> D" and j: "entry_ok junk" "length jt = 64"
  shows "tree (after_mkdir junk jt rq x f) (insert x D)"
    and "linked f st \<Longrightarrow> linked (after_mkdir junk jt rq x f) st"
proof -
  note m = mkdir_facts [OF t cm p]
  let ?f = "after_mkdir junk jt rq x f" and ?e = "folder_entry junk rq x"
  have map: "cluster_map ?f = (cluster_map f)[x := FAT32_FAT_END_OF_FILE]" by (simp add: after_mkdir_def Let_def)
  have fresh: "1 \<le> k" "find_name (dir_at f (parent_of rq)) (de_name ?e) = None" "de_filesize ?e = 0"
    using cm by (simp_all add: can_mkdir_def folder_entry_def)
  have e: "entry_ok ?e" "de_user_attribute ?e = UATTR_NOT_EMPTY" "unat (entry_cluster ?e) = x"
    using j(1) m(3,7) by (simp_all add: folder_entry_ok unat_of_nat32) (simp add: folder_entry_def)
  have dx: "dir_at ?f x = init_directory_table jt (rq_name rq) (rq_parent_cluster_number rq)"
    by (rule after_mkdir_dirs(2) [OF m(7) j m(6,4,5,2,8)])
  have dp: "dir_at ?f (parent_of rq) = (dir_at f (parent_of rq))[k := ?e]" by (simp add: mkdir_dirs [OF t cm p j p])
  have dc: "dir_at ?f c = dir_at f c" if "c \<in> D" "c \<noteq> parent_of rq" for c
    using that by (simp add: mkdir_dirs [OF t cm p j that(1)])
  have alloc: "2 \<le> c \<and> c < 512 \<and> cluster_map ?f ! c \<noteq> FAT32_FAT_EMPTY_ENTRY" if "c \<in> insert x D" for c
    using that m(2,3,8) tree_basics(6) [OF t, of c] by (auto simp: map nth_list_update)
  have newdir: "\<not> directory_entry (dir_at ?f c ! i)" if "c \<in> insert x D" "c \<notin> D" "1 \<le> i" "i < 64" for c i
    using that j(2) dx by (auto simp: init_directory_table_nth)
  have len: "length (cluster_map ?f) = 512" using m(8) by (simp add: map)
  have sub: "D \<subseteq> insert x D" by blast
  show "tree ?f (insert x D)"
    by (rule tree_with_entry(1) [OF t p fresh(1) m(6) e(1) fresh(2) dp dc sub len alloc newdir]) (use e fresh(3) in simp_all)
  show "linked f st \<Longrightarrow> linked ?f st"
    by (rule tree_with_entry(2) [OF t p fresh(1) m(6) e(1) fresh(2) dp dc sub len alloc newdir]) (use e fresh(3) in simp_all)
qed

section \<open>The current directory\<close>

text \<open>The shell is at a place in the tree.\<close>

definition located :: "shell \<Rightarrow> nat set \<Rightarrow> bool" where
  "located s D \<longleftrightarrow> place_ok s \<and> tree (disk s) D \<and> linked (disk s) (location s)"

abbreviation current_dir :: "shell \<Rightarrow> dir_entry list" where
  "current_dir s \<equiv> dir_at (disk s) (unat (CURRENT_DIR_CLUSTER_NUMBER s))"

lemma located_current:
  assumes "located s D"
  shows "current_table j s = Inr (0, current_dir s)" and "unat (CURRENT_DIR_CLUSTER_NUMBER s) \<in> D"
    and "fst (last (location s)) = CURRENT_DIR_CLUSTER_NUMBER s"
proof -
  have ok: "arrays_ok s" "DEPTH s < 10" "CURRENT_DIR_CLUSTER_NUMBER s = DIR_CLUSTERS s ! DEPTH s"
    "CURRENT_DIR_PARENT_CLUSTER_NUMBER s = DIR_CLUSTERS s ! (DEPTH s - 1)"
    and t: "linked (disk s) (location s)" "tree (disk s) D"
    using assms by (simp_all add: located_def place_ok_arrays) (simp_all add: place_ok_def)
  show "current_table j s = Inr (0, current_dir s)"
    using here_listed [OF t ok(1,2), of "junk_mem j"] ok by (simp add: current_table_def arr_get_def arrays_ok_def)
  show l: "fst (last (location s)) = CURRENT_DIR_CLUSTER_NUMBER s"
    using location_at_facts(3) [OF ok(1,2)] ok(3) by simp
  show "unat (CURRENT_DIR_CLUSTER_NUMBER s) \<in> D" using linked_resolves [OF t] l by simp
qed

section \<open>ls\<close>

text \<open>The text of the prints among some events, and what \<open>ls\<close> shows of an entry.\<close>

definition printed :: "event list \<Rightarrow> u8 list" where
  "printed es = concat (map (\<lambda>e. case e of Put t _ \<Rightarrow> t | _ \<Rightarrow> []) es)"

lemma printed_append [simp]: "printed (xs @ ys) = printed xs @ printed ys" "printed [] = []"
  by (simp_all add: printed_def)

lemma printed_Put [simp]: "printed (Put t k # es) = t @ printed es"
  by (simp add: printed_def)

abbreviation trim :: "u8 list \<Rightarrow> u8 list" where
  "trim n \<equiv> takeWhile (\<lambda>b. b \<noteq> 0) n"

definition shown :: "nat \<Rightarrow> dir_entry \<Rightarrow> u8 list" where
  "shown k e =
     (if k = 0 then trim (de_name e) @ codes ''/''
      else codes ''  '' @ trim (de_name e) @
        (if de_attribute e = ATR_DIRECTORY then codes ''/''
         else if de_ext e ! 0 \<noteq> 0 then codes ''.'' @ take 3 (de_ext e) else []))"

lemma take_name_length [simp]: "take (name_length n) n = trim n"
  unfolding name_length_takeWhile by (rule takeWhile_eq_take [symmetric])

lemma ls_entry_effect:
  "\<exists>es. ls_entry k e s = s\<lparr>trace := trace s @ es\<rparr> \<and> printed es = (if de_name e ! 0 = 0 then [] else shown k e)"
proof (cases "de_name e ! 0 = 0")
  case True
  then show ?thesis by (intro exI [of _ "[]"]) (simp add: ls_entry_def)
next
  case False
  then show ?thesis by (auto simp: ls_entry_def Let_def say_call call_def shown_def)
qed

lemma ls_entries_effect:
  "\<exists>es. fold (\<lambda>k. ls_entry k (t ! k)) ks s = s\<lparr>trace := trace s @ es\<rparr> \<and>
     printed es = concat (map (\<lambda>k. shown k (t ! k)) (filter (\<lambda>k. de_name (t ! k) ! 0 \<noteq> 0) ks))"
proof (induction ks arbitrary: s)
  case Nil
  show ?case by (rule exI [of _ "[]"]) simp
next
  case (Cons k ks)
  obtain es where e: "ls_entry k (t ! k) s = s\<lparr>trace := trace s @ es\<rparr>"
    "printed es = (if de_name (t ! k) ! 0 = 0 then [] else shown k (t ! k))" using ls_entry_effect by blast
  obtain es' where e': "fold (\<lambda>k. ls_entry k (t ! k)) ks (s\<lparr>trace := trace s @ es\<rparr>) =
      s\<lparr>trace := trace s @ es\<rparr>\<lparr>trace := trace (s\<lparr>trace := trace s @ es\<rparr>) @ es'\<rparr>"
    "printed es' = concat (map (\<lambda>k. shown k (t ! k)) (filter (\<lambda>k. de_name (t ! k) ! 0 \<noteq> 0) ks))"
    using Cons.IH by blast
  show ?case using e e' by (intro exI [of _ "es @ es'"]) simp
qed

lemma ls_shown:
  assumes "current_table j s = Inr (0, t)"
  shows "\<exists>es. ls j s = Inr (s\<lparr>trace := trace s @ es\<rparr>) \<and>
    printed es = concat (map (\<lambda>k. shown k (t ! k)) (filter (\<lambda>k. de_name (t ! k) ! 0 \<noteq> 0) [0..<DIR_ENTRIES])) @ [10]"
proof -
  obtain es where "fold (\<lambda>k. ls_entry k (t ! k)) [0..<DIR_ENTRIES] s = s\<lparr>trace := trace s @ es\<rparr>"
    "printed es = concat (map (\<lambda>k. shown k (t ! k)) (filter (\<lambda>k. de_name (t ! k) ! 0 \<noteq> 0) [0..<DIR_ENTRIES]))"
    using ls_entries_effect by blast
  then show ?thesis using assms
    by (intro exI [of _ "es @ [Put [10] WHITE]"]) (simp add: ls_def say_call call_def codes_def)
qed

text \<open>
  \<open>ls\<close> lists the current directory: the folder's own name and a slash, then for every used
  entry, in order, two blanks and the name up to its first zero, with a slash after a folder
  and the extension after a file that has one, then a new line. It changes nothing.
\<close>

theorem ls_lists:
  assumes "located s D"
  shows "\<exists>es. ls j s = Inr (s\<lparr>trace := trace s @ es\<rparr>) \<and>
    printed es = concat (map (\<lambda>k. shown k (current_dir s ! k))
      (filter (\<lambda>k. de_name (current_dir s ! k) ! 0 \<noteq> 0) [0..<DIR_ENTRIES])) @ [10]"
  by (rule ls_shown [OF located_current(1) [OF assms]])

section \<open>mkdir\<close>

definition junk_ok :: "junk \<Rightarrow> bool" where
  "junk_ok j \<longleftrightarrow> length (junk_name j) = 8 \<and> length (junk_dest j) = 8 \<and> length (junk_paths j) = 9 \<and>
     list_all (\<lambda>p. length p = 8) (junk_paths j) \<and> length (junk_temp j) = 8 \<and> entry_ok (junk_entry j) \<and> length (junk_table j) = 64"

definition mkdir_request :: "shell \<Rightarrow> u8 list \<Rightarrow> driver_request" where
  "mkdir_request s name = \<lparr>rq_buf = 0, rq_name = name, rq_ext = [0, 0, 0],
     rq_parent_cluster_number = CURRENT_DIR_CLUSTER_NUMBER s, rq_buffer_size = 0\<rparr>"

lemma mkdir_effect:
  assumes "located s D" and "junk_ok j" and "can_mkdir (mkdir_request s name) k x (disk s)"
    and s': "s' = s\<lparr>disk := after_mkdir (junk_entry j) (junk_table j) (mkdir_request s name) x (disk s)\<rparr>"
  shows "mkdir j name s = Some (Inr s')" and "located s' (insert x D)"
proof -
  have p: "parent_of (mkdir_request s name) = unat (CURRENT_DIR_CLUSTER_NUMBER s)" by (simp add: parent_of_def mkdir_request_def)
  have D: "parent_of (mkdir_request s name) \<in> D" using located_current(2) [OF assms(1)] p by simp
  have t: "tree (disk s) D" "linked (disk s) (location s)" "place_ok s" using assms(1) by (simp_all add: located_def)
  obtain xs where fr: "frees (cluster_map (disk s)) = x # xs" using assms(3) by (auto simp: can_mkdir_def)
  have rq: "request_ok (mkdir_request s name)" using assms(3) by (simp add: can_mkdir_def)
  have j: "entry_ok (junk_entry j)" "length (junk_table j) = 64" using assms(2) by (simp_all add: junk_ok_def)
  have "fs_write (junk_entry j) (junk_table j) (mkdir_request s name) (disk s) (junk_mem j) =
      Some (Inr (0, after_mkdir (junk_entry j) (junk_table j) (mkdir_request s name) x (disk s), junk_mem j))"
    using tree_basics(1,6) [OF t(1)] D rq j fr by (intro fs_write_folder_effect) (simp_all add: mkdir_request_def)
  then show "mkdir j name s = Some (Inr s')"
    unfolding s' using located_current(1) [OF assms(1), of j]
    by (simp add: mkdir_def Let_def write_file_def mkdir_request_def [symmetric] del: One_nat_def)
  have "location s' = location s" "place s' = place s" by (simp_all add: location_at_def s')
  then show "located s' (insert x D)"
    using mkdir_tree [OF t(1) assms(3) D j] t(2,3) place_ok_cong [of s' s]
    by (simp add: located_def s')
qed

text \<open>The new folder is the one its name finds, and holds only itself.\<close>

lemma new_subfolder:
  assumes "located s D" and "junk_ok j" and "can_mkdir (mkdir_request s name) k x (disk s)"
    and s': "s' = s\<lparr>disk := after_mkdir (junk_entry j) (junk_table j) (mkdir_request s name) x (disk s)\<rparr>"
    and "name ! 0 \<noteq> 0" and "subfolder (disk s) (unat (CURRENT_DIR_CLUSTER_NUMBER s)) (trim name) = None"
  shows "subfolder (disk s') (unat (CURRENT_DIR_CLUSTER_NUMBER s)) (trim name) = Some (of_nat x, name)"
    and "map (\<lambda>k. shown k (dir_at (disk s') x ! k)) (filter (\<lambda>k. de_name (dir_at (disk s') x ! k) ! 0 \<noteq> 0) [0..<DIR_ENTRIES]) =
      [trim name @ codes ''/'']"
proof -
  let ?c = "unat (CURRENT_DIR_CLUSTER_NUMBER s)" and ?rq = "mkdir_request s name"
  have p: "parent_of ?rq = ?c" by (simp add: parent_of_def mkdir_request_def)
  have D: "?c \<in> D" using located_current(2) [OF assms(1)] by simp
  have t: "tree (disk s) D" using assms(1) by (simp add: located_def)
  have j: "entry_ok (junk_entry j)" "length (junk_table j) = 64" using assms(2) by (simp_all add: junk_ok_def)
  have k: "1 \<le> k" "k < 64" "free_slot (dir_at (disk s) ?c) = Some k" "length name = 8" "request_ok ?rq"
    using assms(3) free_slot_lt p by (auto simp: can_mkdir_def request_ok_def mkdir_request_def)
  have "x \<in> set (frees (cluster_map (disk s)))" using assms(3) by (auto simp: can_mkdir_def)
  then have x: "2 \<le> x" "cluster_map (disk s) ! x = FAT32_FAT_EMPTY_ENTRY" by (simp_all add: frees_set)
  have pc: "2 \<le> ?c" "x \<noteq> ?c" using tree_basics(6) [OF t D] x(2) by auto
  let ?e = "folder_entry (junk_entry j) ?rq x"
  have e: "directory_entry ?e" "de_name ?e = name"
    using assms(5) by (simp_all add: directory_entry_def folder_entry_def mkdir_request_def)
  have dc: "dir_at (disk s') ?c = (dir_at (disk s) ?c)[k := ?e]"
    using mkdir_dirs [OF t assms(3) _ j D] D p s' by simp
  have "find (\<lambda>i. directory_entry ((dir_at (disk s) ?c)[k := ?e] ! i) \<and> trim (de_name ((dir_at (disk s) ?c)[k := ?e] ! i)) = trim name)
      [1..<DIR_ENTRIES] = Some k"
    using assms(6) k(1,2) e by (auto simp: subfolder_def find_upt_Some find_upt_None nth_list_update DIR_ENTRIES_val)
  then show "subfolder (disk s') ?c (trim name) = Some (of_nat x, name)"
    using k(2) e by (simp add: subfolder_def dc)
  have dx: "dir_at (disk s') x = init_directory_table (junk_table j) name (CURRENT_DIR_CLUSTER_NUMBER s)"
    using after_mkdir_dirs(2) [OF k(5) j _ _ _ x(1) tree_basics(1) [OF t], of k] k(3) pc p s'
    by (simp add: mkdir_request_def)
  have z: "de_name (dir_at (disk s') x ! i) ! 0 = 0" if "i \<in> set [1..<DIR_ENTRIES]" for i
  proof -
    have "1 \<le> i" "i < DIR_ENTRIES" using that by simp_all
    then have "i \<noteq> 0" "i < 64" by (simp_all add: DIR_ENTRIES_val)
    then show ?thesis using j(2) by (simp add: dx init_directory_table_nth zero_entry_fields)
  qed
  have f: "filter (\<lambda>k. de_name (dir_at (disk s') x ! k) ! 0 \<noteq> 0) [1..<DIR_ENTRIES] = []"
    using z by (simp only: filter_empty_conv) blast
  have "[0..<DIR_ENTRIES] = 0 # [1..<DIR_ENTRIES]" by (subst upt_conv_Cons) (simp_all add: DIR_ENTRIES_val)
  moreover have "de_name (dir_at (disk s') x ! 0) = name" using j(2) by (simp add: dx init_directory_table_nth)
  ultimately show "map (\<lambda>k. shown k (dir_at (disk s') x ! k)) (filter (\<lambda>k. de_name (dir_at (disk s') x ! k) ! 0 \<noteq> 0) [0..<DIR_ENTRIES]) =
      [trim name @ codes ''/'']"
    using f assms(5) by (simp add: shown_def)
qed

lemma components_single: "n \<noteq> [] \<Longrightarrow> slash \<notin> set n \<Longrightarrow> components n = [n]"
proof (cases n)
  case (Cons x xs)
  moreover assume "slash \<notin> set n"
  ultimately have "takeWhile (\<lambda>c. c \<noteq> slash) (x # xs) = x # xs" "dropWhile (\<lambda>c. c \<noteq> slash) (x # xs) = []"
    by (auto simp: takeWhile_eq_all_conv)
  then show ?thesis unfolding Cons components.simps by (simp only: list.sel components.simps)
qed simp

text \<open>
  C10. Making a folder and going there. In a place in the tree with a free entry and a free
  cluster, \<open>mkdir\<close> of a new name succeeds silently and extends the tree by the new cluster;
  \<open>cd\<close> with that name then enters it, where \<open>ls\<close> shows only the folder itself, and \<open>cd ..\<close>
  comes back to where the shell was.
\<close>

theorem mkdir_then_cd:
  assumes "located s D" and "junk_ok j" and "can_mkdir (mkdir_request s name) k x (disk s)"
    and "name ! 0 \<noteq> 0" and "slash \<notin> set (trim name)" and "DEPTH s + 1 < 10"
    and "subfolder (disk s) (unat (CURRENT_DIR_CLUSTER_NUMBER s)) (trim name) = None"
    and "3 < len" and "len < length command" and "remaining command len 3 = trim name"
    and "\<not> starts_with command ''cd ..''" and "starts_with back ''cd ..''"
  shows "\<exists>s1 s2 es s4. mkdir j name s = Some (Inr s1) \<and> located s1 (insert x D) \<and> trace s1 = trace s \<and>
    cd j command len s1 = Inr s2 \<and> location s2 = location s @ [(of_nat x, name)] \<and> located s2 (insert x D) \<and>
    ls j s2 = Inr (s2\<lparr>trace := trace s2 @ es\<rparr>) \<and> printed es = trim name @ codes ''/'' @ [10] \<and>
    cd j back n s2 = Inr s4 \<and> location s4 = location s"
proof -
  define s1 where s1: "s1 = s\<lparr>disk := after_mkdir (junk_entry j) (junk_table j) (mkdir_request s name) x (disk s)\<rparr>"
  note m = mkdir_effect [OF assms(1-3) s1] and n = new_subfolder [OF assms(1-3) s1 assms(4,7)]
  have l1: "location s1 = location s" "place_ok s1" "tree (disk s1) (insert x D)" "linked (disk s1) (location s1)"
    using m(2) by (simp_all add: s1 location_at_def located_def)
  have ok: "arrays_ok s" "DEPTH s < 10" using assms(1) by (simp_all add: located_def place_ok_arrays) (simp add: place_ok_def)
  have n8: "length name = 8" using assms(3) by (simp add: can_mkdir_def request_ok_def mkdir_request_def)
  then have "trim name \<noteq> []" using assms(4) by (cases name) auto
  then have comps: "components (remaining command len 3) = [trim name]" using components_single [OF _ assms(5)] assms(10) by simp
  have "length (trim name) \<le> 8" using n8 by (metis length_takeWhile_le)
  then obtain s2 where s2: "cd j command len s1 = Inr s2" "place_ok s2" "disk s2 = disk s1"
    "location s2 = location s @ [(of_nat x, name)]" "linked (disk s2) (location s2)"
    using cd_follows [OF l1(2-4) assms(8,9), of j] comps location_at_facts(1) [OF ok] assms(6,11) l1(1)
      n(1) located_current(3) [OF assms(1)] by auto
  have L2: "located s2 (insert x D)" using s2 l1(3) by (simp add: located_def)
  have "length (location s2) = DEPTH s2 + 1" using location_at_facts(1) [of s2 "DEPTH s2"] s2(2)
    by (simp add: place_ok_arrays) (simp add: place_ok_def)
  then have "DEPTH s2 \<noteq> 0" using s2(4) location_at_facts(1) [OF ok] by simp
  then obtain s4 where s4: "cd j back n s2 = Inr s4" "location s4 = location s"
    using cd_dotdot_up [OF s2(2)] s2(4) assms(12) by (auto simp: cd_def)
  have "CURRENT_DIR_CLUSTER_NUMBER s2 = of_nat x" using located_current(3) [OF L2] s2(4) by simp
  moreover have "x \<in> set (frees (cluster_map (disk s)))" using assms(3) by (auto simp: can_mkdir_def)
  then have "x < 4294967296" by (simp add: frees_set)
  ultimately have c: "unat (CURRENT_DIR_CLUSTER_NUMBER s2) = x" by (simp add: unat_of_nat32)
  obtain es where "ls j s2 = Inr (s2\<lparr>trace := trace s2 @ es\<rparr>)" "printed es = trim name @ codes ''/'' @ [10]"
    using ls_shown [OF located_current(1) [OF L2], of j] n(2) s2(3) c by auto
  moreover have "trace s1 = trace s" by (simp add: s1)
  ultimately show ?thesis using m s2(1,4) L2 s4 by blast
qed

section \<open>A shell at the root of a fresh file system\<close>

definition demo_shell :: shell where
  "demo_shell = \<lparr>CURRENT_DIR_CLUSTER_NUMBER = 2, CURRENT_DIR_PARENT_CLUSTER_NUMBER = 2, DEPTH = 0,
     DIR_PATH = root_name # replicate 9 (replicate 8 0), DIR_CLUSTERS = 2 # replicate 9 (- 1),
     clock_is_running = 0, disk = demo_fs, trace = []\<rparr>"

definition docs :: "u8 list" where "docs = codes ''docs'' @ [0, 0, 0, 0]"
definition cd_docs :: "u8 list" where "cd_docs = codes ''cd docs'' @ replicate 249 0"
definition cd_up :: "u8 list" where "cd_up = codes ''cd ..'' @ replicate 251 0"

lemma demo_entry_cluster: "entry_cluster (demo_root ! 0) = ROOT_CLUSTER_NUMBER"
  by (simp add: demo_root_nth entry_cluster_def halves_join)

lemma demo_no_folder: "1 \<le> k \<Longrightarrow> k < 64 \<Longrightarrow> \<not> directory_entry (demo_root ! k)"
  by (simp add: demo_root_nth)

lemma demo_tree: "tree demo_fs {2}"
proof (rule treeI)
  show "2 \<le> c \<and> c < 512 \<and> cluster_map demo_fs ! c \<noteq> FAT32_FAT_EMPTY_ENTRY" if "c \<in> {2}" for c
    using that by simp
  show "find_name (dir_at demo_fs 2) root_name = Some 0 \<and> entry_cluster (dir_at demo_fs 2 ! 0) = ROOT_CLUSTER_NUMBER \<and>
      de_filesize (dir_at demo_fs 2 ! 0) = 0"
    by (simp add: find_name_Some demo_entry_cluster) (simp add: demo_root_nth)
qed (use demo_no_folder in simp_all)

lemma demo_located: "located demo_shell {2}"
  using demo_tree
  by (simp add: located_def demo_shell_def place_ok_def location_at_def ROOT_CLUSTER_NUMBER_def [symmetric] linked.root)

lemma demo_junk_ok: "junk_ok demo_shell_junk"
  by (simp add: junk_ok_def demo_shell_junk_def list_all_length)

lemma docs_facts: "length docs = 8" "docs ! 0 \<noteq> 0" "trim docs = codes ''docs''" "slash \<notin> set (codes ''docs'')"
  by (simp_all add: docs_def codes_def slash_def)

lemma demo_can_mkdir: "can_mkdir (mkdir_request demo_shell docs) 1 3 demo_fs"
proof -
  have p: "parent_of (mkdir_request demo_shell docs) = 2"
    by (simp add: mkdir_request_def parent_of_def demo_shell_def)
  have "de_name (demo_root ! i) \<noteq> docs" if "i < 64" for i
    using that by (simp add: demo_root_nth zero_entry_fields docs_def root_name_def replicate8 codes_def)
  then have "find_name demo_root docs = None" using docs_facts(1) by (simp add: find_name_None)
  moreover have "frees demo_fat = 3 # [4..<512]" unfolding demo_frees by (subst upt_conv_Cons) simp_all
  ultimately show ?thesis
    unfolding can_mkdir_def p using docs_facts(1) demo_free_slot by (simp add: request_ok_def mkdir_request_def)
qed

lemma demo_no_subfolder: "subfolder demo_fs 2 n = None"
proof -
  have "\<not> directory_entry (demo_root ! k)" if "1 \<le> k" "k < DIR_ENTRIES" for k
    using that demo_no_folder unfolding DIR_ENTRIES_val by blast
  then show ?thesis by (simp add: subfolder_def find_upt_None)
qed

lemma cd_docs_facts: "7 < length cd_docs" "remaining cd_docs 7 3 = codes ''docs''" "\<not> starts_with cd_docs ''cd ..''"
  "starts_with cd_up ''cd ..''"
  by (simp_all add: cd_docs_def cd_up_def remaining_def codes_def starts_with_def)

theorem ls_lists_witness:
  "\<exists>es. ls demo_shell_junk demo_shell = Inr (demo_shell\<lparr>trace := trace demo_shell @ es\<rparr>) \<and>
    printed es = concat (map (\<lambda>k. shown k (demo_root ! k)) (filter (\<lambda>k. de_name (demo_root ! k) ! 0 \<noteq> 0) [0..<DIR_ENTRIES])) @ [10]"
  using ls_lists [OF demo_located, of demo_shell_junk] by (simp add: demo_shell_def)

theorem mkdir_then_cd_witness:
  "\<exists>s1 s2 s4. mkdir demo_shell_junk docs demo_shell = Some (Inr s1) \<and> cd demo_shell_junk cd_docs 7 s1 = Inr s2 \<and>
     location s2 = location demo_shell @ [(3, docs)] \<and> cd demo_shell_junk cd_up 5 s2 = Inr s4 \<and>
     location s4 = location demo_shell"
proof -
  have d: "disk demo_shell = demo_fs" "DEPTH demo_shell + 1 < 10" "CURRENT_DIR_CLUSTER_NUMBER demo_shell = 2"
    by (simp_all add: demo_shell_def)
  have "can_mkdir (mkdir_request demo_shell docs) 1 3 (disk demo_shell)" using demo_can_mkdir d(1) by simp
  from mkdir_then_cd [OF demo_located demo_junk_ok this docs_facts(2) _ d(2), of 7 cd_docs cd_up 5]
  show ?thesis using docs_facts cd_docs_facts demo_no_subfolder d by auto
qed

definition demo_shell2 :: shell where
  "demo_shell2 = demo_shell\<lparr>disk := after_mkdir (junk_entry demo_shell_junk) (junk_table demo_shell_junk)
     (mkdir_request demo_shell docs) 3 (disk demo_shell)\<rparr>"

lemma demo2_located: "located demo_shell2 {3, 2}"
  using mkdir_effect(2) [OF demo_located demo_junk_ok _ demo_shell2_def] demo_can_mkdir by (simp add: demo_shell_def)

lemma demo2_subfolder: "subfolder (disk demo_shell2) 2 (codes ''docs'') = Some (3, docs)"
  using new_subfolder(1) [OF demo_located demo_junk_ok _ demo_shell2_def docs_facts(2)] demo_can_mkdir demo_no_subfolder
    docs_facts(3) by (simp add: demo_shell_def)

theorem cd_walks_witness:
  "\<exists>s'. cd demo_shell_junk cd_docs 7 demo_shell2 = Inr s' \<and> location s' = [(2, root_name), (3, docs)]"
proof -
  have loc: "location demo_shell2 = [(2, root_name)]" by (simp add: demo_shell2_def demo_shell_def location_at_def)
  have c: "components (remaining cd_docs 7 3) = [codes ''docs'']"
    using cd_docs_facts(2) docs_facts(4) components_single by (simp add: codes_def)
  have l: "place_ok demo_shell2" "tree (disk demo_shell2) {3, 2}" "linked (disk demo_shell2) (location demo_shell2)"
    using demo2_located by (simp_all add: located_def)
  show ?thesis
    using cd_walks [OF l, of 7 cd_docs demo_shell_junk] cd_docs_facts(1,3) loc c demo2_subfolder by auto
qed

end
