(* ===== verification/ShellFiles.thy ===== *)
theory ShellFiles
  imports ShellFolders FatDelete
begin

text \<open>
  What the shell's file commands do: \<open>cat\<close> prints a file, \<open>cp\<close> copies one, and \<open>rm\<close> and
  \<open>mv\<close> act on the parent of the current directory, which is the current directory only at
  the root.
\<close>

section \<open>Files of a directory\<close>

text \<open>The table of cluster \<open>c\<close> finds a file under a name, whose chain is as long as its size asks.\<close>

definition holds_file :: "fat32 \<Rightarrow> nat \<Rightarrow> u8 list \<Rightarrow> dir_entry \<Rightarrow> nat list \<Rightarrow> bool" where
  "holds_file f c n e cs \<longleftrightarrow> lookup f c n = Some e \<and> length n = 8 \<and> n \<noteq> replicate 8 0 \<and> 0 < de_filesize e \<and>
     unat (de_filesize e) \<le> 2048 * 510 \<and> chain (cluster_map f) (entry_cluster e) cs \<and>
     length cs = size_in_clusters (de_filesize e) \<and> entry_cluster e \<noteq> 0"

definition contents :: "fat32 \<Rightarrow> dir_entry \<Rightarrow> nat list \<Rightarrow> u8 list" where
  "contents f e cs = take (unat (de_filesize e)) (file_bytes (storage f) cs)"

lemma entry_named_lookup: "lookup f c n = Some e \<Longrightarrow> entry_named (dir_at f c) n = (entry_cluster e, de_filesize e)"
  by (auto simp: lookup_def entry_named_def)

section \<open>Buffer sizes\<close>

lemma round_up_rounds:
  assumes "0 < n" and "unat n \<le> 2048 * 510" and "k \<le> size_in_clusters n"
  shows "round_up (of_nat (2048 * k)) n = Some (of_nat (2048 * size_in_clusters n))"
  using assms(3)
proof (induction "size_in_clusters n - k" arbitrary: k)
  have sz: "size_in_clusters n \<le> 510" using assms(2) by (simp add: size_in_clusters_def)
  note b = size_in_clusters_bounds [OF assms(1)]
  {
    case 0
    then have k: "k = size_in_clusters n" by simp
    then have "unat (of_nat (2048 * k) :: u32) = 2048 * k" using sz by (intro unat_of_nat32) simp
    then have "\<not> (of_nat (2048 * k) :: u32) < n" using b k by (simp add: word_less_nat_alt)
    then show ?case using k by (subst round_up.simps) simp
  next
    case (Suc d)
    then have k: "k < size_in_clusters n" by simp
    then have "unat (of_nat (2048 * k) :: u32) = 2048 * k" using sz by (intro unat_of_nat32) simp
    moreover have "2048 * k < unat n" using b k by linarith
    ultimately have "(of_nat (2048 * k) :: u32) < n" by (simp add: word_less_nat_alt)
    then have "round_up (of_nat (2048 * k)) n = round_up (of_nat (2048 * (k + 1))) n"
      by (subst round_up.simps) (simp add: CLUSTER_SIZE_val algebra_simps)
    then show ?case using Suc.hyps(1) [of "k + 1"] Suc.hyps(2) k by simp
  }
qed

text \<open>Below 0x7FFFF800 the \<open>int\<close> does not wrap, and the two loops are the same.\<close>

lemma small_sint: "unat (w :: u32) < 2147483648 \<Longrightarrow> sint w = int (unat w)"
proof -
  assume a: "unat w < 2147483648"
  have u: "uint w = int (unat w)" by (rule uint_nat)
  have "unat w < 2 ^ 31" using a by simp
  then have "int (unat w) < 2 ^ 31" by (simp only: of_nat_less_numeral_power_cancel_iff)
  then have "signed_take_bit 31 (uint w) = uint w"
    unfolding u by (intro signed_take_bit_int_eq_self) (linarith, simp)
  moreover have "sint w = signed_take_bit 31 (uint w)" by (simp add: sint_uint)
  ultimately show ?thesis using u by (simp only:)
qed

lemma cat_size_round_up:
  assumes "unat n \<le> 2147481600" and "unat r < 2147483648"
  shows "cat_size r n = round_up r n"
  using assms(2)
proof (induction "unat n - unat r" arbitrary: r rule: less_induct)
  case less
  have "sint r = int (unat r)" "sint n = int (unat n)"
    using less.prems assms(1) by (intro small_sint, simp)+
  then have s: "sint r < sint n \<longleftrightarrow> r < n" unfolding word_less_nat_alt by (simp only: of_nat_less_iff)
  show ?case
  proof (cases "r < n")
    case True
    then have lt: "unat r < unat n" by (simp add: word_less_nat_alt)
    have "r + of_nat CLUSTER_SIZE = of_nat (unat r + 2048)" by (simp add: CLUSTER_SIZE_val)
    then have u: "unat (r + of_nat CLUSTER_SIZE) = unat r + 2048"
      using lt assms(1) by (simp only:) (rule unat_of_nat32, simp)
    have "cat_size (r + of_nat CLUSTER_SIZE) n = round_up (r + of_nat CLUSTER_SIZE) n"
      using lt assms(1) u by (intro less.hyps) simp_all
    then show ?thesis using True s by (subst cat_size.simps, subst round_up.simps) simp
  qed (subst cat_size.simps, subst round_up.simps, simp add: s)
qed

lemma cat_buffer:
  assumes "0 < sz" and "unat sz \<le> 2048 * 510"
  shows "cat_size (of_nat CLUSTER_SIZE) sz = Some (of_nat (2048 * size_in_clusters sz))"
proof -
  have "1 \<le> size_in_clusters sz" using size_in_clusters_bounds [OF assms(1)] assms(1)
    by (cases "size_in_clusters sz") (auto simp: word_less_nat_alt)
  then have "round_up (of_nat (2048 * 1)) sz = Some (of_nat (2048 * size_in_clusters sz))"
    by (rule round_up_rounds [OF assms])
  moreover have "cat_size (of_nat CLUSTER_SIZE) sz = round_up (of_nat CLUSTER_SIZE) sz"
    using assms(2) by (intro cat_size_round_up) (simp_all add: CLUSTER_SIZE_val)
  ultimately show ?thesis by (simp add: CLUSTER_SIZE_val)
qed

section \<open>cat\<close>

lemma buffer_covers:
  assumes "0 < n" and "unat n \<le> 2048 * 510"
  shows "size_in_clusters n \<le> read_limit (of_nat (2048 * size_in_clusters n))"
proof -
  have "size_in_clusters n \<le> 510" using assms(2) by (simp add: size_in_clusters_def)
  then have "unat (of_nat (2048 * size_in_clusters n) :: u32) = 2048 * size_in_clusters n" by (intro unat_of_nat32) simp
  then show ?thesis unfolding read_limit_def by simp
qed

lemma read_whole_file:
  assumes "holds_file f c n e cs" and "length (cluster_map f) = 512" and "c < 512"
    and "rq_name rq = n" "parent_of rq = c" "rq_buffer_size rq = of_nat (2048 * size_in_clusters (de_filesize e))"
  shows "fs_read rq f m = Some (Inr (0, mem_write m (rq_buf rq) (file_bytes (storage f) cs)))"
proof -
  have sz: "0 < de_filesize e" "unat (de_filesize e) \<le> 2048 * 510" using assms(1) by (simp_all add: holds_file_def)
  have "length cs \<le> read_limit (rq_buffer_size rq)"
    using buffer_covers [OF sz] assms(1,6) by (simp add: holds_file_def)
  then show ?thesis
    using fs_read_chain [of rq f e cs m] assms sz by (auto simp: holds_file_def)
qed

lemma read_whole_array:
  assumes "holds_file (disk s) c n e cs" and "length (cluster_map (disk s)) = 512" and "c < 512"
    and "rq_name rq = n" "parent_of rq = c" "rq_buffer_size rq = of_nat (2048 * size_in_clusters (de_filesize e))" "rq_buf rq = 0"
  shows "read_array j rq s = Some (Inr (0, mem_write (junk_mem j) 0 (file_bytes (storage (disk s)) cs)))"
proof -
  have rd: "\<And>m. fs_read rq (disk s) m = Some (Inr (0, mem_write m (rq_buf rq) (file_bytes (storage (disk s)) cs)))"
    using read_whole_file [OF assms(1-6)] .
  have sz: "size_in_clusters (de_filesize e) \<le> 510" "length cs = size_in_clusters (de_filesize e)"
    using assms(1) by (auto simp: holds_file_def size_in_clusters_def)
  then have u: "unat (rq_buffer_size rq) = 2048 * size_in_clusters (de_filesize e)"
    unfolding assms(6) by (intro unat_of_nat32) simp
  have "\<not> (\<exists>a. unat (rq_buffer_size rq) \<le> unat (a - rq_buf rq) \<and> stores_to rq (disk s) a)"
    unfolding stores_to_run [OF rd] u using sz(2) by auto
  then show ?thesis
    using u sz(1) assms(7) rd by (simp add: read_array_def STACK_PAGE_def read_file_def)
qed

lemma file_length:
  assumes "holds_file f c n e cs"
  shows "unat (de_filesize e) \<le> length (file_bytes (storage f) cs)" "length (file_bytes (storage f) cs) \<le> 2048 * 510"
    "length (contents f e cs) = unat (de_filesize e)"
proof -
  have sz: "0 < de_filesize e" "unat (de_filesize e) \<le> 2048 * 510" "length cs = size_in_clusters (de_filesize e)"
    using assms by (simp_all add: holds_file_def)
  show "unat (de_filesize e) \<le> length (file_bytes (storage f) cs)" using size_in_clusters_bounds [OF sz(1)] sz(3) by simp
  then show "length (contents f e cs) = unat (de_filesize e)" by (simp add: contents_def)
  show "length (file_bytes (storage f) cs) \<le> 2048 * 510" using sz by (simp add: size_in_clusters_def)
qed

lemma mem_read_stored:
  assumes "k \<le> length bs" and "length bs \<le> 4294967296"
  shows "mem_read (mem_write m a bs) a k = take k bs"
  using assms by (intro nth_equalityI) (auto simp: nth_mem_read mem_write_at)

lemma cat_shows:
  assumes "located s D" and "holds_file (disk s) (unat (CURRENT_DIR_CLUSTER_NUMBER s)) n e cs"
  shows "cat j n s = Some (Inr (s\<lparr>trace := trace s @ [Put (contents (disk s) e cs) GOLD, Put [10] WHITE]\<rparr>))"
proof -
  have ok: "arrays_ok s" "DEPTH s < 10" "CURRENT_DIR_CLUSTER_NUMBER s = DIR_CLUSTERS s ! DEPTH s"
    and t: "linked (disk s) (location s)" "tree (disk s) D"
    using assms(1) by (simp_all add: located_def place_ok_arrays) (simp_all add: place_ok_def)
  have l: "list_directory (junk_mem j) (DIR_PATH s ! DEPTH s) (DIR_CLUSTERS s ! (DEPTH s - 1)) s = Inr (0, current_dir s)"
    using here_listed [OF t ok(1,2)] ok(3) by simp
  have g: "arr_get (DIR_CLUSTERS s) (if DEPTH s = 0 then DEPTH s else DEPTH s - 1) = Inr (DIR_CLUSTERS s ! (DEPTH s - 1))"
    "arr_get (DIR_PATH s) (DEPTH s) = Inr (DIR_PATH s ! DEPTH s)"
    "arr_get (DIR_CLUSTERS s) (DEPTH s) = Inr (CURRENT_DIR_CLUSTER_NUMBER s)"
    using ok by (auto simp: arr_get_def arrays_ok_def)
  note h = assms(2) [unfolded holds_file_def]
  have n: "entry_named (current_dir s) n = (entry_cluster e, de_filesize e)" using h entry_named_lookup by blast
  have tbl: "cat_table j s = Inr (0, current_dir s)" unfolding cat_table_def g bindE_simps by (rule l)
  let ?rq = "\<lparr>rq_buf = 0, rq_name = n, rq_ext = [0, 0, 0], rq_parent_cluster_number = CURRENT_DIR_CLUSTER_NUMBER s,
                   rq_buffer_size = of_nat (2048 * size_in_clusters (de_filesize e))\<rparr>"
  have b: "cat_size (of_nat CLUSTER_SIZE) (de_filesize e) = Some (of_nat (2048 * size_in_clusters (de_filesize e)))"
    using cat_buffer [of "de_filesize e"] h by blast
  have "sint (de_filesize e) = int (unat (de_filesize e))" using h by (intro small_sint) simp
  then have pos: "\<not> sint (de_filesize e) < 0" by (simp only: of_nat_less_0_iff) simp
  have D: "unat (CURRENT_DIR_CLUSTER_NUMBER s) < 512" "length (cluster_map (disk s)) = 512"
    using located_current(2) [OF assms(1)] tree_basics [OF t(2)] by blast+
  have r: "read_array j ?rq s = Some (Inr (0, mem_write (junk_mem j) 0 (file_bytes (storage (disk s)) cs)))"
    by (rule read_whole_array [OF assms(2) D(2,1)]) (simp_all add: parent_of_def)
  have m: "mem_read (mem_write (junk_mem j) 0 (file_bytes (storage (disk s)) cs)) 0 (unat (de_filesize e)) = contents (disk s) e cs"
    unfolding contents_def using file_length(1,2) [OF assms(2)] by (intro mem_read_stored) auto
  have "cat j n s = Some (Inr (say_line '''' WHITE (put (contents (disk s) e cs) (unat (de_filesize e)) GOLD s)))"
    unfolding cat_def tbl bindO_simps using n h r m b pos g(3) by (simp add: Let_def)
  also have "say_line '''' WHITE (put (contents (disk s) e cs) (unat (de_filesize e)) GOLD s) =
      s\<lparr>trace := trace s @ [Put (contents (disk s) e cs) GOLD, Put [10] WHITE]\<rparr>"
    using file_length(3) [OF assms(2)] by (simp add: say_call call_def codes_def)
  finally show ?thesis .
qed

section \<open>Writing a file keeps the tree\<close>

lemma aw_dir_other:
  assumes "can_write rq k f" and "tree f D" and "c \<in> D" and "c \<noteq> parent_of rq"
  shows "dir_at (after_write rq k (new_clusters rq f) m f) c = dir_at f c"
proof -
  have "c \<notin> set (new_clusters rq f)" using new_clusters_facts(4) [OF assms(1)] tree_basics(6) [OF assms(2,3)] by blast
  moreover have "c \<noteq> 1" using tree_basics(6) [OF assms(2,3)] by auto
  ultimately show ?thesis using aw_other [OF assms(1)] assms(4) by (simp add: dir_at_def)
qed

lemma file_not_directory [simp]: "\<not> directory_entry (file_entry rq x)"
  by (simp add: directory_entry_def file_entry_def ATR_FILE_def ATR_DIRECTORY_def)

lemma write_tree:
  assumes cw: "can_write rq k f" and t: "tree f D" and p: "parent_of rq \<in> D" and k: "1 \<le> k"
    and new: "find_name (dir_at f (parent_of rq)) (rq_name rq) = None"
  shows "tree (after_write rq k (new_clusters rq f) m f) D"
    and "linked f st \<Longrightarrow> linked (after_write rq k (new_clusters rq f) m f) st"
proof -
  let ?f = "after_write rq k (new_clusters rq f) m f" and ?e = "file_entry rq (hd (new_clusters rq f))"
  have fs: "free_slot (dir_at f (parent_of rq)) = Some k" using cw by (simp add: can_write_def)
  have n: "find_name (dir_at f (parent_of rq)) (de_name ?e) = None" using new by (simp add: file_entry_def)
  have alloc: "2 \<le> c \<and> c < 512 \<and> cluster_map ?f ! c \<noteq> FAT32_FAT_EMPTY_ENTRY" if "c \<in> D" for c
  proof -
    have "c \<notin> set (new_clusters rq f)" using new_clusters_facts(4) [OF cw] tree_basics(6) [OF t that] by blast
    then show ?thesis using tree_basics(6) [OF t that] by (simp add: link_other)
  qed
  have len: "length (cluster_map ?f) = 512" using tree_basics(1) [OF t] by simp
  show "tree ?f D"
    by (rule tree_with_entry(1) [OF t p k fs aw_entry_ok [OF cw] n aw_dir_parent [OF cw] aw_dir_other [OF cw t] subset_refl len alloc]) simp_all
  show "linked f st \<Longrightarrow> linked ?f st"
    by (rule tree_with_entry(2) [OF t p k fs aw_entry_ok [OF cw] n aw_dir_parent [OF cw] aw_dir_other [OF cw t] subset_refl len alloc]) simp_all
qed

lemma written_held:
  assumes cw: "can_write rq k f" and new: "find_name (dir_at f (parent_of rq)) (rq_name rq) = None"
    and "rq_name rq \<noteq> replicate 8 0"
  shows "holds_file (after_write rq k (new_clusters rq f) m f) (parent_of rq) (rq_name rq)
      (file_entry rq (hd (new_clusters rq f))) (new_clusters rq f)"
    and "contents (after_write rq k (new_clusters rq f) m f) (file_entry rq (hd (new_clusters rq f))) (new_clusters rq f) =
      mem_read m (rq_buf rq) (unat (rq_buffer_size rq))"
proof -
  let ?cs = "new_clusters rq f" and ?f = "after_write rq k (new_clusters rq f) m f"
  have ne: "?cs \<noteq> []" "\<And>x. x \<in> set ?cs \<Longrightarrow> 2 \<le> x \<and> x < 512" "length ?cs = size_in_clusters (rq_buffer_size rq)"
    using new_clusters_facts(1,2,4) [OF cw] by auto
  then have hd: "2 \<le> hd ?cs" "hd ?cs < 512" by simp_all
  have ec: "entry_cluster (file_entry rq (hd ?cs)) = of_nat (hd ?cs)" by (rule aw_entry_cluster)
  have "unat (of_nat (hd ?cs) :: u32) = hd ?cs" using hd(2) by (intro unat_of_nat32) simp
  then have "entry_cluster (file_entry rq (hd ?cs)) \<noteq> 0" using hd(1) ec by auto
  moreover have "unat (rq_buffer_size rq) \<le> 2048 * 510" "0 < rq_buffer_size rq" "length (rq_name rq) = 8"
    using new_clusters_facts(5) [OF cw] cw by (simp_all add: size_in_clusters_def can_write_def request_ok_def)
  moreover have "de_filesize (file_entry rq x) = rq_buffer_size rq" for x by (simp add: file_entry_def)
  ultimately show "holds_file ?f (parent_of rq) (rq_name rq) (file_entry rq (hd ?cs)) ?cs"
    unfolding holds_file_def using assms(3) ne(3) aw_lookup(2) [OF cw new] aw_chain [OF cw] ec by simp
  show "contents ?f (file_entry rq (hd ?cs)) ?cs = mem_read m (rq_buf rq) (unat (rq_buffer_size rq))"
    using aw_contents [OF cw, of m] by (simp add: contents_def file_entry_def)
qed

section \<open>cp\<close>

lemma parse_name_word:
  "parse_name command ks acc =
     (let w = takeWhile (\<lambda>c. c \<noteq> 32) (map ((!) command) ks) in
      if length acc + length w \<le> 8 \<or> w = [] then Some (acc @ w) else None)"
  by (induction command ks acc rule: parse_name.induct) (auto simp: Let_def)

definition copy_request :: "shell \<Rightarrow> u8 list \<Rightarrow> dir_entry \<Rightarrow> driver_request" where
  "copy_request s dest e = \<lparr>rq_buf = 0, rq_name = dest, rq_ext = de_ext e,
     rq_parent_cluster_number = CURRENT_DIR_CLUSTER_NUMBER s, rq_buffer_size = de_filesize e\<rparr>"

lemma copy_file_effect:
  assumes "located s D" and "CURRENT_DIR_PARENT_CLUSTER_NUMBER s = CURRENT_DIR_CLUSTER_NUMBER s"
    and h: "holds_file (disk s) (unat (CURRENT_DIR_CLUSTER_NUMBER s)) source e cs"
    and cw: "can_write (copy_request s dest e) k (disk s)" and "1 \<le> k"
    and new: "find_name (current_dir s) dest = None" and "dest \<noteq> replicate 8 0"
  shows "\<exists>f e' cs'. copy_file j source dest e s = Some (Inr (s\<lparr>disk := f\<rparr>)) \<and> located (s\<lparr>disk := f\<rparr>) D \<and>
    holds_file f (unat (CURRENT_DIR_CLUSTER_NUMBER s)) dest e' cs' \<and> contents f e' cs' = contents (disk s) e cs \<and> de_ext e' = de_ext e"
proof -
  let ?c = "unat (CURRENT_DIR_CLUSTER_NUMBER s)" and ?rq = "copy_request s dest e"
  let ?m = "mem_write (junk_mem j) 0 (file_bytes (storage (disk s)) cs)"
  let ?cs = "new_clusters ?rq (disk s)"
  let ?f = "after_write ?rq k ?cs ?m (disk s)" and ?e = "file_entry ?rq (hd ?cs)"
  have t: "tree (disk s) D" "linked (disk s) (location s)" "place_ok s" using assms(1) by (simp_all add: located_def)
  have D: "?c \<in> D" using located_current(2) [OF assms(1)] by simp
  have c512: "?c < 512" "length (cluster_map (disk s)) = 512" using tree_basics [OF t(1)] D by blast+
  have p: "parent_of ?rq = ?c" by (simp add: copy_request_def parent_of_def)
  have rqn: "rq_name ?rq = dest" "rq_buffer_size ?rq = de_filesize e" "rq_ext ?rq = de_ext e" "rq_buf ?rq = 0"
    by (simp_all add: copy_request_def)
  have sz: "0 < de_filesize e" "unat (de_filesize e) \<le> 2048 * 510" using h by (simp_all add: holds_file_def)
  have r: "round_up 0 (de_filesize e) = Some (of_nat (2048 * size_in_clusters (de_filesize e)))"
    using round_up_rounds [OF sz, of 0] by simp
  have rd: "read_array j \<lparr>rq_buf = 0, rq_name = source, rq_ext = [0, 0, 0],
      rq_parent_cluster_number = CURRENT_DIR_PARENT_CLUSTER_NUMBER s,
      rq_buffer_size = of_nat (2048 * size_in_clusters (de_filesize e))\<rparr> s = Some (Inr (0, ?m))"
    by (rule read_whole_array [OF h c512(2,1)]) (use assms(2) in \<open>simp_all add: parent_of_def\<close>)
  have wr: "write_file j ?rq ?m s = Some (Inr (0, s\<lparr>disk := ?f\<rparr>))"
    using fs_write_ok [OF cw, of "junk_entry j" "junk_table j" ?m] by (simp add: write_file_def)
  have cp: "copy_file j source dest e s = Some (Inr (s\<lparr>disk := ?f\<rparr>))"
    unfolding copy_file_def r option.case Let_def rd bindO_simps copy_request_def [symmetric]
    by (simp add: wr)
  have new': "find_name (dir_at (disk s) (parent_of ?rq)) (rq_name ?rq) = None" using new p rqn by simp
  have "location (s\<lparr>disk := ?f\<rparr>) = location s" by (simp add: location_at_def)
  then have loc: "located (s\<lparr>disk := ?f\<rparr>) D"
    using write_tree [OF cw t(1) _ assms(5) new'] D p t(2,3) place_ok_cong [of "s\<lparr>disk := ?f\<rparr>" s] by (simp add: located_def)
  note w = written_held [OF cw new', where m = ?m]
  have ext: "de_ext ?e = de_ext e" using rqn by (simp add: file_entry_def)
  have hf: "holds_file ?f ?c dest ?e ?cs" using w(1) assms(7) p rqn by simp
  have "contents ?f ?e ?cs = mem_read ?m 0 (unat (de_filesize e))" using w(2) assms(7) rqn by simp
  also have "\<dots> = contents (disk s) e cs"
    unfolding contents_def using file_length(1,2) [OF h] by (intro mem_read_stored) auto
  finally show ?thesis using cp loc hf ext by blast
qed

lemma located_call [simp]: "located (call x s) D = located s D"
  using place_ok_cong [of "call x s" s] by (simp add: located_def location_at_def)

lemma located_root: "located s D \<Longrightarrow> DEPTH s = 0 \<Longrightarrow>
  CURRENT_DIR_CLUSTER_NUMBER s = ROOT_CLUSTER_NUMBER \<and> CURRENT_DIR_PARENT_CLUSTER_NUMBER s = ROOT_CLUSTER_NUMBER"
  by (simp add: located_def place_ok_def)

text \<open>
  C24. Copying in the root directory. With a file of the source's name, a fresh name for the
  copy, and room for it, \<open>cp\<close> succeeds with its one line of output, and \<open>cat\<close> of the copy
  prints exactly the bytes of the original. The two names are the arrays of eight characters
  of \<open>cp\<close>, whose tails after a shorter argument are uninitialised, each its own.
\<close>

theorem cp_then_cat:
  assumes "located s D" and "DEPTH s = 0"
    and "a = parse_word command [3..<len]" and "b = parse_word command [length a + 4..<len]"
    and "a \<noteq> []" and "b \<noteq> []" and "length a \<le> 8" and "length b \<le> 8"
    and "holds_file (disk s) 2 (in_array (junk_name j) a) e cs"
    and "can_write (copy_request s (in_array (junk_dest j) b) e) k (disk s)" and "1 \<le> k"
    and "lookup (disk s) 2 (in_array (junk_dest j) b) = None" and "in_array (junk_dest j) b \<noteq> replicate 8 0"
  shows "\<exists>s1. cp j command len s = Some (Inr s1) \<and> located s1 D \<and>
    printed (trace s1) = printed (trace s) @ codes ''Copying '' @ a @ codes '' to '' @ b @ [10] \<and>
    cat j (in_array (junk_dest j) b) s1 = Some (Inr (s1\<lparr>trace := trace s1 @ [Put (contents (disk s) e cs) GOLD, Put [10] WHITE]\<rparr>))"
proof -
  define s0 where "s0 = say_line '''' WHITE (put b (length b) WHITE (say '' to '' WHITE (put a (length a) WHITE (say ''Copying '' WHITE s))))"
  have s0: "located s0 D" "disk s0 = disk s" "DEPTH s0 = 0"
    "printed (trace s0) = printed (trace s) @ codes ''Copying '' @ a @ codes '' to '' @ b @ [10]"
    using assms(1,2) by (simp_all add: s0_def say_call codes_def)
  note r = located_root [OF s0(1,3)]
  have root: "unat (CURRENT_DIR_CLUSTER_NUMBER s0) = 2" using r by (simp add: ROOT_CLUSTER_NUMBER_def)
  have rq: "copy_request s0 d e = copy_request s d e" for d
    using r located_root [OF assms(1,2)] by (simp add: copy_request_def)
  have new: "find_name (current_dir s0) (in_array (junk_dest j) b) = None" using assms(12) s0(2) root by (simp add: lookup_def)
  obtain i where i: "find_name (current_dir s0) (in_array (junk_name j) a) = Some i" "current_dir s0 ! i = e"
    using assms(9) s0(2) root by (auto simp: holds_file_def lookup_def)
  have h0: "holds_file (disk s0) (unat (CURRENT_DIR_CLUSTER_NUMBER s0)) (in_array (junk_name j) a) e cs"
    and cw0: "can_write (copy_request s0 (in_array (junk_dest j) b) e) k (disk s0)"
    using assms(9,10) s0(2) root rq by simp_all
  obtain f e' cs' where c: "copy_file j (in_array (junk_name j) a) (in_array (junk_dest j) b) e s0 = Some (Inr (s0\<lparr>disk := f\<rparr>))"
    "located (s0\<lparr>disk := f\<rparr>) D" "holds_file f 2 (in_array (junk_dest j) b) e' cs'" "contents f e' cs' = contents (disk s) e cs"
    using copy_file_effect [OF s0(1) _ h0 cw0 assms(11) new assms(13), of j] r s0(2) root by auto
  have pa: "parse_name command [3..<len] [] = Some a" "parse_name command [length a + 4..<len] [] = Some b"
    using assms(3-4,7-8) by (simp_all add: parse_name_word parse_word_def Let_def)
  have "entry_cluster e \<noteq> 0" using assms(9) by (simp add: holds_file_def)
  then have "cp j command len s = Some (Inr (s0\<lparr>disk := f\<rparr>))"
    unfolding cp_def pa option.case Let_def s0_def [symmetric] located_current(1) [OF s0(1)] bindO_simps
    using assms(5,6) i c(1) by simp
  moreover have "cat j (in_array (junk_dest j) b) (s0\<lparr>disk := f\<rparr>) =
      Some (Inr (s0\<lparr>disk := f\<rparr>\<lparr>trace := trace (s0\<lparr>disk := f\<rparr>) @ [Put (contents f e' cs') GOLD, Put [10] WHITE]\<rparr>))"
    using cat_shows [OF c(2), of "in_array (junk_dest j) b" e' cs' j] root c(3) by simp
  ultimately show ?thesis using c(2,4) s0(4) by (intro exI [of _ "s0\<lparr>disk := f\<rparr>"]) simp
qed

section \<open>rm\<close>

definition rm_request :: "shell \<Rightarrow> u8 list \<Rightarrow> driver_request" where
  "rm_request s name = \<lparr>rq_buf = 0, rq_name = name, rq_ext = codes ''txt'',
     rq_parent_cluster_number = CURRENT_DIR_PARENT_CLUSTER_NUMBER s, rq_buffer_size = 0\<rparr>"

text \<open>
  \<open>rm\<close> looks for the name in the current directory but deletes it in the parent. A file the
  current directory has and the parent has not is left alone, with a message; when the
  parent has an entry of that name, it is the parent's file whose chain is freed and whose
  entry is cleared. At the root the two directories are the same, and the file is removed.
\<close>

theorem rm_deletes_in_parent:
  assumes "located s D" and "lookup (disk s) (unat (CURRENT_DIR_CLUSTER_NUMBER s)) n = Some e" and "entry_cluster e \<noteq> 0"
    and "length n = 8" and "n \<noteq> replicate 8 0" and "p = unat (CURRENT_DIR_PARENT_CLUSTER_NUMBER s)"
    and "\<And>i. find_name (dir_at (disk s) p) n = Some i \<Longrightarrow>
           chain (cluster_map (disk s)) (entry_cluster (dir_at (disk s) p ! i)) cs"
  shows "rm j n s = (case find_name (dir_at (disk s) p) n of
      None \<Rightarrow> Some (Inr (say_line ''bukan file'' WHITE s))
    | Some i \<Rightarrow> Some (Inr (s\<lparr>disk := after_delete (rm_request s n) i cs (disk s)\<rparr>)))"
proof -
  have t: "linked (disk s) (location s)" "tree (disk s) D" and ok: "arrays_ok s" "DEPTH s < 10"
    "CURRENT_DIR_PARENT_CLUSTER_NUMBER s = DIR_CLUSTERS s ! (DEPTH s - 1)"
    using assms(1) by (simp_all add: located_def place_ok_arrays) (simp_all add: place_ok_def)
  have p: "p < 512" "p = parent_of (rm_request s n)"
    using linked_resolves [OF t] location_at_facts(4) [OF ok(1,2)] ok(3) assms(6)
    by (simp_all add: parent_of_def rm_request_def)
  have rqn: "rq_name (rm_request s n) = n" "rq_ext (rm_request s n) = codes ''txt''" by (simp_all add: rm_request_def)
  have ext: "codes ''txt'' \<noteq> [0, 0, 0]" "length (codes ''txt'') = 3" by (simp_all add: codes_def)
  have "rm j n s = bindO (delete_file (rm_request s n) s) (\<lambda>(retcode, s1).
       if retcode \<noteq> 0 then Some (Inr (say_line ''bukan file'' WHITE s1)) else Some (Inr s1))"
    using located_current(1) [OF assms(1)] entry_named_lookup [OF assms(2)] assms(3)
    by (simp add: rm_def Let_def rm_request_def)
  moreover have "fs_delete (rm_request s n) (disk s) = Some (case find_name (dir_at (disk s) p) n of
      None \<Rightarrow> Inr (1, disk s) | Some i \<Rightarrow> Inr (0, after_delete (rm_request s n) i cs (disk s)))"
  proof (cases "find_name (dir_at (disk s) p) n")
    case None
    then show ?thesis using p assms(4,5) rqn
      by (simp add: fs_delete_def bytes_cmp_eq_0 read_clusters_one parent_of_def dir_at_def)
  next
    case (Some i)
    then show ?thesis
      using fs_delete_effect [of "rm_request s n" "disk s" i cs] p assms(4,5,7) rqn ext tree_basics(1) [OF t(2)] by simp
  qed
  ultimately show ?thesis by (simp add: delete_file_def split: option.split)
qed

section \<open>The shell with one file in the root\<close>

definition demo_file_shell :: shell where
  "demo_file_shell = demo_shell\<lparr>disk := demo_written demo_memory\<rparr>"

definition notes_name :: "u8 list" where "notes_name = codes ''notes'' @ [0, 0, 0]"
definition copied :: "u8 list" where "copied = codes ''copy'' @ [0, 0, 0, 0]"
definition cp_notes :: "u8 list" where "cp_notes = codes ''cp notes copy'' @ replicate 243 0"

abbreviation demo_clusters :: "nat list" where
  "demo_clusters \<equiv> new_clusters demo_request demo_fs"

abbreviation demo_entry :: dir_entry where
  "demo_entry \<equiv> file_entry demo_request (hd demo_clusters)"

lemma notes_facts: "rq_name demo_request = notes_name" "length notes_name = 8" "notes_name \<noteq> replicate 8 0" "notes_name \<noteq> root_name"
    "length copied = 8" "copied \<noteq> replicate 8 0" "copied \<noteq> notes_name" "copied \<noteq> root_name"
  by (simp_all add: demo_request_def notes_name_def copied_def codes_def replicate8 root_name_def)

lemma demo_file_fields: "disk demo_file_shell = demo_written demo_memory" "DEPTH demo_file_shell = 0"
    "CURRENT_DIR_CLUSTER_NUMBER demo_file_shell = 2" "CURRENT_DIR_PARENT_CLUSTER_NUMBER demo_file_shell = 2"
  by (simp_all add: demo_file_shell_def demo_shell_def)

lemma demo_file_located: "located demo_file_shell {2}"
proof -
  have l: "place_ok demo_shell" "tree demo_fs {2}" "linked demo_fs (location demo_shell)"
    using demo_located by (simp_all add: located_def) (simp_all add: demo_shell_def)
  have "location demo_file_shell = location demo_shell" by (simp add: demo_file_shell_def location_at_def)
  moreover have "place_ok demo_file_shell" using l(1) place_ok_cong [of demo_file_shell demo_shell] by (simp add: demo_file_shell_def)
  ultimately show ?thesis
    using write_tree [OF demo_can_write l(2), where m = demo_memory] demo_new_name l(3)
    by (simp add: located_def demo_file_fields demo_written_def)
qed

lemma demo_three: "demo_clusters = [3, 4]"
proof -
  have "[3..<512 :: nat] = 3 # 4 # [5..<512]" by (simp add: upt_conv_Cons)
  then show ?thesis unfolding new_clusters_def demo_size demo_map demo_frees by (simp del: upt_Suc)
qed

lemma demo_holds: "holds_file (demo_written m) 2 notes_name demo_entry demo_clusters"
  using written_held(1) [OF demo_can_write, of m] demo_new_name notes_facts by (simp add: demo_written_def)

lemma demo_written_dir: "dir_at (demo_written m) 2 = demo_root[1 := demo_entry]"
  using aw_dir_parent [OF demo_can_write, of m] by (simp add: demo_written_def)

lemma demo_copy_can_write: "can_write (copy_request demo_file_shell copied demo_entry) 2 (demo_written m)"
proof -
  let ?rq = "copy_request demo_file_shell copied demo_entry" and ?map = "cluster_map (demo_written m)"
  have p: "parent_of ?rq = 2" by (simp add: copy_request_def parent_of_def demo_file_fields)
  have map: "?map ! i = demo_fat ! i" if "i \<notin> {3, 4}" for i
    using that by (simp add: demo_written_def demo_three link_other)
  have "{5, 6} \<subseteq> set (frees ?map)" using map [of 5] map [of 6] by (simp add: frees_set demo_fat_free)
  then have "card {5, 6 :: nat} \<le> card (set (frees ?map))" by (intro card_mono) auto
  also have "\<dots> = length (frees ?map)" by (rule distinct_card) simp
  finally have room: "2 \<le> length (frees ?map)" by simp
  have "de_user_attribute demo_entry = UATTR_NOT_EMPTY" by (simp add: file_entry_def)
  then have slot: "free_slot (demo_root[1 := demo_entry]) = Some 2"
    using demo_root_ok
    by (auto simp: free_slot_def find_DIR_Some nth_list_update demo_root_nth zero_entry_fields UATTR_NOT_EMPTY_def table_ok_def)
  have "rq_buffer_size ?rq = 3000" "request_ok ?rq"
    using notes_facts(5) by (simp_all add: copy_request_def file_entry_def request_ok_def demo_request_def)
  then show ?thesis
    unfolding can_write_def p using room slot map [of 2] by (simp add: demo_written_dir size_in_clusters_def)
qed

lemma cp_notes_facts: "parse_word cp_notes [3..<13] = codes ''notes''" "parse_word cp_notes [9..<13] = codes ''copy''"
    "in_array (junk_name demo_shell_junk) (codes ''notes'') = notes_name" "in_array (junk_dest demo_shell_junk) (codes ''copy'') = copied"
    "length (codes ''notes'') = 5" "length (codes ''copy'') = 4"
  by (simp_all add: parse_word_def cp_notes_def in_array_def notes_name_def copied_def demo_shell_junk_def codes_def
      upt_conv_Cons replicate8)

lemma demo_copy_new: "lookup (demo_written m) 2 copied = None"
proof -
  have "de_name (demo_root[1 := demo_entry] ! i) \<noteq> copied" if "i < 64" for i
    using that notes_facts demo_root_ok by (auto simp: demo_root_nth zero_entry_fields nth_list_update file_entry_def table_ok_def)
  then have "find_name (demo_root[1 := demo_entry]) copied = None"
    using notes_facts(5) aw_entry_ok [OF demo_can_write] by (intro find_name_None [THEN iffD2]) (auto simp: table_ok_update)
  then show ?thesis by (simp add: lookup_def demo_written_dir)
qed

theorem cp_then_cat_witness:
  "\<exists>s1. cp demo_shell_junk cp_notes 13 demo_file_shell = Some (Inr s1) \<and>
     printed (trace s1) = codes ''Copying notes to copy'' @ [10] \<and>
     cat demo_shell_junk copied s1 = Some (Inr (s1\<lparr>trace := trace s1 @
       [Put (contents (demo_written demo_memory) demo_entry demo_clusters) GOLD, Put [10] WHITE]\<rparr>))"
proof -
  have w: "codes ''notes'' = parse_word cp_notes [3..<13]" "codes ''copy'' = parse_word cp_notes [length (codes ''notes'') + 4..<13]"
    using cp_notes_facts by simp_all
  have n: "codes ''notes'' \<noteq> []" "codes ''copy'' \<noteq> []" "length (codes ''notes'') \<le> 8" "length (codes ''copy'') \<le> 8"
    by (simp_all add: codes_def)
  have h: "holds_file (disk demo_file_shell) 2 (in_array (junk_name demo_shell_junk) (codes ''notes'')) demo_entry demo_clusters"
    "can_write (copy_request demo_file_shell (in_array (junk_dest demo_shell_junk) (codes ''copy'')) demo_entry) 2 (disk demo_file_shell)"
    "lookup (disk demo_file_shell) 2 (in_array (junk_dest demo_shell_junk) (codes ''copy'')) = None"
    "in_array (junk_dest demo_shell_junk) (codes ''copy'') \<noteq> replicate 8 0"
    unfolding cp_notes_facts demo_file_fields by (fact demo_holds demo_copy_can_write demo_copy_new notes_facts(6))+
  have t: "trace demo_file_shell = []" by (simp add: demo_file_shell_def demo_shell_def)
  have c: "codes ''Copying '' @ codes ''notes'' @ codes '' to '' @ codes ''copy'' @ [10] = codes ''Copying notes to copy'' @ [10]"
    by (simp add: codes_def)
  show ?thesis
    using cp_then_cat [OF demo_file_located demo_file_fields(2) w n h(1,2) _ h(3,4)] unfolding t c cp_notes_facts demo_file_fields
    by auto
qed

theorem rm_deletes_in_parent_witness:
  "rm demo_shell_junk notes_name demo_file_shell = Some (Inr (demo_file_shell\<lparr>disk :=
     after_delete (rm_request demo_file_shell notes_name) 1 demo_clusters (demo_written demo_memory)\<rparr>))"
proof -
  have f: "find_name (dir_at (demo_written demo_memory) 2) notes_name = Some 1"
    using aw_lookup(1) [OF demo_can_write] demo_new_name by (simp add: demo_written_def notes_facts(1))
  have c: "chain (cluster_map (demo_written demo_memory)) (entry_cluster (dir_at (demo_written demo_memory) 2 ! 1)) demo_clusters"
    using demo_written_chain [of demo_memory] demo_root_ok by (simp add: demo_written_dir table_ok_def)
  have e: "lookup (disk demo_file_shell) (unat (CURRENT_DIR_CLUSTER_NUMBER demo_file_shell)) notes_name = Some demo_entry"
    "entry_cluster demo_entry \<noteq> 0"
    using demo_holds [of demo_memory] by (simp_all add: holds_file_def demo_file_fields)
  show ?thesis
    using rm_deletes_in_parent [OF demo_file_located e notes_facts(2,3) refl, of demo_clusters demo_shell_junk] f c
    by (simp add: demo_file_fields)
qed

end
