(* ===== verification/ShellMove.thy ===== *)
theory ShellMove
  imports ShellFiles
begin

text \<open>
  \<open>mv\<close>: splitting the target at its slashes, following it from the root, and what the two
  writes at the end leave. It moves a file of the root directory into a folder; renamed
  within the root through a path it is lost, and in a folder both forms write the folder's
  table over that of its parent.
\<close>

section \<open>Splitting the target\<close>

fun store_components :: "u8 list list \<Rightarrow> nat \<Rightarrow> u8 list list \<Rightarrow> u8 list \<Rightarrow> u8 list list" where
  "store_components pl d [] tp = pl"
| "store_components pl d (c # cs) tp =
     store_components (pl[d + 1 := c @ drop (length c) tp]) (d + 1) cs (replicate 8 0)"

lemma components_head:
  assumes "slash \<notin> set acc"
  shows "components (acc @ slash # xs) = acc # components xs"
proof -
  obtain y ys where y: "acc @ slash # xs = y # ys" by (cases acc) auto
  have "takeWhile (\<lambda>c. c \<noteq> slash) (acc @ slash # xs) = acc" "dropWhile (\<lambda>c. c \<noteq> slash) (acc @ slash # xs) = slash # xs"
    using assms by (auto simp: takeWhile_append dropWhile_append takeWhile_eq_all_conv)
  then show ?thesis unfolding y by (simp del: takeWhile.simps dropWhile.simps)
qed

lemma components_not_Nil: "xs \<noteq> [] \<Longrightarrow> components xs \<noteq> []"
  by (cases xs) auto

lemma components_long:
  assumes "slash \<notin> set acc" and "acc \<noteq> []"
  shows "\<exists>c cs. components (acc @ r) = c # cs \<and> length acc \<le> length c"
proof -
  obtain y ys where y: "acc @ r = y # ys" using assms(2) by (cases acc) auto
  have "takeWhile (\<lambda>c. c \<noteq> slash) (acc @ r) = acc @ takeWhile (\<lambda>c. c \<noteq> slash) r"
    using assms(1) by (intro takeWhile_append2) auto
  then have "length acc \<le> length (takeWhile (\<lambda>c. c \<noteq> slash) (y # ys))" unfolding y [symmetric] by simp
  then show ?thesis unfolding y by (simp del: takeWhile.simps dropWhile.simps)
qed

lemma mv_split_components:
  assumes "drop i dst = r" and "i \<le> length dst" and "acc = [] \<or> r \<noteq> []"
    and "take (length acc) tp = acc" and "slash \<notin> set acc" and "length tp = 8" and "length pl = 10"
    and "\<And>c. c \<in> set (components (acc @ r)) \<Longrightarrow> length c \<le> 8" and "d + length (components (acc @ r)) < 10"
  shows "\<exists>tp'. forE (mv_split dst) [i..<length dst] (d, pl, tp, length acc) =
    Inr (Next (d + length (components (acc @ r)), store_components pl d (components (acc @ r)) tp, tp', 0))"
  using assms
proof (induction r arbitrary: i acc tp pl d)
  case Nil
  then show ?case by simp
next
  case (Cons x xs)
  have i: "i < length dst" "dst ! i = x" "drop (i + 1) dst = xs"
    using Cons.prems(1) by (metis drop_eq_Nil2 list.distinct(1) not_le_imp_less,
      metis Cons.prems(1) hd_drop_conv_nth list.distinct(1) list.sel(1) drop_eq_Nil2 not_le_imp_less,
      metis Suc_eq_plus1 drop_Suc list.sel(3) tl_drop)
  have up: "[i..<length dst] = i # [i + 1..<length dst]" using i(1) by (simp add: upt_conv_Cons)
  have last: "i = length dst - 1 \<longleftrightarrow> xs = []" using i(1,3) by auto
  have sl: "slash = 47" by (simp add: slash_def)
  have l8: "length acc \<le> 8" using Cons.prems(4,6) by (metis length_take min.cobounded1 min_def nat_le_linear)
  have tp: "tp = acc @ drop (length acc) tp" using Cons.prems(4) by (metis append_take_drop_id)
  show ?case
  proof (cases "x = slash")
    case True
    have cs: "components (acc @ x # xs) = acc # components xs" using components_head [OF Cons.prems(5)] True by simp
    have step: "mv_split dst i (d, pl, tp, length acc) = Inr (Next (d + 1, pl[d + 1 := tp], replicate 8 0, 0))"
      using True i(2) l8 Cons.prems(7,9) cs by (auto simp: mv_split_def sl arr_set_def)
    have "\<exists>tp'. forE (mv_split dst) [i + 1..<length dst] (d + 1, pl[d + 1 := tp], replicate 8 0, length ([] :: u8 list)) =
      Inr (Next (d + 1 + length (components ([] @ xs)), store_components (pl[d + 1 := tp]) (d + 1) (components ([] @ xs)) (replicate 8 0), tp', 0))"
      using Cons.prems(7-9) cs i by (intro Cons.IH) auto
    then show ?thesis unfolding up cs using step tp by simp
  next
    case False
    obtain c cs where c: "components ((acc @ [x]) @ xs) = c # cs" "length (acc @ [x]) \<le> length c"
      using components_long [of "acc @ [x]" xs] Cons.prems(5) False by auto
    have l: "length acc < 8" using c Cons.prems(8) [of c] by simp
    let ?tp = "tp[length acc := x]"
    have tp': "take (length (acc @ [x])) ?tp = acc @ [x]"
      using Cons.prems(4,6) l by (simp add: take_Suc_conv_app_nth)
    have st: "mv_split dst i (d, pl, tp, length acc) =
      (if xs = [] then bindE (arr_set pl (d + 1) ?tp) (\<lambda>pl. Inr (Next (d + 1, pl, replicate 8 0, 0)))
       else Inr (Next (d, pl, ?tp, length acc + 1)))"
      using False i(2) l last by (simp add: mv_split_def sl)
    show ?thesis
    proof (cases "xs = []")
      case True
      have cs: "components (acc @ x # xs) = [acc @ [x]]"
        using components_single [of "acc @ [x]"] Cons.prems(5) False True by simp
      have "?tp = (acc @ [x]) @ drop (length (acc @ [x])) tp"
        using tp' by (metis append_take_drop_id drop_update_cancel length_append_singleton lessI)
      then show ?thesis unfolding up cs using st True Cons.prems(7,9) cs last i(1) by (simp add: arr_set_def)
    next
      case False
      have "\<exists>tp''. forE (mv_split dst) [i + 1..<length dst] (d, pl, ?tp, length (acc @ [x])) =
        Inr (Next (d + length (components ((acc @ [x]) @ xs)), store_components pl d (components ((acc @ [x]) @ xs)) ?tp, tp'', 0))"
        using Cons.prems False i \<open>x \<noteq> slash\<close> by (intro Cons.IH [OF i(3) _ _ tp']) auto
      moreover have "store_components pl d (components ((acc @ [x]) @ xs)) ?tp = store_components pl d (components ((acc @ [x]) @ xs)) tp"
        unfolding c(1) using c(2) by simp
      ultimately show ?thesis unfolding up using st False by simp
    qed
  qed
qed

section \<open>Following the target\<close>

text \<open>The names that the path list holds: the first is stored over uninitialised characters.\<close>

definition pad8 :: "u8 list \<Rightarrow> u8 list" where
  "pad8 c = c @ replicate (8 - length c) 0"

definition target_names :: "junk \<Rightarrow> u8 list list \<Rightarrow> u8 list list" where
  "target_names j cs = (case cs of [] \<Rightarrow> [] | c # ds \<Rightarrow> in_array (junk_temp j) c # map pad8 ds)"

lemma store_components_low:
  "d + length cs < length pl \<Longrightarrow> i \<le> d \<Longrightarrow> store_components pl d cs tp ! i = pl ! i"
  by (induction pl d cs tp arbitrary: i rule: store_components.induct) auto

lemma store_components_nth:
  "i < length cs \<Longrightarrow> d + length cs < length pl \<Longrightarrow> store_components pl d cs tp ! (d + 1 + i) =
     (if i = 0 then cs ! 0 @ drop (length (cs ! 0)) tp else pad8 (cs ! i))"
proof (induction pl d cs tp arbitrary: i rule: store_components.induct)
  case (2 pl d c cs tp)
  then show ?case
    using store_components_low [of "d + 1" cs "pl[d + 1 := c @ drop (length c) tp]" "d + 1" "replicate 8 0"] "2.IH" [of "i - 1"]
    by (cases i) (simp_all add: pad8_def)
qed simp

lemma mv_path:
  assumes "length (junk_temp j) = 8" and "length (junk_paths j) = 9" and "dst = x # rest" and "components rest \<noteq> []" and "length (components rest) < 10"
    and "\<And>c. c \<in> set (components rest) \<Longrightarrow> length c \<le> 8"
  shows "\<exists>pl tp. forE (mv_split dst) [1..<length dst] (0, root_name # junk_paths j, junk_temp j, 0) =
      Inr (Next (length (components rest), pl, tp, 0)) \<and>
    (\<forall>i < length (components rest). pl ! (i + 1) = target_names j (components rest) ! i)"
proof -
  let ?pl = "root_name # junk_paths j" and ?cs = "components rest"
  obtain tp where "forE (mv_split dst) [1..<length dst] (0, ?pl, junk_temp j, 0) =
      Inr (Next (0 + length ?cs, store_components ?pl 0 ?cs (junk_temp j), tp, 0))"
    using mv_split_components [of 1 dst rest "[]" "junk_temp j" ?pl 0] assms by auto
  moreover have "store_components ?pl 0 ?cs (junk_temp j) ! (i + 1) = target_names j ?cs ! i" if "i < length ?cs" for i
    using store_components_nth [of i ?cs 0 ?pl "junk_temp j"] that assms(2,5)
    by (cases ?cs) (auto simp: target_names_def in_array_def nth_Cons split: nat.split)
  ultimately show ?thesis by auto
qed

text \<open>Resolving folder names one after the other.\<close>

fun follow :: "fat32 \<Rightarrow> u32 \<Rightarrow> u8 list list \<Rightarrow> u32 option" where
  "follow f c [] = Some c"
| "follow f c (n # ns) =
     (case lookup f (unat c) n of
        None \<Rightarrow> None
      | Some e \<Rightarrow> if de_filesize e = 0 \<and> unat (entry_cluster e) < 2048 then follow f (entry_cluster e) ns else None)"

definition moved_entry :: "dir_entry \<Rightarrow> u8 list \<Rightarrow> dir_entry" where
  "moved_entry e n = e\<lparr>de_name := n, de_user_attribute := UATTR_NOT_EMPTY, de_attribute := ATR_FILE\<rparr>"

lemma mv_walk_follows:
  assumes "unat c0 < 2048" and "follow (disk s) c0 ns = Some c" and "depth = i + length ns"
    and "\<And>k. k < length ns \<Longrightarrow> pl ! (i + k) = ns ! k" and "pl ! depth = n"
    and "free_slot (dir_at (disk s) (unat c)) = Some k"
  shows "mv_walk e src pl depth [i..<depth + 1] (dir_at (disk s) (unat c0)) c0 c0 s =
    bindE (write_table ((dir_at (disk s) (unat c))[k := moved_entry e n]) c s) (\<lambda>s1.
    write_table src (CURRENT_DIR_PARENT_CLUSTER_NUMBER s1) s1)"
  using assms(1-4)
proof (induction ns arbitrary: i c0)
  case Nil
  then show ?case using assms(5,6) by (simp add: moved_entry_def)
next
  case (Cons m ns)
  obtain x where x: "lookup (disk s) (unat c0) m = Some x" "de_filesize x = 0" "unat (entry_cluster x) < 2048"
    "follow (disk s) (entry_cluster x) ns = Some c"
    using Cons.prems(2) by (auto split: option.splits if_splits)
  then obtain l where l: "find_name (dir_at (disk s) (unat c0)) m = Some l" "dir_at (disk s) (unat c0) ! l = x"
    by (auto simp: lookup_def)
  have up: "[i..<depth + 1] = i # [i + 1..<depth + 1]" "i \<noteq> depth"
    using Cons.prems(3) by (simp_all add: upt_conv_Cons del: upt_Suc)
  have m: "pl ! i = m" using Cons.prems(4) [of 0] by simp
  have "mv_walk e src pl depth [i + 1..<depth + 1] (dir_at (disk s) (unat (entry_cluster x))) (entry_cluster x) (entry_cluster x) s =
    bindE (write_table ((dir_at (disk s) (unat c))[k := moved_entry e n]) c s) (\<lambda>s1.
    write_table src (CURRENT_DIR_PARENT_CLUSTER_NUMBER s1) s1)"
  proof (rule Cons.IH [OF x(3,4)])
    show "pl ! (i + 1 + k) = ns ! k" if "k < length ns" for k using Cons.prems(4) [of "Suc k"] that by simp
  qed (use Cons.prems(3) in simp)
  then show ?case
    unfolding up(1) using up(2) m l list_directory_found [OF Cons.prems(1) x(1-3)] by simp
qed

section \<open>What mv does\<close>

definition store_table :: "nat \<Rightarrow> dir_entry list \<Rightarrow> shell \<Rightarrow> shell" where
  "store_table c t s = s\<lparr>disk := (disk s)\<lparr>storage := set_cluster (storage (disk s)) c (table_bytes t)\<rparr>\<rparr>"

lemma write_table_stores:
  assumes "table_ok t" and "unat c < 2048"
  shows "write_table t c s = Inr (store_table (unat c) t s)"
  using assms by (simp add: write_table_def write_clusters_one length_table_bytes store_table_def)

lemma store_table_dir:
  assumes "table_ok t"
  shows "dir_at (disk (store_table c t s)) x = (if x = c then t else dir_at (disk s) x)"
    and "cluster_at (storage (disk (store_table c t s))) x = (if x = c then table_bytes t else cluster_at (storage (disk s)) x)"
  using assms by (simp_all add: dir_at_def store_table_def length_table_bytes table_of_bytes)

lemma store_table_keeps [simp]:
  "cluster_map (disk (store_table c t s)) = cluster_map (disk s)" "trace (store_table c t s) = trace s"
  "DEPTH (store_table c t s) = DEPTH s" "DIR_PATH (store_table c t s) = DIR_PATH s"
  "DIR_CLUSTERS (store_table c t s) = DIR_CLUSTERS s"
  "CURRENT_DIR_CLUSTER_NUMBER (store_table c t s) = CURRENT_DIR_CLUSTER_NUMBER s"
  "CURRENT_DIR_PARENT_CLUSTER_NUMBER (store_table c t s) = CURRENT_DIR_PARENT_CLUSTER_NUMBER s"
  by (simp_all add: store_table_def)

definition renamed :: "dir_entry list \<Rightarrow> nat \<Rightarrow> u8 list \<Rightarrow> dir_entry list" where
  "renamed t i n = t[i := (t ! i)\<lparr>de_name := n\<rparr>]"

lemma renamed_ok: "table_ok t \<Longrightarrow> i < 64 \<Longrightarrow> length n = 8 \<Longrightarrow> table_ok (renamed t i n)"
  unfolding renamed_def by (rule table_ok_update) (auto simp: table_ok_def entry_ok_def)

lemma moved_ok: "entry_ok e \<Longrightarrow> length n = 8 \<Longrightarrow> entry_ok (moved_entry e n)"
  by (simp add: entry_ok_def moved_entry_def)

lemma follow_bound: "follow f c ns = Some c' \<Longrightarrow> unat c < 2048 \<Longrightarrow> unat c' < 2048"
  by (induction f c ns rule: follow.induct) (auto split: option.splits if_splits)

text \<open>The two words of the command, and the names of the target's path.\<close>

definition mv_words :: "u8 list \<Rightarrow> nat \<Rightarrow> u8 list \<Rightarrow> u8 list \<Rightarrow> bool" where
  "mv_words command len a b \<longleftrightarrow> a = parse_word command [3..<len] \<and> b = parse_word command [length a + 4..<len] \<and>
     a \<noteq> [] \<and> b \<noteq> [] \<and> length a \<le> 8"

definition mv_target :: "junk \<Rightarrow> u8 list \<Rightarrow> u8 list list \<Rightarrow> u8 list \<Rightarrow> bool" where
  "mv_target j b ns n \<longleftrightarrow> (\<exists>rest. b = slash # rest \<and> length (components rest) < 10 \<and>
     (\<forall>c \<in> set (components rest). length c \<le> 8) \<and> target_names j (components rest) = ns @ [n])"

lemma mv_dispatch:
  assumes "mv_words command len a b"
  shows "mv j command len s =
    (if hd b \<noteq> slash then mv_rename j (in_array (junk_name j) a) b s else mv_move j (in_array (junk_name j) a) b s)"
proof -
  have a: "parse_name command [3..<len] [] = Some a" and b: "parse_word command [length a + 4..<len] = b" "a \<noteq> []" "b \<noteq> []"
    using assms by (auto simp: mv_words_def parse_name_word parse_word_def Let_def)
  have "length a + 4 < len" using b by (cases "length a + 4 < len") (auto simp: parse_word_def)
  then have "[length a + 4..<len] = (length a + 4) # [length a + 5..<len]" by (simp add: upt_conv_Cons add.commute)
  then have "hd b = command ! (length a + 4)" using b by (auto simp: parse_word_def split: if_splits)
  then show ?thesis using a b by (simp add: mv_def slash_def Let_def)
qed

lemma target_names_length:
  assumes "junk_ok j" and "\<And>c. c \<in> set cs \<Longrightarrow> length c \<le> 8" and "m \<in> set (target_names j cs)"
  shows "length m = 8"
  using assms by (cases cs) (auto simp: target_names_def pad8_def in_array_def junk_ok_def)

lemma mv_move_effect:
  assumes "located s D" and "junk_ok j" and "store_code (junk_word j) 0 = 0"
    and i: "find_name (current_dir s) a = Some i"
    and tg: "mv_target j b ns n" and c: "follow (disk s) 2 ns = Some c"
    and k: "free_slot (dir_at (disk s) (unat c)) = Some k"
  shows "mv_move j a b s = Inr (store_table (unat (CURRENT_DIR_PARENT_CLUSTER_NUMBER s)) (renamed (current_dir s) i (replicate 8 0))
      (store_table (unat c) ((dir_at (disk s) (unat c))[k := moved_entry (current_dir s ! i) n]) s))"
    and "unat c < 2048" "length n = 8" "unat (CURRENT_DIR_PARENT_CLUSTER_NUMBER s) < 512"
proof -
  obtain rest where r: "b = slash # rest" "length (components rest) < 10" "\<And>c. c \<in> set (components rest) \<Longrightarrow> length c \<le> 8"
    "target_names j (components rest) = ns @ [n]" using tg by (auto simp: mv_target_def)
  have ne: "components rest \<noteq> []" using r(4) by (auto simp: target_names_def)
  have len: "length (components rest) = length ns + 1"
    using arg_cong [OF r(4), of length] ne by (simp add: target_names_def split: list.splits)
  show n: "length n = 8" using target_names_length [OF assms(2), of "components rest" n] r(3,4) by auto
  show c2: "unat c < 2048" using follow_bound [OF c] by simp
  obtain pl tp where pl: "forE (mv_split b) [1..<length b] (0, root_name # junk_paths j, junk_temp j, 0) =
      Inr (Next (length (components rest), pl, tp, 0))"
    "\<And>i. i < length (components rest) \<Longrightarrow> pl ! (i + 1) = target_names j (components rest) ! i"
    using mv_path [of j b slash rest] assms(2) r ne by (auto simp: junk_ok_def)
  have names: "\<And>k. k < length ns \<Longrightarrow> pl ! (1 + k) = ns ! k" "pl ! length (components rest) = n"
    using pl(2) len r(4) by (auto simp: nth_append)
  have t: "tree (disk s) D" using assms(1) by (simp add: located_def)
  have root: "lookup (disk s) 2 root_name = Some (dir_at (disk s) 2 ! 0)" using tree_basics(3) [OF t] by (simp add: lookup_def)
  have rl: "list_directory (junk_mem j) root_name 2 s = Inr (0, dir_at (disk s) 2)"
    using list_directory_found [of 2 s root_name "dir_at (disk s) 2 ! 0" "junk_mem j"] root tree_basics(4,5) [OF t]
    by (simp add: ROOT_CLUSTER_NUMBER_def)
  show p: "unat (CURRENT_DIR_PARENT_CLUSTER_NUMBER s) < 512"
  proof -
    have "linked (disk s) (location s)" "arrays_ok s" "DEPTH s < 10"
      "CURRENT_DIR_PARENT_CLUSTER_NUMBER s = DIR_CLUSTERS s ! (DEPTH s - 1)"
      using assms(1) by (simp_all add: located_def place_ok_arrays) (simp_all add: place_ok_def)
    then show ?thesis using linked_resolves [OF _ t] location_at_facts(4) by metis
  qed
  have i64: "i < 64" using i by (rule find_name_lt)
  let ?w = "store_table (unat c) ((dir_at (disk s) (unat c))[k := moved_entry (current_dir s ! i) n]) s"
  have e: "entry_ok (current_dir s ! i)"
    using i64 table_ok_dir_at [of "disk s" "unat (CURRENT_DIR_CLUSTER_NUMBER s)"] by (auto simp: table_ok_def)
  have w: "write_table ((dir_at (disk s) (unat c))[k := moved_entry (current_dir s ! i) n]) c s = Inr ?w"
    using c2 n e by (intro write_table_stores table_ok_update moved_ok table_ok_dir_at)
  have z: "(current_dir s)[i := (current_dir s ! i)\<lparr>de_name := replicate 8 0\<rparr>] = renamed (current_dir s) i (replicate 8 0)"
    by (simp add: renamed_def)
  have w2: "write_table (renamed (current_dir s) i (replicate 8 0)) (CURRENT_DIR_PARENT_CLUSTER_NUMBER s) ?w =
      Inr (store_table (unat (CURRENT_DIR_PARENT_CLUSTER_NUMBER s)) (renamed (current_dir s) i (replicate 8 0)) ?w)"
    using p i64 by (intro write_table_stores renamed_ok table_ok_dir_at) simp_all
  show "mv_move j a b s = Inr (store_table (unat (CURRENT_DIR_PARENT_CLUSTER_NUMBER s)) (renamed (current_dir s) i (replicate 8 0)) ?w)"
    unfolding mv_move_def located_current(1) [OF assms(1)] bindE_simps
    using i pl(1) rl mv_walk_follows [of 2 s ns c "length (components rest)" 1 pl n k "current_dir s ! i"] c len names k w w2 z assms(3)
    by simp
qed

lemma moved_entry_fields [simp]:
  "de_filesize (moved_entry e n) = de_filesize e" "entry_cluster (moved_entry e n) = entry_cluster e"
  "de_name (moved_entry e n) = n" "de_ext (moved_entry e n) = de_ext e"
  by (simp_all add: moved_entry_def entry_cluster_def)

lemma moved_file_found:
  assumes "holds_file f p a e cs" and "dir_at f' c = (dir_at f c)[k := moved_entry e n]" and "k < 64" and "entry_ok e"
    and "find_name (dir_at f c) n = None" and "length n = 8" and "n \<noteq> replicate 8 0"
    and "cluster_map f' = cluster_map f" and "\<And>x. x \<in> set cs \<Longrightarrow> cluster_at (storage f') x = cluster_at (storage f) x"
  shows "holds_file f' c n (moved_entry e n) cs" and "contents f' (moved_entry e n) cs = contents f e cs"
proof -
  have "find_name (dir_at f' c) n = Some k" unfolding assms(2) using assms(3-6) by (intro find_name_added) (auto simp: moved_ok)
  moreover have "length (dir_at f c) = 64" using table_ok_dir_at [of f c] by (simp add: table_ok_def)
  ultimately have "lookup f' c n = Some (moved_entry e n)" using assms(2,3) by (simp add: lookup_def)
  then show "holds_file f' c n (moved_entry e n) cs" using assms(1,6-8) by (simp add: holds_file_def)
  have "file_bytes (storage f') cs = file_bytes (storage f) cs" by (rule file_bytes_cong) (rule assms(9))
  then show "contents f' (moved_entry e n) cs = contents f e cs" by (simp add: contents_def)
qed

text \<open>
  C25. Moving a file from the root into a folder, when the upper bytes of the return code, which the
  code leaves uninitialised, are zero (\<open>store_code (junk_word j) 0 = 0\<close>; it tests all four and the
  call stores one). When the target is a path to a folder that has a
  free entry, and a name that is new there, the folder holds the same file under the new name,
  with the same bytes, the root's table only loses the name of the entry, nothing is printed,
  and no cluster other than the two tables changes. The entry of the root stays marked as
  used, so its slot is not available again.
\<close>

theorem mv_into_folder:
  assumes "located s D" and "junk_ok j" and "store_code (junk_word j) 0 = 0" and "DEPTH s = 0"
    and "mv_words command len a b" and "mv_target j b ns n"
    and "holds_file (disk s) 2 (in_array (junk_name j) a) e cs" and "find_name (dir_at (disk s) 2) (in_array (junk_name j) a) = Some i"
    and "follow (disk s) 2 ns = Some c" and "c \<noteq> 2" and "free_slot (dir_at (disk s) (unat c)) = Some k"
    and "find_name (dir_at (disk s) (unat c)) n = None" and "n \<noteq> replicate 8 0" and "2 \<notin> set cs" and "unat c \<notin> set cs"
  shows "\<exists>s'. mv j command len s = Inr s' \<and> place s' = place s \<and> trace s' = trace s \<and>
    holds_file (disk s') (unat c) n (moved_entry e n) cs \<and> contents (disk s') (moved_entry e n) cs = contents (disk s) e cs \<and>
    dir_at (disk s') 2 = renamed (dir_at (disk s) 2) i (replicate 8 0) \<and>
    de_user_attribute (dir_at (disk s') 2 ! i) = de_user_attribute e \<and>
    cluster_map (disk s') = cluster_map (disk s) \<and>
    (\<forall>x. x \<noteq> 2 \<and> x \<noteq> unat c \<longrightarrow> cluster_at (storage (disk s')) x = cluster_at (storage (disk s)) x)"
proof -
  have r: "CURRENT_DIR_CLUSTER_NUMBER s = 2" "CURRENT_DIR_PARENT_CLUSTER_NUMBER s = 2"
    using located_root [OF assms(1,4)] by (simp_all add: ROOT_CLUSTER_NUMBER_def)
  have e: "dir_at (disk s) 2 ! i = e" "i < 64"
    using assms(7,8) find_name_lt by (auto simp: holds_file_def lookup_def)
  have eok: "entry_ok e" using e table_ok_dir_at [of "disk s" 2] by (auto simp: table_ok_def)
  let ?t = "(dir_at (disk s) (unat c))[k := moved_entry e n]" and ?r = "renamed (dir_at (disk s) 2) i (replicate 8 0)"
  let ?s = "store_table 2 ?r (store_table (unat c) ?t s)"
  have eff: "mv_move j (in_array (junk_name j) a) b s = Inr ?s" "length n = 8"
    using mv_move_effect [OF assms(1-3) _ assms(6,9,11), of "in_array (junk_name j) a" i] assms(8) r e by simp_all
  have "hd b = slash" using assms(6) by (auto simp: mv_target_def)
  then have mv: "mv j command len s = Inr ?s" using mv_dispatch [OF assms(5)] eff(1) by simp
  have ok: "table_ok ?t" "table_ok ?r"
    using eff(2) eok e(2) by (simp_all add: table_ok_update moved_ok renamed_ok)
  have c: "unat c \<noteq> 2" using assms(10) by (auto simp: word_unat_eq_iff)
  have d: "dir_at (disk ?s) (unat c) = ?t" "dir_at (disk ?s) 2 = ?r"
    using c by (simp_all add: store_table_dir(1) ok)
  have cl: "cluster_at (storage (disk ?s)) x = cluster_at (storage (disk s)) x" if "x \<noteq> 2" "x \<noteq> unat c" for x
    using that by (simp add: store_table_dir(2) ok)
  have same: "cluster_at (storage (disk ?s)) x = cluster_at (storage (disk s)) x" if "x \<in> set cs" for x
    using cl [of x] that assms(14,15) by auto
  have u: "de_user_attribute (?r ! i) = de_user_attribute e"
    using e table_ok_dir_at [of "disk s" 2] by (simp add: renamed_def table_ok_def)
  have m: "cluster_map (disk ?s) = cluster_map (disk s)" by simp
  note f = moved_file_found [OF assms(7) d(1) free_slot_lt [OF assms(11)] eok assms(12) eff(2) assms(13) m same]
  show ?thesis using mv f d cl u m by (intro exI [of _ ?s]) (simp add: place_def)
qed

text \<open>
  C37. Moving a file of the root to a path that ends in the root itself, such as \<open>/name\<close>, when the
  upper bytes of the return code, which the code leaves uninitialised, are zero. The new
  entry is written into the root's table first, and then the old table of the root, in which
  the source's name is erased, is written over it: neither the old nor the new name is found
  any more, while the clusters of the file stay allocated.
\<close>

theorem mv_within_root_loses:
  assumes "located s D" and "junk_ok j" and "store_code (junk_word j) 0 = 0" and "DEPTH s = 0"
    and "mv_words command len a b" and "mv_target j b ns n" and "find_name (dir_at (disk s) 2) (in_array (junk_name j) a) = Some i"
    and "\<And>i'. i' < 64 \<Longrightarrow> de_name (dir_at (disk s) 2 ! i') = in_array (junk_name j) a \<Longrightarrow> i' = i" and "in_array (junk_name j) a \<noteq> replicate 8 0"
    and "follow (disk s) 2 ns = Some 2" and "free_slot (dir_at (disk s) 2) = Some k"
    and "find_name (dir_at (disk s) 2) n = None" and "n \<noteq> replicate 8 0"
  shows "\<exists>s'. mv j command len s = Inr s' \<and> trace s' = trace s \<and> lookup (disk s') 2 (in_array (junk_name j) a) = None \<and>
    lookup (disk s') 2 n = None \<and> cluster_map (disk s') = cluster_map (disk s)"
proof -
  have r: "CURRENT_DIR_CLUSTER_NUMBER s = 2" "CURRENT_DIR_PARENT_CLUSTER_NUMBER s = 2"
    using located_root [OF assms(1,4)] by (simp_all add: ROOT_CLUSTER_NUMBER_def)
  have i: "i < 64" using assms(7) by (rule find_name_lt)
  let ?t = "(dir_at (disk s) 2)[k := moved_entry (dir_at (disk s) 2 ! i) n]" and ?r = "renamed (dir_at (disk s) 2) i (replicate 8 0)"
  let ?s = "store_table 2 ?r (store_table 2 ?t s)"
  have eff: "mv_move j (in_array (junk_name j) a) b s = Inr ?s" "length n = 8"
    using mv_move_effect [OF assms(1-3) _ assms(6,10), of "in_array (junk_name j) a" i] assms(7,11) r by simp_all
  have "hd b = slash" using assms(6) by (auto simp: mv_target_def)
  then have mv: "mv j command len s = Inr ?s" using mv_dispatch [OF assms(5)] eff(1) by simp
  have d: "dir_at (disk ?s) 2 = ?r" using i by (simp add: store_table_dir(1) renamed_ok)
  have name: "de_name (?r ! i') = (if i' = i then replicate 8 0 else de_name (dir_at (disk s) 2 ! i'))" if "i' < 64" for i'
    using that table_ok_dir_at [of "disk s" 2] by (simp add: renamed_def table_ok_def nth_list_update)
  have la: "length (in_array (junk_name j) a) = 8" using assms(2,5) by (auto simp: in_array_def junk_ok_def mv_words_def)
  have "find_name ?r (in_array (junk_name j) a) = None" "find_name ?r n = None"
    using la eff(2) i assms(8,9,12,13) name by (auto simp: find_name_None renamed_ok)
  then show ?thesis using mv d by (intro exI [of _ ?s]) (simp add: lookup_def)
qed

text \<open>
  Renaming. The table of the current directory with the new name in it is written to the
  cluster of the parent directory: at the root that is the rename, in any other folder it
  replaces the parent's table and the folder's own table keeps the old name. The return code
  of reading the directory is stored in one byte of an uninitialised word; when the other
  bytes are not zero the command reports a corrupt table and does nothing.
\<close>

theorem mv_rename_writes_parent:
  assumes "located s D" and "junk_ok j" and "mv_words command len a b" and "hd b \<noteq> slash" and "length b \<le> 8"
    and "find_name (current_dir s) (in_array (junk_name j) a) = Some i" and "p = unat (CURRENT_DIR_PARENT_CLUSTER_NUMBER s)"
  shows "\<exists>s'. mv j command len s = Inr s' \<and> place s' = place s \<and>
    (if store_code (junk_word j) 0 \<noteq> 0 then disk s' = disk s \<and> printed (trace s') = printed (trace s) @ codes ''dir table corrupt''
     else trace s' = trace s \<and> cluster_map (disk s') = cluster_map (disk s) \<and>
       (\<forall>x. dir_at (disk s') x = (if x = p then renamed (current_dir s) i (pad8 b) else dir_at (disk s) x)))"
proof -
  have t: "tree (disk s) D" "linked (disk s) (location s)" "arrays_ok s" "DEPTH s < 10"
      "CURRENT_DIR_PARENT_CLUSTER_NUMBER s = DIR_CLUSTERS s ! (DEPTH s - 1)"
    using assms(1) by (simp_all add: located_def place_ok_arrays) (simp_all add: place_ok_def)
  have p: "p < 2048" using linked_resolves [OF t(2,1)] location_at_facts(4) [OF t(3,4)] t(5) assms(7) by auto
  have i: "i < 64" using assms(6) by (rule find_name_lt)
  have "take 8 (dest_array b) = pad8 b" using assms(5) by (simp add: dest_array_def pad8_def)
  moreover have ok: "table_ok (renamed (current_dir s) i (pad8 b))" using i assms(5) by (intro renamed_ok) (simp_all add: pad8_def)
  ultimately have w: "write_table ((current_dir s)[i := (current_dir s ! i)\<lparr>de_name := take 8 (dest_array b)\<rparr>])
      (CURRENT_DIR_PARENT_CLUSTER_NUMBER s) s = Inr (store_table p (renamed (current_dir s) i (pad8 b)) s)"
    using write_table_stores [OF ok, of "CURRENT_DIR_PARENT_CLUSTER_NUMBER s" s] p assms(7) by (simp add: renamed_def)
  have "mv j command len s = (if store_code (junk_word j) 0 \<noteq> 0 then Inr (put (codes ''dir table corrupt'' @ [10]) 17 WHITE s)
      else Inr (store_table p (renamed (current_dir s) i (pad8 b)) s))"
    unfolding mv_dispatch [OF assms(3)] mv_rename_def located_current(1) [OF assms(1)] bindE_simps
    using assms(4-6) w by simp
  moreover have "place (store_table p t s) = place s" for t by (simp add: place_def)
  ultimately show ?thesis
    by (cases "store_code (junk_word j) 0 = 0") (simp_all add: store_table_dir(1) [OF ok] say_call codes_def)
qed

section \<open>The shell with a folder and a file in the root\<close>

definition demo_folder_fs :: fat32 where
  "demo_folder_fs = disk demo_shell2"

definition demo_move_shell :: shell where
  "demo_move_shell = demo_shell2\<lparr>disk := after_write demo_request 2 (new_clusters demo_request demo_folder_fs) demo_memory demo_folder_fs\<rparr>"

definition mv_notes :: "u8 list" where "mv_notes = codes ''mv notes /docs/n2'' @ replicate 239 0"
definition mv_root :: "u8 list" where "mv_root = codes ''mv notes /n2'' @ replicate 244 0"
definition mv_name :: "u8 list" where "mv_name = codes ''mv notes n2'' @ replicate 245 0"
definition n2 :: "u8 list" where "n2 = codes ''n2'' @ replicate 6 0"

abbreviation demo_docs :: dir_entry where
  "demo_docs \<equiv> folder_entry zero_entry (mkdir_request demo_shell docs) 3"

lemma demo_docs_fields: "de_name demo_docs = docs" "de_filesize demo_docs = 0" "de_user_attribute demo_docs = UATTR_NOT_EMPTY"
    "entry_cluster demo_docs = 3" "entry_ok demo_docs"
proof -
  show "entry_ok demo_docs"
    using docs_facts(1) by (intro folder_entry_ok) (simp_all add: request_ok_def mkdir_request_def)
qed (simp_all add: folder_entry_def mkdir_request_def entry_cluster_def halves_join)

lemma demo_folder_map: "cluster_map demo_folder_fs = demo_fat[3 := FAT32_FAT_END_OF_FILE]"
  by (simp add: demo_folder_fs_def demo_shell2_def demo_shell_def after_mkdir_def Let_def)

lemma demo_folder_dirs:
  "dir_at demo_folder_fs 2 = demo_root[1 := demo_docs]"
  "dir_at demo_folder_fs 3 = init_directory_table (replicate 64 zero_entry) docs 2"
proof -
  have p: "parent_of (mkdir_request demo_shell docs) = 2" by (simp add: mkdir_request_def parent_of_def demo_shell_def)
  have f: "demo_folder_fs = after_mkdir zero_entry (replicate 64 zero_entry) (mkdir_request demo_shell docs) 3 demo_fs"
    by (simp add: demo_folder_fs_def demo_shell2_def demo_shell_junk_def) (simp add: demo_shell_def)
  show "dir_at demo_folder_fs 2 = demo_root[1 := demo_docs]"
    using mkdir_dirs [OF demo_tree demo_can_mkdir, of zero_entry "replicate 64 zero_entry" 2] p by (simp add: f)
  have "request_ok (mkdir_request demo_shell docs)" using docs_facts(1) by (simp add: request_ok_def mkdir_request_def)
  then show "dir_at demo_folder_fs 3 = init_directory_table (replicate 64 zero_entry) docs 2"
    using after_mkdir_dirs(2) [of "mkdir_request demo_shell docs" zero_entry "replicate 64 zero_entry" demo_fs 1 3] p demo_free_slot
    by (simp add: f) (simp add: mkdir_request_def demo_shell_def)
qed

lemma demo_docs_nth: "n < 64 \<Longrightarrow> dir_at demo_folder_fs 3 ! n = (if n = 0 then zero_entry\<lparr>de_name := docs, de_ext := [0, 0, 0],
     de_attribute := ATTR_SUBDIRECTORY, de_user_attribute := UATTR_NOT_EMPTY,
     de_cluster_high := cluster_hi 2, de_cluster_low := cluster_lo 2, de_filesize := 0\<rparr> else zero_entry)"
  unfolding demo_folder_dirs by (subst init_directory_table_nth) simp_all

lemma demo_root_two: "n < 64 \<Longrightarrow> (demo_root[1 := demo_docs]) ! n = (if n = 1 then demo_docs else demo_root ! n)"
  using demo_root_ok by (simp add: nth_list_update table_ok_def)

lemma demo_move_can_write: "can_write demo_request 2 demo_folder_fs"
proof -
  have map: "cluster_map demo_folder_fs ! i = demo_fat ! i" if "i \<noteq> 3" for i using that by (simp add: demo_folder_map)
  have "{5, 6} \<subseteq> set (frees (cluster_map demo_folder_fs))" by (simp add: frees_set map demo_fat_free)
  then have "card {5, 6 :: nat} \<le> card (set (frees (cluster_map demo_folder_fs)))" by (intro card_mono) auto
  also have "\<dots> = length (frees (cluster_map demo_folder_fs))" by (rule distinct_card) simp
  finally have room: "2 \<le> length (frees (cluster_map demo_folder_fs))" by simp
  have "free_slot (demo_root[1 := demo_docs]) = Some 2"
    by (auto simp: free_slot_def find_DIR_Some demo_root_two [simplified] demo_root_nth zero_entry_fields UATTR_NOT_EMPTY_def
        demo_docs_fields [unfolded UATTR_NOT_EMPTY_def])
  then show ?thesis
    unfolding can_write_def demo_parent demo_size demo_folder_dirs using room map [of 2]
    by (simp add: demo_folder_map) (simp add: demo_request_def)
qed

lemma demo_move_new: "find_name (dir_at demo_folder_fs 2) notes_name = None"
proof -
  have "docs \<noteq> notes_name" by (simp add: docs_def notes_name_def codes_def)
  then have "de_name ((demo_root[1 := demo_docs]) ! i) \<noteq> notes_name" if "i < 64" for i
    using that demo_name [of i] demo_docs_fields(1) by (simp add: demo_root_two [simplified] notes_facts(1))
  then show ?thesis
    using notes_facts(2) demo_docs_fields(5) by (simp add: demo_folder_dirs find_name_None table_ok_update)
qed

text \<open>With the file written; and, without it, the shell in the folder.\<close>

abbreviation demo_move_clusters :: "nat list" where
  "demo_move_clusters \<equiv> new_clusters demo_request demo_folder_fs"

abbreviation demo_move_entry :: dir_entry where
  "demo_move_entry \<equiv> file_entry demo_request (hd demo_move_clusters)"

lemma demo_move_facts:
  "located demo_move_shell {3, 2}" "DEPTH demo_move_shell = 0" "trace demo_move_shell = []"
  "dir_at (disk demo_move_shell) 2 = demo_root[1 := demo_docs, 2 := demo_move_entry]"
  "dir_at (disk demo_move_shell) 3 = dir_at demo_folder_fs 3"
  "holds_file (disk demo_move_shell) 2 notes_name demo_move_entry demo_move_clusters"
  "2 \<notin> set demo_move_clusters" "3 \<notin> set demo_move_clusters"
proof -
  have t: "place_ok demo_shell2" "tree demo_folder_fs {3, 2}" "linked demo_folder_fs (location demo_shell2)"
    using demo2_located by (simp_all add: located_def demo_folder_fs_def)
  have "location demo_move_shell = location demo_shell2" by (simp add: demo_move_shell_def location_at_def)
  moreover have "place_ok demo_move_shell" using t(1) place_ok_cong [of demo_move_shell demo_shell2] by (simp add: demo_move_shell_def)
  ultimately show "located demo_move_shell {3, 2}"
    using write_tree [OF demo_move_can_write t(2), where m = demo_memory] demo_move_new t(3)
    by (simp add: located_def demo_move_shell_def notes_facts(1))
  show "DEPTH demo_move_shell = 0" "trace demo_move_shell = []" by (simp_all add: demo_move_shell_def demo_shell2_def demo_shell_def)
  show "dir_at (disk demo_move_shell) 2 = demo_root[1 := demo_docs, 2 := demo_move_entry]"
    using aw_dir_parent [OF demo_move_can_write, of demo_memory] by (simp add: demo_move_shell_def demo_folder_dirs)
  show "dir_at (disk demo_move_shell) 3 = dir_at demo_folder_fs 3"
    using aw_dir_other [OF demo_move_can_write t(2), of 3] by (simp add: demo_move_shell_def)
  show "holds_file (disk demo_move_shell) 2 notes_name demo_move_entry demo_move_clusters"
    using written_held(1) [OF demo_move_can_write, of demo_memory] demo_move_new notes_facts by (simp add: demo_move_shell_def)
  show "2 \<notin> set demo_move_clusters" "3 \<notin> set demo_move_clusters"
    using new_clusters_facts(4) [OF demo_move_can_write] tree_basics(6) [OF t(2)] by blast+
qed

lemma demo_move_nth: "n < 64 \<Longrightarrow> dir_at (disk demo_move_shell) 2 ! n =
    (if n = 1 then demo_docs else if n = 2 then demo_move_entry else demo_root ! n)"
  using demo_root_ok by (simp add: demo_move_facts(4) nth_list_update table_ok_def)

lemma demo_move_names: "n < 64 \<Longrightarrow> de_name (dir_at (disk demo_move_shell) 2 ! n) =
    (if n = 1 then docs else if n = 2 then notes_name else if n = 0 then root_name else replicate 8 0)"
  by (simp add: demo_move_nth demo_docs_fields demo_root_nth zero_entry_fields) (simp add: file_entry_def notes_facts)

lemma n2_facts: "length n2 = 8" "n2 \<noteq> replicate 8 0" "n2 \<noteq> docs" "n2 \<noteq> notes_name" "n2 \<noteq> root_name" "docs \<noteq> notes_name"
    "docs \<noteq> replicate 8 0" "docs \<noteq> root_name"
  by (simp_all add: n2_def docs_def notes_name_def root_name_def codes_def replicate8)

lemma demo_move_finds:
  "find_name (dir_at (disk demo_move_shell) 2) notes_name = Some 2" "find_name (dir_at (disk demo_move_shell) 2) n2 = None"
  "find_name (dir_at (disk demo_move_shell) 2) docs = Some 1" "free_slot (dir_at (disk demo_move_shell) 2) = Some 3"
  "find_name (dir_at (disk demo_move_shell) 3) n2 = None" "free_slot (dir_at (disk demo_move_shell) 3) = Some 1"
proof -
  show "find_name (dir_at (disk demo_move_shell) 2) notes_name = Some 2" "find_name (dir_at (disk demo_move_shell) 2) n2 = None"
    "find_name (dir_at (disk demo_move_shell) 2) docs = Some 1"
    using n2_facts notes_facts docs_facts by (auto simp: find_name_Some find_name_None demo_move_names)
  have u: "de_user_attribute demo_move_entry = UATTR_NOT_EMPTY" by (simp add: file_entry_def)
  show "free_slot (dir_at (disk demo_move_shell) 2) = Some 3"
    by (auto simp: free_slot_def find_DIR_Some demo_move_nth demo_root_nth zero_entry_fields demo_docs_fields u)
      (simp add: UATTR_NOT_EMPTY_def)
  show "find_name (dir_at (disk demo_move_shell) 3) n2 = None"
    using n2_facts by (simp add: find_name_None demo_move_facts(5) demo_docs_nth zero_entry_fields)
  show "free_slot (dir_at (disk demo_move_shell) 3) = Some 1"
    by (auto simp: free_slot_def find_DIR_Some demo_move_facts(5) demo_docs_nth zero_entry_fields UATTR_NOT_EMPTY_def)
qed

lemma mv_command_facts:
  "mv_words mv_notes 17 (codes ''notes'') (codes ''/docs/n2'')" "mv_words mv_root 12 (codes ''notes'') (codes ''/n2'')"
  by (simp_all add: mv_words_def parse_word_def mv_notes_def mv_root_def codes_def upt_conv_Cons)

lemma in_demo_array:
  "length c \<le> 8 \<Longrightarrow> in_array (junk_name demo_shell_junk) c = pad8 c"
  "length c \<le> 8 \<Longrightarrow> in_array (junk_temp demo_shell_junk) c = pad8 c"
  by (simp_all add: in_array_def demo_shell_junk_def pad8_def)

lemma demo_names: "pad8 (codes ''notes'') = notes_name" "pad8 (codes ''docs'') = docs" "pad8 (codes ''n2'') = n2"
  by (simp_all add: pad8_def notes_name_def docs_def n2_def codes_def replicate8 numeral_eq_Suc)

lemma target_components: "components (codes ''docs/n2'') = [codes ''docs'', codes ''n2'']" "components (codes ''n2'') = [codes ''n2'']"
proof -
  have "codes ''docs/n2'' = codes ''docs'' @ slash # codes ''n2''" by (simp add: codes_def slash_def)
  then show "components (codes ''docs/n2'') = [codes ''docs'', codes ''n2'']" "components (codes ''n2'') = [codes ''n2'']"
    using components_head [OF docs_facts(4), of "codes ''n2''"] components_single [of "codes ''n2''"]
    by (simp_all add: codes_def slash_def)
qed

lemma demo_targets: "mv_target demo_shell_junk (codes ''/docs/n2'') [docs] n2" "mv_target demo_shell_junk (codes ''/n2'') [] n2"
proof -
  have "codes ''/docs/n2'' = slash # codes ''docs/n2''" "codes ''/n2'' = slash # codes ''n2''" by (simp_all add: codes_def slash_def)
  moreover have "length (codes ''docs'') \<le> 8" "length (codes ''n2'') \<le> 8" by (simp_all add: codes_def)
  ultimately show "mv_target demo_shell_junk (codes ''/docs/n2'') [docs] n2" "mv_target demo_shell_junk (codes ''/n2'') [] n2"
    unfolding mv_target_def by (simp_all add: target_components target_names_def in_demo_array demo_names)
qed

lemma demo_source: "in_array (junk_name demo_shell_junk) (codes ''notes'') = notes_name" "store_code (junk_word demo_shell_junk) 0 = 0"
  using in_demo_array(1) [of "codes ''notes''"] demo_names(1) by (simp_all add: demo_shell_junk_def store_code_def codes_def)

theorem mv_into_folder_witness:
  "\<exists>s'. mv demo_shell_junk mv_notes 17 demo_move_shell = Inr s' \<and>
     holds_file (disk s') 3 n2 (moved_entry demo_move_entry n2) demo_move_clusters \<and>
     contents (disk s') (moved_entry demo_move_entry n2) demo_move_clusters =
       contents (disk demo_move_shell) demo_move_entry demo_move_clusters"
proof -
  have f: "follow (disk demo_move_shell) 2 [docs] = Some 3"
    by (simp add: lookup_def demo_move_finds demo_move_nth demo_docs_fields)
  show ?thesis
    using mv_into_folder [OF demo_move_facts(1) demo_junk_ok demo_source(2) demo_move_facts(2) mv_command_facts(1) demo_targets(1)
        _ _ f, of demo_move_entry demo_move_clusters 2 1] demo_move_facts(6-8) demo_move_finds n2_facts
    unfolding demo_source(1) by auto
qed

theorem mv_within_root_loses_witness:
  "\<exists>s'. mv demo_shell_junk mv_root 12 demo_move_shell = Inr s' \<and> lookup (disk s') 2 notes_name = None \<and> lookup (disk s') 2 n2 = None"
proof -
  have u: "i = 2" if "i < 64" "de_name (dir_at (disk demo_move_shell) 2 ! i) = notes_name" for i
    using that n2_facts notes_facts by (auto simp: demo_move_names split: if_splits)
  show ?thesis
    using mv_within_root_loses [OF demo_move_facts(1) demo_junk_ok demo_source(2) demo_move_facts(2) mv_command_facts(2) demo_targets(2),
        of 2 3] u demo_move_finds n2_facts notes_facts
    unfolding demo_source(1) by auto
qed

text \<open>In the folder, renaming the entry of the folder itself.\<close>

definition demo_docs_shell :: shell where
  "demo_docs_shell = demo_shell2\<lparr>CURRENT_DIR_CLUSTER_NUMBER := 3, CURRENT_DIR_PARENT_CLUSTER_NUMBER := 2, DEPTH := 1,
     DIR_PATH := root_name # docs # replicate 8 (replicate 8 0), DIR_CLUSTERS := 2 # 3 # replicate 8 (- 1)\<rparr>"

definition mv_docs :: "u8 list" where "mv_docs = codes ''mv docs n2'' @ replicate 246 0"

lemma demo_docs_located: "located demo_docs_shell {3, 2}"
proof -
  have d: "disk demo_docs_shell = demo_folder_fs" by (simp add: demo_docs_shell_def demo_folder_fs_def)
  have "linked demo_folder_fs ([(ROOT_CLUSTER_NUMBER, root_name)] @ [(entry_cluster (demo_root[1 := demo_docs] ! 1), de_name (demo_root[1 := demo_docs] ! 1))])"
    using docs_facts by (intro linked.child [OF linked.root])
      (simp_all add: demo_folder_dirs ROOT_CLUSTER_NUMBER_def demo_root_two [simplified] directory_entry_def demo_docs_fields,
       simp add: folder_entry_def)
  then have "linked demo_folder_fs (location demo_docs_shell)"
    by (simp add: demo_root_two [simplified] demo_docs_fields demo_docs_shell_def location_at_def ROOT_CLUSTER_NUMBER_def)
  moreover have "place_ok demo_docs_shell" using docs_facts(1) by (simp add: place_ok_def demo_docs_shell_def ROOT_CLUSTER_NUMBER_def)
  ultimately show ?thesis using demo2_located d by (simp add: located_def demo_folder_fs_def)
qed

theorem mv_rename_writes_parent_witness:
  "\<exists>s'. mv demo_shell_junk mv_docs 10 demo_docs_shell = Inr s' \<and>
     dir_at (disk s') 2 = renamed (dir_at demo_folder_fs 3) 0 n2 \<and> dir_at (disk s') 3 = dir_at demo_folder_fs 3"
proof -
  have w: "mv_words mv_docs 10 (codes ''docs'') (codes ''n2'')"
    by (simp add: mv_words_def parse_word_def mv_docs_def codes_def upt_conv_Cons)
  have b: "hd (codes ''n2'') \<noteq> slash" "length (codes ''n2'') \<le> 8" by (simp_all add: codes_def slash_def)
  have d: "disk demo_docs_shell = demo_folder_fs" "CURRENT_DIR_CLUSTER_NUMBER demo_docs_shell = 3"
    "CURRENT_DIR_PARENT_CLUSTER_NUMBER demo_docs_shell = 2"
    by (simp_all add: demo_docs_shell_def demo_folder_fs_def)
  have a: "in_array (junk_name demo_shell_junk) (codes ''docs'') = docs" using in_demo_array(1) [of "codes ''docs''"] demo_names(2) by (simp add: codes_def)
  have f: "find_name (current_dir demo_docs_shell) (in_array (junk_name demo_shell_junk) (codes ''docs'')) = Some 0"
    using docs_facts(1) by (simp add: a d find_name_Some demo_docs_nth)
  have p: "2 = unat (CURRENT_DIR_PARENT_CLUSTER_NUMBER demo_docs_shell)" by (simp add: d)
  obtain s' where s': "mv demo_shell_junk mv_docs 10 demo_docs_shell = Inr s'"
    "\<forall>x. dir_at (disk s') x = (if x = 2 then renamed (dir_at demo_folder_fs 3) 0 n2 else dir_at demo_folder_fs x)"
    using mv_rename_writes_parent [OF demo_docs_located demo_junk_ok w b f p] demo_source(2) unfolding d demo_names by auto
  show ?thesis using s'(1) spec [OF s'(2), of 2] spec [OF s'(2), of 3] by (intro exI [of _ s']) simp
qed

end
