(* ===== verification/ShellLine.thy ===== *)
theory ShellLine
  imports ShellLocation
begin

text \<open>
  The line editor and the dispatcher of the shell's main function against a reference: an
  interpreter whose line is the list of the characters typed and whose commands are a table
  of words, each with its action. The buffer with an index, its clearing, and the nested
  conditionals of \<open>executeCommand\<close> compute what the reference does.
\<close>

section \<open>The reference\<close>

definition padded :: "u8 list \<Rightarrow> u8 list" where
  "padded l = l @ replicate (KEYBOARD_BUFFER_SIZE - length l) 0"

definition begins :: "u8 list \<Rightarrow> string \<Rightarrow> bool" where
  "begins l w \<longleftrightarrow> take (length w) l = codes w"

text \<open>What follows the first characters of the line, as a name of eight bytes.\<close>

definition word_after :: "nat \<Rightarrow> u8 list \<Rightarrow> u8 list" where
  "word_after k l = drop k l @ replicate (k + 8 - length l) 0"

text \<open>A word, the length the line must exceed, and what is done.\<close>

definition actions :: "junk \<Rightarrow> u8 list \<Rightarrow> shell \<Rightarrow> (string \<times> nat \<times> (shell res) option) list" where
  "actions j l s =
     (let c = padded l; n = length l in
      [(''ls'', 0, Some (ls j s)),
       (''ps'', 0, Some (Inr (call (Call 10 0 0 0) s))),
       (''cd '', 3, Some (cd j c n s)),
       (''cp '', 3, cp j c n s),
       (''rm '', 3, if n > 11 then Some (Inr (say_line ''nama file terlalu panjang'' WHITE s)) else rm j (word_after 3 l) s),
       (''mv '', 3, Some (mv j c n s)),
       (''cat '', 4, if n > 12 then Some (Inr (say_line ''nama file terlalu panjang'' WHITE s)) else cat j (word_after 4 l) s),
       (''clear'', 4, Some (Inr (call (Call 8 0 0 0) s))),
       (''exec '', 4, Some (Inr (exec j c n s))),
       (''find '', 5, find_command j c n s),
       (''kill'', 5, if n > 7 then Some (Inl Stack_Smash) else Some (Inr (kill (take (n - 5) (drop 5 c) @ replicate (7 - n) 0) s))),
       (''mkdir '', 6, if n > 14 then Some (Inr (say_line ''nama folder terlalu panjang'' WHITE s)) else mkdir j (word_after 6 l) s)])"

definition execute :: "junk \<Rightarrow> u8 list \<Rightarrow> shell \<Rightarrow> (shell res) option" where
  "execute j l s =
     (case find (\<lambda>(w, n, r). begins l w \<and> n < length l) (actions j l s) of
        None \<Rightarrow> Some (Inr s) | Some (w, n, r) \<Rightarrow> r)"

text \<open>Keys: nothing, backspace, enter, and any other character while there is room for it.\<close>

fun run_keys :: "(junk \<times> u8) list \<Rightarrow> u8 list \<Rightarrow> shell \<Rightarrow> ((shell \<times> u8 list) res) option" where
  "run_keys [] l s = Some (Inr (s, l))"
| "run_keys ((j, c) # cs) l s =
     (if c = 0 then run_keys cs l s
      else if c = 8 then (if l = [] then run_keys cs [] (call (Put [] 0) s) else run_keys cs (butlast l) s)
      else if c = 10 then
        bindO (execute j l (say_line '''' WHITE s)) (\<lambda>s1. bindO (Some (print_terminal_text s1)) (run_keys cs []))
      else if length l < KEYBOARD_BUFFER_SIZE then run_keys cs (l @ [c]) s else Some (Inl Out_Of_Bounds))"

section \<open>The dispatcher\<close>

lemma length_padded [simp]: "length l \<le> 256 \<Longrightarrow> length (padded l) = 256"
  by (simp add: padded_def KEYBOARD_BUFFER_SIZE_def)

lemma starts_padded:
  assumes "length l \<le> 256" and "length w \<le> 256" and "0 \<notin> set (codes w)"
  shows "starts_with (padded l) w \<longleftrightarrow> begins l w"
proof -
  have "starts_with (padded l) w \<longleftrightarrow> take (length w) (padded l) = codes w"
    using assms(1,2) by (simp add: starts_with_def bytes_cmp_eq_0)
  also have "\<dots> \<longleftrightarrow> begins l w"
  proof (cases "length w \<le> length l")
    case True
    then show ?thesis by (simp add: padded_def begins_def)
  next
    case False
    then have "0 \<in> set (take (length w) (padded l))" using assms(2) by (simp add: padded_def KEYBOARD_BUFFER_SIZE_def)
    then have "take (length w) (padded l) \<noteq> codes w" using assms(3) by metis
    moreover have "length (take (length w) l) \<noteq> length (codes w)" using False by simp
    then have "\<not> begins l w" unfolding begins_def by metis
    ultimately show ?thesis by simp
  qed
  finally show ?thesis .
qed

text \<open>The array of the name always has room for its padding.\<close>

lemma argument_padded: "k < length l \<Longrightarrow> length l \<le> k + 8 \<Longrightarrow> argument (padded l) k (length l) = Inr (word_after k l)"
proof -
  assume k: "k < length l" "length l \<le> k + 8"
  have "(length l - k + 15) div 16 = 1" using k by (intro div_nat_eqI) simp_all
  then have "array_room (length l - k) = 16" by (simp add: array_room_def)
  moreover have "take (length l - k) (drop k (padded l)) = drop k l" using k by (simp add: padded_def)
  ultimately show ?thesis using k by (simp add: argument_def Let_def word_after_def)
qed

lemma and_then_done [simp]:
  "and_then (Some (Inr (Next s))) f = f s"
  "and_then (return_now r) f = return_now r"
  "and_then (Some (Inl e)) f = Some (Inl e)"
  by (auto simp: and_then_def return_now_def bindO_def split: option.split sum.split)

lemma and_then_go_on [simp]: "and_then (go_on r) (\<lambda>s. Some (Inr (Next s))) = go_on r"
  by (auto simp: and_then_def go_on_def bindO_def split: option.split sum.split)

lemma finish [simp]:
  "bindO (go_on r) (\<lambda>c. case c of Next s \<Rightarrow> Some (Inr s) | Brk s \<Rightarrow> Some (Inr s) | Ret s \<Rightarrow> Some (Inr s)) = r"
  "bindO (return_now r) (\<lambda>c. case c of Next s \<Rightarrow> Some (Inr s) | Brk s \<Rightarrow> Some (Inr s) | Ret s \<Rightarrow> Some (Inr s)) = r"
  by (auto simp: go_on_def return_now_def bindO_def split: option.split sum.split)

lemma bindO_assoc: "bindO (bindO r f) g = bindO r (\<lambda>x. bindO (f x) g)"
  by (simp add: bindO_def split: option.split sum.split)

lemma at_length_simps [simp]: "at_length True f s = f s" "at_length False f s = Some (Inr (Next s))"
  by (simp_all add: at_length_def)

lemma at_length_Next [simp]: "at_length b (\<lambda>s. Some (Inr (Next s))) = (\<lambda>s. Some (Inr (Next s)))"
  by (simp add: at_length_def fun_eq_iff)

definition words :: "string list" where
  "words = [''ls'', ''ps'', ''cd '', ''cp '', ''rm '', ''mv '', ''cat '', ''clear'', ''exec '', ''find '', ''kill'', ''mkdir '']"

text \<open>No word is the beginning of another.\<close>

definition apart :: "string \<Rightarrow> string \<Rightarrow> bool" where
  "apart w v \<longleftrightarrow> list_ex (\<lambda>(a, b). a \<noteq> b) (zip (codes w) (codes v))"

lemma words_apart: "list_all (\<lambda>w. list_all (\<lambda>v. w = v \<or> apart w v) words) words"
  by (simp add: words_def apart_def codes_def)

lemma words_nonzero: "w \<in> set words \<Longrightarrow> length w \<le> 256 \<and> 0 \<notin> set (codes w)"
  by (auto simp: words_def codes_def)

lemma begins_apart:
  assumes "begins l w" and "begins l v"
  shows "\<not> apart w v"
proof
  assume "apart w v"
  then obtain i where i: "i < length w" "i < length v" "codes w ! i \<noteq> codes v ! i"
    by (auto simp: apart_def list_ex_iff set_zip)
  have "l ! i = codes w ! i" "l ! i = codes v ! i"
    using arg_cong [OF assms(1) [unfolded begins_def], of "\<lambda>x. x ! i"] arg_cong [OF assms(2) [unfolded begins_def], of "\<lambda>x. x ! i"] i
    by simp_all
  then show False using i(3) by simp
qed

lemma begins_one: "begins l w \<Longrightarrow> w \<in> set words \<Longrightarrow> v \<in> set words \<Longrightarrow> begins l v \<longleftrightarrow> v = w"
proof
  assume "begins l w" "begins l v"
  then have "\<not> apart w v" by (rule begins_apart)
  moreover assume "w \<in> set words" "v \<in> set words"
  then have "w = v \<or> apart w v" using words_apart unfolding list_all_iff by metis
  ultimately show "v = w" by simp
qed simp

text \<open>A stage none of whose words begin the line.\<close>

lemma quiet_stages:
  "\<not> starts_with c ''ls'' \<Longrightarrow> \<not> starts_with c ''ps'' \<Longrightarrow> stage_ls j c = (\<lambda>s. Some (Inr (Next s)))"
  "\<not> starts_with c ''cd '' \<Longrightarrow> \<not> starts_with c ''cp '' \<Longrightarrow> \<not> starts_with c ''rm '' \<Longrightarrow> \<not> starts_with c ''mv '' \<Longrightarrow>
    stage_3 j c n = (\<lambda>s. Some (Inr (Next s)))"
  "\<not> starts_with c ''cat '' \<Longrightarrow> \<not> starts_with c ''clear'' \<Longrightarrow> \<not> starts_with c ''exec '' \<Longrightarrow> stage_4 j c n = (\<lambda>s. Some (Inr (Next s)))"
  "\<not> starts_with c ''find '' \<Longrightarrow> \<not> starts_with c ''kill'' \<Longrightarrow> stage_5 j c n = (\<lambda>s. Some (Inr (Next s)))"
  "\<not> starts_with c ''mkdir '' \<Longrightarrow> stage_6 j c n = (\<lambda>s. Some (Inr (Next s)))"
  by (simp_all add: stage_ls_def stage_3_def stage_4_def stage_5_def stage_6_def fun_eq_iff)

lemma word_starts:
  assumes "length l \<le> 256"
  shows "starts_with (padded l) ''ls'' = begins l ''ls''" "starts_with (padded l) ''ps'' = begins l ''ps''"
    "starts_with (padded l) ''cd '' = begins l ''cd ''" "starts_with (padded l) ''cp '' = begins l ''cp ''"
    "starts_with (padded l) ''rm '' = begins l ''rm ''" "starts_with (padded l) ''mv '' = begins l ''mv ''"
    "starts_with (padded l) ''cat '' = begins l ''cat ''" "starts_with (padded l) ''clear'' = begins l ''clear''"
    "starts_with (padded l) ''exec '' = begins l ''exec ''" "starts_with (padded l) ''find '' = begins l ''find ''"
    "starts_with (padded l) ''kill'' = begins l ''kill''" "starts_with (padded l) ''mkdir '' = begins l ''mkdir ''"
  by (rule starts_padded [OF assms]; simp add: codes_def)+

lemma begins_all:
  assumes "begins l w" and "w \<in> set words"
  shows "begins l ''ls'' = (''ls'' = w)" "begins l ''ps'' = (''ps'' = w)" "begins l ''cd '' = (''cd '' = w)"
    "begins l ''cp '' = (''cp '' = w)" "begins l ''rm '' = (''rm '' = w)" "begins l ''mv '' = (''mv '' = w)"
    "begins l ''cat '' = (''cat '' = w)" "begins l ''clear'' = (''clear'' = w)" "begins l ''exec '' = (''exec '' = w)"
    "begins l ''find '' = (''find '' = w)" "begins l ''kill'' = (''kill'' = w)" "begins l ''mkdir '' = (''mkdir '' = w)"
  by (rule begins_one [OF assms]; simp add: words_def)+

lemma find_act:
  "(case find (\<lambda>(w, n, r). begins l w \<and> n < length l) ((w, n, r) # as) of None \<Rightarrow> Some (Inr s) | Some (w, n, r) \<Rightarrow> r) =
   (if begins l w \<and> n < length l then r
    else case find (\<lambda>(w, n, r). begins l w \<and> n < length l) as of None \<Rightarrow> Some (Inr s) | Some (w, n, r) \<Rightarrow> r)"
  by simp

lemma executeCommand_word:
  assumes "length l \<le> 256" and "begins l w" and "w \<in> set words"
  shows "executeCommand j (padded l) (length l) s = execute j l s"
proof -
  note B = begins_all [OF assms(2,3)]
  have "w = ''ls'' \<or> w = ''ps'' \<or> w = ''cd '' \<or> w = ''cp '' \<or> w = ''rm '' \<or> w = ''mv '' \<or> w = ''cat '' \<or> w = ''clear'' \<or>
      w = ''exec '' \<or> w = ''find '' \<or> w = ''kill'' \<or> w = ''mkdir ''"
    using assms(3) by (simp add: words_def)
  moreover from this have ne: "l \<noteq> []" using assms(2) by (auto simp: begins_def codes_def)
  ultimately show ?thesis
    unfolding execute_def actions_def Let_def find_act
    by (elim disjE; hypsubst; simp add: ne executeCommand_def quiet_stages word_starts [OF assms(1)] B at_length_def
        stage_ls_def stage_3_def stage_4_def stage_5_def stage_6_def argument_padded)
qed

lemma executeCommand_actions:
  assumes "length l \<le> 256"
  shows "executeCommand j (padded l) (length l) s = execute j l s"
proof (cases "\<exists>w \<in> set words. begins l w")
  case True
  then show ?thesis using executeCommand_word [OF assms] by blast
next
  case False
  then have "\<not> begins l v" if "v \<in> set words" for v using that by blast
  note no = this [unfolded words_def]
  show ?thesis
    unfolding execute_def actions_def Let_def find_act
    by (simp add: no executeCommand_def quiet_stages word_starts [OF assms])
qed

section \<open>The line buffer\<close>

definition session_of :: "shell \<Rightarrow> u8 list \<Rightarrow> session" where
  "session_of s l = \<lparr>sh = s, line = padded l, typed = length l\<rparr>"

lemma padded_Nil: "padded [] = replicate KEYBOARD_BUFFER_SIZE 0"
  by (simp add: padded_def)

lemma padded_snoc: "length l < KEYBOARD_BUFFER_SIZE \<Longrightarrow> (padded l)[length l := c] = padded (l @ [c])"
  by (simp add: padded_def list_update_append Suc_diff_Suc [symmetric])

lemma padded_butlast: "l \<noteq> [] \<Longrightarrow> length l \<le> KEYBOARD_BUFFER_SIZE \<Longrightarrow> (padded l)[length l - 1 := 0] = padded (butlast l)"
proof -
  assume l: "l \<noteq> []" "length l \<le> KEYBOARD_BUFFER_SIZE"
  then obtain m x where m: "l = m @ [x]" by (metis rev_exhaust)
  have "length m < KEYBOARD_BUFFER_SIZE" using l(2) m by simp
  then have "padded l = (padded m)[length m := x]" "(padded m)[length m := 0] = padded m"
    using padded_snoc [of m x] m by (simp_all add: padded_def list_update_append Suc_diff_Suc [symmetric])
  then show ?thesis using m by simp
qed

lemma main_run_keys:
  "length l \<le> KEYBOARD_BUFFER_SIZE \<Longrightarrow>
   main_run cs (session_of s l) = bindO (run_keys cs l s) (\<lambda>(s', l'). Some (Inr (session_of s' l')))"
proof (induction cs l s rule: run_keys.induct)
  case (2 j c cs l s)
  have 256: "KEYBOARD_BUFFER_SIZE = 256" by (simp add: KEYBOARD_BUFFER_SIZE_def)
  consider "c = 0" | "c = 8" "l = []" | "c = 8" "l \<noteq> []" | "c = 10" | "c \<noteq> 0" "c \<noteq> 8" "c \<noteq> 10" by blast
  then show ?case
  proof cases
    case 1
    then show ?thesis using 2 by (simp add: main_step_def)
  next
    case 2
    then show ?thesis using "2.IH"(2) "2.prems" by (simp add: main_step_def session_of_def)
  next
    case 3
    have "typed (session_of s l) > 0" "arr_set (line (session_of s l)) (typed (session_of s l) - 1) 0 = Inr (padded (butlast l))"
      using 3 "2.prems" padded_butlast by (simp_all add: session_of_def arr_set_def 256)
    then have "main_step j c (session_of s l) = Some (Inr (session_of s (butlast l)))"
      using 3 by (simp add: main_step_def) (simp add: session_of_def)
    then show ?thesis using 3 "2.IH"(3) "2.prems" by simp
  next
    case 4
    have "main_step j c (session_of s l) =
        bindO (execute j l (say_line '''' WHITE s)) (\<lambda>s1. bindO (Some (print_terminal_text s1)) (\<lambda>s2. Some (Inr (session_of s2 []))))"
      using 4 "2.prems" executeCommand_actions by (simp add: main_step_def session_of_def padded_Nil 256)
    then show ?thesis using 4 "2.IH"(4) by (simp add: bindO_assoc)
  next
    case 5
    show ?thesis
    proof (cases "length l < KEYBOARD_BUFFER_SIZE")
      case True
      then have "main_step j c (session_of s l) = Some (Inr (session_of s (l @ [c])))"
        using 5 padded_snoc [OF True] by (simp add: main_step_def session_of_def arr_set_def 256)
      then show ?thesis using 5 True "2.IH"(5) by simp
    next
      case False
      then show ?thesis using 5 "2.prems" by (simp add: main_step_def session_of_def arr_set_def 256)
    qed
  qed
qed simp

text \<open>
  C12. The shell's loop is the line interpreter. From an empty line, whatever keys come in, with
  whatever uninitialised objects at each, the buffer of 256 characters with its index, the
  clearing after each command and the nested conditionals of \<open>executeCommand\<close> compute what the
  interpreter of lists does with its table of words: enter runs the action of the one word the
  line begins with, when the line is longer than that word requires, and nothing else;
  backspace drops the last character; and a character for which there is no room is a fault.
\<close>

theorem shell_is_line_interpreter:
  "main_run cs (session_of s []) = bindO (run_keys cs [] s) (\<lambda>(s', l). Some (Inr (session_of s' l)))"
  by (rule main_run_keys) simp

end
