(* ===== verification/Boot.thy ===== *)
theory Boot
  imports Interrupts Descriptors ShellFiles
begin

text \<open>
  \<^verbatim>\<open>src/src/kernel.c\<close>: the set-up sequence of the kernel, as the composition of the component
  models, from the state the assembly entry hands over to the first context switch, which
  starts the shell. \<open>scheduler_init\<close> is that of \<^verbatim>\<open>src/src/scheduler.c\<close>. The instructions that
  only the assembly files can execute are recorded in order.
\<close>

section \<open>The sequence\<close>

datatype cpu_event = Load_GDT | Load_IDT | Set_Interrupt_Flag | Load_Task_Register u16

record 'd boot =
  kern :: "'d kernel"
  gdt :: "segment_descriptor list"
  idt :: "idt_gate list"
  tss :: tss_entry
  executed :: "cpu_event list"

text \<open>What the linker decides, and the base pointer at the call that stores it.\<close>

record addresses =
  isr_stub_table :: "u32 list"
  tss_address :: u32
  setup_ebp :: u32

definition scheduler_init :: "'d bus \<Rightarrow> 'd \<Rightarrow> 'd" where
  "scheduler_init B d = activate_timer_interrupt B d"

definition shell_request :: driver_request where
  "shell_request = \<lparr>rq_buf = 0, rq_name = codes ''shell'' @ [0, 0, 0], rq_ext = [0, 0, 0],
     rq_parent_cluster_number = ROOT_CLUSTER_NUMBER, rq_buffer_size = 0x100000\<rparr>"

text \<open>The interrupts and the display, up to the file system.\<close>

definition setup_devices :: "'d bus \<Rightarrow> 'd console \<Rightarrow> 'd console" where
  "setup_devices B c =
     (let c1 = framebuffer_clear (c\<lparr>dev := activate_keyboard_interrupt B (pic_remap B (dev c))\<rparr>) in
      c1\<lparr>text_memory := framebuffer_write 0 0 0 0xF 0 (text_memory c1), dev := framebuffer_set_cursor B 0 0 (dev c1)\<rparr>)"

definition kernel_setup :: "'d machine \<Rightarrow> addresses \<Rightarrow> 'd boot \<Rightarrow> (('d boot \<times> cpu_context) res) option" where
  "kernel_setup M A b =
     (let B = mbus M; L = mlayout M; k = kern b; c = setup_devices B (con k) in
      bindO (Some (initialize_filesystem_fat32 (fs (ksys k)))) (\<lambda>f.
      bindO (Some (paging_allocate_user_page_frame L (kernel_pd_addr L) 0 (pg (ksys k)))) (\<lambda>(_, p).
      bindO (process_create_user_process L shell_request ((ksys k)\<lparr>fs := f, pg := p\<rparr>)) (\<lambda>(_, s).
      case scheduler_switch_to_next_process s of
        None \<Rightarrow> None
      | Some (s1, ctx) \<Rightarrow>
          Some (Inr (\<lparr>kern = k\<lparr>ksys := s1, con := c\<lparr>dev := scheduler_init B (dev c)\<rparr>\<rparr>,
                      gdt = gdt_install_tss (tss_address A) (gdt b),
                      idt = initialize_idt (isr_stub_table A) (idt b),
                      tss = set_tss_kernel_current_stack (setup_ebp A) (tss b),
                      executed = executed b @ [Load_GDT, Load_IDT, Set_Interrupt_Flag, Load_Task_Register GDT_TSS_SELECTOR]\<rparr>,
                    ctx))))))"

section \<open>What the entry hands over\<close>

text \<open>The assembly entry has cleared the entry of page 0 in the kernel's directory.\<close>

definition boot_paging :: "layout \<Rightarrow> paging" where
  "boot_paging L = (paging_start L)\<lparr>kernel_page_directory := (kernel_page_directory (paging_start L))[0 := zero_pde]\<rparr>"

definition boot_sys :: "layout \<Rightarrow> image \<Rightarrow> mem \<Rightarrow> sys" where
  "boot_sys L im m = \<lparr>pg = boot_paging L, fs = power_on im, pm = m, process_list = replicate 16 zero_pcb,
     list_of_process = replicate 16 False, active_process_count = 0\<rparr>"

definition boot_state :: "layout \<Rightarrow> image \<Rightarrow> mem \<Rightarrow> 'd console \<Rightarrow> 'd boot" where
  "boot_state L im m c = \<lparr>kern = \<lparr>ksys = boot_sys L im m, kbd = keyboard_start, con = c\<rparr>,
     gdt = global_descriptor_table, idt = interrupt_descriptor_table, tss = interrupt_tss_entry, executed = []\<rparr>"

section \<open>Paging and the first process\<close>

lemma boot_kernel_directory: "kernel_page_directory (boot_paging L) = blank_directory[0x300 := kernel_pde]"
proof (rule nth_equalityI)
  show "kernel_page_directory (boot_paging L) ! k = blank_directory[0x300 := kernel_pde] ! k"
    if "k < length (kernel_page_directory (boot_paging L))" for k
    using that by (auto simp: boot_paging_def paging_start_def nth_list_update blank_directory_def page_constants)
qed (simp add: boot_paging_def paging_start_def)

lemma boot_dirs: "i < 33 \<Longrightarrow> all_dirs (boot_paging L) ! i = (if i < 32 then blank_directory else blank_directory[0x300 := kernel_pde])"
  by (auto simp: all_dirs_def boot_kernel_directory nth_append) (auto simp: boot_paging_def paging_start_def page_constants)

lemma boot_paging_fields [simp]:
  "page_frame_map (boot_paging L) = True # replicate 31 False" "page_directory_used (boot_paging L) = replicate 32 False"
  "page_directory_list (boot_paging L) = replicate 32 blank_directory" "free_page_frame_count (boot_paging L) = 31"
  "cr3 (boot_paging L) = kernel_pd_addr L - KERNEL_VIRTUAL_ADDRESS_BASE"
  by (simp_all add: boot_paging_def paging_start_def page_constants)

lemma boot_paging_ok: "paging_ok (boot_paging L)"
proof -
  have "\<not> backed (boot_paging L) i k f" for i k f
  proof
    assume "backed (boot_paging L) i k f"
    then have "i < 33" "k < 1024" "user_page (all_dirs (boot_paging L) ! i ! k)" by (auto simp: backed_def)
    then show False using not_user
      by (cases "k = 0x300") (auto simp: boot_dirs blank_nth blank_directory_def page_constants split: if_splits)
  qed
  moreover have "f < 32 \<and> \<not> page_frame_map (boot_paging L) ! f \<longleftrightarrow> f \<in> {1..<32}" for f by (cases f) auto
  then have "{f. f < 32 \<and> \<not> page_frame_map (boot_paging L) ! f} = {1..<32}" by blast
  then have "unat (free_page_frame_count (boot_paging L)) = card {f. f < 32 \<and> \<not> page_frame_map (boot_paging L) ! f}" by simp
  moreover have "length (all_dirs (boot_paging L) ! i) = 1024" if "i < 33" for i
    using that by (simp add: boot_dirs blank_directory_def page_constants)
  then have "paging_shape (boot_paging L)" by (simp add: paging_shape_def)
  ultimately show ?thesis by (simp add: paging_ok_def)
qed

text \<open>The page the kernel allocates at address 0 takes frame 1, so the shell gets frames 2 and 3.\<close>

abbreviation boot_allocated :: "layout \<Rightarrow> paging" where
  "boot_allocated L \<equiv> allocated 32 0 1 (boot_paging L)"

lemma boot_allocates:
  assumes "layout_ok L"
  shows "paging_allocate_user_page_frame L (kernel_pd_addr L) 0 (boot_paging L) = Inr (True, boot_allocated L)"
    and "paging_ok (boot_allocated L)"
proof -
  have f: "first_clear (page_frame_map (boot_paging L)) PAGE_FRAME_MAX_COUNT = Some 1"
    by (auto simp: first_clear_Some page_constants less_Suc_eq)
  show "paging_allocate_user_page_frame L (kernel_pd_addr L) 0 (boot_paging L) = Inr (True, boot_allocated L)"
    using allocate_effect [OF boot_paging_ok assms _ f, of 32 0] by (simp add: dir_addr_def)
  show "paging_ok (boot_allocated L)" by (rule paging_ok_allocated [OF boot_paging_ok _ _ f]) simp_all
qed

lemma boot_cr3:
  assumes "layout_ok L"
  shows "0 < cr3 (boot_paging L)" "cr3 (boot_paging L) < 0x40000000"
proof -
  have "unat (kernel_pd_addr L - KERNEL_VIRTUAL_ADDRESS_BASE) = unat (kernel_pd_addr L) - unat KERNEL_VIRTUAL_ADDRESS_BASE"
    using assms by (intro unat_sub) (simp add: layout_ok_def word_less_nat_alt word_le_nat_alt)
  moreover have "unat KERNEL_VIRTUAL_ADDRESS_BASE < unat (kernel_pd_addr L)"
    using assms by (simp add: layout_ok_def word_less_nat_alt)
  moreover have "unat (kernel_pd_addr L) < 4294967296" "unat KERNEL_VIRTUAL_ADDRESS_BASE = 3221225472"
    using u32_lt_size [of "kernel_pd_addr L"] by (simp_all add: KERNEL_VIRTUAL_ADDRESS_BASE_def)
  ultimately have "0 < unat (cr3 (boot_paging L)) \<and> unat (cr3 (boot_paging L)) < 1073741824"
    unfolding boot_paging_fields by linarith
  then show "0 < cr3 (boot_paging L)" "cr3 (boot_paging L) < 0x40000000"
    by (simp_all only: word_less_nat_alt) simp_all
qed

text \<open>The shell's file.\<close>

lemma shell_file_read:
  assumes "mounted f" and "holds_file f 2 (rq_name shell_request) e cs"
  shows "fs_read shell_request (f\<lparr>dir_table_buf := t\<rparr>) m = Some (Inr (0, mem_write m 0 (file_bytes (storage f) cs)))"
    and "length (file_bytes (storage f) cs) \<le> 4194304"
proof -
  have h: "lookup f 2 (rq_name shell_request) = Some e" "length (rq_name shell_request) = 8" "rq_name shell_request \<noteq> replicate 8 0"
    "de_filesize e \<noteq> 0" "chain (cluster_map f) (entry_cluster e) cs" "length cs = size_in_clusters (de_filesize e)"
    "unat (de_filesize e) \<le> 2048 * 510"
    using assms(2) by (auto simp: holds_file_def)
  have len: "length cs \<le> 510" using h(6,7) by (simp add: size_in_clusters_def)
  show "length (file_bytes (storage f) cs) \<le> 4194304" using len by simp
  have "length cs \<le> read_limit (rq_buffer_size shell_request)" using len by (simp add: read_limit_def shell_request_def)
  moreover have "lookup (f\<lparr>dir_table_buf := t\<rparr>) 2 (rq_name shell_request) = Some e" using h(1) by (simp add: lookup_def dir_at_def)
  ultimately show "fs_read shell_request (f\<lparr>dir_table_buf := t\<rparr>) m = Some (Inr (0, mem_write m 0 (file_bytes (storage f) cs)))"
    using fs_read_chain [of shell_request "f\<lparr>dir_table_buf := t\<rparr>" e cs m] h assms(1)
    by (simp add: mounted_def shell_request_def parent_of_def ROOT_CLUSTER_NUMBER_def)
qed

text \<open>The state in which the shell's process is created.\<close>

definition before_shell :: "layout \<Rightarrow> fat32 \<Rightarrow> mem \<Rightarrow> sys" where
  "before_shell L f m = (boot_sys L (storage f) m)\<lparr>fs := f\<lparr>dir_table_buf := dir_at f 2\<rparr>, pg := boot_allocated L\<rparr>"

lemma shell_create_ready:
  assumes "layout_ok L" and "mounted f" and "holds_file f 2 (rq_name shell_request) e cs"
  shows "create_ready L shell_request 0 2 3 0 (file_bytes (storage f) cs) (before_shell L f m)"
proof -
  have "unat (ceil_div (rq_buffer_size shell_request + of_nat PAGE_FRAME_SIZE) (of_nat PAGE_FRAME_SIZE)) = 2"
    using ceil_div_small [of "rq_buffer_size shell_request + of_nat PAGE_FRAME_SIZE"]
    by (simp add: shell_request_def page_constants)
  then have need: "ceil_div (rq_buffer_size shell_request + of_nat PAGE_FRAME_SIZE) (of_nat PAGE_FRAME_SIZE) \<le> 8"
    "0 < ceil_div (rq_buffer_size shell_request + of_nat PAGE_FRAME_SIZE) (of_nat PAGE_FRAME_SIZE)"
    by (simp_all add: word_le_nat_alt word_less_nat_alt)
  have clear: "first_clear (page_directory_used (boot_allocated L)) PAGING_DIRECTORY_TABLE_MAX_COUNT = Some 0"
      "first_clear (page_frame_map (boot_allocated L)) PAGE_FRAME_MAX_COUNT = Some 2"
      "first_clear ((page_frame_map (boot_allocated L))[2 := True]) PAGE_FRAME_MAX_COUNT = Some 3"
    by (auto simp: first_clear_Some page_constants less_Suc_eq numeral_2_eq_2 numeral_3_eq_3)
  have buf: "rq_buf shell_request = 0" by (simp add: shell_request_def)
  show ?thesis
    unfolding create_ready_def buf
    using assms(1) boot_allocates(2) [OF assms(1)] boot_cr3 [OF assms(1)] need clear shell_file_read [OF assms(2,3)] buf
    by (simp add: before_shell_def boot_sys_def page_index_nat KERNEL_VIRTUAL_ADDRESS_BASE_def)
qed

lemma boot_devices:
  assumes "pic_ok B m s"
  shows "m (scheduler_init B (dev (setup_devices B c))) = \<lparr>phase = Ready, vector_base = 0x20, mask_bits = 0xFC\<rparr>"
    and "s (scheduler_init B (dev (setup_devices B c))) = \<lparr>phase = Ready, vector_base = 0x28, mask_bits = 0xFF\<rparr>"
proof -
  let ?k = "activate_keyboard_interrupt B (pic_remap B (dev c))"
  have d: "dev (setup_devices B c) = framebuffer_set_cursor B 0 0 ?k" by (simp add: setup_devices_def framebuffer_clear_def Let_def)
  have k: "m ?k = \<lparr>phase = Ready, vector_base = 0x20, mask_bits = 0xFD\<rparr>" "s ?k = \<lparr>phase = Ready, vector_base = 0x28, mask_bits = 0xFF\<rparr>"
    using activate_state(1,2) [OF assms, of "pic_remap B (dev c)"] pic_remap_state [OF assms, of "dev c"] by simp_all
  have c: "m (framebuffer_set_cursor B 0 0 x) = m x" "s (framebuffer_set_cursor B 0 0 x) = s x" for x
    by (simp_all add: framebuffer_set_cursor_def Let_def pic_out [OF assms] CURSOR_PORT_CMD_def CURSOR_PORT_DATA_def)
  show "m (scheduler_init B (dev (setup_devices B c))) = \<lparr>phase = Ready, vector_base = 0x20, mask_bits = 0xFC\<rparr>"
    "s (scheduler_init B (dev (setup_devices B c))) = \<lparr>phase = Ready, vector_base = 0x28, mask_bits = 0xFF\<rparr>"
    unfolding scheduler_init_def d using activate_state(3,4) [OF assms, of "framebuffer_set_cursor B 0 0 ?k"] k c by simp_all
qed

section \<open>The kernel starts the shell\<close>

lemma first_switch:
  assumes "process_list s = (replicate 16 zero_pcb)[0 := q]" and "pstate q = PROCESS_STATE_READY"
  shows "\<exists>s'. scheduler_switch_to_next_process s = Some (s', pcontext q) \<and> running (process_list s') 0 \<and> pm s' = pm s \<and>
    pg s' = paging_use_page_directory (page_directory_virtual_addr (pcontext q)) (pg s) \<and> fs s' = fs s"
proof -
  have none: "\<forall>j<16. pstate (process_list s ! j) \<noteq> PROCESS_STATE_RUNNING" "length (process_list s) = 16"
    using assms by (auto simp: nth_list_update zero_pcb_def)
  let ?ps = "(process_list s)[0 := (process_list s ! 0)\<lparr>pstate := PROCESS_STATE_RUNNING\<rparr>]"
  have n: "next_ready ?ps 0 = 0"
    using assms(1) by (intro next_ready_self [THEN iffD2]) (auto simp: nth_list_update zero_pcb_def)
  note sw = switch_none_running [OF none] switched_running [of ?ps 0]
  have q: "pcontext (?ps ! 0) = pcontext q" using none(2) assms(1) by simp
  show ?thesis using sw none(2) unfolding n q by simp
qed

text \<open>The state the set-up leaves, with \<open>s\<close> the processes, memory and file system.\<close>

definition set_up :: "'d machine \<Rightarrow> addresses \<Rightarrow> 'd console \<Rightarrow> sys \<Rightarrow> 'd boot" where
  "set_up M A c s =
     (let c1 = setup_devices (mbus M) c in
      \<lparr>kern = \<lparr>ksys = s, kbd = keyboard_start, con = c1\<lparr>dev := scheduler_init (mbus M) (dev c1)\<rparr>\<rparr>,
       gdt = gdt_install_tss (tss_address A) global_descriptor_table, idt = initialize_idt (isr_stub_table A) interrupt_descriptor_table,
       tss = set_tss_kernel_current_stack (setup_ebp A) interrupt_tss_entry,
       executed = [Load_GDT, Load_IDT, Set_Interrupt_Flag, Load_Task_Register GDT_TSS_SELECTOR]\<rparr>)"

abbreviation shell_pcb :: "layout \<Rightarrow> pcb" where
  "shell_pcb L \<equiv> new_pcb shell_request (pd_addr L 0) 0 zero_pcb"

abbreviation shell_paging :: "layout \<Rightarrow> fat32 \<Rightarrow> mem \<Rightarrow> paging" where
  "shell_paging L f m \<equiv> (space_after L shell_request 0 2 3 (before_shell L f m))\<lparr>cr3 := cr3 (pg (before_shell L f m))\<rparr>"

lemma kernel_setup_runs:
  assumes "layout_ok (mlayout M)" and "mounted f" and "holds_file f 2 (rq_name shell_request) e cs"
  shows "\<exists>s. kernel_setup M A (boot_state (mlayout M) (storage f) m c) = Some (Inr (set_up M A c s, pcontext (shell_pcb (mlayout M)))) \<and>
    running (process_list s) 0 \<and> fs s = f\<lparr>dir_table_buf := dir_at f 2\<rparr> \<and>
    pg s = paging_use_page_directory (pd_addr (mlayout M) 0) (shell_paging (mlayout M) f m) \<and>
    (\<forall>k<length (file_bytes (storage f) cs). \<exists>pa.
       translate (all_dirs (pg s) ! 0) True (of_nat k) = Some pa \<and> pm s pa = file_bytes (storage f) cs ! k)"
proof -
  let ?L = "mlayout M" and ?s = "before_shell (mlayout M) f m"
  note cr = shell_create_ready [OF assms(1-3), of m]
  obtain m' where m': "read_through ?L shell_request (fs ?s) (space_after ?L shell_request 0 2 3 ?s) (pm ?s) = Some (Inr (0, m'))"
    using read_new_space [OF cr] by blast
  let ?s1 = "?s\<lparr>pg := shell_paging ?L f m, pm := m', process_list := (replicate 16 zero_pcb)[0 := shell_pcb ?L], active_process_count := 1\<rparr>"
  have create: "process_create_user_process ?L shell_request ?s = Some (Inr (0, ?s1))"
    using create_effect_process [OF cr m'] by (simp add: before_shell_def boot_sys_def)
  obtain s2 where s2: "scheduler_switch_to_next_process ?s1 = Some (s2, pcontext (shell_pcb ?L))" "running (process_list s2) 0" "pm s2 = m'"
    "pg s2 = paging_use_page_directory (pd_addr ?L 0) (shell_paging ?L f m)" "fs s2 = f\<lparr>dir_table_buf := dir_at f 2\<rparr>"
    using first_switch [of ?s1 "shell_pcb ?L"] by (auto simp: new_pcb_def Let_def before_shell_def)
  have init: "initialize_filesystem_fat32 (power_on (storage f)) = Inr (f\<lparr>dir_table_buf := dir_at f 2\<rparr>)"
    by (rule initialize_mounted [OF assms(2)])
  have bs: "(boot_sys ?L (storage f) m)\<lparr>fs := f\<lparr>dir_table_buf := dir_at f 2\<rparr>, pg := boot_allocated ?L\<rparr> = ?s"
    by (simp add: before_shell_def)
  have "kernel_setup M A (boot_state ?L (storage f) m c) = Some (Inr (set_up M A c s2, pcontext (shell_pcb ?L)))"
    unfolding kernel_setup_def boot_state_def Let_def set_up_def
    using init boot_allocates(1) [OF assms(1)] create s2(1) by (simp add: bs [symmetric] boot_sys_def)
  moreover have "\<exists>pa. translate (all_dirs (pg s2) ! 0) True (of_nat k) = Some pa \<and> pm s2 pa = file_bytes (storage f) cs ! k"
    if "k < length (file_bytes (storage f) cs)" for k
    using program_in_place [OF cr m' that, of "cr3 (pg ?s)"] s2(3,4) by (simp add: shell_request_def)
  ultimately show ?thesis using s2 by blast
qed

lemma shell_context:
  "eip (pcontext (shell_pcb L)) = 0" "eflags (pcontext (shell_pcb L)) = 0x202" "esp (cpu (pcontext (shell_pcb L))) = 0xBFFFFFFC"
  "page_directory_virtual_addr (pcontext (shell_pcb L)) = pd_addr L 0"
  by (simp_all add: new_pcb_def Let_def shell_request_def zero_pcb_def CPU_EFLAGS_BASE_FLAG_def CPU_EFLAGS_FLAG_INTERRUPT_ENABLE_def zero_cpu_def)

text \<open>
  C17. Booting from a disk that holds a file system with the shell in its root directory. The
  set-up ends without a fault; the first context switch loads process 0, which is the one
  that runs: its instruction pointer is 0, interrupts are on, its own page directory is
  current, and in it the user sees the bytes of the shell's file from address 0 on. The file
  system is mounted, the controllers deliver from vector 0x20 with exactly the timer and the
  keyboard unmasked, and the tables and the kernel stack of the task state are in place.
\<close>

theorem kernel_boots:
  fixes M :: "'d machine"
  assumes "layout_ok (mlayout M)" and "pic_ok (mbus M) ms sl" and "mounted f" and "holds_file f 2 (rq_name shell_request) e cs"
  shows "\<exists>b ctx. kernel_setup M A (boot_state (mlayout M) (storage f) m c) = Some (Inr (b, ctx)) \<and>
    eip ctx = 0 \<and> bit (eflags ctx) 9 \<and> esp (cpu ctx) = 0xBFFFFFFC \<and> page_directory_virtual_addr ctx = pd_addr (mlayout M) 0 \<and>
    running (process_list (ksys (kern b))) 0 \<and>
    paging_get_current_page_directory_addr (pg (ksys (kern b))) = pd_addr (mlayout M) 0 \<and>
    (\<forall>k<length (file_bytes (storage f) cs). \<exists>pa.
       translate (all_dirs (pg (ksys (kern b))) ! 0) True (of_nat k) = Some pa \<and> pm (ksys (kern b)) pa = file_bytes (storage f) cs ! k) \<and>
    mounted (fs (ksys (kern b))) \<and>
    vector_base (ms (dev (con (kern b)))) = 0x20 \<and>
    (\<forall>n<8. bit (mask_bits (ms (dev (con (kern b))))) n = (n \<noteq> IRQ_TIMER \<and> n \<noteq> IRQ_KEYBOARD)) \<and>
    gdt b = gdt_install_tss (tss_address A) global_descriptor_table \<and>
    idt b = initialize_idt (isr_stub_table A) interrupt_descriptor_table \<and> esp0 (tss b) = setup_ebp A + 8"
proof -
  let ?L = "mlayout M" and ?bs = "file_bytes (storage f) cs"
  obtain s where s: "kernel_setup M A (boot_state ?L (storage f) m c) = Some (Inr (set_up M A c s, pcontext (shell_pcb ?L)))"
    "running (process_list s) 0" "fs s = f\<lparr>dir_table_buf := dir_at f 2\<rparr>"
    "pg s = paging_use_page_directory (pd_addr ?L 0) (shell_paging ?L f m)"
    and prog: "\<forall>k<length ?bs. \<exists>pa. translate (all_dirs (pg s) ! 0) True (of_nat k) = Some pa \<and> pm s pa = ?bs ! k"
    using kernel_setup_runs [OF assms(1,3,4), of A m c] by blast
  have dir: "paging_get_current_page_directory_addr (pg s) = pd_addr ?L 0"
    using pd_addr_above [OF assms(1), of 0] s(4)
    by (simp add: paging_get_current_page_directory_addr_def paging_use_page_directory_def)
  have irq: "vector_base (ms (dev (con (kern (set_up M A c s))))) = 0x20" "mask_bits (ms (dev (con (kern (set_up M A c s))))) = 0xFC"
    using boot_devices [OF assms(2), of c] by (simp_all add: set_up_def Let_def)
  show ?thesis
    using s(1-3) shell_context [of ?L] dir prog irq mask_timer_keyboard assms(3)
    by (intro exI [of _ "set_up M A c s"] exI [of _ "pcontext (shell_pcb ?L)"])
       (simp add: bit_iff_odd set_tss_kernel_current_stack_def set_up_def Let_def)
qed

section \<open>A machine with the shell on its disk\<close>

definition demo_shell_file :: driver_request where
  "demo_shell_file = demo_request\<lparr>rq_name := rq_name shell_request, rq_ext := [0, 0, 0]\<rparr>"

definition demo_boot_machine :: "(pic \<times> pic) machine" where
  "demo_boot_machine = \<lparr>mlayout = demo_layout, mbus = demo_pic_bus, mjunk = zero_entry, mjunk_table = []\<rparr>"

definition demo_addresses :: addresses where
  "demo_addresses = \<lparr>isr_stub_table = replicate 64 0xC0101000, tss_address = 0xC0300000, setup_ebp = 0xC07FFFE0\<rparr>"

lemma demo_shell_disk: "\<exists>f e cs. mounted f \<and> holds_file f 2 (rq_name shell_request) e cs"
proof -
  obtain s0 where s0: "mounted s0" "cluster_map s0 = demo_fat" "dir_at s0 2 = demo_root"
    using initialize_blank [OF blank_image] by blast
  have rq: "parent_of demo_shell_file = 2" "rq_buffer_size demo_shell_file = rq_buffer_size demo_request"
    "rq_name demo_shell_file = rq_name shell_request" "length (rq_name shell_request) = 8" "rq_name shell_request \<noteq> replicate 8 0"
    "rq_name shell_request \<noteq> root_name"
    by (simp_all add: demo_shell_file_def parent_of_def demo_request_def shell_request_def codes_def replicate8 root_name_def)
  have "can_write demo_shell_file 1 s0"
    using demo_can_write s0(2,3) rq(1,2,4) by (simp add: can_write_def demo_shell_file_def request_ok_def)
  moreover have "find_name (dir_at s0 2) (rq_name shell_request) = None"
    using rq(4-6) by (simp add: s0(3) find_name_None demo_root_nth zero_entry_fields)
  ultimately show ?thesis
    using mounted_after_write [OF s0(1)] written_held(1) [of demo_shell_file 1 s0] rq by metis
qed

theorem kernel_boots_witness:
  "\<exists>f e cs b ctx. mounted f \<and> holds_file f 2 (rq_name shell_request) e cs \<and>
    kernel_setup demo_boot_machine demo_addresses (boot_state demo_layout (storage f) (\<lambda>_. 0)
      \<lparr>text_memory = (\<lambda>_. 7), cur_row = 0, cur_col = 0, dev = demo_pics\<rparr>) = Some (Inr (b, ctx)) \<and>
    running (process_list (ksys (kern b))) 0 \<and> eip ctx = 0 \<and> mask_bits (fst (dev (con (kern b)))) = 0xFC"
proof -
  obtain f e cs where f: "mounted f" "holds_file f 2 (rq_name shell_request) e cs" using demo_shell_disk by blast
  have l: "layout_ok (mlayout demo_boot_machine)" "pic_ok (mbus demo_boot_machine) fst snd"
    by (simp_all add: demo_boot_machine_def demo_layout_ok demo_pic_ok)
  have L: "mlayout demo_boot_machine = demo_layout" by (simp add: demo_boot_machine_def)
  obtain b ctx where b: "kernel_setup demo_boot_machine demo_addresses (boot_state demo_layout (storage f) (\<lambda>_. 0)
      \<lparr>text_memory = (\<lambda>_. 7), cur_row = 0, cur_col = 0, dev = demo_pics\<rparr>) = Some (Inr (b, ctx))"
    "running (process_list (ksys (kern b))) 0" "eip ctx = 0"
    "\<forall>n<8. bit (mask_bits (fst (dev (con (kern b))))) n = (n \<noteq> IRQ_TIMER \<and> n \<noteq> IRQ_KEYBOARD)"
    using kernel_boots [OF l f] unfolding L by metis
  have "mask_bits (fst (dev (con (kern b)))) = 0xFC"
    using b(4) mask_timer_keyboard by (intro bit_word_eqI) simp
  then show ?thesis using f b(1-3) by blast
qed

end
