(* ===== verification/ClockProgram.thy ===== *)
theory ClockProgram
  imports Boot
begin

text \<open>
  \<^verbatim>\<open>src/src/user-clock.c\<close>: the program that draws the time in the corner of the display. It is
  a loop of system calls, composed here with the kernel's \<open>syscall\<close>: a round asks for the six
  characters of the time in a buffer of its own and draws them with two colons. The loop has
  no end, so its effect is stated for any number of rounds.
\<close>

section \<open>The program\<close>

definition registers :: "u32 \<Rightarrow> u32 \<Rightarrow> u32 \<Rightarrow> u32 \<Rightarrow> cpu_register" where
  "registers a b c d = zero_cpu\<lparr>eax := a, ebx := b, ecx := c, edx := d\<rparr>"

fun draw_cells :: "'d machine \<Rightarrow> (u32 \<times> u32) list \<Rightarrow> 'd kernel \<Rightarrow> (('d kernel) res) option" where
  "draw_cells M [] k = Some (Inr k)"
| "draw_cells M ((col, ch) # cs) k = bindO (syscall M (registers 13 24 col ch) k) (draw_cells M cs)"

text \<open>The elements of the array are signed characters, extended to 32 bits.\<close>

definition clock_cells :: "u8 list \<Rightarrow> (u32 \<times> u32) list" where
  "clock_cells t = [(72, scast (t ! 0)), (73, scast (t ! 1)), (74, 58), (75, scast (t ! 2)), (76, scast (t ! 3)), (77, 58),
     (78, scast (t ! 4)), (79, scast (t ! 5))]"

text \<open>\<open>time_array\<close> is the address of the array.\<close>

definition clock_round :: "'d machine \<Rightarrow> u32 \<Rightarrow> 'd kernel \<Rightarrow> (('d kernel) res) option" where
  "clock_round M time_array k =
     bindO (syscall M (registers 12 time_array 0 0) k) (\<lambda>k1.
     bindO (Some (user_load (mlayout M) time_array 6 (ksys k1))) (\<lambda>t. draw_cells M (clock_cells t) k1))"

fun clock_rounds :: "'d machine \<Rightarrow> u32 \<Rightarrow> nat \<Rightarrow> 'd kernel \<Rightarrow> (('d kernel) res) option" where
  "clock_rounds M time_array 0 k = Some (Inr k)"
| "clock_rounds M time_array (Suc n) k = bindO (clock_round M time_array k) (clock_rounds M time_array n)"

definition clock_main :: "'d machine \<Rightarrow> u32 \<Rightarrow> nat \<Rightarrow> 'd kernel \<Rightarrow> (('d kernel) res) option" where
  "clock_main M time_array n k = bindO (syscall M (registers 11 0 0 0) k) (clock_rounds M time_array n)"

section \<open>Its system calls\<close>

lemma registers_simps [simp]:
  "eax (registers a b c d) = a" "ebx (registers a b c d) = b" "ecx (registers a b c d) = c" "edx (registers a b c d) = d"
  by (simp_all add: registers_def)

lemma draw_syscall:
  "syscall M (registers 13 24 col ch) k =
     Some (Inr (k\<lparr>con := (con k)\<lparr>text_memory := framebuffer_write 24 (ucast col) (ucast ch) 0xF 0 (text_memory (con k))\<rparr>\<rparr>))"
  by (simp add: syscall_def Let_def draw_call_def)

lemma ucast_scast8 [simp]: "ucast (scast (c :: u8) :: u32) = c"
proof (rule bit_word_eqI)
  fix n assume "n < LENGTH(8)"
  then show "bit (ucast (scast c :: u32) :: u8) n = bit c n"
    by (cases "n = 7") (auto simp: bit_unsigned_iff bit_signed_iff min_def)
qed

text \<open>The eight cells, with white on black.\<close>

definition corner :: "u8 list \<Rightarrow> (nat \<Rightarrow> u8) \<Rightarrow> nat \<Rightarrow> u8" where
  "corner cs fb = (\<lambda>a. if 3984 \<le> a \<and> a < 4000 then (if even a then cs ! ((a - 3984) div 2) else 0x0F) else fb a)"

definition with_colons :: "u8 list \<Rightarrow> u8 list" where
  "with_colons t = [t ! 0, t ! 1, 58, t ! 2, t ! 3, 58, t ! 4, t ! 5]"

lemma corner_cases:
  "3984 \<le> (a :: nat) \<Longrightarrow> a < 4000 \<Longrightarrow> a = 3984 \<or> a = 3985 \<or> a = 3986 \<or> a = 3987 \<or> a = 3988 \<or> a = 3989 \<or> a = 3990 \<or> a = 3991 \<or>
     a = 3992 \<or> a = 3993 \<or> a = 3994 \<or> a = 3995 \<or> a = 3996 \<or> a = 3997 \<or> a = 3998 \<or> a = 3999"
  by arith

lemma draw_clock_cells:
  "draw_cells M (clock_cells t) k =
     Some (Inr (k\<lparr>con := (con k)\<lparr>text_memory := corner (with_colons t) (text_memory (con k))\<rparr>\<rparr>))"
proof -
  have "framebuffer_write 24 79 (t ! 5) 0xF 0 (framebuffer_write 24 78 (t ! 4) 0xF 0 (framebuffer_write 24 77 58 0xF 0
    (framebuffer_write 24 76 (t ! 3) 0xF 0 (framebuffer_write 24 75 (t ! 2) 0xF 0 (framebuffer_write 24 74 58 0xF 0
    (framebuffer_write 24 73 (t ! 1) 0xF 0 (framebuffer_write 24 72 (t ! 0) 0xF 0 fb))))))) = corner (with_colons t) fb" for fb
  proof
    fix a
    show "framebuffer_write 24 79 (t ! 5) 0xF 0 (framebuffer_write 24 78 (t ! 4) 0xF 0 (framebuffer_write 24 77 58 0xF 0
      (framebuffer_write 24 76 (t ! 3) 0xF 0 (framebuffer_write 24 75 (t ! 2) 0xF 0 (framebuffer_write 24 74 58 0xF 0
      (framebuffer_write 24 73 (t ! 1) 0xF 0 (framebuffer_write 24 72 (t ! 0) 0xF 0 fb))))))) a = corner (with_colons t) fb a"
    proof (cases "3984 \<le> a \<and> a < 4000")
      case True
      then have "3984 \<le> a" "a < 4000" by simp_all
      from corner_cases [OF this] show ?thesis
        by (elim disjE; simp add: framebuffer_write_def corner_def with_colons_def)
    next
      case False
      then show ?thesis by (auto simp: framebuffer_write_def corner_def)
    qed
  qed
  then show ?thesis by (simp add: clock_cells_def draw_syscall)
qed

section \<open>One round\<close>

text \<open>What a program stores through its directory it reads back.\<close>

lemma stored_is_loaded:
  assumes "user_directory L s = Inr d" and "frames_distinct d" and "mapped d a (length bs)" and "length bs < 4294967296"
  shows "\<exists>s'. user_store L a bs s = Inr s' \<and> user_load L a (length bs) s' = Inr bs \<and> kept d s s' \<and> fs s' = fs s"
proof -
  let ?vm = "mem_write (view d (pm s)) a bs"
  let ?s = "s\<lparr>pm := commit d (pm s) ?vm\<rparr>"
  have st: "user_store L a bs s = Inr ?s" using assms(1,3) by (simp add: user_store_def)
  have "view d (pm ?s) (a + of_nat i) = bs ! i" if i: "i < length bs" for i
  proof -
    obtain pa where pa: "translate d False (a + of_nat i) = Some pa" using mapped_address [OF assms(3) i] by metis
    then have "pm ?s pa = ?vm (a + of_nat i)" using commit_mapped [OF assms(2) pa] by simp
    then show ?thesis using pa mem_write_at [OF i] i assms(4) by (simp add: view_def)
  qed
  then have "mem_read (view d (pm ?s)) a (length bs) = bs" by (intro nth_equalityI) (auto simp: nth_mem_read)
  moreover have "user_directory L ?s = Inr d" using assms(1) by (simp add: user_directory_def)
  ultimately have "user_load L a (length bs) ?s = Inr bs" using assms(3) by (simp add: user_load_def)
  then show ?thesis using st user_store_kept [OF st assms(1)] by blast
qed

text \<open>And the rest of its memory it finds as it was.\<close>

lemma stored_elsewhere:
  assumes "user_store L a bs s = Inr s'" and "user_directory L s = Inr d" and "frames_distinct d"
    and "\<not> unat (x - a) < length bs"
  shows "view d (pm s') x = view d (pm s) x"
proof (cases "translate d False x")
  case (Some pa)
  have "pm s' = commit d (pm s) (mem_write (view d (pm s)) a bs)"
    using assms(1,2) by (auto simp: user_store_def split: if_splits)
  then have "pm s' pa = mem_write (view d (pm s)) a bs x" using commit_mapped [OF assms(3) Some] by simp
  then show ?thesis using Some assms(4) by (simp add: view_def mem_write_def)
qed (simp add: view_def)

lemma length_digits [simp]: "length (digits n) = 2"
  by (simp add: digits_def)

definition clock_text :: "nat \<Rightarrow> nat \<Rightarrow> nat \<Rightarrow> u8 list" where
  "clock_text h m s = digits h @ [58] @ digits m @ [58] @ digits s"

lemma with_colons_digits: "with_colons (digits h @ digits m @ digits s) = clock_text h m s"
  by (simp add: with_colons_def clock_text_def digits_def)

lemma clock_round_draws:
  assumes "user_directory (mlayout M) (ksys k) = Inr d" and "frames_distinct d" and "mapped d a 6"
    and "read_cmos (mbus M) (dev (con k)) = Some (t, txt, dv)" and "length txt = 6"
  shows "\<exists>s'. clock_round M a k =
      Some (Inr (k\<lparr>ksys := s', con := (con k)\<lparr>text_memory := corner (with_colons txt) (text_memory (con k)), dev := dv\<rparr>\<rparr>)) \<and>
    kept d (ksys k) s' \<and> fs s' = fs (ksys k) \<and> user_load (mlayout M) a 6 s' = Inr txt \<and>
    (\<forall>x. \<not> unat (x - a) < 6 \<longrightarrow> view d (pm s') x = view d (pm (ksys k)) x)"
proof -
  obtain s' where s': "user_store (mlayout M) a txt (ksys k) = Inr s'" "user_load (mlayout M) a 6 s' = Inr txt"
    "kept d (ksys k) s'" "fs s' = fs (ksys k)"
    using stored_is_loaded [OF assms(1,2), of a "txt"] assms(3,5) by auto
  have "syscall M (registers 12 a 0 0) k = Some (Inr (k\<lparr>con := (con k)\<lparr>dev := dv\<rparr>, ksys := s'\<rparr>))"
    using assms(4) s'(1) by (simp add: syscall_def Let_def with_sys_def)
  then have "clock_round M a k =
      Some (Inr (k\<lparr>ksys := s', con := (con k)\<lparr>text_memory := corner (with_colons txt) (text_memory (con k)), dev := dv\<rparr>\<rparr>))"
    using s'(2) by (simp add: clock_round_def draw_clock_cells)
  moreover have "view d (pm s') x = view d (pm (ksys k)) x" if "\<not> unat (x - a) < 6" for x
    using stored_elsewhere [OF s'(1) assms(1,2)] that assms(5) by simp
  ultimately show ?thesis using s'(2-4) by blast
qed

text \<open>
  C31. One round of the clock program, run on the kernel through its own address space, with a
  clock chip in BCD and 24-hour mode. The last eight cells of the display show the hour seven
  hours ahead of the chip and the minute, right, and in the place of the seconds what the kernel
  makes of them by converting them from BCD twice: \<open>s mod 16 + 10 * (s div 16)\<close>, which is the
  second \<open>s\<close> only below 16 (59 is shown as 41). They are white on black, with colons between
  them. Those six digits are in the program's \<open>time_array\<close>; every other byte of the program's
  memory, and every byte of memory its directory does not map, the rest of the display, the
  file system, the processes and the keyboard are unchanged.
\<close>

theorem clock_program_shows:
  assumes "rtc_ok (mbus M) sel regs busy" and "h < 24" "m < 60" "s < 60"
    and "regs (dev (con k)) 0x04 = bcd h" "regs (dev (con k)) 0x02 = bcd m" "regs (dev (con k)) 0x00 = bcd s"
    and "regs (dev (con k)) 0x0B AND 0x04 = 0"
    and "user_directory (mlayout M) (ksys k) = Inr d" and "frames_distinct d" and "mapped d time_array 6"
  shows "\<exists>k'. clock_round M time_array k = Some (Inr k') \<and>
    (\<forall>n<8. text_memory (con k') (cell 24 (72 + n)) = clock_text ((h + 7) mod 24) m (s mod 16 + 10 * (s div 16)) ! n \<and>
           text_memory (con k') (cell 24 (72 + n) + 1) = 0x0F) \<and>
    (\<forall>a. a < cell 24 72 \<or> cell 25 0 \<le> a \<longrightarrow> text_memory (con k') a = text_memory (con k) a) \<and>
    kbd k' = kbd k \<and> fs (ksys k') = fs (ksys k) \<and> kept d (ksys k) (ksys k') \<and>
    user_load (mlayout M) time_array 6 (ksys k') = Inr (digits ((h + 7) mod 24) @ digits m @ digits (s mod 16 + 10 * (s div 16))) \<and>
    (\<forall>x. \<not> unat (x - time_array) < 6 \<longrightarrow> view d (pm (ksys k')) x = view d (pm (ksys k)) x)"
proof -
  let ?s2 = "s mod 16 + 10 * (s div 16)"
  obtain t dv where r: "read_cmos (mbus M) (dev (con k)) = Some (t, digits ((h + 7) mod 24) @ digits m @ digits ?s2, dv)"
    using read_cmos_time [OF assms(1-8)] by blast
  obtain s' where k': "clock_round M time_array k = Some (Inr (k\<lparr>ksys := s', con := (con k)\<lparr>text_memory :=
      corner (clock_text ((h + 7) mod 24) m ?s2) (text_memory (con k)), dev := dv\<rparr>\<rparr>))" (is "_ = Some (Inr ?k)")
    "kept d (ksys k) s'" "fs s' = fs (ksys k)"
    "user_load (mlayout M) time_array 6 s' = Inr (digits ((h + 7) mod 24) @ digits m @ digits ?s2)"
    "\<forall>x. \<not> unat (x - time_array) < 6 \<longrightarrow> view d (pm s') x = view d (pm (ksys k)) x"
    using clock_round_draws [OF assms(9-11) r] unfolding with_colons_digits by auto
  have "text_memory (con ?k) (cell 24 (72 + n)) = clock_text ((h + 7) mod 24) m ?s2 ! n \<and>
      text_memory (con ?k) (cell 24 (72 + n) + 1) = 0x0F" if "n < 8" for n
    using that by (simp add: corner_def cell_def)
  moreover have "text_memory (con ?k) a = text_memory (con k) a" if "a < cell 24 72 \<or> cell 25 0 \<le> a" for a
    using that by (auto simp: corner_def cell_def)
  ultimately show ?thesis using k' by (intro exI [of _ ?k]) simp
qed

section \<open>A program in its space\<close>

definition demo_clock_machine :: "(u8 \<times> nat) machine" where
  "demo_clock_machine = \<lparr>mlayout = demo_layout, mbus = demo_rtc, mjunk = zero_entry, mjunk_table = []\<rparr>"

definition demo_clock_kernel :: "(u8 \<times> nat) kernel" where
  "demo_clock_kernel = \<lparr>ksys = (boot_sys demo_layout (\<lambda>_. 0) (\<lambda>_. 0))\<lparr>pg := program_paging\<rparr>, kbd = keyboard_start,
     con = \<lparr>text_memory = (\<lambda>_. 7), cur_row = 0, cur_col = 0, dev = (0, 3)\<rparr>\<rparr>"

theorem clock_program_shows_witness:
  "\<exists>k'. clock_round demo_clock_machine 0x1000 demo_clock_kernel = Some (Inr k') \<and>
     text_memory (con k') (cell 24 72) = 48 \<and> text_memory (con k') (cell 24 73) = 53 \<and> text_memory (con k') (cell 24 74) = 58 \<and>
     text_memory (con k') 0 = 7"
proof -
  have d: "user_directory (mlayout demo_clock_machine) (ksys demo_clock_kernel) = Inr program_directory"
    by (simp add: demo_clock_machine_def demo_clock_kernel_def program_user_directory)
  have m: "mapped program_directory 0x1000 6" by (rule program_maps) simp_all
  have rtc: "rtc_ok (mbus demo_clock_machine) fst demo_rtc_regs snd" by (simp add: demo_clock_machine_def demo_rtc_ok)
  obtain k' where k': "clock_round demo_clock_machine 0x1000 demo_clock_kernel = Some (Inr k')"
    "\<forall>n<8. text_memory (con k') (cell 24 (72 + n)) = clock_text ((22 + 7) mod 24) 5 (59 mod 16 + 10 * (59 div 16)) ! n \<and>
           text_memory (con k') (cell 24 (72 + n) + 1) = 0x0F"
    "\<forall>a. a < cell 24 72 \<or> cell 25 0 \<le> a \<longrightarrow> text_memory (con k') a = text_memory (con demo_clock_kernel) a"
    using clock_program_shows [OF rtc _ _ _ _ _ _ _ d program_directory_distinct m, of 22 5 59] by (auto simp: demo_rtc_regs_def demo_clock_kernel_def)
  have "text_memory (con k') (cell 24 (72 + n)) = clock_text 5 5 41 ! n" if "n < 8" for n using k'(2) that by simp
  from this [of 0] this [of 1] this [of 2] show ?thesis
    using k'(1) spec [OF k'(3), of 0] by (simp add: clock_text_def digits_def demo_clock_kernel_def cell_def)
qed

end
