(* ===== verification/KernelSteps.thy ===== *)
theory KernelSteps
  imports Boot
begin

text \<open>
  The kernel as a state machine: a step is an interrupt handled to its end, a user program
  that runs for a while, or the devices moving on. \<open>kernel_ok\<close> is the invariant of all the
  kernel's components together; from it follow the isolation of the address spaces in every
  state that can be reached from booting, and that no step of one process changes the memory
  of another.
\<close>

section \<open>Frames that two spaces cannot share\<close>

text \<open>The bytes user code reaches through directory \<open>i\<close>.\<close>

definition open_to :: "paging \<Rightarrow> nat \<Rightarrow> u32 \<Rightarrow> bool" where
  "open_to p i pa \<longleftrightarrow> (\<exists>va. translate (all_dirs p ! i) True va = Some pa)"

text \<open>The pages that are not the user's are the kernel's frame 0.\<close>

definition kernel_pages :: "paging \<Rightarrow> bool" where
  "kernel_pages p \<longleftrightarrow> (\<forall>i<33. \<forall>k<1024. present_bit (flag (all_dirs p ! i ! k)) \<longrightarrow>
     user_bit (flag (all_dirs p ! i ! k)) \<or> lower_address (all_dirs p ! i ! k) = 0)"

lemma kernel_pagesD:
  "kernel_pages p \<Longrightarrow> i < 33 \<Longrightarrow> k < 1024 \<Longrightarrow> present_bit (flag (all_dirs p ! i ! k)) \<Longrightarrow>
   \<not> user_bit (flag (all_dirs p ! i ! k)) \<Longrightarrow> lower_address (all_dirs p ! i ! k) = 0"
  unfolding kernel_pages_def by blast

lemma drop_ucast10: "(ucast (w :: 10 word) :: u32) = drop_bit 22 pa \<Longrightarrow> unat w = unat (drop_bit 22 pa)"
  using unat_ucast10 [of w] by simp

lemma open_backed:
  assumes "open_to p i pa" and "i < 33"
  shows "\<exists>k. backed p i k (unat (drop_bit 22 pa))"
proof -
  obtain va where va: "translate (all_dirs p ! i) True va = Some pa" using assms(1) by (auto simp: open_to_def)
  let ?e = "all_dirs p ! i ! page_index va"
  have e: "user_page ?e" "pa = push_bit 22 (ucast (lower_address ?e)) OR (va AND 0x3FFFFF)"
    using va by (auto simp: translate_def Let_def user_page_def split: if_splits)
  have "ucast (lower_address ?e) = drop_bit 22 pa" using e(2) frame_of_pa by simp
  from drop_ucast10 [OF this] have "backed p i (page_index va) (unat (drop_bit 22 pa))" using assms(2) e(1) by (simp add: backed_def)
  then show ?thesis by blast
qed

lemma open_alone:
  assumes "paging_ok p" and "open_to p i pa" and "open_to p j pa" and "i < 33" and "j < 33"
  shows "i = j"
  using open_backed [OF assms(2,4)] open_backed [OF assms(3,5)] paging_ok_D(8) [OF assms(1)] by blast

lemma open_not_kernel:
  assumes "paging_ok p" and "open_to p i pa" and "i < 33"
  shows "0x400000 \<le> pa"
proof -
  obtain k where "backed p i k (unat (drop_bit 22 pa))" using open_backed [OF assms(2,3)] by blast
  then have "unat (drop_bit 22 pa) \<noteq> 0" using paging_ok_D(7) [OF assms(1)] by blast
  then have "drop_bit 22 (unat pa) \<noteq> 0" by (simp only: unat_drop_bit_eq not_False_eq_True)
  then have "4194304 \<le> unat pa" unfolding drop_bit_eq_div by (cases "unat pa < 4194304") auto
  then show ?thesis unfolding word_le_nat_alt by simp
qed

text \<open>Through its own directory the kernel does not store into the pages of another.\<close>

lemma open_unreached:
  assumes "paging_ok p" and "kernel_pages p" and "open_to p j pa" and "i < 33" and "j < 33" and "i \<noteq> j"
  shows "\<not> reaches (all_dirs p ! i) pa"
proof
  assume "reaches (all_dirs p ! i) pa"
  then obtain k where k: "k < 1024" "present_bit (flag (all_dirs p ! i ! k))" "ucast (lower_address (all_dirs p ! i ! k)) = drop_bit 22 pa"
    by (auto simp: reaches_def page_constants)
  obtain l where l: "backed p j l (unat (drop_bit 22 pa))" using open_backed [OF assms(3,5)] by blast
  have u: "unat (lower_address (all_dirs p ! i ! k)) = unat (drop_bit 22 pa)" using drop_ucast10 [OF k(3)] .
  show False
  proof (cases "user_bit (flag (all_dirs p ! i ! k))")
    case True
    then have "backed p i k (unat (drop_bit 22 pa))" using k u assms(4) by (simp add: backed_def user_page_def)
    then show False using paging_ok_D(8) [OF assms(1) _ l] assms(6) by blast
  next
    case False
    then have "unat (drop_bit 22 pa) = 0" using kernel_pagesD [OF assms(2,4) k(1,2)] u by simp
    then show False using paging_ok_D(7) [OF assms(1) l] by blast
  qed
qed

section \<open>What the kernel does to its directories\<close>

lemma kernel_pages_use [simp]: "kernel_pages (paging_use_page_directory a p) = kernel_pages p"
  by (simp add: kernel_pages_def)

lemma kernel_pages_allocated:
  assumes "paging_ok p" and "kernel_pages p" and "i < 33" and "f < 32"
  shows "kernel_pages (allocated i va f p)"
proof -
  note D = paging_ok_D [OF assms(1)]
  have "lower_address (all_dirs (allocated i va f p) ! j ! k) = 0"
    if "j < 33" "k < 1024" "present_bit (flag (all_dirs (allocated i va f p) ! j ! k))"
      "\<not> user_bit (flag (all_dirs (allocated i va f p) ! j ! k))" for j k
    using that kernel_pagesD [OF assms(2) that(1,2)] D(2) D(4) [OF that(1)] assms(3,4)
    by (cases "j = i"; cases "k = page_index va") (auto simp: all_dirs_allocated user_flags_def)
  then show ?thesis unfolding kernel_pages_def by blast
qed

lemma kernel_pages_replaced:
  assumes "length (page_directory_list p) = 32" and "kernel_pages p" and "i < 32"
    and "all_dirs q = (all_dirs p)[i := d]" and "\<And>k. k < 1024 \<Longrightarrow> d ! k = zero_pde \<or> d ! k = kernel_pde"
  shows "kernel_pages q"
proof -
  have z: "\<not> present_bit (flag zero_pde)" "lower_address kernel_pde = 0" by (simp_all add: zero_pde_def no_flags_def kernel_pde_def)
  have "lower_address (all_dirs q ! j ! k) = 0"
    if "j < 33" "k < 1024" "present_bit (flag (all_dirs q ! j ! k))" "\<not> user_bit (flag (all_dirs q ! j ! k))" for j k
    using that kernel_pagesD [OF assms(2) that(1,2)] assms(1,3,4) assms(5) [OF that(2)] z
    by (cases "j = i") auto
  then show ?thesis unfolding kernel_pages_def by blast
qed

lemma kernel_pages_created:
  assumes "paging_ok p" and "kernel_pages p" and "i < 32"
  shows "kernel_pages (created i p)"
proof (rule kernel_pages_replaced [OF paging_ok_D(2) [OF assms(1)] assms(2,3) all_dirs_created])
  show "blank_directory[0x300 := kernel_pde] ! k = zero_pde \<or> blank_directory[0x300 := kernel_pde] ! k = kernel_pde" if "k < 1024" for k
    using that by (cases "k = 0x300") (simp_all add: blank_nth, simp add: blank_directory_def page_constants)
qed (use assms paging_ok_D(2) [OF assms(1)] in simp_all)

lemma kernel_pages_released:
  assumes "paging_ok p" and "kernel_pages p" and "i < 32"
  shows "kernel_pages (released i p)"
  by (rule kernel_pages_replaced [OF paging_ok_D(2) [OF assms(1)] assms(2,3), of _ blank_directory])
     (use assms paging_ok_D(2) [OF assms(1)] in \<open>simp_all add: released_def all_dirs_def list_update_append blank_nth\<close>)

section \<open>Creating a process, whatever the state\<close>

lemma allocate_null: "paging_allocate_user_page_frame L 0 va p \<noteq> Inr r"
  by (auto simp: paging_allocate_user_page_frame_def update_page_directory_entry_def pd_get_def split: option.split)

text \<open>One frame for a used directory.\<close>

lemma allocate_Inr:
  assumes "paging_ok p" and "kernel_pages p" and "layout_ok L" and "i < 32" and "page_directory_used p ! i"
    and "paging_allocate_user_page_frame L (pd_addr L i) va p = Inr (b, q)"
  shows "paging_ok q" "kernel_pages q" "page_directory_used q = page_directory_used p" "cr3 q = cr3 p"
    "\<And>j. j < 33 \<Longrightarrow> j \<noteq> i \<Longrightarrow> all_dirs q ! j = all_dirs p ! j"
proof -
  have d: "pd_addr L i = dir_addr L i" using assms(4) by (simp add: dir_addr_def)
  obtain f where f: "first_clear (page_frame_map p) PAGE_FRAME_MAX_COUNT = Some f"
    using assms(6) by (cases "first_clear (page_frame_map p) PAGE_FRAME_MAX_COUNT") (auto simp: allocate_no_frame)
  then have f32: "f < 32" by (simp add: first_clear_Some page_constants)
  have q: "q = allocated i va f p" using allocate_effect [OF assms(1,3) _ f, of i va] assms(4,6) unfolding d by simp
  show "paging_ok q" unfolding q by (rule paging_ok_allocated [OF assms(1) _ _ f]) (use assms(4,5) in simp_all)
  show "kernel_pages q" unfolding q by (rule kernel_pages_allocated [OF assms(1,2)]) (use assms(4) f32 in simp_all)
  show "page_directory_used q = page_directory_used p" "cr3 q = cr3 p" unfolding q by simp_all
  show "all_dirs q ! j = all_dirs p ! j" if "j < 33" "j \<noteq> i" for j
    unfolding q using that assms(4) f32 paging_ok_D(2) [OF assms(1)] by (simp add: all_dirs_allocated)
qed

definition adds_space :: "nat \<Rightarrow> paging \<Rightarrow> paging \<Rightarrow> bool" where
  "adds_space i p q \<longleftrightarrow> i < 32 \<and> \<not> page_directory_used p ! i \<and> paging_ok q \<and> kernel_pages q \<and>
     page_directory_used q = (page_directory_used p)[i := True] \<and> (\<forall>j<33. j \<noteq> i \<longrightarrow> all_dirs q ! j = all_dirs p ! j)"

lemma two_frames:
  assumes "paging_ok p" and "kernel_pages p" and "layout_ok L"
    and "paging_create_new_page_directory L p = (a, p1)"
    and "bindE (paging_allocate_user_page_frame L a va (paging_use_page_directory a p1)) (\<lambda>(_, p3).
           paging_allocate_user_page_frame L a va' p3) = Inr (b, p4)"
  shows "\<exists>i. adds_space i p p4 \<and> pd_get L p4 (paging_get_current_page_directory_addr p4) = Inr (all_dirs p4 ! i)"
proof -
  obtain i where i: "first_clear (page_directory_used p) PAGING_DIRECTORY_TABLE_MAX_COUNT = Some i"
    using assms(4,5) allocate_null
    by (cases "first_clear (page_directory_used p) PAGING_DIRECTORY_TABLE_MAX_COUNT") (auto simp: create_None bindE_eq_Inr)
  then have i32: "i < 32" "\<not> page_directory_used p ! i" by (auto simp: first_clear_Some page_constants)
  note D = paging_ok_D [OF assms(1)]
  have p1: "a = pd_addr L i" "p1 = created i p" using create_effect [OF assms(1) i, of L] assms(4) by simp_all
  let ?p2 = "paging_use_page_directory a p1"
  have p2: "paging_ok ?p2" "kernel_pages ?p2" "page_directory_used ?p2 = (page_directory_used p)[i := True]"
    using paging_ok_created [OF assms(1) i32(1)] kernel_pages_created [OF assms(1,2) i32(1)] by (simp_all add: p1 paging_ok_use)
  have u2: "page_directory_used ?p2 ! i" using p2(3) D(3) i32(1) by simp
  have d2: "all_dirs ?p2 ! j = all_dirs p ! j" if "j < 33" "j \<noteq> i" for j
    using that D(2) i32(1) by (simp add: p1 all_dirs_created)
  obtain b3 p3 where p3: "paging_allocate_user_page_frame L (pd_addr L i) va ?p2 = Inr (b3, p3)"
      "paging_allocate_user_page_frame L (pd_addr L i) va' p3 = Inr (b, p4)"
    using assms(5) unfolding p1(1) by (auto simp: bindE_eq_Inr)
  note A3 = allocate_Inr [OF p2(1,2) assms(3) i32(1) u2 p3(1)]
  have u3: "page_directory_used p3 ! i" using A3(3) u2 by simp
  note A4 = allocate_Inr [OF A3(1,2) assms(3) i32(1) u3 p3(2)]
  have "paging_get_current_page_directory_addr p4 = dir_addr L i"
    using A4(4) A3(4) pd_addr_above [OF assms(3) i32(1)] i32(1)
    by (simp add: paging_get_current_page_directory_addr_def paging_use_page_directory_def p1(1) dir_addr_def)
  then have "pd_get L p4 (paging_get_current_page_directory_addr p4) = Inr (all_dirs p4 ! i)"
    using pd_get_dir [OF assms(3), of i p4] i32(1) paging_ok_D(2) [OF A4(1)] by simp
  moreover have "adds_space i p p4"
    unfolding adds_space_def using i32 A4(1-3,5) A3(3,5) p2(3) d2 by simp
  ultimately show ?thesis by blast
qed

lemma create_outcome:
  assumes "process_create_user_process L rq s = Some (Inr (c, s'))"
    and "paging_ok (pg s)" and "kernel_pages (pg s)" and "layout_ok L"
  shows "s' = s \<or> (\<exists>i q vm n b. adds_space i (pg s) q \<and> n < 16 \<and> pstate b = PROCESS_STATE_READY \<and>
    s' = s\<lparr>pg := q, pm := commit (all_dirs q ! i) (pm s) vm, process_list := (process_list s)[n := b],
           active_process_count := active_process_count s + 1\<rparr>)"
proof (cases "s' = s")
  case False
  obtain a p1 where p1: "paging_create_new_page_directory L (pg s) = (a, p1)" by fastforce
  let ?al = "bindE (paging_allocate_user_page_frame L a (rq_buf rq) (paging_use_page_directory a p1)) (\<lambda>(_, p3).
      paging_allocate_user_page_frame L a 0xBFFFFFFC p3)"
  let ?n = "unat (active_process_count s)"
  have act: "?n < 16" using assms(1) False
    by (auto simp: process_create_user_process_def PROCESS_COUNT_MAX_def word_le_nat_alt split: if_splits)
  obtain b p4 m where r: "?al = Inr (b, p4)" "read_through L rq (fs s) p4 (pm s) = Some (Inr (m))"
    "s' = s\<lparr>pg := paging_use_page_directory (paging_get_current_page_directory_addr p1) p4, pm := snd m,
       process_list := (process_list s)[?n := new_pcb rq a (of_nat ?n) (process_list s ! ?n)],
       active_process_count := active_process_count s + 1\<rparr>"
    using assms(1) False p1
    by (auto simp: process_create_user_process_def Let_def split: if_splits sum.splits prod.splits option.splits)
  obtain i where i: "adds_space i (pg s) p4" "pd_get L p4 (paging_get_current_page_directory_addr p4) = Inr (all_dirs p4 ! i)"
    using two_frames [OF assms(2-4) p1 r(1)] by blast
  obtain vm where vm: "snd m = commit (all_dirs p4 ! i) (pm s) vm"
    using r(2) i(2) by (auto simp: read_through_def split: option.splits sum.splits prod.splits if_splits)
  have "adds_space i (pg s) (paging_use_page_directory (paging_get_current_page_directory_addr p1) p4)"
    using i(1) by (simp add: adds_space_def paging_ok_use)
  moreover have "pstate (new_pcb rq a (of_nat ?n) (process_list s ! ?n)) = PROCESS_STATE_READY"
    by (simp add: new_pcb_def Let_def)
  ultimately show ?thesis using act r(3) vm by (intro disjI2) (metis all_dirs_use)
qed simp

section \<open>The file system's tables keep their size\<close>

definition tables_sized :: "fat32 \<Rightarrow> bool" where
  "tables_sized f \<longleftrightarrow> length (cluster_map f) = 512 \<and> length (dir_table_buf f) = 64"

lemma write_folder_sized:
  assumes "write_folder junk tbl rq f = Inr (r, f')" and "tables_sized f"
  shows "tables_sized f'"
proof -
  let ?Q = "\<lambda>(g, b :: bool). tables_sized g"
  obtain c where c: "forE (write_folder_step junk (init_directory_table tbl (rq_name rq) (rq_parent_cluster_number rq)) rq)
      [unat ROOT_CLUSTER_NUMBER..<CLUSTER_SIZE] (f, False) = Inr c"
    and r: "(case c of Next (g, b) \<Rightarrow> Inr (if b then 0 else -1, g) | Brk (g, b) \<Rightarrow> Inr (if b then 0 else -1, g) | Ret _ \<Rightarrow> Inr (-1, f)) = (Inr (r, f') :: (int \<times> fat32) res)"
    using assms(1) by (auto simp: write_folder_def Let_def bindE_eq_Inr)
  have "case c of Next s' \<Rightarrow> ?Q s' | Brk s' \<Rightarrow> ?Q s' | Ret r \<Rightarrow> True"
    by (rule forE_invariant [OF c, where P = ?Q and Q = ?Q and R = "\<lambda>_. True"])
       (use assms(2) in \<open>auto simp: write_folder_step_def Let_def bindE_eq_Inr tables_sized_def split: if_splits option.splits\<close>)
  then show ?thesis using r assms(2) by (auto split: ctl.splits)
qed

lemma write_file_step_sized:
  assumes "write_file_step rq n i w = Inr c" and "tables_sized (we_fs w)"
  shows "case c of Next w' \<Rightarrow> tables_sized (we_fs w') | Brk w' \<Rightarrow> tables_sized (we_fs w') | Ret (_, f, _) \<Rightarrow> tables_sized f"
proof -
  have e: "tables_sized (we_fs w')" if "write_file_entry rq i w = Inr w'" for w'
    using that assms(2) by (auto simp: write_file_entry_def Let_def bindE_eq_Inr tables_sized_def split: option.splits)
  have cl: "case c of Next w' \<Rightarrow> tables_sized (we_fs w') | Brk w' \<Rightarrow> tables_sized (we_fs w') | Ret (_, f, _) \<Rightarrow> tables_sized f"
    if "write_file_cluster rq n i w1 = Inr c" "tables_sized (we_fs w1)" for w1
    using that by (auto simp: write_file_cluster_def Let_def bindE_eq_Inr tables_sized_def arr_set_def split: if_splits)
  show ?thesis
    using assms e cl by (auto simp: write_file_step_def bindE_eq_Inr split: if_splits)
qed

lemma write_file_while_sized:
  assumes "write_file_while rq n w = Some x"
  shows "tables_sized (we_fs w) \<longrightarrow> (\<forall>r f m. x = Inr (r, f, m) \<longrightarrow> tables_sized f)"
  using assms
proof (rule write_file_while.raw_induct [rotated])
  fix rec rq n w x
  assume IH: "\<And>rq n w x. rec rq n w = Some x \<Longrightarrow> tables_sized (we_fs w) \<longrightarrow> (\<forall>r f m. x = Inr (r, f, m) \<longrightarrow> tables_sized f)"
    and body: "(if we_written w < n then
        (case forE (write_file_step rq n) [unat ROOT_CLUSTER_NUMBER..<CLUSTER_SIZE] w of
           Inl e \<Rightarrow> Some (Inl e)
         | Inr (Ret r) \<Rightarrow> Some (Inr r)
         | Inr (Next w') \<Rightarrow> rec rq n w'
         | Inr (Brk w') \<Rightarrow> rec rq n w')
      else Some (Inr (0, we_fs w, we_mem w))) = Some x"
  show "tables_sized (we_fs w) \<longrightarrow> (\<forall>r f m. x = Inr (r, f, m) \<longrightarrow> tables_sized f)"
  proof (intro impI, cases "forE (write_file_step rq n) [unat ROOT_CLUSTER_NUMBER..<CLUSTER_SIZE] w")
    case (Inl e)
    assume "tables_sized (we_fs w)"
    then show "\<forall>r f m. x = Inr (r, f, m) \<longrightarrow> tables_sized f" using body Inl by (auto split: if_splits)
  next
    case (Inr c)
    assume w: "tables_sized (we_fs w)"
    have "case c of Next w' \<Rightarrow> tables_sized (we_fs w') | Brk w' \<Rightarrow> tables_sized (we_fs w') | Ret (_, f, _) \<Rightarrow> tables_sized f"
      by (rule forE_invariant [OF Inr, where P = "\<lambda>w. tables_sized (we_fs w)"]) (use w write_file_step_sized in blast)+
    then show "\<forall>r f m. x = Inr (r, f, m) \<longrightarrow> tables_sized f" using body Inr w IH by (auto split: if_splits ctl.splits)
  qed
qed

lemma fs_write_sized:
  assumes "fs_write junk tbl rq f m = Some (Inr (r, f', m'))" and "tables_sized f"
  shows "tables_sized f'"
proof (cases "r = 2 \<and> f' = f")
  case False
  then obtain bs where bs: "if rq_buffer_size rq = 0
      then bindE (write_folder junk tbl rq (f\<lparr>dir_table_buf := table_of bs\<rparr>)) (\<lambda>(r, s2). Inr (r, s2, m)) = Inr (r, f', m')
      else write_file_while rq (clusters_needed (rq_buffer_size rq))
        \<lparr>we_fs = f\<lparr>dir_table_buf := table_of bs\<rparr>, we_mem = m, we_written = 0, we_clust_before = 0, we_slot_available = False\<rparr> =
        Some (Inr (r, f', m'))"
    using assms(1) by (auto simp: fs_write_def Let_def split: if_splits sum.splits)
  have "tables_sized (f\<lparr>dir_table_buf := table_of bs\<rparr>)" using assms(2) by (simp add: tables_sized_def table_of_def geometry)
  then show ?thesis
    using bs write_folder_sized write_file_while_sized [of rq "clusters_needed (rq_buffer_size rq)"]
    by (cases "rq_buffer_size rq = 0") (fastforce simp: bindE_eq_Inr)+
qed (use assms in simp)

lemma delete_loop_sized:
  assumes "delete_loop c fat im = Some x"
  shows "\<forall>fat' im'. x = Inr (fat', im') \<longrightarrow> length fat' = length fat"
  using assms by (rule delete_loop.raw_induct [rotated]) (fastforce split: sum.splits if_splits)

lemma fs_delete_sized:
  assumes "fs_delete rq f = Some (Inr (r, f'))" and "tables_sized f"
  shows "tables_sized f'"
  using assms
  by (auto simp: fs_delete_def Let_def bindE_eq_Inr tables_sized_def dest!: delete_loop_sized
      split: if_splits sum.splits option.splits prod.splits)

section \<open>The invariant of the whole kernel\<close>

text \<open>
  The tables have their sizes, the directories satisfy the paging invariant and map only the
  kernel's frame besides the user's, no flag of the list of pids is set, and at most one
  process is running.
\<close>

definition one_running :: "pcb list \<Rightarrow> bool" where
  "one_running ps \<longleftrightarrow> (\<forall>i<16. \<forall>j<16. pstate (ps ! i) = PROCESS_STATE_RUNNING \<and> pstate (ps ! j) = PROCESS_STATE_RUNNING \<longrightarrow> i = j)"

definition kernel_ok :: "sys \<Rightarrow> bool" where
  "kernel_ok s \<longleftrightarrow> paging_ok (pg s) \<and> kernel_pages (pg s) \<and> length (process_list s) = 16 \<and>
     list_of_process s = replicate 16 False \<and> one_running (process_list s) \<and> tables_sized (fs s)"

lemma kernel_okD:
  assumes "kernel_ok s"
  shows "paging_ok (pg s)" "kernel_pages (pg s)" "length (process_list s) = 16" "list_of_process s = replicate 16 False"
    "one_running (process_list s)" "tables_sized (fs s)"
  using assms by (simp_all add: kernel_ok_def)

lemma one_running_cases:
  assumes "one_running ps"
  obtains i where "running ps i" | "\<forall>j<16. pstate (ps ! j) \<noteq> PROCESS_STATE_RUNNING"
  using assms unfolding one_running_def running_def by blast

lemma running_one: "running ps i \<Longrightarrow> one_running ps"
  unfolding running_def one_running_def by blast

lemma one_running_update:
  assumes "one_running ps" and "length ps = 16" and "pstate q \<noteq> PROCESS_STATE_RUNNING"
  shows "one_running (ps[n := q])"
proof (cases "n < 16")
  case True
  then show ?thesis using assms unfolding one_running_def by (auto simp: nth_list_update)
qed (use assms in \<open>simp add: list_update_beyond\<close>)

lemma one_running_same:
  "one_running ps \<Longrightarrow> (\<And>i. i < 16 \<Longrightarrow> pstate (qs ! i) = pstate (ps ! i)) \<Longrightarrow> one_running qs"
  unfolding one_running_def by simp

text \<open>The scheduler.\<close>

lemma switch_ok:
  assumes "kernel_ok s" and "scheduler_switch_to_next_process s = Some (s', ctx)"
  shows "kernel_ok s'" "pm s' = pm s" "all_dirs (pg s') = all_dirs (pg s)" "\<exists>i. running (process_list s') i"
proof -
  note D = kernel_okD [OF assms(1)]
  have "\<exists>ps i a. running ps i \<and> length ps = 16 \<and> s' = s\<lparr>process_list := switched i ps, pg := paging_use_page_directory a (pg s)\<rparr>"
  proof (cases rule: one_running_cases [OF D(5)])
    case (1 i)
    then show ?thesis using switch_effect [OF running_pointer D(3)] assms(2) D(3) by auto
  next
    case 2
    then show ?thesis
      using switch_none_running [OF 2 D(3)] assms(2) D(3) by (intro exI conjI) (assumption, simp, simp)
  qed
  then obtain ps i a where s': "running ps i" "length ps = 16" "s' = s\<lparr>process_list := switched i ps, pg := paging_use_page_directory a (pg s)\<rparr>"
    by blast
  note r = switched_running [OF s'(1,2)]
  show "kernel_ok s'" using D running_one [OF r] s'(2,3) by (simp add: kernel_ok_def paging_ok_use)
  show "pm s' = pm s" "all_dirs (pg s') = all_dirs (pg s)" "\<exists>i. running (process_list s') i" using s'(3) r by auto
qed

lemma timer_ok:
  assumes "kernel_ok s" and "timer_interrupt frame s = Some (s', ctx)"
  shows "kernel_ok s'" "pm s' = pm s" "all_dirs (pg s') = all_dirs (pg s)" "\<exists>i. running (process_list s') i"
proof -
  let ?ctx = "\<lparr>cpu = if_cpu frame, eip = if_eip frame, eflags = if_eflags frame,
    page_directory_virtual_addr = paging_get_current_page_directory_addr (pg s)\<rparr>"
  let ?s = "s\<lparr>process_list := scheduler_save_context_to_current_running_pcb ?ctx (process_list s)\<rparr>"
  note D = kernel_okD [OF assms(1)]
  have len: "length (process_list ?s) = 16"
    using D(3) by (simp add: scheduler_save_context_to_current_running_pcb_def split: option.split)
  have "j < 16" if "process_get_current_running_pcb_pointer (process_list s) = Some j" for j
    using that by (simp add: process_get_current_running_pcb_pointer_def find_upt_Some PROCESS_COUNT_MAX_def)
  then have "one_running (process_list ?s)"
    using D(3) by (intro one_running_same [OF D(5)])
      (auto simp: scheduler_save_context_to_current_running_pcb_def nth_list_update split: option.split)
  then have ok: "kernel_ok ?s" using D len by (simp add: kernel_ok_def)
  have sw: "scheduler_switch_to_next_process ?s = Some (s', ctx)" using assms(2) by (simp add: timer_interrupt_def Let_def)
  show "kernel_ok s'" "pm s' = pm s" "all_dirs (pg s') = all_dirs (pg s)" "\<exists>i. running (process_list s') i"
    using switch_ok [OF ok sw] by simp_all
qed

text \<open>The system calls.\<close>

lemma destroy_ok:
  assumes "kernel_ok s" and "layout_ok L" and "process_destroy L p s = Inr (b, s')"
  shows "kernel_ok s'"
proof -
  note D = kernel_okD [OF assms(1)]
  have "s' = s \<or> (\<exists>a n. s' = s\<lparr>pg := snd (paging_free_page_directory L a (pg s)),
      list_of_process := (list_of_process s)[unat p := False], process_list := (process_list s)[n := zero_pcb], active_process_count := active_process_count s - 1\<rparr>)"
    using assms(3) by (auto simp: process_destroy_def Let_def split: if_splits option.splits)
  moreover have "paging_ok (snd (paging_free_page_directory L a (pg s))) \<and> kernel_pages (snd (paging_free_page_directory L a (pg s)))" for a
  proof (cases "pd_index L a")
    case None
    then show ?thesis using D by (simp add: paging_free_page_directory_def)
  next
    case (Some i)
    then have i: "i < 32" "a = pd_addr L i" using pd_index_lt by auto
    then show ?thesis
      using free_directory_effect [OF D(1) assms(2) i(1)] paging_ok_released [OF D(1) i(1)] kernel_pages_released [OF D(1,2) i(1)]
      by simp
  qed
  moreover have "(replicate 16 False)[unat p := False] = replicate 16 False" by (cases "unat p < 16") (simp_all add: list_update_same_conv list_update_beyond)
  ultimately show ?thesis
    using D assms(1) one_running_update [OF D(5,3), of zero_pcb] by (auto simp: kernel_ok_def zero_pcb_def)
qed

lemma create_ok:
  assumes "kernel_ok s" and "layout_ok L" and "process_create_user_process L rq s = Some (Inr (c, s'))"
  shows "kernel_ok s'"
proof -
  note D = kernel_okD [OF assms(1)]
  show ?thesis
    using create_outcome [OF assms(3) D(1,2) assms(2)] assms(1) D one_running_update [OF D(5,3)]
    by (auto simp: kernel_ok_def adds_space_def)
qed

text \<open>A call that is neither leaves the page tables and the processes alone.\<close>

definition calm :: "sys \<Rightarrow> sys \<Rightarrow> bool" where
  "calm s s' \<longleftrightarrow> pg s' = pg s \<and> process_list s' = process_list s \<and> list_of_process s' = list_of_process s \<and>
     (tables_sized (fs s) \<longrightarrow> tables_sized (fs s'))"

lemma calm_refl [simp]: "calm s s"
  by (simp add: calm_def)

lemma calm_ok: "kernel_ok s \<Longrightarrow> calm s s' \<Longrightarrow> kernel_ok s'"
  by (simp add: calm_def kernel_ok_def)

lemma user_store_calm: "user_store L a bs s = Inr s' \<Longrightarrow> calm s s'"
  by (auto simp: user_store_def bindE_eq_Inr calm_def split: if_splits)

lemma file_call_calm:
  assumes "file_call M r k f = Some (Inr k')" and "\<And>rq c s'. f rq (ksys k) = Some (Inr (c, s')) \<Longrightarrow> calm (ksys k) s'"
  shows "calm (ksys k) (ksys k')"
proof -
  obtain rq c s1 s2 where f: "f rq (ksys k) = Some (Inr (c, s1))"
    and st: "user_store (mlayout M) (ecx r) [of_int c] s1 = Inr s2" "k' = k\<lparr>ksys := s2\<rparr>"
    using assms(1) by (auto simp: file_call_def with_sys_eq bindO_eq return_code_def)
  show ?thesis using assms(2) [OF f] user_store_calm [OF st(1)] st(2) by (simp add: calm_def)
qed

lemma file_operations_calm:
  "read_call L rq s = Some (Inr (c, s')) \<Longrightarrow> calm s s'"
  "read_directory_through L rq s = Inr (c, s') \<Longrightarrow> calm s s'"
  "write_through L junk tbl rq s = Some (Inr (c, s')) \<Longrightarrow> calm s s'"
  "delete_call rq s = Some (Inr (c, s')) \<Longrightarrow> calm s s'"
  "write_cluster_call L p n s = Inr s' \<Longrightarrow> calm s s'"
  by (auto simp: read_call_def read_directory_through_def write_through_def delete_call_def write_cluster_call_def bindO_eq
      bindE_eq_Inr calm_def tables_sized_def Let_def dest: fs_write_sized fs_delete_sized split: if_splits)

lemma syscall_effect:
  assumes "syscall M r k = Some (Inr k')"
  shows "eax r = 9 \<and> (\<exists>b. process_destroy (mlayout M) (ebx r) (ksys k) = Inr (b, ksys k')) \<or>
    eax r = 15 \<and> (\<exists>rq c. process_create_user_process (mlayout M) rq (ksys k) = Some (Inr (c, ksys k'))) \<or>
    eax r \<noteq> 9 \<and> eax r \<noteq> 15 \<and> calm (ksys k) (ksys k')"
proof -
  consider "eax r \<in> {0, 1, 2, 3}" | "eax r = 9" | "eax r = 15" | "eax r \<in> {4, 12, 14}" | "eax r \<in> {5, 6, 7, 8, 10, 11, 13, 16}" | "16 < eax r"
    using call_number_cases [of "eax r"] by blast
  then show ?thesis
  proof cases
    case 1
    then have "calm (ksys k) (ksys k')"
      using assms file_operations_calm(1-4)
      by (elim insertE emptyE; intro file_call_calm) (auto simp: syscall_def Let_def)
    then show ?thesis using 1 by auto
  next
    case 2
    then show ?thesis using assms by (auto simp: syscall_def Let_def with_sys_eq bindE_eq_Inr)
  next
    case 3
    then obtain rq c where "process_create_user_process (mlayout M) rq (ksys k) = Some (Inr (c, ksys k'))"
      using assms by (auto simp: syscall_def Let_def with_sys_eq bindO_eq)
    then show ?thesis using 3 by blast
  next
    case 4
    then have "calm (ksys k) (ksys k')"
      using assms user_store_calm file_operations_calm(5)
      by (elim insertE emptyE) (auto simp: syscall_def Let_def with_sys_eq split: prod.splits option.splits)
    then show ?thesis using 4 by auto
  next
    case 5
    then have "ksys k' = ksys k"
      by (elim insertE emptyE) (use assms in \<open>auto simp: syscall_def Let_def bindE_eq_Inr split: if_splits\<close>)
    then show ?thesis using 5 by auto
  next
    case 6
    then show ?thesis using assms unknown_call [OF 6, of M k] small_numbers by auto
  qed
qed

section \<open>Steps\<close>

inductive kernel_step :: "'d machine \<Rightarrow> 'd kernel \<Rightarrow> 'd kernel \<Rightarrow> bool" for M where
  step_interrupt: "main_interrupt_handler M frame k = Some (Inr (k', ctx)) \<Longrightarrow> kernel_step M k k'"
| step_program: "user_directory (mlayout M) (ksys k) = Inr d \<Longrightarrow>
    (\<And>pa. \<forall>va. translate d True va \<noteq> Some pa \<Longrightarrow> m pa = pm (ksys k) pa) \<Longrightarrow>
    kernel_step M k (k\<lparr>ksys := (ksys k)\<lparr>pm := m\<rparr>\<rparr>)"
| step_device: "kernel_step M k (k\<lparr>con := (con k)\<lparr>dev := d\<rparr>\<rparr>)"

inductive_cases kernel_stepE: "kernel_step M k k'"

text \<open>What an interrupt does to the processes and memory.\<close>

lemma interrupt_cases:
  assumes "main_interrupt_handler M frame k = Some (Inr (k', ctx))"
  shows "ksys k' = ksys k \<or> syscall M (if_cpu frame) k = Some (Inr k') \<or> (\<exists>c. timer_interrupt frame (ksys k) = Some (ksys k', c))"
  using assms
  by (auto simp: main_interrupt_handler_def Let_def bindO_eq split: if_splits prod.splits option.splits)

lemma syscall_ok:
  assumes "kernel_ok (ksys k)" and "layout_ok (mlayout M)" and "syscall M r k = Some (Inr k')"
  shows "kernel_ok (ksys k')"
  using syscall_effect [OF assms(3)] destroy_ok [OF assms(1,2)] create_ok [OF assms(1,2)] calm_ok [OF assms(1)] by blast

lemma step_ok:
  assumes "kernel_step M k k'" and "kernel_ok (ksys k)" and "layout_ok (mlayout M)"
  shows "kernel_ok (ksys k')"
  using assms(1)
proof cases
  case (step_interrupt frame ctx)
  from interrupt_cases [OF this] show ?thesis
    using assms(2) syscall_ok [OF assms(2,3)] timer_ok(1) [OF assms(2)] by auto
qed (use assms(2) in \<open>simp_all add: kernel_ok_def\<close>)

interpretation steps: step_invariant "kernel_step M" "\<lambda>k. layout_ok (mlayout M) \<longrightarrow> kernel_ok (ksys k)" for M
  by unfold_locales (blast intro: step_ok)

section \<open>From booting on\<close>

lemma boot_kernel_pages: "kernel_pages (boot_paging L)"
proof -
  have e: "blank_directory[0x300 := kernel_pde] ! k = (if k = 0x300 then kernel_pde else zero_pde)" if "k < 1024" for k
    using that by (simp add: blank_directory_def page_constants nth_list_update)
  have "lower_address (all_dirs (boot_paging L) ! i ! k) = 0" if "i < 33" "k < 1024" for i k
    using that by (simp add: boot_dirs e blank_nth) (simp add: kernel_pde_def zero_pde_def)
  then show ?thesis unfolding kernel_pages_def by blast
qed

lemma length_init_table: "length (init_directory_table t n c) = length t"
proof -
  have "length (fold (\<lambda>i t. t[i := zero_entry]) is t) = length t" for "is" and t :: "dir_entry list"
    by (induction "is" arbitrary: t) simp_all
  then show ?thesis by (simp add: init_directory_table_def)
qed

lemma initialize_sized:
  assumes "initialize_filesystem_fat32 (power_on im) = Inr f"
  shows "tables_sized f"
proof -
  have len: "length (table_of bs) = 64" for bs by (simp add: table_of_def geometry)
  have "tables_sized f" if "create_fat32 (power_on im) = Inr f"
    using that by (auto simp: create_fat32_def Let_def bindE_eq_Inr tables_sized_def power_on_def length_init_table)
  then show ?thesis
    using assms len by (auto simp: initialize_filesystem_fat32_def bindE_eq_Inr tables_sized_def split: if_splits)
qed

lemma kernel_setup_ok:
  assumes "layout_ok (mlayout M)" and "kernel_setup M A (boot_state (mlayout M) im m c) = Some (Inr (b, ctx))"
  shows "kernel_ok (ksys (kern b))" "\<exists>i. running (process_list (ksys (kern b))) i"
proof -
  let ?L = "mlayout M"
  obtain f r s where f: "initialize_filesystem_fat32 (power_on im) = Inr f"
    and c: "process_create_user_process ?L shell_request ((boot_sys ?L im m)\<lparr>fs := f, pg := boot_allocated ?L\<rparr>) = Some (Inr (r, s))"
    and sw: "scheduler_switch_to_next_process s = Some (ksys (kern b), ctx)"
    using assms(2) boot_allocates(1) [OF assms(1)]
    by (auto simp: kernel_setup_def Let_def boot_state_def boot_sys_def bindO_eq split: option.splits prod.splits)
  have "kernel_pages (boot_allocated ?L)"
    by (rule kernel_pages_allocated [OF boot_paging_ok boot_kernel_pages]) simp_all
  then have "kernel_ok ((boot_sys ?L im m)\<lparr>fs := f, pg := boot_allocated ?L\<rparr>)"
    using boot_allocates(2) [OF assms(1)] initialize_sized [OF f]
    by (simp add: kernel_ok_def boot_sys_def one_running_def zero_pcb_def)
  from create_ok [OF this assms(1) c] have "kernel_ok s" .
  from switch_ok [OF this sw] show "kernel_ok (ksys (kern b))" "\<exists>i. running (process_list (ksys (kern b))) i" by simp_all
qed

text \<open>
  C7. The kernel keeps its shape. From a state in which its tables have their sizes, the page
  directories satisfy the paging invariant and map nothing else but the kernel's own frame,
  and at most one process is running, every step leads to such a state again: every interrupt
  and system call the handler comes back from, with any registers, and whatever a user program
  does to the memory it reaches and the devices do on their own. A system call that goes through
  a pointer into the kernel's page is not a step: it is the fault \<open>Kernel_Access\<close>. The code does
  not check for such pointers, and the program can then change the kernel's variables.
\<close>

theorem kernel_step_preserves:
  assumes "kernel_step M k k'" and "kernel_ok (ksys k)" and "layout_ok (mlayout M)"
  shows "kernel_ok (ksys k')"
  using assms by (rule step_ok)

text \<open>
  C3. Isolation of the address spaces. Whatever the disk holds, in every state that can be
  reached from booting by interrupts, system calls, user programs and devices, no byte of
  physical memory is open to user code through two page directories, none of the kernel's
  first 4 MiB is open through any, the counter of free frames is the number of frames without
  the used flag, and at most one process is running. This holds as long as no program passes a
  system call a pointer into the kernel's page: such a call is the fault \<open>Kernel_Access\<close> and
  leads to no further state. The code does not check for it, and a program that passes one can
  rewrite the page tables themselves.
\<close>

theorem spaces_isolated:
  assumes "layout_ok (mlayout M)" and "kernel_setup M A (boot_state (mlayout M) im m c) = Some (Inr (b, ctx))"
    and "(kernel_step M)\<^sup>*\<^sup>* (kern b) k"
  shows "(\<forall>i<33. \<forall>j<33. \<forall>pa. open_to (pg (ksys k)) i pa \<and> open_to (pg (ksys k)) j pa \<longrightarrow> i = j) \<and>
    (\<forall>i<33. \<forall>pa. open_to (pg (ksys k)) i pa \<longrightarrow> 0x400000 \<le> pa) \<and>
    unat (free_page_frame_count (pg (ksys k))) = card {f. f < 32 \<and> \<not> page_frame_map (pg (ksys k)) ! f} \<and>
    one_running (process_list (ksys k))"
proof -
  have ok: "kernel_ok (ksys k)" using steps.kept_by_steps [OF assms(3)] kernel_setup_ok(1) [OF assms(1,2)] assms(1) by blast
  note D = kernel_okD [OF ok]
  show ?thesis using open_alone [OF D(1)] open_not_kernel [OF D(1)] paging_ok_D(6) [OF D(1)] D(5) by blast
qed

lemma current_directory:
  assumes "layout_ok L" and "length (page_directory_list (pg s)) = 32" and "i < 32"
    and "paging_get_current_page_directory_addr (pg s) = pd_addr L i"
  shows "user_directory L s = Inr (all_dirs (pg s) ! i)"
  using pd_get_dir [OF assms(1), of i "pg s"] assms(2-4) by (simp add: user_directory_def dir_addr_def)

lemma destroy_spaces:
  assumes "paging_ok (pg s)" and "layout_ok L" and "process_destroy L p s = Inr (b, s')" and "j < 32"
  shows "all_dirs (pg s') ! j = all_dirs (pg s) ! j \<or> all_dirs (pg s') ! j = blank_directory"
proof -
  have "pg s' = pg s \<or> (\<exists>a. pg s' = snd (paging_free_page_directory L a (pg s)))"
    using assms(3) by (auto simp: process_destroy_def Let_def split: if_splits option.splits)
  moreover have "snd (paging_free_page_directory L a (pg s)) = pg s \<or> (\<exists>i<32. snd (paging_free_page_directory L a (pg s)) = released i (pg s))" for a
  proof (cases "pd_index L a")
    case (Some i)
    then have "i < 32" "a = pd_addr L i" using pd_index_lt by auto
    then show ?thesis using free_directory_effect [OF assms(1,2)] by auto
  qed (simp add: paging_free_page_directory_def)
  moreover have "all_dirs (released i (pg s)) ! j = (if j = i then blank_directory else all_dirs (pg s) ! j)" if "i < 32" for i
    using that assms(4) paging_ok_D(2) [OF assms(1)] by (simp add: released_def all_dirs_def nth_append)
  ultimately show ?thesis by metis
qed

text \<open>What one system call leaves of another space.\<close>

definition space_kept :: "nat \<Rightarrow> u32 \<Rightarrow> sys \<Rightarrow> sys \<Rightarrow> bool" where
  "space_kept j pa s s' \<longleftrightarrow> pm s' pa = pm s pa \<and>
     (all_dirs (pg s') ! j = all_dirs (pg s) ! j \<or> all_dirs (pg s') ! j = blank_directory)"

lemma syscall_space:
  assumes "syscall M r k = Some (Inr k')" and "kernel_ok (ksys k)" and "layout_ok (mlayout M)" and "i < 32" and "j < 32" and "i \<noteq> j"
    and "paging_get_current_page_directory_addr (pg (ksys k)) = pd_addr (mlayout M) i"
    and "page_directory_used (pg (ksys k)) ! j" and "open_to (pg (ksys k)) j pa"
  shows "space_kept j pa (ksys k) (ksys k')"
proof -
  let ?L = "mlayout M" and ?s = "ksys k"
  note D = kernel_okD [OF assms(2)]
  have d: "user_directory ?L ?s = Inr (all_dirs (pg ?s) ! i)"
    using paging_ok_D(2) [OF D(1)] assms(3,4,7) by (intro current_directory)
  note keeps = syscall_keeps [OF assms(1) d]
  have far: "\<not> reaches (all_dirs (pg ?s) ! i) pa" using open_unreached [OF D(1,2) assms(9)] assms(4-6) by simp
  consider (destroy) b where "eax r = 9" "process_destroy ?L (ebx r) ?s = Inr (b, ksys k')"
    | (create) rq c where "process_create_user_process ?L rq ?s = Some (Inr (c, ksys k'))"
    | (other) "eax r \<noteq> 9" "eax r \<noteq> 15" "calm ?s (ksys k')"
    using syscall_effect [OF assms(1)] by blast
  then show ?thesis
  proof cases
    case destroy
    then show ?thesis
      using destroy_spaces [OF D(1) assms(3) destroy(2) assms(5)] keeps by (simp add: call_keeps_def space_kept_def)
  next
    case create
    show ?thesis
    proof (cases "ksys k' = ?s")
      case False
      then obtain n q vm where n: "adds_space n (pg ?s) q" "pm (ksys k') = commit (all_dirs q ! n) (pm ?s) vm" "pg (ksys k') = q"
        using create_outcome [OF create D(1,2) assms(3)] by auto
      then have "n < 32" "n \<noteq> j" "paging_ok q" "kernel_pages q" "\<forall>l<33. l \<noteq> n \<longrightarrow> all_dirs q ! l = all_dirs (pg ?s) ! l"
        using assms(8) by (auto simp: adds_space_def)
      then have nj: "n < 32" "n \<noteq> j" "paging_ok q" "kernel_pages q" "all_dirs q ! j = all_dirs (pg ?s) ! j"
        using assms(5) by simp_all
      then have "open_to q j pa" using assms(9) by (simp add: open_to_def)
      then have "\<not> reaches (all_dirs q ! n) pa" using open_unreached [OF nj(3,4)] nj(1,2) assms(5) by simp
      then show ?thesis using n nj(5) by (simp add: commit_unreached space_kept_def)
    qed (simp add: space_kept_def)
  next
    case other
    then show ?thesis using keeps far by (simp add: call_keeps_def kept_def space_kept_def)
  qed
qed

text \<open>
  C4. No process changes the memory of another. A step taken while directory \<open>i\<close> is current,
  whether the process computes, makes a system call whose pointers stay in its own pages, starts
  or ends processes, or an interrupt comes in, changes no byte that user code reaches through
  another directory in use, and that directory keeps its mapping unless the step frees the
  directory as a whole. A system call that goes through a pointer into the kernel's page, which
  the code does not check and which could rewrite that directory, is the fault \<open>Kernel_Access\<close>
  and not a step.
\<close>

theorem process_memory_private:
  assumes "kernel_step M k k'" and "kernel_ok (ksys k)" and "layout_ok (mlayout M)" and "i < 32" and "j < 32" and "i \<noteq> j"
    and "paging_get_current_page_directory_addr (pg (ksys k)) = pd_addr (mlayout M) i"
    and "page_directory_used (pg (ksys k)) ! j" and "open_to (pg (ksys k)) j pa"
  shows "pm (ksys k') pa = pm (ksys k) pa \<and>
    (all_dirs (pg (ksys k')) ! j = all_dirs (pg (ksys k)) ! j \<or> all_dirs (pg (ksys k')) ! j = blank_directory)"
proof -
  note D = kernel_okD [OF assms(2)]
  have "space_kept j pa (ksys k) (ksys k')"
    using assms(1)
  proof cases
    case (step_interrupt frame ctx)
    from interrupt_cases [OF this] show ?thesis
      using syscall_space [OF _ assms(2-9)] timer_ok(2,3) [OF assms(2)] by (auto simp: space_kept_def)
  next
    case (step_program d m)
    have "d = all_dirs (pg (ksys k)) ! i"
      using current_directory [OF assms(3) paging_ok_D(2) [OF D(1)] assms(4,7)] step_program(2) by simp
    then have "\<forall>va. translate d True va \<noteq> Some pa"
      using open_alone [OF D(1) _ assms(9), of i] assms(4-6) by (auto simp: open_to_def)
    then show ?thesis using step_program by (simp add: space_kept_def)
  qed (simp add: space_kept_def)
  then show ?thesis by (simp add: space_kept_def)
qed

section \<open>Two processes in memory\<close>

definition demo_spaces :: paging where
  "demo_spaces = paging_use_page_directory (pd_addr demo_layout 0)
     (allocated 1 0 2 (created 1 (allocated 0 0 1 (created 0 (boot_paging demo_layout)))))"

definition demo_spaces_kernel :: "(u8 \<times> (u8 \<Rightarrow> u8)) kernel" where
  "demo_spaces_kernel = \<lparr>ksys = \<lparr>pg = demo_spaces, fs = power_on (\<lambda>_. 0), pm = (\<lambda>_. 0),
     process_list = replicate 16 zero_pcb, list_of_process = replicate 16 False, active_process_count = 2\<rparr>,
     kbd = demo_keyboard\<lparr>keyboard_buffer := 0x41\<rparr>, con = demo_console\<rparr>"

lemma demo_space_one:
  "paging_ok (allocated 0 0 1 (created 0 (boot_paging demo_layout)))"
  "kernel_pages (allocated 0 0 1 (created 0 (boot_paging demo_layout)))"
proof -
  let ?p = "created 0 (boot_paging demo_layout)"
  have p: "paging_ok ?p" "kernel_pages ?p"
    using paging_ok_created [OF boot_paging_ok] kernel_pages_created [OF boot_paging_ok boot_kernel_pages] by simp_all
  have f: "first_clear (page_frame_map ?p) PAGE_FRAME_MAX_COUNT = Some 1"
    by (auto simp: first_clear_Some page_constants less_Suc_eq)
  show "paging_ok (allocated 0 0 1 ?p)" by (rule paging_ok_allocated [OF p(1) _ _ f]) simp_all
  show "kernel_pages (allocated 0 0 1 ?p)" by (rule kernel_pages_allocated [OF p]) simp_all
qed

lemma demo_spaces_ok: "paging_ok demo_spaces" "kernel_pages demo_spaces"
proof -
  let ?p = "created 1 (allocated 0 0 1 (created 0 (boot_paging demo_layout)))"
  have p: "paging_ok ?p" "kernel_pages ?p"
    using paging_ok_created [OF demo_space_one(1)] kernel_pages_created [OF demo_space_one] by simp_all
  have f: "first_clear (page_frame_map ?p) PAGE_FRAME_MAX_COUNT = Some 2"
    by (auto simp: first_clear_Some page_constants less_Suc_eq nth_Cons split: nat.split)
  have "paging_ok (allocated 1 0 2 ?p)" by (rule paging_ok_allocated [OF p(1) _ _ f]) simp_all
  then show "paging_ok demo_spaces" by (simp add: demo_spaces_def paging_ok_use)
  have "kernel_pages (allocated 1 0 2 ?p)" by (rule kernel_pages_allocated [OF p]) simp_all
  then show "kernel_pages demo_spaces" by (simp add: demo_spaces_def)
qed

lemma demo_spaces_dirs:
  "all_dirs demo_spaces ! 0 ! 0 = zero_pde\<lparr>flag := user_flags, lower_address := 1\<rparr>"
  "all_dirs demo_spaces ! 1 ! 0 = zero_pde\<lparr>flag := user_flags, lower_address := 2\<rparr>"
  "page_directory_used demo_spaces ! 1"
proof -
  have pi: "page_index 0 = 0" by (simp add: page_index_nat)
  have len: "length (page_directory_list (boot_paging demo_layout)) = 32" by simp
  have b: "blank_directory[0x300 := kernel_pde] ! 0 = zero_pde" "length blank_directory = 1024"
    by (simp_all add: blank_directory_def page_constants)
  show "all_dirs demo_spaces ! 0 ! 0 = zero_pde\<lparr>flag := user_flags, lower_address := 1\<rparr>"
    "all_dirs demo_spaces ! 1 ! 0 = zero_pde\<lparr>flag := user_flags, lower_address := 2\<rparr>"
    "page_directory_used demo_spaces ! 1"
    by (simp_all add: demo_spaces_def all_dirs_allocated all_dirs_created pi b nth_list_update)
qed

lemma demo_spaces_facts:
  "kernel_ok (ksys demo_spaces_kernel)" "layout_ok (mlayout demo_machine)"
  "paging_get_current_page_directory_addr (pg (ksys demo_spaces_kernel)) = pd_addr (mlayout demo_machine) 0"
  "open_to (pg (ksys demo_spaces_kernel)) 1 0x800000"
proof -
  show "kernel_ok (ksys demo_spaces_kernel)"
    using demo_spaces_ok by (simp add: kernel_ok_def demo_spaces_kernel_def one_running_def zero_pcb_def tables_sized_def power_on_def)
  show "layout_ok (mlayout demo_machine)" by (simp add: demo_machine_def demo_layout_ok)
  show "paging_get_current_page_directory_addr (pg (ksys demo_spaces_kernel)) = pd_addr (mlayout demo_machine) 0"
    using pd_addr_above [OF demo_layout_ok, of 0]
    by (simp add: demo_spaces_kernel_def demo_spaces_def demo_machine_def paging_get_current_page_directory_addr_def paging_use_page_directory_def)
  have "translate (all_dirs demo_spaces ! 1) True 0 = Some 0x800000"
    using demo_spaces_dirs(2) by (simp add: translate_def page_index_nat user_flags_def)
  then show "open_to (pg (ksys demo_spaces_kernel)) 1 0x800000" by (auto simp: open_to_def demo_spaces_kernel_def)
qed

text \<open>The first one reads a character into its byte 0.\<close>

definition demo_getchar_frame :: interrupt_frame where
  "demo_getchar_frame = demo_frame\<lparr>if_cpu := demo_getchar\<lparr>ebx := 0\<rparr>, int_number := 0x30\<rparr>"

lemma demo_spaces_step: "\<exists>k'. main_interrupt_handler demo_machine demo_getchar_frame demo_spaces_kernel = Some (Inr (k', None))"
proof -
  have d: "user_directory demo_layout (ksys demo_spaces_kernel) = Inr (all_dirs demo_spaces ! 0)"
    using current_directory [OF demo_layout_ok, of "ksys demo_spaces_kernel" 0] demo_spaces_facts(3)
      paging_ok_D(2) [OF demo_spaces_ok(1)] by (simp add: demo_machine_def demo_spaces_kernel_def)
  have "mapped (all_dirs demo_spaces ! 0) 0 (length [c :: u8])" for c
    using demo_spaces_dirs(1) by (simp add: mapped_def translate_def page_index_nat user_flags_def)
  then obtain s' where "user_store demo_layout 0 [0x41] (ksys demo_spaces_kernel) = Inr s'"
    using d by (simp add: user_store_def)
  then have "syscall demo_machine (demo_getchar\<lparr>ebx := 0\<rparr>) demo_spaces_kernel =
      Some (Inr (demo_spaces_kernel\<lparr>ksys := s', kbd := snd (get_keyboard_buffer (kbd demo_spaces_kernel))\<rparr>))"
    by (simp add: syscall_def Let_def demo_getchar_def zero_cpu_def demo_machine_def get_keyboard_buffer_def with_sys_def
        demo_spaces_kernel_def)
  then show ?thesis by (simp add: main_interrupt_handler_def demo_getchar_frame_def demo_frame_def PIC1_OFFSET_def IRQ_KEYBOARD_def)
qed

theorem kernel_step_preserves_witness:
  "\<exists>k'. main_interrupt_handler demo_machine demo_getchar_frame demo_spaces_kernel = Some (Inr (k', None)) \<and> kernel_ok (ksys k')"
  using demo_spaces_step kernel_step_preserves [OF step_interrupt demo_spaces_facts(1,2)] by blast

theorem process_memory_private_witness:
  "\<exists>k'. main_interrupt_handler demo_machine demo_getchar_frame demo_spaces_kernel = Some (Inr (k', None)) \<and>
     pm (ksys k') 0x800000 = 0"
proof -
  obtain k' where k': "main_interrupt_handler demo_machine demo_getchar_frame demo_spaces_kernel = Some (Inr (k', None))"
    using demo_spaces_step by blast
  have "pm (ksys k') 0x800000 = pm (ksys demo_spaces_kernel) 0x800000"
    using process_memory_private [OF step_interrupt [OF k'] demo_spaces_facts(1,2) _ _ _ demo_spaces_facts(3) _ demo_spaces_facts(4)]
      demo_spaces_dirs(3) by (simp add: demo_spaces_kernel_def)
  then show ?thesis using k' by (auto simp: demo_spaces_kernel_def)
qed

theorem spaces_isolated_witness:
  "\<exists>f b ctx k. mounted f \<and> kernel_setup demo_boot_machine demo_addresses (boot_state demo_layout (storage f) (\<lambda>_. 0)
      \<lparr>text_memory = (\<lambda>_. 7), cur_row = 0, cur_col = 0, dev = demo_pics\<rparr>) = Some (Inr (b, ctx)) \<and>
    kernel_step demo_boot_machine (kern b) k \<and> one_running (process_list (ksys k)) \<and>
    (\<forall>i<33. \<forall>pa. open_to (pg (ksys k)) i pa \<longrightarrow> 0x400000 \<le> pa)"
proof -
  let ?c = "\<lparr>text_memory = (\<lambda>_. 7), cur_row = 0, cur_col = 0, dev = demo_pics\<rparr>"
  have l: "layout_ok (mlayout demo_boot_machine)" "mlayout demo_boot_machine = demo_layout"
    by (simp_all add: demo_boot_machine_def demo_layout_ok)
  obtain f e cs where f: "mounted f" "holds_file f 2 (rq_name shell_request) e cs" using demo_shell_disk by blast
  obtain b ctx where b: "kernel_setup demo_boot_machine demo_addresses (boot_state (mlayout demo_boot_machine) (storage f) (\<lambda>_. 0) ?c) =
      Some (Inr (b, ctx))"
    using kernel_setup_runs [OF l(1) f, of demo_addresses "\<lambda>_. 0" ?c] by blast
  define k where "k = (kern b)\<lparr>con := (con (kern b))\<lparr>dev := demo_pics\<rparr>\<rparr>"
  have k: "kernel_step demo_boot_machine (kern b) k" unfolding k_def by (rule step_device)
  note i = spaces_isolated [OF l(1) b r_into_rtranclp [of "kernel_step demo_boot_machine", OF k]]
  have "one_running (process_list (ksys k))" using i by (elim conjE)
  moreover have "\<forall>i<33. \<forall>pa. open_to (pg (ksys k)) i pa \<longrightarrow> 0x400000 \<le> pa" using i by (elim conjE)
  ultimately show ?thesis using b k f(1) unfolding l(2) by blast
qed

end
