(* ===== verification/HostTool.thy ===== *)
theory HostTool
  imports Boot
begin

text \<open>
  The main function of \<^verbatim>\<open>src/src/external-inserter.c\<close>, the tool of the build that puts a
  file into the storage image: arguments, files and output of the host are the record
  \<open>host\<close>, what malloc leaves in the two buffers is \<open>host_junk\<close>. The block device it defines
  is in \<open>Storage\<close>, the file system it calls is the kernel's. The theory ends with the two
  programs together: a shell inserted by the tool is the one the kernel boots into.
\<close>

section \<open>The host\<close>

text \<open>A file name that cannot be opened for reading has no contents.\<close>

record host =
  files :: "string \<Rightarrow> u8 list option"
  writable :: "string \<Rightarrow> bool"
  stdout :: string
  stderr :: string

record host_junk =
  malloc_image :: image
  malloc_buffer :: mem
  buffer_address :: u32
  host_entry :: dir_entry
  host_table :: "dir_entry list"

definition is_space :: "char \<Rightarrow> bool" where
  "is_space c \<longleftrightarrow> of_char c = (32 :: nat) \<or> 9 \<le> (of_char c :: nat) \<and> (of_char c :: nat) \<le> 13"

definition is_digit :: "char \<Rightarrow> bool" where
  "is_digit c \<longleftrightarrow> 48 \<le> (of_char c :: nat) \<and> (of_char c :: nat) \<le> 57"

text \<open>\<open>sscanf\<close> with \<open>%8s\<close> and with \<open>%u\<close>; None when nothing matches.\<close>

definition scan_word :: "nat \<Rightarrow> string \<Rightarrow> string" where
  "scan_word n s = take n (takeWhile (\<lambda>c. \<not> is_space c) (dropWhile is_space s))"

definition digits_value :: "string \<Rightarrow> nat" where
  "digits_value num = foldl (\<lambda>v c. 10 * v + (of_char c - 48)) 0 num"

definition scan_unsigned :: "string \<Rightarrow> u32 option" where
  "scan_unsigned s =
     (let s1 = dropWhile is_space s; neg = (s1 \<noteq> [] \<and> hd s1 = CHR ''-'');
          s2 = (if s1 \<noteq> [] \<and> (hd s1 = CHR ''-'' \<or> hd s1 = CHR ''+'') then tl s1 else s1);
          num = takeWhile is_digit s2 in
      if num = [] then None else Some (if neg then - of_nat (digits_value num) else of_nat (digits_value num)))"

text \<open>\<open>%ld\<close>\<close>

fun decimal :: "nat \<Rightarrow> string" where
  "decimal n = (if n < 10 then [char_of (48 + n)] else decimal (n div 10) @ [char_of (48 + n mod 10)])"

declare decimal.simps [simp del]

section \<open>The tool\<close>

definition usage :: string where
  "usage = ''inserter: ./inserter <file to insert> <parent cluster index> <storage>'' @ [CHR 10]"

text \<open>The bytes of the name after \<open>%8s\<close>; the terminator of a word of eight lands in the
  extension, which is zero already.\<close>

definition inserter_request :: "host_junk \<Rightarrow> string \<Rightarrow> string \<Rightarrow> nat \<Rightarrow> driver_request" where
  "inserter_request j target parent filesize =
     \<lparr>rq_buf = buffer_address j,
      rq_name = codes (scan_word 8 target) @ replicate (8 - length (scan_word 8 target)) 0,
      rq_ext = [0, 0, 0],
      rq_parent_cluster_number = (case scan_unsigned parent of None \<Rightarrow> 0 | Some n \<Rightarrow> n),
      rq_buffer_size = of_nat filesize\<rparr>"

definition retcode_message :: "int \<Rightarrow> string" where
  "retcode_message retcode =
     (if retcode = 0 then ''Write success'' else if retcode = 1 then ''Error: File/folder name already exist''
      else if retcode = 2 then ''Error: Invalid parent cluster'' else ''Error: Unknown error'') @ [CHR 10]"

definition inserter_main :: "host_junk \<Rightarrow> string list \<Rightarrow> host \<Rightarrow> ((int \<times> host) res) option" where
  "inserter_main j argv h =
     (if length argv < 4 then Some (Inr (1, h\<lparr>stderr := stderr h @ usage\<rparr>))
      else let target = argv ! 1; parent = argv ! 2; storage_name = argv ! 3 in
        case files h storage_name of
          None \<Rightarrow> Some (Inl Null_Pointer)
        | Some old \<Rightarrow>
            let image_storage = img_store (malloc_image j) 0 (take IMAGE_SIZE old);
                (file_buffer, filesize) = (case files h target of
                   None \<Rightarrow> (malloc_buffer j, 0)
                 | Some bs \<Rightarrow> (mem_write (malloc_buffer j) (buffer_address j) (take IMAGE_SIZE bs), length bs));
                out1 = stdout h @ ''Filename : '' @ target @ [CHR 10] @ ''Filesize : '' @ decimal filesize @ '' bytes'' @ [CHR 10] in
            bindO (Some (initialize_filesystem_fat32 (power_on image_storage))) (\<lambda>f.
            bindO (fs_write (host_entry j) (host_table j) (inserter_request j target parent filesize) f file_buffer)
              (\<lambda>(retcode, f1, _).
            if writable h storage_name
            then Some (Inr (0, h\<lparr>stdout := out1 @ retcode_message retcode,
                                 files := (files h)(storage_name := Some (img_load (storage f1) 0 IMAGE_SIZE))\<rparr>))
            else Some (Inl Null_Pointer))))"

section \<open>Images that agree\<close>

text \<open>What a mounted file system and its files are depends on the 4 MiB of the image only.\<close>

lemma same_clusters:
  assumes "img_load im 0 IMAGE_SIZE = img_load im' 0 IMAGE_SIZE" and "c < 2048"
  shows "cluster_at im c = cluster_at im' c"
proof -
  have at: "im x = im' x" if "x < IMAGE_SIZE" for x
    using arg_cong [OF assms(1), of "\<lambda>bs. bs ! x"] that by (simp add: img_load_def)
  show ?thesis
    using assms(2) by (auto simp: cluster_at_def img_load_def geometry intro!: at)
qed

lemma same_boot:
  assumes "img_load im 0 IMAGE_SIZE = img_load im' 0 IMAGE_SIZE"
  shows "img_load im 0 512 = img_load im' 0 512"
  using arg_cong [OF assms, of "take 512"] by (simp add: img_load_def take_map geometry)

lemma mounted_same:
  assumes "mounted f" and "img_load (storage f) 0 IMAGE_SIZE = img_load im 0 IMAGE_SIZE"
  shows "mounted (f\<lparr>storage := im\<rparr>)"
  using assms(1) same_clusters [OF assms(2), of 1] same_boot [OF assms(2)] by (simp add: mounted_def)

lemma holds_file_same:
  assumes "holds_file f c n e cs" and "mounted f" and "img_load (storage f) 0 IMAGE_SIZE = img_load im 0 IMAGE_SIZE" and "c < 2048"
  shows "holds_file (f\<lparr>storage := im\<rparr>) c n e cs" "file_bytes im cs = file_bytes (storage f) cs"
proof -
  have "dir_at (f\<lparr>storage := im\<rparr>) c = dir_at f c" using same_clusters [OF assms(3,4)] by (simp add: dir_at_def)
  then show "holds_file (f\<lparr>storage := im\<rparr>) c n e cs" using assms(1) by (simp add: holds_file_def lookup_def)
  have "chain (cluster_map f) (entry_cluster e) cs" "length (cluster_map f) = 512"
    using assms(1,2) by (simp_all add: holds_file_def mounted_def)
  then have "x < 2048" if "x \<in> set cs" for x using chain_bound that by fastforce
  then show "file_bytes im cs = file_bytes (storage f) cs"
    using same_clusters [OF assms(3)] by (simp add: file_bytes_def cong: map_cong)
qed

section \<open>Inserting into a fresh image\<close>

lemma inserter_writes:
  assumes "files h d = Some old" and "files h t = Some bs" and "length bs \<le> IMAGE_SIZE" and "writable h d"
    and "initialize_filesystem_fat32 (power_on (img_store (malloc_image j) 0 (take IMAGE_SIZE old))) = Inr f"
    and "can_write (inserter_request j t p (length bs)) k f"
  shows "inserter_main j [a, t, p, d] h = Some (Inr (0, h\<lparr>
    stdout := stdout h @ ''Filename : '' @ t @ [CHR 10] @ ''Filesize : '' @ decimal (length bs) @ '' bytes'' @ [CHR 10] @ ''Write success'' @ [CHR 10],
    files := (files h)(d := Some (img_load (storage (after_write (inserter_request j t p (length bs)) k
      (new_clusters (inserter_request j t p (length bs)) f) (mem_write (malloc_buffer j) (buffer_address j) bs) f)) 0 IMAGE_SIZE))\<rparr>))"
  using assms(1-5) fs_write_ok [OF assms(6)] by (simp add: inserter_main_def retcode_message_def)

lemma inserter_can_write:
  assumes "initialize_filesystem_fat32 (power_on im) = Inr f" and "cluster_map f = demo_fat" and "dir_at f 2 = demo_root"
    and "scan_unsigned p = Some 2" and "0 < n" and "n \<le> 509 * 2048"
  shows "can_write (inserter_request j t p n) 1 f"
proof -
  have n: "unat (of_nat n :: u32) = n" "(of_nat n :: u32) \<noteq> 0"
  proof -
    show "unat (of_nat n :: u32) = n" using assms(6) by (intro unat_of_nat32) simp
    then show "(of_nat n :: u32) \<noteq> 0" using assms(5) by auto
  qed
  have "length (scan_word 8 t) \<le> 8" by (simp add: scan_word_def)
  then have "length (rq_name (inserter_request j t p n)) = 8" by (simp add: inserter_request_def codes_def)
  moreover have "size_in_clusters (of_nat n) \<le> 509" using assms(6) n(1) by (simp add: size_in_clusters_def)
  ultimately show ?thesis
    using assms(2-4) n(2) demo_free_slot demo_frees
    by (simp add: can_write_def request_ok_def inserter_request_def parent_of_def word_neq_0_conv [symmetric] FAT32_FAT_END_OF_FILE_def FAT32_FAT_EMPTY_ENTRY_def)
qed

lemma shell_word_name:
  "scan_word 8 t = ''shell'' \<Longrightarrow> rq_name (inserter_request j t p n) = rq_name shell_request"
  by (simp add: inserter_request_def shell_request_def codes_def eval_nat_numeral)

lemma shell_name_facts: "length (rq_name shell_request) = 8" "rq_name shell_request \<noteq> replicate 8 0"
  "find_name demo_root (rq_name shell_request) = None"
proof -
  show n: "length (rq_name shell_request) = 8" "rq_name shell_request \<noteq> replicate 8 0"
    by (simp_all add: shell_request_def codes_def replicate8)
  have "rq_name shell_request \<noteq> root_name" "rq_name shell_request \<noteq> de_name zero_entry"
    by (simp_all add: shell_request_def codes_def root_name_def zero_entry_fields replicate8)
  then show "find_name demo_root (rq_name shell_request) = None"
    using n(1) by (auto simp: find_name_None demo_root_nth)
qed

text \<open>What is in the root directory of an image when it is mounted again.\<close>

lemma inserted_file:
  assumes "img_load (img_store (malloc_image j) 0 (take IMAGE_SIZE old)) 0 512 \<noteq> fs_signature"
    and "files h d = Some old" and "files h t = Some bs" and "writable h d" and "bs \<noteq> []" and "length bs \<le> 509 * 2048"
    and "scan_word 8 t = ''shell''" and "scan_unsigned p = Some 2"
  shows "\<exists>h' new. inserter_main j [a, t, p, d] h = Some (Inr (0, h')) \<and> files h' d = Some new \<and> length new = IMAGE_SIZE \<and>
    (\<forall>im. img_load im 0 IMAGE_SIZE = new \<longrightarrow> (\<exists>f e cs. storage f = im \<and> mounted f \<and>
      holds_file f 2 (rq_name shell_request) e cs \<and> contents f e cs = bs))"
proof -
  let ?rq = "inserter_request j t p (length bs)" and ?m = "mem_write (malloc_buffer j) (buffer_address j) bs"
  obtain f where f: "initialize_filesystem_fat32 (power_on (img_store (malloc_image j) 0 (take IMAGE_SIZE old))) = Inr f"
    "mounted f" "cluster_map f = demo_fat" "dir_at f 2 = demo_root"
    using initialize_blank [OF assms(1)] by blast
  have cw: "can_write ?rq 1 f" by (rule inserter_can_write [OF f(1,3,4) assms(8)]) (use assms(5,6) in simp_all)
  let ?cs = "new_clusters ?rq f"
  let ?g = "after_write ?rq 1 ?cs ?m f" and ?e = "file_entry ?rq (hd (new_clusters ?rq f))"
  have rq: "parent_of ?rq = 2" "rq_name ?rq = rq_name shell_request" "rq_buf ?rq = buffer_address j"
    "unat (rq_buffer_size ?rq) = length bs"
    using assms(6,8) shell_word_name [OF assms(7)]
    by (simp_all add: inserter_request_def parent_of_def unat_of_nat32)
  have new: "find_name (dir_at f (parent_of ?rq)) (rq_name ?rq) = None" "rq_name ?rq \<noteq> replicate 8 0"
    unfolding rq f(4) using shell_name_facts by simp_all
  have g: "mounted ?g" "holds_file ?g 2 (rq_name shell_request) ?e ?cs" "contents ?g ?e ?cs = bs"
    using mounted_after_write [OF f(2) cw] written_held [OF cw new, of ?m] assms(6) unfolding rq
    by (simp_all add: mem_read_write_same)
  have again: "\<exists>g e cs. storage g = im \<and> mounted g \<and> holds_file g 2 (rq_name shell_request) e cs \<and> contents g e cs = bs"
    if im: "img_load im 0 IMAGE_SIZE = img_load (storage ?g) 0 IMAGE_SIZE" for im
  proof -
    note s = im [symmetric]
    have "contents (?g\<lparr>storage := im\<rparr>) ?e ?cs = bs"
      using g(3) holds_file_same(2) [OF g(2,1) s] by (simp add: contents_def)
    then show ?thesis
      using mounted_same [OF g(1) s] holds_file_same(1) [OF g(2,1) s] by (intro exI [of _ "?g\<lparr>storage := im\<rparr>"]) auto
  qed
  have "length bs \<le> IMAGE_SIZE" using assms(6) by (simp add: IMAGE_SIZE_def)
  from inserter_writes [OF assms(2,3) this assms(4) f(1) cw, of a] again show ?thesis by auto
qed

text \<open>
  C5. From the build to the running shell. The host tool, given an image without a file system,
  a file of at most 509 clusters whose name reads as "shell" and the root's cluster number,
  reports success and rewrites the image file with 4 MiB; and a machine whose disk holds those
  bytes boots without a fault into the shell's process, which finds the bytes of that file in
  its own address space from address 0, where it starts.
\<close>

theorem inserted_shell_boots:
  fixes M :: "'d machine"
  assumes "layout_ok (mlayout M)" and "img_load (img_store (malloc_image j) 0 (take IMAGE_SIZE old)) 0 512 \<noteq> fs_signature"
    and "files h d = Some old" and "files h t = Some bs" and "writable h d" and "bs \<noteq> []" and "length bs \<le> 509 * 2048"
    and "scan_word 8 t = ''shell''" and "scan_unsigned p = Some 2"
  shows "\<exists>h' new. inserter_main j [a, t, p, d] h = Some (Inr (0, h')) \<and> files h' d = Some new \<and> length new = IMAGE_SIZE \<and>
    (\<forall>im A m c. img_load im 0 IMAGE_SIZE = new \<longrightarrow> (\<exists>b ctx.
      kernel_setup M A (boot_state (mlayout M) im m c) = Some (Inr (b, ctx)) \<and>
      running (process_list (ksys (kern b))) 0 \<and> eip ctx = 0 \<and> page_directory_virtual_addr ctx = pd_addr (mlayout M) 0 \<and>
      (\<forall>k<length bs. \<exists>pa. translate (all_dirs (pg (ksys (kern b))) ! 0) True (of_nat k) = Some pa \<and>
         pm (ksys (kern b)) pa = bs ! k)))"
proof -
  obtain h' new where n: "inserter_main j [a, t, p, d] h = Some (Inr (0, h'))" "files h' d = Some new" "length new = IMAGE_SIZE"
    and again: "\<forall>im. img_load im 0 IMAGE_SIZE = new \<longrightarrow> (\<exists>f e cs. storage f = im \<and> mounted f \<and>
      holds_file f 2 (rq_name shell_request) e cs \<and> contents f e cs = bs)"
    using inserted_file [OF assms(2-9), of a] by blast
  have "\<exists>b ctx. kernel_setup M A (boot_state (mlayout M) im m c) = Some (Inr (b, ctx)) \<and>
      running (process_list (ksys (kern b))) 0 \<and> eip ctx = 0 \<and> page_directory_virtual_addr ctx = pd_addr (mlayout M) 0 \<and>
      (\<forall>k<length bs. \<exists>pa. translate (all_dirs (pg (ksys (kern b))) ! 0) True (of_nat k) = Some pa \<and>
         pm (ksys (kern b)) pa = bs ! k)" if im: "img_load im 0 IMAGE_SIZE = new" for im A m c
  proof -
    obtain f e cs where f: "storage f = im" "mounted f" "holds_file f 2 (rq_name shell_request) e cs" "contents f e cs = bs"
      using again im by blast
    obtain s where s: "kernel_setup M A (boot_state (mlayout M) im m c) = Some (Inr (set_up M A c s, pcontext (shell_pcb (mlayout M))))"
      "running (process_list s) 0"
      "\<forall>k<length (file_bytes im cs). \<exists>pa. translate (all_dirs (pg s) ! 0) True (of_nat k) = Some pa \<and> pm s pa = file_bytes im cs ! k"
      using kernel_setup_runs [OF assms(1) f(2,3), of A m c] f(1) by auto
    have "\<exists>pa. translate (all_dirs (pg s) ! 0) True (of_nat k) = Some pa \<and> pm s pa = bs ! k" if "k < length bs" for k
    proof -
      have "k < length (file_bytes im cs)" "file_bytes im cs ! k = bs ! k" using that f(1,4) by (auto simp: contents_def)
      then show ?thesis using s(3) by metis
    qed
    then show ?thesis
      using s(1,2) shell_context [of "mlayout M"]
      by (intro exI [of _ "set_up M A c s"] exI [of _ "pcontext (shell_pcb (mlayout M))"]) (simp add: set_up_def Let_def)
  qed
  then show ?thesis using n by blast
qed

section \<open>A build\<close>

definition demo_host :: host where
  "demo_host = \<lparr>files = [''shell'' \<mapsto> replicate 3000 7, ''storage.bin'' \<mapsto> []], writable = (\<lambda>_. True), stdout = '''', stderr = ''''\<rparr>"

definition demo_host_junk :: host_junk where
  "demo_host_junk = \<lparr>malloc_image = (\<lambda>_. 0), malloc_buffer = (\<lambda>_. 1), buffer_address = 0x1000, host_entry = zero_entry, host_table = []\<rparr>"

lemma demo_scans: "scan_word 8 ''shell'' = ''shell''" "scan_unsigned ''2'' = Some 2"
  by (simp_all add: scan_word_def scan_unsigned_def is_space_def is_digit_def digits_value_def Let_def)

theorem inserted_shell_boots_witness:
  "\<exists>h' new b ctx. inserter_main demo_host_junk [''inserter'', ''shell'', ''2'', ''storage.bin''] demo_host = Some (Inr (0, h')) \<and>
    files h' ''storage.bin'' = Some new \<and>
    kernel_setup demo_boot_machine demo_addresses (boot_state demo_layout (\<lambda>x. new ! x) (\<lambda>_. 0)
      \<lparr>text_memory = (\<lambda>_. 7), cur_row = 0, cur_col = 0, dev = demo_pics\<rparr>) = Some (Inr (b, ctx)) \<and>
    (\<exists>pa. translate (all_dirs (pg (ksys (kern b))) ! 0) True 0x123 = Some pa \<and> pm (ksys (kern b)) pa = 7)"
proof -
  have l: "layout_ok (mlayout demo_boot_machine)" "mlayout demo_boot_machine = demo_layout"
    by (simp_all add: demo_boot_machine_def demo_layout_ok)
  have b: "img_load (img_store (malloc_image demo_host_junk) 0 (take IMAGE_SIZE [])) 0 512 \<noteq> fs_signature"
    using blank_image by (simp add: demo_host_junk_def)
  obtain h' new where h: "inserter_main demo_host_junk [''inserter'', ''shell'', ''2'', ''storage.bin''] demo_host = Some (Inr (0, h'))"
    "files h' ''storage.bin'' = Some new" "length new = IMAGE_SIZE"
    and boots: "\<forall>im A m c. img_load im 0 IMAGE_SIZE = new \<longrightarrow> (\<exists>b ctx.
      kernel_setup demo_boot_machine A (boot_state (mlayout demo_boot_machine) im m c) = Some (Inr (b, ctx)) \<and>
      running (process_list (ksys (kern b))) 0 \<and> eip ctx = 0 \<and> page_directory_virtual_addr ctx = pd_addr (mlayout demo_boot_machine) 0 \<and>
      (\<forall>k<length (replicate 3000 (7 :: u8)). \<exists>pa. translate (all_dirs (pg (ksys (kern b))) ! 0) True (of_nat k) = Some pa \<and>
         pm (ksys (kern b)) pa = replicate 3000 7 ! k))"
    using inserted_shell_boots [where h = demo_host and d = "''storage.bin''" and bs = "replicate 3000 7" and a = "''inserter''",
        OF l(1) b _ _ _ _ _ demo_scans]
    by (auto simp: demo_host_def)
  have im: "img_load (\<lambda>x. new ! x) 0 IMAGE_SIZE = new" using h(3) by (intro nth_equalityI) (simp_all add: img_load_def)
  obtain b ctx where k: "kernel_setup demo_boot_machine demo_addresses (boot_state demo_layout (\<lambda>x. new ! x) (\<lambda>_. 0)
      \<lparr>text_memory = (\<lambda>_. 7), cur_row = 0, cur_col = 0, dev = demo_pics\<rparr>) = Some (Inr (b, ctx))"
    "\<forall>k<3000. \<exists>pa. translate (all_dirs (pg (ksys (kern b))) ! 0) True (of_nat k) = Some pa \<and> pm (ksys (kern b)) pa = replicate 3000 7 ! k"
    using boots im unfolding l(2) length_replicate by metis
  obtain pa where "translate (all_dirs (pg (ksys (kern b))) ! 0) True 0x123 = Some pa" "pm (ksys (kern b)) pa = 7"
    using k(2) [rule_format, of "0x123"] by auto
  then show ?thesis using h(1,2) k(1) by blast
qed

end
