(* ===== verification/FatReturns.thy ===== *)
theory FatReturns
  imports FatMount
begin

text \<open>
  The loops of the file system end. A deletion follows a chain it clears behind itself, so a
  cyclic chain leads to a cleared entry, from there to entry 0, and out of the table by the
  reserved value in entry 0; a write leaves its scan with the last cluster written or at the
  end of the table.
\<close>

section \<open>Deleting\<close>

text \<open>Entry 0 of the allocation table leads out of it.\<close>

definition guarded :: "fat32 \<Rightarrow> bool" where
  "guarded f \<longleftrightarrow> length (cluster_map f) = 512 \<and> 512 \<le> unat (cluster_map f ! 0)"

lemma mounted_guarded: "mounted f \<Longrightarrow> guarded f"
  by (simp add: mounted_def guarded_def CLUSTER_0_VALUE_def)

lemma guarded_simps [simp]:
  "guarded (f\<lparr>storage := im\<rparr>) = guarded f" "guarded (f\<lparr>dir_table_buf := t\<rparr>) = guarded f"
  by (simp_all add: guarded_def)

lemma delete_loop_outside: "length fat \<le> unat c \<Longrightarrow> \<exists>r. delete_loop c fat im = Some r"
  by (subst delete_loop.simps) (simp add: arr_get_def)

lemma delete_loop_at_0:
  assumes "length fat = 512" and "512 \<le> unat (fat ! 0)"
  shows "\<exists>r. delete_loop 0 fat im = Some r"
  using assms delete_loop_outside [of "fat[0 := FAT32_FAT_EMPTY_ENTRY]" "fat ! 0"]
  by (subst delete_loop.simps) (auto simp: arr_get_def split: sum.split)

lemma cleared_fewer:
  assumes "length (fat :: u32 list) = 512" and "c < 512" and "fat ! c \<noteq> 0"
  shows "card {i. i < 512 \<and> fat[c := FAT32_FAT_EMPTY_ENTRY] ! i \<noteq> 0} < card {i. i < 512 \<and> fat ! i \<noteq> 0}"
proof -
  let ?A = "{i. i < 512 \<and> fat ! i \<noteq> 0}" and ?B = "{i. i < 512 \<and> fat[c := FAT32_FAT_EMPTY_ENTRY] ! i \<noteq> 0}"
  have fin: "finite ?A" by (rule finite_subset [of _ "{..<512}"]) blast+
  have sub: "?B \<subseteq> ?A - {c}"
  proof
    fix i assume i: "i \<in> ?B"
    then have "fat[c := FAT32_FAT_EMPTY_ENTRY] ! i \<noteq> 0" "i < length fat" using assms(1) by simp_all
    then show "i \<in> ?A - {c}" using assms(1) by (cases "i = c") (simp_all add: FAT32_FAT_EMPTY_ENTRY_def)
  qed
  have "card ?B \<le> card (?A - {c})" by (rule card_mono [OF finite_Diff [OF fin] sub])
  also have "\<dots> < card ?A" by (rule card_Diff1_less [OF fin]) (use assms(2,3) in blast)
  finally show ?thesis .
qed

lemma delete_loop_returns:
  assumes "length fat = 512" and "512 \<le> unat (fat ! 0)"
  shows "\<exists>r. delete_loop c fat im = Some r"
  using assms
proof (induction "card {i. i < 512 \<and> fat ! i \<noteq> 0}" arbitrary: c fat im rule: less_induct)
  case less
  show ?case
  proof (cases "unat c < 512")
    case False
    then show ?thesis using less.prems(1) by (intro delete_loop_outside) simp
  next
    case True
    let ?fat = "fat[unat c := FAT32_FAT_EMPTY_ENTRY]" and ?n = "fat ! unat c"
    have "\<exists>r. delete_loop ?n ?fat im1 = Some r" for im1
    proof (cases "unat ?n < 512")
      case False
      then show ?thesis using less.prems(1) by (intro delete_loop_outside) simp
    next
      case n: True
      then have c0: "unat c \<noteq> 0" using less.prems(2) by (metis not_le)
      then have z: "512 \<le> unat (?fat ! 0)" "length ?fat = 512" using less.prems by simp_all
      show ?thesis
      proof (cases "?n = 0")
        case True
        then show ?thesis using delete_loop_at_0 [OF z(2,1)] by simp
      next
        case False
        from less.hyps [OF cleared_fewer [OF less.prems(1) True False] z(2,1)] show ?thesis .
      qed
    qed
    note next_returns = this
    have get: "arr_get fat (unat c) = Inr ?n" using True less.prems(1) by (simp add: arr_get_def)
    show ?thesis
    proof (cases "write_clusters im (replicate CLUSTER_SIZE 0) c 1")
      case (Inl e)
      then show ?thesis by (subst delete_loop.simps) (simp add: get)
    next
      case (Inr im1)
      then show ?thesis using next_returns [of im1] by (subst delete_loop.simps) (simp add: get)
    qed
  qed
qed

lemma fs_delete_returns: "guarded f \<Longrightarrow> \<exists>r. fs_delete rq f = Some r"
proof -
  assume g: "guarded f"
  then have "\<exists>r. delete_loop c (cluster_map f) (storage f) = Some r" for c
    by (intro delete_loop_returns) (simp_all add: guarded_def)
  then have no: "delete_loop c (cluster_map f) (storage f) \<noteq> None" for c by (metis option.distinct(1))
  have "fs_delete rq f \<noteq> None"
    using no by (auto simp: fs_delete_def Let_def simp del: not_None_eq split: sum.split option.split prod.split)
  then show ?thesis by blast
qed

section \<open>Writing\<close>

lemma write_file_step_facts:
  assumes "write_file_step rq n i w = Inr c" and "length (cluster_map (we_fs w)) = 512"
  shows "case c of Next w' \<Rightarrow> length (cluster_map (we_fs w')) = 512 | Brk w' \<Rightarrow> we_written w' = n | Ret r \<Rightarrow> True"
proof -
  have e: "length (cluster_map (we_fs w')) = 512" if "write_file_entry rq i w = Inr w'" for w'
    using that assms(2) by (auto simp: write_file_entry_def Let_def bindE_eq_Inr split: option.splits)
  have cl: "case c of Next w' \<Rightarrow> length (cluster_map (we_fs w')) = 512 | Brk w' \<Rightarrow> we_written w' = n | Ret r \<Rightarrow> True"
    if "write_file_cluster rq n i w1 = Inr c" "length (cluster_map (we_fs w1)) = 512" for w1
    using that by (auto simp: write_file_cluster_def Let_def bindE_eq_Inr arr_set_def split: if_splits)
  show ?thesis using assms e cl by (auto simp: write_file_step_def bindE_eq_Inr split: if_splits)
qed

text \<open>A loop one of whose rounds is a fault in every state it can be in does not run to its end.\<close>

lemma forE_not_Next:
  assumes "P s" and "\<And>i s s'. P s \<Longrightarrow> body i s = Inr (Next s') \<Longrightarrow> P s'"
    and "k \<in> set xs" and "\<And>s. P s \<Longrightarrow> \<exists>e. body k s = Inl e"
  shows "forE body xs s \<noteq> Inr (Next s')"
  using assms(1,3)
proof (induction xs arbitrary: s)
  case (Cons i xs)
  show ?case
  proof (cases "body i s")
    case (Inr c)
    then have "i \<noteq> k" using assms(4) [OF Cons.prems(1)] by auto
    then have "k \<in> set xs" using Cons.prems(2) by simp
    then show ?thesis using Cons.IH assms(2) [OF Cons.prems(1)] Inr by (cases c) auto
  qed simp
qed simp

lemma write_scan_not_Next:
  assumes "length (cluster_map (we_fs w)) = 512"
  shows "forE (write_file_step rq n) [unat ROOT_CLUSTER_NUMBER..<CLUSTER_SIZE] w \<noteq> Inr (Next w')"
proof (rule forE_not_Next [where P = "\<lambda>w. length (cluster_map (we_fs w)) = 512" and k = 512])
  show "512 \<in> set [unat ROOT_CLUSTER_NUMBER..<CLUSTER_SIZE]" by (simp add: ROOT_CLUSTER_NUMBER_def CLUSTER_SIZE_val)
  show "\<exists>e. write_file_step rq n 512 w = Inl e" if "length (cluster_map (we_fs w)) = 512" for w
    using that by (simp add: write_file_step_def arr_get_def)
  show "length (cluster_map (we_fs w')) = 512"
    if "length (cluster_map (we_fs w)) = 512" "write_file_step rq n i w = Inr (Next w')" for i w w'
    using write_file_step_facts [OF that(2,1)] by simp
qed (rule assms)

lemma write_file_while_returns:
  assumes "length (cluster_map (we_fs w)) = 512"
  shows "\<exists>r. write_file_while rq n w = Some r"
proof (cases "we_written w < n")
  case True
  let ?loop = "forE (write_file_step rq n) [unat ROOT_CLUSTER_NUMBER..<CLUSTER_SIZE] w"
  have "\<exists>r. write_file_while rq n w' = Some r" if "?loop = Inr (Brk w')" for w'
  proof -
    have "case Brk w' :: (write_env, int \<times> fat32 \<times> mem) ctl of
        Next w' \<Rightarrow> length (cluster_map (we_fs w')) = 512 | Brk w' \<Rightarrow> we_written w' = n | Ret r \<Rightarrow> True"
      by (rule forE_invariant [OF that, where P = "\<lambda>w. length (cluster_map (we_fs w)) = 512"])
        (use assms write_file_step_facts in blast)+
    then show ?thesis by (subst write_file_while.simps) simp
  qed
  then show ?thesis
    using True write_scan_not_Next [OF assms]
    by (subst write_file_while.simps) (auto split: sum.split ctl.split)
qed (subst write_file_while.simps, simp)

lemma fs_write_returns:
  assumes "length (cluster_map f) = 512"
  shows "\<exists>r. fs_write junk tbl rq f m = Some r"
  using assms by (auto simp: fs_write_def Let_def intro!: write_file_while_returns split: sum.split)

text \<open>
  The calls of the file system come back, with a return code or a fault, whatever the
  allocation table holds from entry 1 on, cyclic chains included, as long as entry 0 has its
  reserved value: a read unless the buffer size is within 512 bytes of 2 to the 32, a write
  and a deletion always.
\<close>

theorem fs_calls_return:
  assumes "guarded f"
  shows "(unat (rq_buffer_size rq) < 4294966784 \<longrightarrow> (\<exists>r. fs_read rq f m = Some r)) \<and>
    (\<exists>r. fs_write junk tbl rq f m = Some r) \<and> (\<exists>r. fs_delete rq f = Some r)"
  using fs_read_ends fs_write_returns [of f] fs_delete_returns [OF assms] assms by (auto simp: guarded_def)

text \<open>A file whose two clusters form a cycle.\<close>

definition demo_cycle :: fat32 where
  "demo_cycle = (demo_written (\<lambda>_. 0))\<lparr>cluster_map := demo_fat[3 := 4, 4 := 3]\<rparr>"

theorem fs_calls_return_witness:
  "cluster_map demo_cycle ! 3 = 4 \<and> cluster_map demo_cycle ! 4 = 3 \<and> (\<exists>r. fs_read demo_request demo_cycle (\<lambda>_. 0) = Some r) \<and>
   (\<exists>r. fs_delete demo_request demo_cycle = Some r)"
proof -
  have "guarded demo_cycle" by (simp add: guarded_def demo_cycle_def CLUSTER_0_VALUE_def)
  then show ?thesis
    using fs_calls_return [of demo_cycle demo_request "\<lambda>_. 0"] by (auto simp: demo_cycle_def demo_request_def)
qed

end
