(* ===== verification/KernelReturns.thy ===== *)
theory KernelReturns
  imports KernelSteps FatReturns
begin

text \<open>
  The interrupt handler comes back. The loops an interrupt can run into are those of the file
  system, the wait for the clock chip, and the scheduler's search for a ready process.
\<close>

lemma switch_returns: "\<exists>r. scheduler_switch_to_next_process s = Some r"
proof -
  have "i < 16" if "process_get_current_running_pcb_pointer (process_list s) = Some i" for i
    using that by (simp add: process_get_current_running_pcb_pointer_def find_upt_Some PROCESS_COUNT_MAX_def)
  then show ?thesis
    using seek_ends by (auto simp: scheduler_switch_to_next_process_def Let_def split: option.split)
qed

lemma timer_returns: "\<exists>r. timer_interrupt frame s = Some r"
  by (simp add: timer_interrupt_def Let_def switch_returns del: split_paired_Ex)

lemma read_through_returns:
  assumes "unat (rq_buffer_size rq) < 4294966784"
  shows "\<exists>r. read_through L rq f p m = Some r"
proof (cases "pd_get L p (paging_get_current_page_directory_addr p)")
  case (Inr d)
  obtain r where "fs_read rq f (view d m) = Some r" using fs_read_ends [OF assms] by blast
  then show ?thesis using Inr by (auto simp: read_through_def split: sum.split prod.split)
qed (simp add: read_through_def)

lemma create_returns:
  assumes "unat (rq_buffer_size rq) < 4294966784"
  shows "\<exists>r. process_create_user_process L rq s = Some r"
proof -
  have "read_through L rq f p m \<noteq> None" for f p m using read_through_returns [OF assms] by (metis option.distinct(1))
  then have "process_create_user_process L rq s \<noteq> None"
    by (auto simp: process_create_user_process_def Let_def simp del: not_None_eq split: sum.split prod.split option.split)
  then show ?thesis by blast
qed

lemma bindO_returns: "\<exists>x. r = Some x \<Longrightarrow> (\<And>y. r = Some (Inr y) \<Longrightarrow> \<exists>x. f y = Some x) \<Longrightarrow> \<exists>x. bindO r f = Some x"
  by (auto simp: bindO_def split: sum.split)

lemma with_sys_returns: "\<exists>x. r = Some x \<Longrightarrow> \<exists>x. with_sys k r = Some x"
  by (auto simp: with_sys_def intro: bindO_returns)

lemma file_call_returns:
  assumes "\<And>rq. user_request (mlayout M) (ebx r) (ksys k) = Inr rq \<Longrightarrow> \<exists>x. f rq (ksys k) = Some x"
  shows "\<exists>x. file_call M r k f = Some x"
  unfolding file_call_def
  using assms by (intro with_sys_returns bindO_returns) (auto simp: return_code_def)

lemma read_cmos_returns:
  assumes "rtc_ok B sel regs busy"
  shows "\<exists>r. read_cmos B d = Some r"
  using wait_update_returns [OF assms, of d] by (auto simp: read_cmos_def Let_def split: prod.split)

text \<open>The requests of the two calls that read a file.\<close>

definition sizes_below :: "'d machine \<Rightarrow> cpu_register \<Rightarrow> 'd kernel \<Rightarrow> bool" where
  "sizes_below M r k \<longleftrightarrow> (\<forall>rq. (eax r = 0 \<or> eax r = 15) \<and> user_request (mlayout M) (ebx r) (ksys k) = Inr rq \<longrightarrow>
     unat (rq_buffer_size rq) < 4294966784)"

lemma syscall_returns:
  assumes "rtc_ok (mbus M) sel regs busy" and "guarded (fs (ksys k))" and "sizes_below M r k"
  shows "\<exists>x. syscall M r k = Some x"
proof -
  have len: "length (cluster_map (fs (ksys k))) = 512" using assms(2) by (simp add: guarded_def)
  consider "eax r \<in> {0, 1, 2, 3}" | "eax r = 15" | "eax r = 12" | "eax r \<in> {4, 9, 14}" | "eax r \<in> {5, 6, 7, 8, 10, 11, 13, 16}" | "16 < eax r"
    using call_number_cases [of "eax r"] by blast
  then show ?thesis
  proof cases
    case 1
    have r: "\<exists>x. read_call (mlayout M) rq (ksys k) = Some x" if "eax r = 0" "user_request (mlayout M) (ebx r) (ksys k) = Inr rq" for rq
      unfolding read_call_def using assms(3) that
      by (intro bindO_returns read_through_returns) (auto simp: sizes_below_def)
    have w: "\<exists>x. write_through (mlayout M) (mjunk M) (mjunk_table M) rq (ksys k) = Some x" for rq
      unfolding write_through_def Let_def using fs_write_returns [OF len] by (intro bindO_returns) auto
    have d: "\<exists>x. delete_call rq (ksys k) = Some x" for rq
      unfolding delete_call_def using fs_delete_returns [OF assms(2)] by (intro bindO_returns) auto
    show ?thesis using 1 r w d
      by (elim insertE emptyE) (auto simp: syscall_def Let_def intro!: file_call_returns)
  next
    case 2
    have "\<exists>x. process_create_user_process (mlayout M) rq (ksys k) = Some x" if "user_request (mlayout M) (ebx r) (ksys k) = Inr rq" for rq
      using create_returns assms(3) 2 that by (auto simp: sizes_below_def)
    then show ?thesis using 2 by (auto simp: syscall_def Let_def intro!: with_sys_returns bindO_returns)
  next
    case 3
    then show ?thesis using read_cmos_returns [OF assms(1), of "dev (con k)"]
      by (auto simp: syscall_def Let_def intro!: with_sys_returns)
  next
    case 4
    then show ?thesis
      by (elim insertE emptyE) (auto simp: syscall_def Let_def intro!: with_sys_returns split: prod.split)
  next
    case 5
    then show ?thesis by (elim insertE emptyE) (simp_all add: syscall_def Let_def)
  next
    case 6
    then show ?thesis using unknown_call [OF 6, of M k] by blast
  qed
qed

text \<open>
  C32. The handler comes back from every interrupt, with the state it leaves or a fault:
  whatever the registers, the processes and the memory are and whatever the allocation table
  holds behind its reserved first entry, when the clock chip's update ends at some time and a
  file is not read with a buffer size within 512 bytes of 2 to the 32.
\<close>

theorem interrupt_returns:
  assumes "rtc_ok (mbus M) sel regs busy" and "guarded (fs (ksys k))" and "sizes_below M (if_cpu frame) k"
  shows "\<exists>r. main_interrupt_handler M frame k = Some r"
proof -
  obtain x where "syscall M (if_cpu frame) k = Some x" using syscall_returns [OF assms] by blast
  moreover obtain y where "timer_interrupt frame (ksys k) = Some y" using timer_returns by blast
  ultimately show ?thesis
    by (auto simp: main_interrupt_handler_def Let_def bindO_def split: prod.split sum.split)
qed

definition demo_cycle_kernel :: "(u8 \<times> nat) kernel" where
  "demo_cycle_kernel = \<lparr>ksys = (boot_sys demo_layout (\<lambda>_. 0) (\<lambda>_. 0))\<lparr>pg := program_paging, fs := demo_cycle\<rparr>, kbd = keyboard_start,
     con = \<lparr>text_memory = (\<lambda>_. 7), cur_row = 0, cur_col = 0, dev = (0, 3)\<rparr>\<rparr>"

theorem interrupt_returns_witness:
  "\<exists>r. main_interrupt_handler \<lparr>mlayout = demo_layout, mbus = demo_rtc, mjunk = zero_entry, mjunk_table = []\<rparr>
     (demo_frame\<lparr>if_cpu := zero_cpu\<lparr>eax := 12, ebx := 0x1000\<rparr>, int_number := 0x30\<rparr>) demo_cycle_kernel = Some r"
proof (rule interrupt_returns)
  show "rtc_ok (mbus \<lparr>mlayout = demo_layout, mbus = demo_rtc, mjunk = zero_entry, mjunk_table = []\<rparr>) fst demo_rtc_regs snd"
    using demo_rtc_ok by simp
  show "guarded (fs (ksys demo_cycle_kernel))"
    by (simp add: demo_cycle_kernel_def guarded_def demo_cycle_def CLUSTER_0_VALUE_def)
qed (simp add: sizes_below_def)

end
