(* ===== verification/ShellReturns.thy ===== *)
theory ShellReturns
  imports ShellLine ShellFiles FatReturns
begin

text \<open>
  Every command of the shell comes back: the loops of find, cat and cp end, and the system
  calls do. Only the loops that round a size up to clusters may not: that of cp wraps around
  for ever when the size is within 2047 bytes of 2 to the 32, that of cat when it is within 2047
  bytes of 2 to the 31.
\<close>

section \<open>Rounding\<close>

lemma round_up_returns:
  assumes "unat n \<le> 4294965248"
  shows "\<exists>r'. round_up r n = Some r'"
proof (induction "unat n - unat r" arbitrary: r rule: less_induct)
  case less
  show ?case
  proof (cases "r < n")
    case True
    then have lt: "unat r < unat n" by (simp add: word_less_nat_alt)
    have "r + of_nat CLUSTER_SIZE = of_nat (unat r + 2048)" by (simp add: CLUSTER_SIZE_val)
    then have u: "unat (r + of_nat CLUSTER_SIZE) = unat r + 2048"
      using lt assms(1) by (simp only:) (rule unat_of_nat32, simp)
    then have "\<exists>r'. round_up (r + of_nat CLUSTER_SIZE) n = Some r'"
      using lt assms(1) by (intro less.hyps) simp_all
    then show ?thesis using True by (subst round_up.simps) simp
  qed (subst round_up.simps, simp)
qed

text \<open>Sizes for which the rounding of cp ends, and for which that of cat does.\<close>

definition copy_ends :: "u32 \<Rightarrow> bool" where
  "copy_ends sz \<longleftrightarrow> unat sz \<le> 4294965248"

definition cat_ends :: "u32 \<Rightarrow> bool" where
  "cat_ends sz \<longleftrightarrow> \<not> (2147481600 < unat sz \<and> unat sz < 2147483648)"

lemma negative_sint: "2147483648 \<le> unat (w :: u32) \<Longrightarrow> sint w < 0"
proof -
  assume a: "2147483648 \<le> unat w"
  have l: "unat w < 4294967296" using unsigned_less [of w] by simp
  have d: "unat w div 2147483648 = 1" using a l by (intro div_nat_eqI) simp_all
  have "uint w div 2147483648 = int (unat w div 2147483648)"
    unfolding uint_nat zdiv_int by (simp only: of_nat_numeral)
  then have "uint w div 2 ^ 31 = 1" unfolding d by simp
  then have "bit (uint w) 31" unfolding bit_iff_odd by (simp only: odd_one not_False_eq_True)
  moreover have "sint w = signed_take_bit 31 (uint w)" by (simp add: sint_uint)
  ultimately show ?thesis by (simp only: signed_take_bit_negative_iff)
qed

lemma cat_size_returns:
  assumes "cat_ends sz"
  shows "\<exists>r. cat_size (of_nat CLUSTER_SIZE) sz = Some r"
proof (cases "unat sz \<le> 2147481600")
  case True
  have "cat_size (of_nat CLUSTER_SIZE) sz = round_up (of_nat CLUSTER_SIZE) sz"
    by (rule cat_size_round_up [OF True]) (simp add: CLUSTER_SIZE_val)
  then show ?thesis using round_up_returns [of sz] True by simp
next
  case False
  then have "sint sz < 0" using assms by (intro negative_sint) (simp add: cat_ends_def)
  moreover have "sint (of_nat CLUSTER_SIZE :: u32) = 2048" by (simp add: CLUSTER_SIZE_val)
  ultimately show ?thesis by (subst cat_size.simps) simp
qed

section \<open>find\<close>

lemma find_entry_queue:
  assumes "find_entry target n qHead t s i st = Inr c" and "length (fst st) = m"
  shows "case c of Next st' \<Rightarrow> length (fst st') = m | Brk st' \<Rightarrow> length (fst st') = m | Ret r \<Rightarrow> True"
  using assms by (auto simp: find_entry_def enqueue_def Let_def bindE_eq_Inr split: if_splits prod.splits)

lemma find_loop_returns: "\<exists>r. find_loop j target n qHead st s = Some r"
proof (induction "length (fst st) - qHead" arbitrary: qHead st s rule: less_induct)
  case less
  show ?case
  proof (cases "snd (snd st) = 0 \<or> length (fst st) \<le> qHead")
    case True
    then show ?thesis by (subst find_loop.simps) (auto simp: arr_get_def)
  next
    case False
    have next_round: "\<exists>r. find_loop j target n (qHead + 1) (fst st1, fst (snd st1), snd (snd st1) - 1) s1 = Some r"
      if "forE (find_entry target n qHead t s1) [1..<DIR_ENTRIES] st = Inr c" "c = Next st1 \<or> c = Brk st1" for t s1 c st1
    proof -
      have "case c of Next st' \<Rightarrow> length (fst st') = length (fst st) | Brk st' \<Rightarrow> length (fst st') = length (fst st) | Ret (r :: shell) \<Rightarrow> True"
        by (rule forE_invariant [OF that(1), where P = "\<lambda>x. length (fst x) = length (fst st)"]) (use find_entry_queue in blast)+
      then have "length (fst st1) = length (fst st)" using that(2) by auto
      then show ?thesis using False by (intro less.hyps) (simp, arith)
    qed
    have ne: "snd (snd st) \<noteq> 0" using False by simp
    show ?thesis
      by (subst find_loop.simps) (use ne next_round in \<open>auto simp: bindO_def Let_def split: sum.split ctl.split prod.split\<close>)
  qed
qed

section \<open>The commands\<close>

lemma bindO_ends: "\<exists>x. r = Some x \<Longrightarrow> (\<And>y. r = Some (Inr y) \<Longrightarrow> \<exists>x. f y = Some x) \<Longrightarrow> \<exists>x. bindO r f = Some x"
  by (auto simp: bindO_def split: sum.split)

lemma write_file_returns: "guarded (disk s) \<Longrightarrow> \<exists>x. write_file j rq m s = Some x"
  unfolding write_file_def guarded_def using fs_write_returns by (intro bindO_ends) auto

lemma delete_file_returns: "guarded (disk s) \<Longrightarrow> \<exists>x. delete_file rq s = Some x"
  unfolding delete_file_def using fs_delete_returns by (intro bindO_ends) auto

lemma read_array_returns: "\<exists>x. read_array j rq s = Some x"
proof (cases "STACK_PAGE < unat (rq_buffer_size rq)")
  case False
  then have "\<exists>x. fs_read rq (disk s) (junk_mem j) = Some x" by (intro fs_read_ends) (simp add: STACK_PAGE_def)
  then show ?thesis unfolding read_array_def read_file_def by (auto simp: False intro!: bindO_ends)
qed (simp add: read_array_def)

text \<open>
  No file that a command may copy or print has a size for which its rounding does not end: the
  tables are the ones cp and cat read.
\<close>

definition sizes_fit :: "junk \<Rightarrow> shell \<Rightarrow> bool" where
  "sizes_fit j s \<longleftrightarrow>
     (\<forall>t. current_table j s = Inr (0, t) \<longrightarrow> (\<forall>i<DIR_ENTRIES. copy_ends (de_filesize (t ! i)))) \<and>
     (\<forall>t. cat_table j s = Inr (0, t) \<longrightarrow> (\<forall>i<DIR_ENTRIES. cat_ends (de_filesize (t ! i))))"

lemma cat_returns:
  assumes "sizes_fit j s"
  shows "\<exists>x. cat j name s = Some x"
proof (cases "cat_table j s")
  case (Inr x)
  then obtain r t where t: "cat_table j s = Inr (r, t)" by (cases x) simp
  show ?thesis
  proof (cases "r = 0")
    case True
    then have "cat_ends (snd (entry_named t name))"
      using assms t by (auto simp: sizes_fit_def entry_named_def find_name_def find_upt_Some cat_ends_def split: option.split)
    then obtain n where n: "cat_size (of_nat CLUSTER_SIZE) (snd (entry_named t name)) = Some n" using cat_size_returns by blast
    show ?thesis
      unfolding cat_def t using n True read_array_returns
      by (auto simp: Let_def intro!: bindO_ends split: prod.split)
  qed (simp add: cat_def t)
qed (simp add: cat_def)

lemma mkdir_returns: "guarded (disk s) \<Longrightarrow> \<exists>x. mkdir j name s = Some x"
  unfolding mkdir_def using write_file_returns
  by (auto simp: Let_def intro!: bindO_ends)

lemma rm_returns: "guarded (disk s) \<Longrightarrow> \<exists>x. rm j name s = Some x"
  unfolding rm_def using delete_file_returns
  by (auto simp: Let_def intro!: bindO_ends)

lemma copy_file_returns:
  assumes "guarded (disk s)" and "copy_ends (de_filesize e)"
  shows "\<exists>x. copy_file j a b e s = Some x"
proof -
  obtain n where n: "round_up 0 (de_filesize e) = Some n"
    using round_up_returns [of "de_filesize e" 0] assms(2) by (auto simp: copy_ends_def)
  show ?thesis
    unfolding copy_file_def n using write_file_returns [OF assms(1)] read_array_returns by (auto simp: Let_def intro!: bindO_ends)
qed

lemma current_table_call: "current_table j (call e s) = current_table j s"
  by (simp add: current_table_def list_directory_def)

lemma cp_returns:
  assumes "guarded (disk s)" and "sizes_fit j s"
  shows "\<exists>x. cp j command len s = Some x"
proof -
  have t: "copy_ends (de_filesize (t ! i))" if "current_table j s = Inr (0, t)" "find_name t n = Some i" for t n i
    using assms(2) that by (auto simp: sizes_fit_def find_name_def find_upt_Some)
  show ?thesis
    unfolding cp_def using assms(1) t
    by (auto simp: Let_def say_call current_table_call intro!: bindO_ends copy_file_returns split: option.split)
qed

lemma find_command_returns: "\<exists>x. find_command j command len s = Some x"
  unfolding find_command_def Let_def using find_loop_returns by auto

text \<open>
  C23. A command of the shell comes back: for every line of at most 256 characters, executing it
  gives a state or a fault when entry 0 of the allocation table leads out of it and the
  directory the command reads has no size for which a rounding loop does not end. Those sizes
  are, for cp, the ones above 0xFFFFF800, and for cat, whose loop counts in an \<open>int\<close>, the ones
  above 0x7FFFF800 and below 0x80000000. Beyond that the directories and the rest of the table
  may hold anything: chains may break or be cyclic, and a size too big for the stack is a fault.
\<close>

theorem command_returns:
  assumes "guarded (disk s)" and "sizes_fit j s" and "length l \<le> KEYBOARD_BUFFER_SIZE"
  shows "\<exists>x. executeCommand j (padded l) (length l) s = Some x"
proof -
  have "\<exists>x. r = Some x" if "(w, n, r) \<in> set (actions j l s)" for w n r
    using that cp_returns [OF assms(1,2)] rm_returns [OF assms(1)] mkdir_returns [OF assms(1)] cat_returns [OF assms(2)] find_command_returns
    by (auto simp: actions_def Let_def split: if_splits)
  moreover have "find P xs = Some y \<Longrightarrow> y \<in> set xs" for P y and xs :: "(string \<times> nat \<times> (shell res) option) list"
    by (auto simp: find_Some_iff)
  ultimately have "\<exists>x. execute j l s = Some x"
    unfolding execute_def by (auto split: option.split) blast
  then show ?thesis using executeCommand_actions assms(3) by (simp add: KEYBOARD_BUFFER_SIZE_def)
qed

theorem command_returns_witness:
  "\<exists>x. executeCommand demo_shell_junk (padded (codes ''cp a b'')) 6 demo_shell = Some x"
proof -
  have "current_table demo_shell_junk demo_shell = Inr (0, demo_root)"
    using located_current(1) [OF demo_located] by (simp add: demo_shell_def)
  moreover have "cat_table demo_shell_junk demo_shell = current_table demo_shell_junk demo_shell"
    by (simp add: cat_table_def current_table_def demo_shell_def arr_get_def)
  ultimately have "sizes_fit demo_shell_junk demo_shell"
    by (auto simp: sizes_fit_def DIR_ENTRIES_val demo_root_nth zero_entry_fields copy_ends_def cat_ends_def)
  moreover have "guarded (disk demo_shell)" by (simp add: guarded_def demo_shell_def CLUSTER_0_VALUE_def)
  moreover have l: "length (codes ''cp a b'') = 6" by simp
  then have "length (codes ''cp a b'') \<le> KEYBOARD_BUFFER_SIZE" unfolding l KEYBOARD_BUFFER_SIZE_def by simp
  ultimately show ?thesis using command_returns [of demo_shell demo_shell_junk "codes ''cp a b''"] unfolding l by blast
qed

end
