(* ===== verification/Typing.thy ===== *)
theory Typing
  imports ClockProgram ShellLine
begin

text \<open>
  From the keys to a program. A key press is an interrupt of the keyboard (\<^verbatim>\<open>src/src/keyboard.c\<close>,
  reached through \<open>main_interrupt_handler\<close>), a program polls for the character with system call
  4 and finds it in its own memory. \<open>terminal\<close> is the abstract device the two make together: a
  screen with a position, shift and caps lock, and a result for every scancode. The keyboard
  driver refines it key by key, and so does any sequence of key presses and polls.
\<close>

section \<open>The abstract terminal\<close>

record terminal =
  shifted :: bool
  locked :: bool
  screen :: "nat \<Rightarrow> u8"
  place :: int

text \<open>
  The character a key delivers, 0 for none, and the terminal after it. The driver takes scan
  code 0, which a keyboard sends for an error and which stands for no key, for a key whose
  character is NUL: the position moves on over an empty cell.
\<close>

definition terminal_key :: "u8 \<Rightarrow> terminal \<Rightarrow> u8 \<times> terminal" where
  "terminal_key sc t =
     (let p = place t; ch = key_character (shifted t) (locked t) sc;
          to_row = (p div 80 + 1) * 80; before = back_one (p div 80) (p mod 80) in
      if sc = 0x3A then (0, t\<lparr>locked := \<not> locked t\<rparr>)
      else if sc = 0x2A \<or> sc = 0x36 then (0, t\<lparr>shifted := True\<rparr>)
      else if sc = 0xAA \<or> sc = 0xB6 then (0, t\<lparr>shifted := False\<rparr>)
      else if 0x80 \<le> sc then (0, t)
      else if sc = 0x1C then (10, t\<lparr>screen := show_at to_row 0 (screen t), place := to_row\<rparr>)
      else if sc = 0x0E then (8, t\<lparr>screen := show_at before 0 (screen t), place := before\<rparr>)
      else if ch = 0 \<and> sc \<noteq> 0 then (0, t)
      else (ch, t\<lparr>screen := show_at (p + 1) 0 (show_at p ch (screen t)), place := p + 1\<rparr>))"

definition terminal_of :: "'d bus \<Rightarrow> keyboard \<Rightarrow> 'd console \<Rightarrow> terminal" where
  "terminal_of B k s = \<lparr>shifted = isShift k, locked = isCapsLock k, screen = text_memory s,
     place = fst (hw_cursor B (dev s)) * 80 + snd (hw_cursor B (dev s))\<rparr>"

section \<open>One key\<close>

lemma press_key_keeps:
  "isShift (fst (press_key sc cur k fb)) = isShift k" "isCapsLock (fst (press_key sc cur k fb)) = isCapsLock k"
  "keyboard_input_on (fst (press_key sc cur k fb)) = keyboard_input_on k"
  by (simp_all add: press_key_def backspace_key_def enter_key_def advance_def Let_def split: prod.split)

lemma press_nothing:
  assumes "key_character (isShift k) (isCapsLock k) sc = 0" and "sc \<notin> {0, 0x0E, 0x1C}"
  shows "press_key sc cur k fb = (k\<lparr>keyboard_buffer := 0\<rparr>, None, fb)"
  using assms by (simp add: press_key_def lookup_is_key_character Let_def)

text \<open>The place of the cursor gives back its row and column.\<close>

lemma cursor_of_place:
  assumes "crtc_ok B sel regs" and "hw_cursor B d = (r, c)"
  shows "(r * 80 + c) div 80 = r" "(r * 80 + c) mod 80 = c"
  using hw_cursor_bounds [OF assms] by simp_all

text \<open>An interrupt with the scan code read, the cursor where the display has it.\<close>

definition isr_at :: "'d bus \<Rightarrow> ('d \<Rightarrow> u8) \<Rightarrow> ('d \<Rightarrow> u8 \<Rightarrow> u8) \<Rightarrow> u8 \<Rightarrow> keyboard \<Rightarrow> 'd console \<Rightarrow> int \<Rightarrow> int \<Rightarrow> 'd \<Rightarrow> 'd \<Rightarrow> keyboard \<Rightarrow> bool" where
  "isr_at B sel regs sc k s r c d3 d4 k1 \<longleftrightarrow> display_bus B sel regs \<and> hw_cursor B (dev s) = (r, c) \<and>
     keyboard_isr B k s = isr_after B sc (r, c) d3 d4 k1 s \<and> regs d3 = regs (dev s) \<and> regs d4 = regs (dev s) \<and>
     isShift k1 = isShift k \<and> isCapsLock k1 = isCapsLock k \<and> keyboard_input_on k1 \<and> keyboard_buffer k1 = 0"

definition isr_types :: "'d bus \<Rightarrow> u8 \<Rightarrow> keyboard \<Rightarrow> 'd console \<Rightarrow> bool" where
  "isr_types B sc k s \<longleftrightarrow> (case keyboard_isr B k s of (k', s') \<Rightarrow>
    (keyboard_buffer k', terminal_of B k' s') = terminal_key sc (terminal_of B k s) \<and> keyboard_input_on k')"

lemma isr_at_cursor:
  assumes "isr_at B sel regs sc k s r c d3 d4 k1"
  shows "hw_cursor B (pic_ack B 1 d3) = (r, c)" "hw_cursor B (pic_ack B 1 d4) = (r, c)"
proof -
  have d: "display_bus B sel regs" "hw_cursor B (dev s) = (r, c)" "regs d3 = regs (dev s)" "regs d4 = regs (dev s)"
    using assms by (simp_all add: isr_at_def)
  show "hw_cursor B (pic_ack B 1 d3) = (r, c)" "hw_cursor B (pic_ack B 1 d4) = (r, c)"
    using hw_cursor_cong [OF d(1), of "pic_ack B 1 d3" "dev s"] hw_cursor_cong [OF d(1), of "pic_ack B 1 d4" "dev s"] d(2-4)
    by (simp_all add: pic_ack_regs [OF d(1)])
qed

text \<open>A key that moves the cursor to place \<open>q\<close>.\<close>

lemma shown_cursor: "0 \<le> q \<Longrightarrow> q < 20480 \<Longrightarrow> cursor_write (q div 80, q mod 80) 0 fb = show_at q 0 fb"
proof -
  assume "0 \<le> q" "q < 20480"
  then have "0 \<le> q div 80" "q div 80 < 256" "0 \<le> q mod 80" "q mod 80 < 256"
    using pos_mod_bound [of 80 q] by (simp_all add: div_int_pos_iff)
  then show ?thesis by (subst cursor_write_show) simp_all
qed

lemma isr_moves:
  assumes "isr_at B sel regs sc k s r c d3 d4 k1"
    and "press_key sc (r, c) k1 (text_memory s) = (k2, Some (q div 80, q mod 80), fb')"
    and "cursor_write (q div 80, q mod 80) 0 fb' = show_at q 0 fb" "0 \<le> q" "q < 20480"
    and "sc \<notin> {0x3A, 0x2A, 0x36, 0xAA, 0xB6}" "sc < 0x80"
  shows "case keyboard_isr B k s of (k', s') \<Rightarrow>
      (keyboard_buffer k', terminal_of B k' s') =
      (keyboard_buffer k2, \<lparr>shifted = isShift k, locked = isCapsLock k, screen = show_at q 0 fb, place = q\<rparr>) \<and> keyboard_input_on k'"
proof -
  have A: "display_bus B sel regs" "keyboard_isr B k s = isr_after B sc (r, c) d3 d4 k1 s"
    "isShift k1 = isShift k" "isCapsLock k1 = isCapsLock k" "keyboard_input_on k1"
    using assms(1) by (simp_all add: isr_at_def)
  have q: "0 \<le> q div 80" "q div 80 < 256" "0 \<le> q mod 80" "q mod 80 < 80"
    using assms(4,5) pos_mod_bound [of 80 q] by (simp_all add: div_int_pos_iff)
  show ?thesis
    using assms(2,3,6,7) press_key_keeps [of sc "(r, c)" k1 "text_memory s"] A(3-5) hw_cursor_acked [OF A(1) q]
    by (simp add: A(2) isr_after_def terminal_of_def)
qed

lemma isr_modifier:
  assumes "isr_at B sel regs sc k s r c d3 d4 k1" and "sc \<in> {0x3A, 0x2A, 0x36, 0xAA, 0xB6}"
  shows "isr_types B sc k s"
proof -
  note rest = isr_at_cursor [OF assms(1)]
  have k1: "isShift k1 = isShift k" "isCapsLock k1 = isCapsLock k" "keyboard_input_on k1" "keyboard_buffer k1 = 0"
    and isr: "keyboard_isr B k s = isr_after B sc (r, c) d3 d4 k1 s" and rc: "hw_cursor B (dev s) = (r, c)"
    using assms(1) by (simp_all add: isr_at_def)
  note ops = isr_types_def isr isr_after_def terminal_of_def terminal_key_def
  consider "sc = 0x3A" | "sc \<in> {0x2A, 0x36}" "isShift k" | "sc \<in> {0x2A, 0x36}" "\<not> isShift k" | "sc \<in> {0xAA, 0xB6}"
    using assms(2) by blast
  then show ?thesis
  proof cases
    case 1
    then show ?thesis using rest k1 rc by (simp add: ops Let_def)
  next
    case 2
    have "sc \<in> {0x3A, 0x2A, 0x36, 0x4B, 0x4D}" using 2(1) by auto
    then have "press_key sc (r, c) k1 (text_memory s) = (k1\<lparr>keyboard_buffer := 0\<rparr>, None, text_memory s)"
      using 2(1) no_character k1 by (intro press_nothing) auto
    then show ?thesis using 2 rest k1 rc by (auto simp: ops Let_def word_less_nat_alt)
  next
    case 3
    then show ?thesis using rest k1 rc by (auto simp: ops Let_def)
  next
    case 4
    then show ?thesis using rest k1 rc by (auto simp: ops Let_def word_less_nat_alt)
  qed
qed

lemma isr_silent:
  assumes "isr_at B sel regs sc k s r c d3 d4 k1" and "sc \<notin> {0x3A, 0x2A, 0x36, 0xAA, 0xB6}" and "sc \<noteq> 0"
    and "0x80 \<le> sc \<or> sc \<notin> {0x1C, 0x0E} \<and> key_character (isShift k) (isCapsLock k) sc = 0"
  shows "isr_types B sc k s"
proof -
  note rest = isr_at_cursor [OF assms(1)]
  have k1: "isShift k1 = isShift k" "isCapsLock k1 = isCapsLock k" "keyboard_input_on k1" "keyboard_buffer k1 = 0"
    and isr: "keyboard_isr B k s = isr_after B sc (r, c) d3 d4 k1 s" and rc: "hw_cursor B (dev s) = (r, c)"
    using assms(1) by (simp_all add: isr_at_def)
  show ?thesis
  proof (cases "0x80 \<le> sc")
    case True
    then have "\<not> sc < 0x80" by (simp add: not_less)
    then show ?thesis
      using True assms(2) rest k1 rc by (simp add: isr_types_def isr isr_after_def terminal_of_def terminal_key_def Let_def)
  next
    case False
    then have "press_key sc (r, c) k1 (text_memory s) = (k1\<lparr>keyboard_buffer := 0\<rparr>, None, text_memory s)"
      using assms(2-4) k1 by (intro press_nothing) auto
    moreover have "sc < 0x80" using False by (simp add: not_le)
    ultimately show ?thesis
      using False assms(2-4) rest k1 rc by (simp add: isr_types_def isr isr_after_def terminal_of_def terminal_key_def Let_def)
  qed
qed

lemma isr_shows:
  assumes A: "isr_at B sel regs sc k s r c d3 d4 k1" and row: "r < 25"
    and sc: "sc \<in> {0x1C, 0x0E} \<or> sc < 0x80 \<and> sc \<notin> {0x3A, 0x2A, 0x36} \<and> (key_character (isShift k) (isCapsLock k) sc \<noteq> 0 \<or> sc = 0)"
  shows "isr_types B sc k s"
proof -
  have rc: "hw_cursor B (dev s) = (r, c)" and d: "display_bus B sel regs"
    and k1: "isShift k1 = isShift k" "isCapsLock k1 = isCapsLock k" "keyboard_buffer k1 = 0"
    using A by (simp_all add: isr_at_def)
  note b = hw_cursor_bounds [OF display_crtc [OF d] rc]
  note at = cursor_of_place [OF display_crtc [OF d] rc]
  note out = isr_moves [OF A]
  consider (enter) "sc = 0x1C" | (rubout) "sc = 0x0E"
    | (char) "sc < 0x80" "sc \<notin> {0x3A, 0x2A, 0x36, 0x1C, 0x0E}" "key_character (isShift k) (isCapsLock k) sc \<noteq> 0 \<or> sc = 0"
    using sc by fastforce
  then show ?thesis
  proof cases
    case enter
    show ?thesis
      using out [of "fst (enter_key (r, c) k1)" "(r + 1) * 80" "text_memory s" "text_memory s"] press_enter [of r c k1] enter b row
        shown_cursor [of "(r + 1) * 80"] rc at
      by (simp add: isr_types_def terminal_key_def terminal_of_def Let_def word_less_nat_alt)
  next
    case rubout
    obtain k2 fb' where bs: "press_key 0x0E (r, c) k1 (text_memory s) = (k2, Some (back_one r c div 80, back_one r c mod 80), fb')"
      "keyboard_buffer k2 = 8"
      "cursor_write (back_one r c div 80, back_one r c mod 80) 0 fb' = show_at (back_one r c) 0 (text_memory s)"
      using press_backspace [OF b(3) row b(1,2)] by blast
    have "0 \<le> back_one r c" "back_one r c < 20480" using b row by (simp_all add: back_one_def)
    then show ?thesis
      using out [of k2 "back_one r c" fb' "text_memory s"] bs rubout rc at
      by (simp add: isr_types_def terminal_key_def terminal_of_def Let_def word_less_nat_alt)
  next
    case char
    let ?ch = "key_character (isShift k) (isCapsLock k) sc"
    obtain k2 where k2: "press_key sc (r, c) k1 (text_memory s) =
        (k2, Some ((r * 80 + c + 1) div 80, (r * 80 + c + 1) mod 80), show_at (r * 80 + c) ?ch (text_memory s))"
      "keyboard_buffer k2 = ?ch"
      using press_character [of k1 sc r c "text_memory s"] char row b k1 by auto
    have "sc \<notin> {0xAA, 0xB6}" "\<not> 0x80 \<le> sc" using char(1) by (auto simp: word_less_nat_alt not_le)
    then show ?thesis
      using out [OF k2(1) shown_cursor] k2(2) char b row rc
      by (auto simp: isr_types_def terminal_key_def terminal_of_def Let_def)
  qed
qed

lemma isr_is_terminal_key:
  assumes "display_bus B sel regs" and "fst (in_port B KEYBOARD_DATA_PORT (dev s)) = sc"
    and "place (terminal_of B k s) < 2000" and "keyboard_input_on k" and "keyboard_buffer k = 0"
  shows "case keyboard_isr B k s of (k', s') \<Rightarrow>
    (keyboard_buffer k', terminal_of B k' s') = terminal_key sc (terminal_of B k s) \<and> keyboard_input_on k'"
proof -
  obtain r c where rc: "hw_cursor B (dev s) = (r, c)" by (metis prod.collapse)
  have row: "r < 25"
    using assms(3) hw_cursor_bounds [OF display_crtc [OF assms(1)] rc] rc by (simp add: terminal_of_def)
  obtain d3 d4 where "regs d3 = regs (dev s)" "regs d4 = regs (dev s)" "keyboard_isr B k s = isr_after B sc (r, c) d3 d4 (seen_col c k) s"
    using isr_reads [OF assms(1,2) rc, of k] by metis
  then have A: "isr_at B sel regs sc k s r c d3 d4 (seen_col c k)"
    using assms(1,4,5) rc by (simp add: isr_at_def seen_col_def)
  consider "sc \<in> {0x3A, 0x2A, 0x36, 0xAA, 0xB6}"
    | "sc \<notin> {0x3A, 0x2A, 0x36, 0xAA, 0xB6}" "sc \<noteq> 0" "0x80 \<le> sc \<or> sc \<notin> {0x1C, 0x0E} \<and> key_character (isShift k) (isCapsLock k) sc = 0"
    | "sc \<in> {0x1C, 0x0E} \<or> sc < 0x80 \<and> sc \<notin> {0x3A, 0x2A, 0x36} \<and> (key_character (isShift k) (isCapsLock k) sc \<noteq> 0 \<or> sc = 0)"
    by fastforce
  then have "isr_types B sc k s"
    by cases (use isr_modifier [OF A] isr_silent [OF A] isr_shows [OF A row] in blast)+
  then show ?thesis by (simp add: isr_types_def)
qed

section \<open>Keys and polls\<close>

text \<open>A run of keys on the terminal, and that it begins every key on the screen.\<close>

fun terminal_run :: "u8 list \<Rightarrow> terminal \<Rightarrow> u8 list \<times> terminal" where
  "terminal_run [] t = ([], t)"
| "terminal_run (sc # scs) t =
     (let (ch, t1) = terminal_key sc t; (cs, t2) = terminal_run scs t1 in (ch # cs, t2))"

fun stays_on_screen :: "u8 list \<Rightarrow> terminal \<Rightarrow> bool" where
  "stays_on_screen [] t \<longleftrightarrow> True"
| "stays_on_screen (sc # scs) t \<longleftrightarrow> place t < 2000 \<and> stays_on_screen scs (snd (terminal_key sc t))"

text \<open>\<open>f\<close> is the interrupt frame of a program that polls at the pointer \<open>p\<close>.\<close>

fun polls :: "'d machine \<Rightarrow> interrupt_frame \<Rightarrow> u32 \<Rightarrow> nat \<Rightarrow> 'd kernel \<Rightarrow> ((u8 list \<times> 'd kernel) res) option" where
  "polls M f p 0 k = Some (Inr ([], k))"
| "polls M f p (Suc n) k =
     bindO (main_interrupt_handler M (f\<lparr>int_number := 0x30, if_cpu := registers 4 p 0 0\<rparr>) k) (\<lambda>(k1, _).
     bindO (Some (user_load (mlayout M) p 1 (ksys k1))) (\<lambda>c.
     bindO (polls M f p n k1) (\<lambda>(cs, k2). Some (Inr (c @ cs, k2)))))"

definition key_down :: "'d machine \<Rightarrow> interrupt_frame \<Rightarrow> (u8 \<Rightarrow> 'd \<Rightarrow> 'd) \<Rightarrow> u8 \<Rightarrow> 'd kernel \<Rightarrow>
    (('d kernel \<times> cpu_context option) res) option" where
  "key_down M f press sc k =
     main_interrupt_handler M (f\<lparr>int_number := 0x21\<rparr>) (k\<lparr>con := (con k)\<lparr>dev := press sc (dev (con k))\<rparr>\<rparr>)"

text \<open>Every key comes with the number of further polls before the next one.\<close>

fun typing :: "'d machine \<Rightarrow> interrupt_frame \<Rightarrow> (u8 \<Rightarrow> 'd \<Rightarrow> 'd) \<Rightarrow> u32 \<Rightarrow> (u8 \<times> nat) list \<Rightarrow> 'd kernel \<Rightarrow>
    ((u8 list \<times> 'd kernel) res) option" where
  "typing M f press p [] k = Some (Inr ([], k))"
| "typing M f press p ((sc, n) # keys) k =
     bindO (key_down M f press sc k) (\<lambda>(k1, _).
     bindO (polls M f p (Suc n) k1) (\<lambda>(cs, k2).
     bindO (typing M f press p keys k2) (\<lambda>(ds, k3). Some (Inr (cs @ ds, k3)))))"

text \<open>A key puts its scancode in the data port and leaves the display controller alone.\<close>

definition keyboard_ok :: "'d bus \<Rightarrow> ('d \<Rightarrow> u8 \<Rightarrow> u8) \<Rightarrow> (u8 \<Rightarrow> 'd \<Rightarrow> 'd) \<Rightarrow> bool" where
  "keyboard_ok B regs press \<longleftrightarrow>
     (\<forall>sc d. fst (in_port B KEYBOARD_DATA_PORT (press sc d)) = sc \<and> regs (press sc d) = regs d)"

text \<open>What the program's address space must have, and what is left alone.\<close>

definition can_poll :: "'d machine \<Rightarrow> page_directory \<Rightarrow> u32 \<Rightarrow> 'd kernel \<Rightarrow> bool" where
  "can_poll M d p k \<longleftrightarrow> user_directory (mlayout M) (ksys k) = Inr d \<and> frames_distinct d \<and> mapped d p 1"

definition undisturbed :: "page_directory \<Rightarrow> 'd kernel \<Rightarrow> 'd kernel \<Rightarrow> bool" where
  "undisturbed d k k' \<longleftrightarrow> kept d (ksys k) (ksys k') \<and> fs (ksys k') = fs (ksys k)"

lemma undisturbed_trans: "undisturbed d k k' \<Longrightarrow> undisturbed d k' k'' \<Longrightarrow> undisturbed d k k''"
  by (auto simp: undisturbed_def intro: kept_trans)

lemma undisturbed_can_poll: "undisturbed d k k' \<Longrightarrow> can_poll M d p k \<Longrightarrow> can_poll M d p k'"
  using kept_directory by (fastforce simp: undisturbed_def can_poll_def)

lemma poll_effect:
  assumes "can_poll M d p k"
  shows "\<exists>k'. main_interrupt_handler M (f\<lparr>int_number := 0x30, if_cpu := registers 4 p 0 0\<rparr>) k = Some (Inr (k', None)) \<and>
    user_load (mlayout M) p 1 (ksys k') = Inr [keyboard_buffer (kbd k)] \<and> kbd k' = (kbd k)\<lparr>keyboard_buffer := 0\<rparr> \<and>
    con k' = con k \<and> undisturbed d k k'"
proof -
  have d: "user_directory (mlayout M) (ksys k) = Inr d" "frames_distinct d" "mapped d p 1"
    using assms by (simp_all add: can_poll_def)
  obtain s where s: "user_store (mlayout M) p [keyboard_buffer (kbd k)] (ksys k) = Inr s"
    "user_load (mlayout M) p 1 s = Inr [keyboard_buffer (kbd k)]" "kept d (ksys k) s" "fs s = fs (ksys k)"
    using stored_is_loaded [OF d(1,2), of p "[keyboard_buffer (kbd k)]"] d(3) by auto
  then show ?thesis
    by (simp add: main_interrupt_handler_def pic_constants IRQ_KEYBOARD_def IRQ_TIMER_def syscall_def Let_def with_sys_def get_keyboard_buffer_def
        undisturbed_def)
qed

lemma polls_effect:
  assumes "can_poll M d p k"
  shows "\<exists>k'. polls M f p (Suc n) k = Some (Inr (keyboard_buffer (kbd k) # replicate n 0, k')) \<and>
    kbd k' = (kbd k)\<lparr>keyboard_buffer := 0\<rparr> \<and> con k' = con k \<and> undisturbed d k k'"
  using assms
proof (induction n arbitrary: k)
  case 0
  then show ?case using poll_effect [OF 0, of f] by fastforce
next
  case (Suc n)
  obtain k1 where k1: "main_interrupt_handler M (f\<lparr>int_number := 0x30, if_cpu := registers 4 p 0 0\<rparr>) k = Some (Inr (k1, None))"
    "user_load (mlayout M) p 1 (ksys k1) = Inr [keyboard_buffer (kbd k)]" "kbd k1 = (kbd k)\<lparr>keyboard_buffer := 0\<rparr>"
    "con k1 = con k" "undisturbed d k k1"
    using poll_effect [OF Suc.prems, of f] by blast
  obtain k2 where k2: "polls M f p (Suc n) k1 = Some (Inr (0 # replicate n 0, k2))" "kbd k2 = kbd k1" "con k2 = con k1"
    "undisturbed d k1 k2"
    using Suc.IH [OF undisturbed_can_poll [OF k1(5) Suc.prems]] k1(3) by auto
  have "polls M f p (Suc (Suc n)) k = Some (Inr (keyboard_buffer (kbd k) # replicate (Suc n) 0, k2))"
    by (subst polls.simps(2)) (simp add: k1(1) k1(2) [unfolded One_nat_def] k2(1) del: polls.simps)
  then show ?case using k1 k2 undisturbed_trans by auto
qed

text \<open>One key press, through the interrupt handler.\<close>

lemma key_effect:
  assumes "display_bus (mbus M) sel regs" and "keyboard_ok (mbus M) regs press"
    and "keyboard_input_on (kbd k)" and "keyboard_buffer (kbd k) = 0"
    and "place (terminal_of (mbus M) (kbd k) (con k)) < 2000"
  shows "\<exists>k'. key_down M f press sc k = Some (Inr (k', None)) \<and> ksys k' = ksys k \<and> keyboard_input_on (kbd k') \<and>
    (keyboard_buffer (kbd k'), terminal_of (mbus M) (kbd k') (con k')) = terminal_key sc (terminal_of (mbus M) (kbd k) (con k))"
proof -
  let ?s = "(con k)\<lparr>dev := press sc (dev (con k))\<rparr>"
  have p: "fst (in_port (mbus M) KEYBOARD_DATA_PORT (dev ?s)) = sc" "regs (dev ?s) = regs (dev (con k))"
    using assms(2) by (simp_all add: keyboard_ok_def)
  have t: "terminal_of (mbus M) (kbd k) ?s = terminal_of (mbus M) (kbd k) (con k)"
    using hw_cursor_cong [OF assms(1) p(2)] by (simp add: terminal_of_def)
  show ?thesis
    using isr_is_terminal_key [OF assms(1) p(1) _ assms(3,4)] assms(5)
    by (simp add: t key_down_def main_interrupt_handler_def pic_constants split: prod.splits)
qed

lemma typing_effect:
  assumes "display_bus (mbus M) sel regs" and "keyboard_ok (mbus M) regs press"
    and "can_poll M d p k" and "keyboard_input_on (kbd k)" and "keyboard_buffer (kbd k) = 0"
    and "stays_on_screen (map fst keys) (terminal_of (mbus M) (kbd k) (con k))"
  shows "\<exists>cs k'. typing M f press p keys k = Some (Inr (cs, k')) \<and> keyboard_input_on (kbd k') \<and> undisturbed d k k' \<and>
    (filter (\<lambda>c. c \<noteq> 0) cs, terminal_of (mbus M) (kbd k') (con k')) =
      apfst (filter (\<lambda>c. c \<noteq> 0)) (terminal_run (map fst keys) (terminal_of (mbus M) (kbd k) (con k)))"
  using assms(3-)
proof (induction keys arbitrary: k)
  case Nil
  then show ?case by (simp add: undisturbed_def)
next
  case (Cons key keys)
  obtain sc n where key: "key = (sc, n)" by (cases key)
  let ?t = "\<lambda>k. terminal_of (mbus M) (kbd k) (con k)"
  obtain k1 where k1: "key_down M f press sc k = Some (Inr (k1, None))" "ksys k1 = ksys k" "keyboard_input_on (kbd k1)"
    "(keyboard_buffer (kbd k1), ?t k1) = terminal_key sc (?t k)"
    using key_effect [OF assms(1,2), where sc = sc and k = k and f = f] Cons.prems key by auto
  have c1: "can_poll M d p k1" using Cons.prems(1) k1(2) by (simp add: can_poll_def)
  obtain k2 where k2: "polls M f p (Suc n) k1 = Some (Inr (keyboard_buffer (kbd k1) # replicate n 0, k2))"
    "kbd k2 = (kbd k1)\<lparr>keyboard_buffer := 0\<rparr>" "con k2 = con k1" "undisturbed d k1 k2"
    using polls_effect [OF c1, of f n] by blast
  have u: "undisturbed d k k2" using k2(4) k1(2) by (simp add: undisturbed_def)
  have t2: "?t k2 = ?t k1" using k2(2,3) by (simp add: terminal_of_def)
  have next_ok: "stays_on_screen (map fst keys) (?t k2)" using Cons.prems(4) key k1(4) t2 by simp (metis snd_conv)
  obtain cs k' where IH: "typing M f press p keys k2 = Some (Inr (cs, k'))" "keyboard_input_on (kbd k')" "undisturbed d k2 k'"
    "(filter (\<lambda>c. c \<noteq> 0) cs, ?t k') = apfst (filter (\<lambda>c. c \<noteq> 0)) (terminal_run (map fst keys) (?t k2))"
    using Cons.IH [of k2] undisturbed_can_poll [OF u Cons.prems(1)] k1(3) k2(2) next_ok by auto
  have run: "terminal_run (map fst (key # keys)) (?t k) =
      (let (ds, t') = terminal_run (map fst keys) (?t k2) in (keyboard_buffer (kbd k1) # ds, t'))"
    using key k1(4) [symmetric] t2 by (simp add: split: prod.split)
  have "typing M f press p (key # keys) k = Some (Inr (keyboard_buffer (kbd k1) # replicate n 0 @ cs, k'))"
    by (simp add: key k1(1) k2(1) IH(1) del: polls.simps)
  moreover have "(filter (\<lambda>c. c \<noteq> 0) (keyboard_buffer (kbd k1) # replicate n 0 @ cs), ?t k') =
      apfst (filter (\<lambda>c. c \<noteq> 0)) (terminal_run (map fst (key # keys)) (?t k))"
    unfolding run using IH(4) by (cases "terminal_run (map fst keys) (?t k2)") simp
  ultimately show ?case using IH(2) undisturbed_trans [OF u IH(3)] by blast
qed

section \<open>Properties\<close>

text \<open>
  C29. Typing reaches the program. A program polls the keyboard with system call 4 while keys are
  pressed, each followed by at least one poll; the keys are any scancodes, with input on,
  nothing waiting and the cursor on the screen before each. What the program reads from its own
  memory, but for the empty answers, is what the abstract terminal delivers (\<open>terminal_key\<close>, where scan code 0 shows an empty cell); the display with
  its cursor, shift and caps lock are those of the terminal; and no other byte of memory, no
  file and no process is touched.
\<close>

theorem typing_reaches_program:
  assumes "display_bus (mbus M) sel regs" and "keyboard_ok (mbus M) regs press"
    and "can_poll M d p k" and "keyboard_input_on (kbd k)" and "keyboard_buffer (kbd k) = 0"
    and "stays_on_screen (map fst keys) (terminal_of (mbus M) (kbd k) (con k))"
  shows "\<exists>cs k'. typing M f press p keys k = Some (Inr (cs, k')) \<and> undisturbed d k k' \<and>
    (filter (\<lambda>c. c \<noteq> 0) cs, terminal_of (mbus M) (kbd k') (con k')) =
      apfst (filter (\<lambda>c. c \<noteq> 0)) (terminal_run (map fst keys) (terminal_of (mbus M) (kbd k) (con k)))"
  using typing_effect [OF assms] by blast

text \<open>The shell ignores the empty answers; a line is executed when the newline comes.\<close>

lemma run_keys_zeros: "filter (\<lambda>c. c \<noteq> 0) cs = [] \<Longrightarrow> run_keys (zip js cs) l s = Some (Inr (s, l))"
  by (induction js cs rule: list_induct2') (auto split: if_splits)

text \<open>What a shell does when a line is complete.\<close>

abbreviation line_done :: "junk \<Rightarrow> u8 list \<Rightarrow> shell \<Rightarrow> (shell res) option" where
  "line_done j l s \<equiv> bindO (execute j l (say_line '''' WHITE s)) (\<lambda>s1. Some (print_terminal_text s1))"

lemma run_keys_text:
  assumes "filter (\<lambda>c. c \<noteq> 0) cs = m @ [10]" and "length js = length cs"
    and "8 \<notin> set m" "10 \<notin> set m" and "length l + length m \<le> KEYBOARD_BUFFER_SIZE"
  shows "\<exists>j \<in> set js. run_keys (zip js cs) l s = bindO (line_done j (l @ m) s) (\<lambda>s2. Some (Inr (s2, [])))"
  using assms
proof (induction js cs arbitrary: l m rule: list_induct2')
  case (4 j js c cs)
  show ?case
  proof (cases "c = 0")
    case True
    then show ?thesis using 4 by auto
  next
    case False
    show ?thesis
    proof (cases m)
      case Nil
      then have "c = 10" "filter (\<lambda>c. c \<noteq> 0) cs = []" using "4.prems"(1) False by simp_all
      moreover from this have "run_keys (zip js cs) [] = (\<lambda>s2. Some (Inr (s2, [])))"
        using run_keys_zeros [of cs js] by (simp add: fun_eq_iff)
      ultimately show ?thesis using Nil by (simp add: bindO_assoc)
    next
      case (Cons x xs)
      then have x: "c = x" "filter (\<lambda>c. c \<noteq> 0) cs = xs @ [10]" "x \<noteq> 8" "x \<noteq> 10" "length l < KEYBOARD_BUFFER_SIZE"
        using 4(2-) False by auto
      have "\<exists>j \<in> set js. run_keys (zip js cs) (l @ [x]) s = bindO (line_done j ((l @ [x]) @ xs) s) (\<lambda>s2. Some (Inr (s2, [])))"
        by (rule "4.IH") (use "4.prems" Cons x in auto)
      then show ?thesis using Cons x False by auto
    qed
  qed
qed auto

text \<open>
  C13. A command typed at the keyboard runs. When the terminal delivers the text of a line and then a
  newline for the keys pressed, the shell that is polling executes that line and prompts for
  the next one, however the polls fall between the keys.
\<close>

theorem typed_line_executes:
  assumes "display_bus (mbus M) sel regs" and "keyboard_ok (mbus M) regs press"
    and "can_poll M d p k" and "keyboard_input_on (kbd k)" and "keyboard_buffer (kbd k) = 0"
    and "stays_on_screen (map fst keys) (terminal_of (mbus M) (kbd k) (con k))"
    and "filter (\<lambda>c. c \<noteq> 0) (fst (terminal_run (map fst keys) (terminal_of (mbus M) (kbd k) (con k)))) = l @ [10]"
    and "8 \<notin> set l" "10 \<notin> set l" and "length l \<le> KEYBOARD_BUFFER_SIZE"
  shows "\<exists>cs k'. typing M f press p keys k = Some (Inr (cs, k')) \<and>
    (\<forall>js. length js = length cs \<longrightarrow> (\<exists>j \<in> set js. main_run (zip js cs) (session_of s []) =
      bindO (line_done j l s) (\<lambda>s2. Some (Inr (session_of s2 [])))))"
proof -
  obtain cs k' where r: "typing M f press p keys k = Some (Inr (cs, k'))"
    "(filter (\<lambda>c. c \<noteq> 0) cs, terminal_of (mbus M) (kbd k') (con k')) =
      apfst (filter (\<lambda>c. c \<noteq> 0)) (terminal_run (map fst keys) (terminal_of (mbus M) (kbd k) (con k)))"
    using typing_effect [OF assms(1-6)] by blast
  have cs: "filter (\<lambda>c. c \<noteq> 0) cs = l @ [10]"
    using arg_cong [OF r(2), of fst] assms(7) by simp
  have "\<exists>j \<in> set js. main_run (zip js cs) (session_of s []) = bindO (line_done j l s) (\<lambda>s2. Some (Inr (session_of s2 [])))"
    if js: "length js = length cs" for js
  proof -
    obtain j where "j \<in> set js" "run_keys (zip js cs) [] s = bindO (line_done j l s) (\<lambda>s2. Some (Inr (s2, [])))"
      using run_keys_text [OF cs js assms(8,9), of "[]"] assms(10) by auto
    then show ?thesis by (auto simp: main_run_keys bindO_assoc intro!: bexI [of _ j])
  qed
  then show ?thesis using r(1) by blast
qed

section \<open>A keyboard with a data port, and a display controller\<close>

definition demo_typing_bus :: "(u8 \<times> u8 \<times> (u8 \<Rightarrow> u8)) bus" where
  "demo_typing_bus = \<lparr>
     bus_out = (\<lambda>port v (key, i, r). if port = 0x3D4 then (key, v, r) else if port = 0x3D5 then (key, i, r(i := v)) else (key, i, r)),
     bus_in = (\<lambda>port (key, i, r). (if port = 0x60 then key else r i, (key, i, r)))\<rparr>"

definition demo_press :: "u8 \<Rightarrow> u8 \<times> u8 \<times> (u8 \<Rightarrow> u8) \<Rightarrow> u8 \<times> u8 \<times> (u8 \<Rightarrow> u8)" where
  "demo_press sc = (\<lambda>(_, i, r). (sc, i, r))"

lemma demo_typing_ok:
  "display_bus demo_typing_bus (\<lambda>(_, i, _). i) (\<lambda>(_, _, r). r)" "keyboard_ok demo_typing_bus (\<lambda>(_, _, r). r) demo_press"
  by (simp_all add: display_bus_def crtc_ok_def keyboard_ok_def demo_typing_bus_def demo_press_def in_port_def KEYBOARD_DATA_PORT_def
      split: prod.split)

definition demo_typing_machine :: "(u8 \<times> u8 \<times> (u8 \<Rightarrow> u8)) machine" where
  "demo_typing_machine = \<lparr>mlayout = demo_layout, mbus = demo_typing_bus, mjunk = zero_entry, mjunk_table = []\<rparr>"

definition demo_typing_kernel :: "(u8 \<times> u8 \<times> (u8 \<Rightarrow> u8)) kernel" where
  "demo_typing_kernel = \<lparr>ksys = (boot_sys demo_layout (\<lambda>_. 0) (\<lambda>_. 0))\<lparr>pg := program_paging\<rparr>, kbd = keyboard_state_activate keyboard_start,
     con = \<lparr>text_memory = (\<lambda>_. 7), cur_row = 0, cur_col = 0, dev = (0, 0, \<lambda>_. 0)\<rparr>\<rparr>"

text \<open>l, a capital S, backspace, s, enter.\<close>

definition demo_typing_keys :: "(u8 \<times> nat) list" where
  "demo_typing_keys = [(0x26, 3), (0x2A, 0), (0x1F, 1), (0xAA, 0), (0x0E, 1), (0x1F, 0), (0x1C, 2)]"

lemma demo_can_poll: "can_poll demo_typing_machine program_directory 0x1000 demo_typing_kernel"
  unfolding can_poll_def
proof (intro conjI)
  show "user_directory (mlayout demo_typing_machine) (ksys demo_typing_kernel) = Inr program_directory"
    by (simp add: demo_typing_machine_def demo_typing_kernel_def program_user_directory)
  show "mapped program_directory 0x1000 1" by (rule program_maps) simp_all
qed (rule program_directory_distinct)

lemma demo_terminal:
  "terminal_of demo_typing_bus (kbd demo_typing_kernel) (con demo_typing_kernel) =
    \<lparr>shifted = False, locked = False, screen = (\<lambda>_. 7), place = 0\<rparr>"
  by (simp add: terminal_of_def demo_typing_kernel_def keyboard_state_activate_def keyboard_start_def hw_cursor_def
      get_cursor_regs(1) [OF display_crtc [OF demo_typing_ok(1)]])

lemma demo_key_characters:
  "key_character False False 0x26 = 0x6C" "key_character False False 0x1F = 0x73" "key_character True False 0x1F = 0x53"
  by (simp_all add: key_character_def scancode_tables is_letter_def word_le_nat_alt nth_append Let_def)

lemma demo_typed:
  "terminal_run (map fst demo_typing_keys) \<lparr>shifted = False, locked = False, screen = sc, place = 0\<rparr> =
    ([0x6C, 0, 0x53, 0, 8, 0x73, 10],
     \<lparr>shifted = False, locked = False,
      screen = show_at 80 0 (show_at 2 0 (show_at 1 0x73 (show_at 1 0 (show_at 2 0 (show_at 1 0x53 (show_at 1 0 (show_at 0 0x6C sc))))))),
      place = 80\<rparr>)"
  "stays_on_screen (map fst demo_typing_keys) \<lparr>shifted = False, locked = False, screen = sc, place = 0\<rparr>"
  by (simp_all add: demo_typing_keys_def terminal_key_def demo_key_characters back_one_def word_le_nat_alt Let_def)

theorem typing_reaches_program_witness:
  "\<exists>cs k'. typing demo_typing_machine demo_frame demo_press 0x1000 demo_typing_keys demo_typing_kernel = Some (Inr (cs, k')) \<and>
     filter (\<lambda>c. c \<noteq> 0) cs = [0x6C, 0x53, 8, 0x73, 10] \<and>
     text_memory (con k') 0 = 0x6C \<and> text_memory (con k') 2 = 0x73 \<and> hw_cursor demo_typing_bus (dev (con k')) = (1, 0)"
proof -
  note d = demo_can_poll
  have B: "mbus demo_typing_machine = demo_typing_bus" by (simp add: demo_typing_machine_def)
  note t = demo_terminal
  obtain cs k' where k': "typing demo_typing_machine demo_frame demo_press 0x1000 demo_typing_keys demo_typing_kernel = Some (Inr (cs, k'))"
    "(filter (\<lambda>c. c \<noteq> 0) cs, terminal_of demo_typing_bus (kbd k') (con k')) =
      apfst (filter (\<lambda>c. c \<noteq> 0)) (terminal_run (map fst demo_typing_keys)
        \<lparr>shifted = False, locked = False, screen = (\<lambda>_. 7), place = 0\<rparr>)"
    using typing_reaches_program [where M = demo_typing_machine and press = demo_press and keys = demo_typing_keys and d = program_directory
      and p = "0x1000" and k = demo_typing_kernel and f = demo_frame, unfolded B t]
      demo_typing_ok d demo_typed(2)
    by (force simp: demo_typing_keys_def demo_typing_kernel_def keyboard_state_activate_def keyboard_start_def)
  obtain r c where rc: "hw_cursor demo_typing_bus (dev (con k')) = (r, c)" by (metis prod.collapse)
  have cells: "r * 80 + c = 80" "text_memory (con k') 0 = 0x6C" "text_memory (con k') 2 = 0x73"
    "filter (\<lambda>c. c \<noteq> 0) cs = [0x6C, 0x53, 8, 0x73, 10]"
    using k'(2) rc unfolding demo_typed(1) by (auto simp: terminal_of_def show_at_def)
  have "r = 1 \<and> c = 0"
    using cells(1) hw_cursor_bounds [OF display_crtc [OF demo_typing_ok(1)] rc] by presburger
  then show ?thesis using k'(1) rc cells(2-) by auto
qed

text \<open>The line \<open>ls\<close>.\<close>

theorem typed_line_executes_witness:
  "\<forall>s. \<exists>cs k'. typing demo_typing_machine demo_frame demo_press 0x1000 [(0x26, 3), (0x1F, 1), (0x1C, 2)] demo_typing_kernel = Some (Inr (cs, k')) \<and>
    (\<forall>js. length js = length cs \<longrightarrow> (\<exists>j \<in> set js. main_run (zip js cs) (session_of s []) =
      bindO (line_done j (codes ''ls'') s) (\<lambda>s2. Some (Inr (session_of s2 [])))))"
proof
  fix s
  note d = demo_can_poll
  let ?t = "\<lparr>shifted = False, locked = False, screen = (\<lambda>_. 7), place = 0\<rparr>"
  have t: "terminal_of (mbus demo_typing_machine) (kbd demo_typing_kernel) (con demo_typing_kernel) = ?t"
    using demo_terminal by (simp add: demo_typing_machine_def)
  have run: "filter (\<lambda>c. c \<noteq> 0) (fst (terminal_run (map fst [(0x26, 3 :: nat), (0x1F, 1), (0x1C, 2)]) ?t)) = codes ''ls'' @ [10]"
    "stays_on_screen (map fst [(0x26, 3 :: nat), (0x1F, 1), (0x1C, 2)]) ?t"
    by (simp_all add: terminal_key_def demo_key_characters word_le_nat_alt Let_def codes_def)
  show "\<exists>cs k'. typing demo_typing_machine demo_frame demo_press 0x1000 [(0x26, 3), (0x1F, 1), (0x1C, 2)] demo_typing_kernel = Some (Inr (cs, k')) \<and>
    (\<forall>js. length js = length cs \<longrightarrow> (\<exists>j \<in> set js. main_run (zip js cs) (session_of s []) =
      bindO (line_done j (codes ''ls'') s) (\<lambda>s2. Some (Inr (session_of s2 [])))))"
    by (rule typed_line_executes [where sel = "\<lambda>(_, i, _). i" and regs = "\<lambda>(_, _, r). r" and d = program_directory])
      (use demo_typing_ok d run in \<open>simp_all add: t codes_def KEYBOARD_BUFFER_SIZE_def\<close>,
       simp_all add: demo_typing_machine_def demo_typing_kernel_def keyboard_state_activate_def keyboard_start_def)
qed

end
