(* ===== verification/ShellFind.thy ===== *)
theory ShellFind
  imports ShellFolders
begin

text \<open>
  The search of \<open>find\<close> in \<^verbatim>\<open>src/src/user-shell.c\<close>: an array of 512 nodes with a head and a tail,
  each node with the path that leads to it in two arrays of ten. The reference is a breadth-first
  search of the tree of directories with a list of locations. The code computes it as long as
  the array has room and no path has more than ten components.
\<close>

section \<open>The reference\<close>

text \<open>The first entry behind a directory's own with a name, and the folders in a directory.\<close>

definition hit :: "fat32 \<Rightarrow> u8 list \<Rightarrow> location \<Rightarrow> nat option" where
  "hit f target p = find (\<lambda>k. de_name (dir_at f (unat (fst (last p))) ! k) = target) [1..<DIR_ENTRIES]"

definition folders_among :: "dir_entry list \<Rightarrow> location \<Rightarrow> nat list \<Rightarrow> location list" where
  "folders_among t p ks =
     map (\<lambda>k. p @ [(entry_cluster (t ! k), de_name (t ! k))]) (filter (\<lambda>k. de_attribute (t ! k) = ATR_DIRECTORY) ks)"

definition folders_in :: "fat32 \<Rightarrow> location \<Rightarrow> location list" where
  "folders_in f p = folders_among (dir_at f (unat (fst (last p)))) p [1..<DIR_ENTRIES]"

text \<open>
  \<open>pushed\<close> counts the folders queued so far; None is the end of the resources. The result is the
  location of the directory and the entry in it.
\<close>

function search :: "fat32 \<Rightarrow> u8 list \<Rightarrow> nat \<Rightarrow> location list \<Rightarrow> ((location \<times> dir_entry) option) option" where
  "search f target pushed [] = Some None"
| "search f target pushed (p # ps) =
     (let fs = folders_in f p in
      if pushed + length fs > 510 \<or> (fs \<noteq> [] \<and> length p \<ge> 10) then None
      else case hit f target p of
             Some k \<Rightarrow> Some (Some (p, dir_at f (unat (fst (last p))) ! k))
           | None \<Rightarrow> search f target (pushed + length fs) (ps @ fs))"
  by pat_completeness auto

termination search
  by (relation "measure (\<lambda>(f, target, pushed, ps). 510 - pushed + length ps)") auto

declare search.simps [simp del]

section \<open>The queue\<close>

text \<open>A node of the array stands for a location.\<close>

definition node_for :: "node_dir \<Rightarrow> location \<Rightarrow> bool" where
  "node_for h p \<longleftrightarrow> nama h = snd (last p) \<and> nEff h = length p \<and> p \<noteq> [] \<and> length p \<le> 10 \<and>
     take (length p) (cluster_path h) = map fst p \<and> take (length p) (nama_path h) = map snd p \<and>
     length (cluster_path h) = 10 \<and> length (nama_path h) = 10"

definition node_shape :: "node_dir \<Rightarrow> bool" where
  "node_shape h \<longleftrightarrow> length (cluster_path h) = 10 \<and> length (nama_path h) = 10"

text \<open>The part of the array from the head to the tail is the queue.\<close>

definition queue_for :: "node_dir list \<Rightarrow> nat \<Rightarrow> location list \<Rightarrow> bool" where
  "queue_for q qHead ps \<longleftrightarrow> length q = 512 \<and> list_all node_shape q \<and> qHead + length ps \<le> 511 \<and>
     (\<forall>i<length ps. node_for (q ! (qHead + i)) (ps ! i))"

lemma enqueue_effect:
  assumes "queue_for q qHead ps" and "ps \<noteq> []" and "qHead + length ps < 511" and "length (hd ps) < 10"
  shows "\<exists>q'. enqueue e qHead (q, qHead + length ps - 1, n) = Inr (q', qHead + length ps, n + 1) \<and>
    queue_for q' qHead (ps @ [hd ps @ [(entry_cluster e, de_name e)]])"
proof -
  have q: "length q = 512" "list_all node_shape q" and nodes: "\<forall>i<length ps. node_for (q ! (qHead + i)) (ps ! i)"
    using assms(1) by (auto simp: queue_for_def)
  let ?h = "q ! qHead" and ?q1 = "qHead + length ps"
  have h: "node_for ?h (hd ps)" using spec [OF nodes, of 0] assms(2) by (simp add: hd_conv_nth)
  have t: "Suc (qHead + length ps - 1) = ?q1" "?q1 < 512" "qHead < 512" using assms(2,3) by auto
  have old: "node_shape (q ! ?q1)" using q t(2) by (simp add: list_all_length)
  let ?new = "\<lparr>nama = de_name e, cluster_path = take (nEff ?h) (cluster_path ?h) @ entry_cluster e # drop (nEff ?h + 1) (cluster_path (q ! ?q1)),
      nEff = nEff ?h + 1, nama_path = take (nEff ?h) (nama_path ?h) @ de_name e # drop (nEff ?h + 1) (nama_path (q ! ?q1))\<rparr>"
  have new: "node_for ?new (hd ps @ [(entry_cluster e, de_name e)])"
    using h old assms(4) by (auto simp: node_for_def node_shape_def min_def)
  have "enqueue e qHead (q, qHead + length ps - 1, n) = Inr (q[?q1 := ?new], ?q1, n + 1)"
    using h q t assms(3,4) by (simp add: enqueue_def arr_get_def node_for_def Let_def)
  moreover have "queue_for (q[?q1 := ?new]) qHead (ps @ [hd ps @ [(entry_cluster e, de_name e)]])"
  proof -
    have "list_all node_shape (q[?q1 := ?new])"
      using q new t(2) by (auto simp: list_all_length nth_list_update node_for_def node_shape_def)
    moreover have "node_for (q[?q1 := ?new] ! (qHead + i)) ((ps @ [hd ps @ [(entry_cluster e, de_name e)]]) ! i)"
      if "i < length ps + 1" for i
      using that nodes new q(1) t(2) by (cases "i = length ps") (auto simp: nth_append)
    ultimately show ?thesis using q(1) assms(3) by (simp add: queue_for_def)
  qed
  ultimately show ?thesis by blast
qed

text \<open>One directory: the entries from \<open>ks\<close> on.\<close>

lemma entries_effect:
  assumes "table_ok t" and "\<forall>k \<in> set ks. k < 64" and "length target = 8"
    and "queue_for q qHead ps" and "ps \<noteq> []"
    and "qHead + length ps + length (folders_among t (hd ps) ks) \<le> 511"
    and "folders_among t (hd ps) ks \<noteq> [] \<longrightarrow> length (hd ps) < 10"
  shows "case find (\<lambda>k. de_name (t ! k) = target) ks of
      Some k \<Rightarrow> \<exists>h. node_for h (hd ps) \<and>
        forE (find_entry target n qHead t s) ks (q, qHead + length ps - 1, length ps) = Inr (Ret (print_found target n h (t ! k) s))
    | None \<Rightarrow> \<exists>q'. queue_for q' qHead (ps @ folders_among t (hd ps) ks) \<and>
        forE (find_entry target n qHead t s) ks (q, qHead + length ps - 1, length ps) =
          Inr (Next (q', qHead + length ps + length (folders_among t (hd ps) ks) - 1, length ps + length (folders_among t (hd ps) ks)))"
  using assms(2,4-)
proof (induction ks arbitrary: q ps)
  case Nil
  then show ?case by (auto simp: folders_among_def)
next
  case (Cons k ks)
  have k: "k < 64" using Cons.prems(1) by simp
  then have nm: "length (de_name (t ! k)) = 8" using assms(1) by (simp add: table_ok_def entry_ok_def)
  have cmp: "bytes_cmp (de_name (t ! k)) target = 0 \<longleftrightarrow> de_name (t ! k) = target"
    by (rule bytes_cmp_eq_0) (simp add: nm assms(3))
  show ?case
  proof (cases "de_name (t ! k) = target")
    case True
    have "node_for (q ! qHead) (hd ps)" "qHead < length q"
      using Cons.prems(2,3) by (force simp: queue_for_def hd_conv_nth)+
    then show ?thesis using True cmp by (auto simp: find_entry_def arr_get_def)
  next
    case False
    show ?thesis
    proof (cases "de_attribute (t ! k) = ATR_DIRECTORY")
      case True
      have fa: "folders_among t (hd ps) (k # ks) = (hd ps @ [(entry_cluster (t ! k), de_name (t ! k))]) # folders_among t (hd ps) ks"
        using True by (simp add: folders_among_def)
      obtain q' where q': "enqueue (t ! k) qHead (q, qHead + length ps - 1, length ps) = Inr (q', qHead + length ps, length ps + 1)"
        "queue_for q' qHead (ps @ [hd ps @ [(entry_cluster (t ! k), de_name (t ! k))]])"
        using enqueue_effect [OF Cons.prems(2,3), of "t ! k" "length ps"] Cons.prems(4,5) unfolding fa by auto
      let ?ps = "ps @ [hd ps @ [(entry_cluster (t ! k), de_name (t ! k))]]"
      have hd: "hd ?ps = hd ps" using Cons.prems(3) by simp
      have body: "find_entry target n qHead t s k (q, qHead + length ps - 1, length ps) = Inr (Next (q', qHead + length ps, length ps + 1))"
        using False True cmp q'(1) by (simp add: find_entry_def)
      have "case find (\<lambda>k. de_name (t ! k) = target) ks of
          Some k \<Rightarrow> \<exists>h. node_for h (hd ?ps) \<and>
            forE (find_entry target n qHead t s) ks (q', qHead + length ?ps - 1, length ?ps) = Inr (Ret (print_found target n h (t ! k) s))
        | None \<Rightarrow> \<exists>q''. queue_for q'' qHead (?ps @ folders_among t (hd ?ps) ks) \<and>
            forE (find_entry target n qHead t s) ks (q', qHead + length ?ps - 1, length ?ps) =
              Inr (Next (q'', qHead + length ?ps + length (folders_among t (hd ?ps) ks) - 1, length ?ps + length (folders_among t (hd ?ps) ks)))"
        by (rule Cons.IH) (use Cons.prems q'(2) fa in \<open>auto simp: hd\<close>)
      then show ?thesis using False body fa unfolding hd by (simp split: option.splits)
    next
      case nd: False
      have fa: "folders_among t (hd ps) (k # ks) = folders_among t (hd ps) ks" using nd by (simp add: folders_among_def)
      have body: "find_entry target n qHead t s k (q, qHead + length ps - 1, length ps) = Inr (Next (q, qHead + length ps - 1, length ps))"
        using False nd cmp by (simp add: find_entry_def)
      show ?thesis using Cons.IH [OF _ Cons.prems(2,3)] Cons.prems False body unfolding fa by (simp split: option.splits)
    qed
  qed
qed

section \<open>The search\<close>

text \<open>What the listing prints and leaves alone.\<close>

definition tells :: "shell \<Rightarrow> u8 list \<Rightarrow> shell \<Rightarrow> bool" where
  "tells s text s' \<longleftrightarrow> (\<exists>es. s' = s\<lparr>trace := trace s @ es\<rparr> \<and> printed es = text)"

definition path_text :: "location \<Rightarrow> u8 list" where
  "path_text p = concat (map (\<lambda>x. trim (snd x) @ codes ''/'') p)"

definition found_text :: "u8 list \<Rightarrow> nat \<Rightarrow> location \<Rightarrow> dir_entry \<Rightarrow> u8 list" where
  "found_text target n p e = take n target @ codes '' ditemukan pada'' @ [10] @ path_text p @ de_name e @ [10]"

definition search_text :: "u8 list \<Rightarrow> nat \<Rightarrow> (location \<times> dir_entry) option \<Rightarrow> u8 list" where
  "search_text target n r = (case r of None \<Rightarrow> codes ''file/folder tidak ditemukan'' @ [10] | Some (p, e) \<Rightarrow> found_text target n p e)"

lemma tells_call: "tells s x s1 \<Longrightarrow> tells s (x @ t) (call (Put t k) s1)"
  by (auto simp: tells_def call_def)

lemma tells_refl: "tells s [] s"
  by (auto simp: tells_def intro: exI [of _ "[]"])

lemma tells_path: "tells s x s1 \<Longrightarrow> tells s (x @ path_text p) (print_path (map snd p) s1)"
proof (induction p arbitrary: x s1)
  case Nil
  then show ?case by (simp add: path_text_def)
next
  case (Cons a p)
  have "tells s (x @ trim (snd a) @ codes ''/'') (say ''/'' BLUE (put (snd a) (name_length (snd a)) BLUE s1))"
    using tells_call [where t = "codes ''/''" and k = BLUE, OF tells_call [where t = "trim (snd a)" and k = BLUE, OF Cons.prems]]
    by (simp add: say_call)
  from Cons.IH [OF this] show ?case by (simp add: path_text_def)
qed

lemma codes_Nil: "codes [] = []"
  by (simp add: codes_def)

lemma tells_found:
  assumes "node_for h p" and "length (de_name e) = 8"
  shows "tells s (found_text target n p e) (print_found target n h e s)"
proof -
  have h: "take (nEff h) (nama_path h) = map snd p" using assms(1) by (simp add: node_for_def)
  have t: "tells s (take n target @ codes '' ditemukan pada'' @ [10]) (say_line '' ditemukan pada'' WHITE (put target n GRAY s))"
    using tells_call [where t = "codes '' ditemukan pada'' @ [10]" and k = WHITE,
        OF tells_call [where t = "take n target" and k = GRAY, OF tells_refl]] by (simp add: say_call)
  have "tells s (((take n target @ codes '' ditemukan pada'' @ [10]) @ path_text p) @ de_name e @ [10]) (print_found target n h e s)"
    using tells_call [where t = "[10]" and k = WHITE, OF tells_call [where t = "de_name e" and k = BLUE, OF tells_path [OF t, of p]]] assms(2)
    by (simp add: print_found_def h say_call codes_Nil)
  then show ?thesis by (simp add: found_text_def)
qed

text \<open>Every node's directory is the one it names, in a tree whose folders have names.\<close>

definition all_named :: "fat32 \<Rightarrow> nat set \<Rightarrow> bool" where
  "all_named f D \<longleftrightarrow> (\<forall>c \<in> D. \<forall>k. 1 \<le> k \<and> k < 64 \<and> de_attribute (dir_at f c ! k) = ATR_DIRECTORY \<longrightarrow> de_name (dir_at f c ! k) ! 0 \<noteq> 0)"

lemma location_listed:
  assumes "linked (disk s) p" and "tree (disk s) D"
  shows "list_directory jm (snd (last p)) (parent_cluster p) s = Inr (0, dir_at (disk s) (unat (fst (last p))))"
proof -
  obtain e where e: "lookup (disk s) (unat (parent_cluster p)) (snd (last p)) = Some e" "entry_cluster e = fst (last p)" "de_filesize e = 0"
    "unat (parent_cluster p) < 512" "unat (fst (last p)) \<in> D"
    using linked_resolves [OF assms] by blast
  then have "unat (fst (last p)) < 512" using tree_basics(6) [OF assms(2)] by blast
  then show ?thesis using list_directory_found [of "parent_cluster p" s "snd (last p)" e jm] e by simp
qed

lemma folders_linked:
  assumes "linked f p" and "tree f D" and "all_named f D" and "p' \<in> set (folders_in f p)"
  shows "linked f p'"
proof -
  have "unat (fst (last p)) \<in> D" using linked_resolves [OF assms(1,2)] by blast
  then show ?thesis
    using assms(3,4) by (auto simp: folders_in_def folders_among_def DIR_ENTRIES_val all_named_def directory_entry_def
        intro!: linked.child [OF assms(1) refl])
qed

text \<open>The node the code asks for: the parent's cluster is the last but one of the path.\<close>

lemma node_parent:
  assumes "node_for h p"
  shows "cluster_path h ! (if nEff h = 1 then 0 else nEff h - 2) = parent_cluster p"
    "(if nEff h = 1 then 0 else nEff h - 2) < length (cluster_path h)"
proof -
  let ?i = "if nEff h = 1 then 0 else nEff h - 2"
  have h: "nEff h = length p" "p \<noteq> []" "length p \<le> 10" "take (length p) (cluster_path h) = map fst p" "length (cluster_path h) = 10"
    using assms by (simp_all add: node_for_def)
  have i: "?i < length p" "?i = length p - 2" using h(1,2) by (cases p; auto)+
  show "?i < length (cluster_path h)" using i(1) h(3,5) by simp
  have "cluster_path h ! ?i = take (length p) (cluster_path h) ! ?i" using i(1) by simp
  then show "cluster_path h ! ?i = parent_cluster p" using h(4) i unfolding parent_cluster_def by simp
qed

lemma store_code_zero: "w AND NOT 0xFF = 0 \<Longrightarrow> store_code w 0 = 0"
  by (simp add: store_code_def)

lemma find_loop_searches:
  assumes "search (disk s) target pushed ps = Some r" and "tree (disk s) D" and "all_named (disk s) D"
    and "\<forall>p \<in> set ps. linked (disk s) p" and "queue_for q qHead ps" and "pushed + 1 = qHead + length ps"
    and "length target = 8" and "\<And>i. snd (junk_round j i) AND NOT 0xFF = 0"
  shows "\<exists>s'. find_loop j target n qHead (q, pushed, length ps) s = Some (Inr s') \<and> tells s (search_text target n r) s'"
  using assms(1,4-7)
proof (induction "disk s" target pushed ps arbitrary: q qHead rule: search.induct)
  case (1 target pushed)
  then show ?case
    using tells_call [where k = RED, OF tells_refl, of s "codes ''file/folder tidak ditemukan'' @ [10]"]
    by (subst find_loop.simps) (simp add: search.simps search_text_def say_call)
next
  case (2 target pushed p ps)
  let ?t = "dir_at (disk s) (unat (fst (last p)))" and ?fs = "folders_in (disk s) p"
  have lp: "linked (disk s) p" using "2.prems"(2) by simp
  have room: "pushed + length ?fs \<le> 510" "?fs \<noteq> [] \<longrightarrow> length p < 10"
    using "2.prems"(1) by (auto simp: search.simps Let_def split: if_splits)
  have h: "node_for (q ! qHead) p" "qHead < length q" using "2.prems"(3) by (force simp: queue_for_def)+
  have rd: "list_directory (fst (junk_round j qHead)) (nama (q ! qHead)) (cluster_path (q ! qHead) ! (if nEff (q ! qHead) = 1 then 0 else nEff (q ! qHead) - 2)) s =
      Inr (0, ?t)"
    using location_listed [OF lp assms(2)] node_parent(1) [OF h(1)] h(1) by (simp add: node_for_def)
  have tail: "qHead + length (p # ps) - 1 = pushed" "qHead + length (p # ps) + m - 1 = pushed + m" for m
    using "2.prems"(4) by simp_all
  have fs: "folders_among ?t p [1..<DIR_ENTRIES] = ?fs" by (simp only: folders_in_def)
  have t: "table_ok ?t" "\<forall>k \<in> set [1..<DIR_ENTRIES]. k < 64" by (simp_all add: DIR_ENTRIES_val)
  have eff: "case hit (disk s) target p of
      Some k \<Rightarrow> \<exists>h. node_for h p \<and>
        forE (find_entry target n qHead ?t s) [1..<DIR_ENTRIES] (q, pushed, length (p # ps)) = Inr (Ret (print_found target n h (?t ! k) s))
    | None \<Rightarrow> \<exists>q'. queue_for q' qHead ((p # ps) @ ?fs) \<and>
        forE (find_entry target n qHead ?t s) [1..<DIR_ENTRIES] (q, pushed, length (p # ps)) =
          Inr (Next (q', pushed + length ?fs, length (p # ps) + length ?fs))"
    unfolding hit_def
    by (rule entries_effect [OF t "2.prems"(5) "2.prems"(3), where n = n and s = s, unfolded list.sel(1) fs tail])
      (use room "2.prems"(4) in auto)
  have step: "find_loop j target n qHead (q, pushed, length (p # ps)) s =
      (case forE (find_entry target n qHead ?t s) [1..<DIR_ENTRIES] (q, pushed, length (p # ps)) of
          Inl e \<Rightarrow> Some (Inl e)
        | Inr (Ret s2) \<Rightarrow> Some (Inr s2)
        | Inr (Next st1) \<Rightarrow> find_loop j target n (qHead + 1) (fst st1, fst (snd st1), snd (snd st1) - 1) s
        | Inr (Brk st1) \<Rightarrow> find_loop j target n (qHead + 1) (fst st1, fst (snd st1), snd (snd st1) - 1) s)"
    using h(2) node_parent(2) [OF h(1)] rd store_code_zero [OF assms(8)]
    by (subst find_loop.simps) (simp add: arr_get_def)
  show ?case
  proof (cases "hit (disk s) target p")
    case None
    obtain q' where q': "queue_for q' qHead ((p # ps) @ ?fs)"
      "forE (find_entry target n qHead ?t s) [1..<DIR_ENTRIES] (q, pushed, length (p # ps)) =
        Inr (Next (q', pushed + length ?fs, length (p # ps) + length ?fs))" using eff None by auto
    have q1: "queue_for q' (qHead + 1) (ps @ ?fs)"
      using q'(1) by (auto simp: queue_for_def)
    have "search (disk s) target (pushed + length ?fs) (ps @ ?fs) = Some r"
      using "2.prems"(1) None room by (simp add: search.simps(2) Let_def split: if_splits)
    moreover have "\<forall>p \<in> set (ps @ ?fs). linked (disk s) p"
      using "2.prems"(2) folders_linked [OF lp assms(2,3)] by auto
    ultimately have "\<exists>s'. find_loop j target n (qHead + 1) (q', pushed + length ?fs, length (ps @ ?fs)) s = Some (Inr s') \<and>
        tells s (search_text target n r) s'"
      using "2.hyps" [OF refl _ None, of q' "qHead + 1"] room q1 "2.prems"(4,5) by (auto simp: not_le)
    then show ?thesis unfolding step q'(2) by simp
  next
    case (Some k)
    then obtain h where h: "node_for h p"
      "forE (find_entry target n qHead ?t s) [1..<DIR_ENTRIES] (q, pushed, length (p # ps)) = Inr (Ret (print_found target n h (?t ! k) s))"
      using eff by auto
    have "k < 64" using Some by (simp add: hit_def find_upt_Some DIR_ENTRIES_val)
    then have "length (de_name (?t ! k)) = 8" by simp
    moreover have "r = Some (p, ?t ! k)" using "2.prems"(1) Some room by (simp add: search.simps(2) Let_def split: if_splits)
    ultimately show ?thesis unfolding step h(2) using tells_found [OF h(1)] by (simp add: search_text_def)
  qed
qed

section \<open>What the search finds\<close>

text \<open>The places with an entry of that name, and that the queue has an ancestor of each.\<close>

definition hits :: "fat32 \<Rightarrow> u8 list \<Rightarrow> location \<Rightarrow> bool" where
  "hits f target p \<longleftrightarrow> linked f p \<and> hit f target p \<noteq> None"

definition covers :: "fat32 \<Rightarrow> u8 list \<Rightarrow> location list \<Rightarrow> bool" where
  "covers f target ps \<longleftrightarrow> (\<forall>p'. hits f target p' \<longrightarrow> (\<exists>p \<in> set ps. \<exists>xs. p' = p @ xs))"

text \<open>The locations in the order of their depth, which differs by one at most.\<close>

definition levelled :: "location list \<Rightarrow> bool" where
  "levelled ps \<longleftrightarrow> sorted (map length ps) \<and> (\<forall>p \<in> set ps. length p \<le> length (hd ps) + 1)"

lemma linked_child:
  assumes "linked f (p @ x # xs)" and "p \<noteq> []"
  shows "p @ [x] \<in> set (folders_in f p)"
  using assms(1)
proof (induction xs rule: rev_induct)
  case Nil
  then show ?case
  proof (cases rule: linked.cases)
    case root
    then show ?thesis using assms(2) by (auto simp: append_eq_Cons_conv)
  next
    case (child st t k)
    then show ?thesis by (auto simp: folders_in_def folders_among_def directory_entry_def DIR_ENTRIES_val intro!: image_eqI [of _ _ k])
  qed
next
  case (snoc y ys)
  have "linked f (p @ x # ys)"
    using snoc.prems
  proof (cases rule: linked.cases)
    case root
    then show ?thesis using assms(2) by (auto simp: append_eq_Cons_conv)
  next
    case (child st t k)
    then have "st = p @ x # ys" by (metis append_Cons append_assoc butlast_snoc)
    then show ?thesis using child by simp
  qed
  then show ?case by (rule snoc.IH)
qed

lemma covers_next:
  assumes "covers f target (p # ps)" and "hit f target p = None" and "p \<noteq> []"
  shows "covers f target (ps @ folders_in f p)"
  unfolding covers_def
proof (intro allI impI)
  fix p' assume h: "hits f target p'"
  then obtain q xs where q: "q \<in> set (p # ps)" "p' = q @ xs" using assms(1) unfolding covers_def by blast
  show "\<exists>q \<in> set (ps @ folders_in f p). \<exists>xs. p' = q @ xs"
  proof (cases "q = p")
    case True
    have "xs \<noteq> []"
    proof
      assume "xs = []"
      then have "p' = p" using q(2) True by simp
      then show False using h assms(2) by (simp add: hits_def)
    qed
    then obtain x ys where xs: "xs = x # ys" by (cases xs) simp_all
    have "linked f (p @ x # ys)" using h q(2) True xs by (simp add: hits_def)
    then have "p @ [x] \<in> set (ps @ folders_in f p)" using linked_child assms(3) by simp
    moreover have "p' = (p @ [x]) @ ys" using q(2) True xs by simp
    ultimately show ?thesis by blast
  next
    case False
    then show ?thesis using q by auto
  qed
qed

lemma folders_length: "q \<in> set (folders_in f p) \<Longrightarrow> length q = length p + 1"
  by (auto simp: folders_in_def folders_among_def)

lemma levelled_next:
  assumes "levelled (p # ps)"
  shows "levelled (ps @ folders_in f p)"
proof -
  have fl: "map length (folders_in f p) = replicate (length (folders_in f p)) (length p + 1)"
    by (rule replicate_eqI) (use folders_length in auto)
  have s: "sorted (map length ps)" "\<forall>q \<in> set ps. length p \<le> length q \<and> length q \<le> length p + 1"
    using assms unfolding levelled_def by simp_all
  have "sorted (map length (ps @ folders_in f p))"
    unfolding map_append fl sorted_append using s by (simp add: sorted_replicate)
  moreover have "length q \<le> length (hd (ps @ folders_in f p)) + 1" if q: "q \<in> set (ps @ folders_in f p)" for q
  proof -
    have "length q \<le> length p + 1" using q s(2) folders_length [of q f p] by auto
    moreover have "length p \<le> length (hd (ps @ folders_in f p))"
    proof (cases ps)
      case Nil
      then have "hd (ps @ folders_in f p) \<in> set (folders_in f p)" using q by (cases "folders_in f p") auto
      then show ?thesis using folders_length by fastforce
    next
      case (Cons a as)
      then show ?thesis using s(2) by simp
    qed
    ultimately show ?thesis by simp
  qed
  ultimately show ?thesis by (simp add: levelled_def)
qed

lemma search_right:
  assumes "search f target pushed ps = Some r" and "tree f D" and "all_named f D"
    and "\<forall>p \<in> set ps. linked f p" and "covers f target ps" and "levelled ps"
  shows "case r of
      None \<Rightarrow> \<forall>p. \<not> hits f target p
    | Some (p, e) \<Rightarrow> linked f p \<and> (\<exists>k. hit f target p = Some k \<and> e = dir_at f (unat (fst (last p))) ! k) \<and>
        (\<forall>p'. hits f target p' \<longrightarrow> length p \<le> length p')"
  using assms
proof (induction f target pushed ps rule: search.induct)
  case (1 f target pushed)
  then show ?case by (auto simp: search.simps covers_def)
next
  case (2 f target pushed p ps)
  have lp: "linked f p" "p \<noteq> []" using "2.prems"(4) linked_not_Nil by auto
  have room: "\<not> (pushed + length (folders_in f p) > 510 \<or> folders_in f p \<noteq> [] \<and> length p \<ge> 10)"
    using "2.prems"(1) by (auto simp: search.simps Let_def split: if_splits)
  show ?case
  proof (cases "hit f target p")
    case None
    have "search f target (pushed + length (folders_in f p)) (ps @ folders_in f p) = Some r"
      using "2.prems"(1) None room by (simp add: search.simps(2) Let_def)
    moreover have "\<forall>q \<in> set (ps @ folders_in f p). linked f q"
      using "2.prems"(4) folders_linked [OF lp(1) "2.prems"(2,3)] by auto
    ultimately show ?thesis
      using "2.IH" [OF refl room None] "2.prems"(2,3) covers_next [OF "2.prems"(5) None lp(2)] levelled_next [OF "2.prems"(6)]
      by blast
  next
    case (Some k)
    have "r = Some (p, dir_at f (unat (fst (last p))) ! k)"
      using "2.prems"(1) Some room by (simp add: search.simps(2) Let_def)
    moreover have "length p \<le> length p'" if h: "hits f target p'" for p'
    proof -
      obtain q xs where q: "q \<in> set (p # ps)" "p' = q @ xs" using "2.prems"(5) h unfolding covers_def by blast
      then have "length p \<le> length q" using "2.prems"(6) by (auto simp: levelled_def)
      then show ?thesis using q(2) by simp
    qed
    ultimately show ?thesis using lp(1) Some by auto
  qed
qed

section \<open>The property\<close>

definition queue_junk_ok :: "junk \<Rightarrow> bool" where
  "queue_junk_ok j \<longleftrightarrow> length (junk_queue j) = 512 \<and> list_all node_shape (junk_queue j) \<and>
     (\<forall>i. snd (junk_round j i) AND NOT 0xFF = 0)"

abbreviation root_location :: location where
  "root_location \<equiv> [(ROOT_CLUSTER_NUMBER, root_name)]"

lemma length_target_name [simp]: "length (target_name c n) = 8"
  by (simp add: target_name_def)

lemma first_updated: "length xs = 10 \<Longrightarrow> take (Suc 0) (xs[0 := x]) = [x]"
  by (cases xs) simp_all

lemma linked_starts: "linked f p \<Longrightarrow> \<exists>xs. p = root_location @ xs"
  by (induction rule: linked.induct) auto

text \<open>
  C14. \<open>find\<close> is a breadth-first search of the tree of directories. In a tree whose folders all have
  names, when the queue has room for its folders and no path is longer than ten, the command
  comes back and prints what the search with a list computes: the path to a directory of least
  depth that has an entry of that name and the entry there, or that there is none, and then
  indeed no directory that can be reached has one.
\<close>

theorem find_is_breadth_first:
  assumes "tree (disk s) D" and "all_named (disk s) D" and "queue_junk_ok j" and "len \<le> 13"
    and "target_name command len \<noteq> root_name"
    and "search (disk s) (target_name command len) 0 [root_location] = Some r"
  shows "(\<exists>s'. find_command j command len s = Some (Inr s') \<and> tells s (search_text (target_name command len) (min 8 (len - 5)) r) s') \<and>
    (case r of
       None \<Rightarrow> \<forall>p. \<not> hits (disk s) (target_name command len) p
     | Some (p, e) \<Rightarrow> linked (disk s) p \<and>
         (\<exists>k. hit (disk s) (target_name command len) p = Some k \<and> e = dir_at (disk s) (unat (fst (last p))) ! k) \<and>
         (\<forall>p'. hits (disk s) (target_name command len) p' \<longrightarrow> length p \<le> length p'))"
proof -
  let ?q = "(junk_queue j)[0 := root_node (junk_queue j ! 0)]"
  have j: "length (junk_queue j) = 512" "list_all node_shape (junk_queue j)" "\<And>i. snd (junk_round j i) AND NOT 0xFF = 0"
    using assms(3) by (simp_all add: queue_junk_ok_def)
  then have old: "node_shape (junk_queue j ! 0)" by (simp add: list_all_length)
  have len8: "length root_name = 8" by (simp add: root_name_def)
  have new: "node_for (root_node (junk_queue j ! 0)) root_location"
    using old by (simp add: node_for_def node_shape_def root_node_def ROOT_CLUSTER_NUMBER_def first_updated)
  have q: "queue_for ?q 0 [root_location]"
    using j new by (auto simp: queue_for_def list_all_length nth_list_update node_for_def node_shape_def)
  have lk: "\<forall>p \<in> set [root_location]. linked (disk s) p" using linked.root by simp
  have "covers (disk s) (target_name command len) [root_location]"
    using linked_starts by (auto simp: covers_def hits_def)
  moreover have "levelled [root_location]" by (simp add: levelled_def)
  ultimately have right: "case r of
       None \<Rightarrow> \<forall>p. \<not> hits (disk s) (target_name command len) p
     | Some (p, e) \<Rightarrow> linked (disk s) p \<and>
         (\<exists>k. hit (disk s) (target_name command len) p = Some k \<and> e = dir_at (disk s) (unat (fst (last p))) ! k) \<and>
         (\<forall>p'. hits (disk s) (target_name command len) p' \<longrightarrow> length p \<le> length p')"
    by (rule search_right [OF assms(6,1,2) lk])
  have "bytes_cmp root_name (target_name command len) = 0 \<longleftrightarrow> root_name = target_name command len"
    by (rule bytes_cmp_eq_0) (simp add: len8)
  then have "find_command j command len s = find_loop j (target_name command len) (min 8 (len - 5)) 0 (?q, 0, length [root_location]) s"
    using assms(4,5) by (simp add: find_command_def Let_def)
  moreover have "\<exists>s'. find_loop j (target_name command len) (min 8 (len - 5)) 0 (?q, 0, length [root_location]) s = Some (Inr s') \<and>
      tells s (search_text (target_name command len) (min 8 (len - 5)) r) s'"
    by (rule find_loop_searches [OF assms(6,1,2) lk q _ length_target_name j(3)]) simp
  ultimately show ?thesis using right by simp
qed

text \<open>The root with the folder \<open>docs\<close> in it.\<close>

lemma demo2_root: "dir_at (disk demo_shell2) 2 = demo_root[1 := folder_entry zero_entry (mkdir_request demo_shell docs) 3]"
proof -
  have p: "parent_of (mkdir_request demo_shell docs) = 2" by (simp add: mkdir_request_def parent_of_def demo_shell_def)
  have rq: "request_ok (mkdir_request demo_shell docs)" using demo_can_mkdir by (simp add: can_mkdir_def)
  show ?thesis
    using after_mkdir_dirs(1) [OF rq, of zero_entry "replicate 64 zero_entry" demo_fs 1 3] demo_junk_ok demo_free_slot p
    by (simp add: demo_shell2_def demo_shell_junk_def junk_ok_def demo_shell_def)
qed

lemma demo2_folder: "dir_at (disk demo_shell2) 3 = init_directory_table (replicate 64 zero_entry) docs 2"
proof -
  have p: "parent_of (mkdir_request demo_shell docs) = 2" by (simp add: mkdir_request_def parent_of_def demo_shell_def)
  have rq: "request_ok (mkdir_request demo_shell docs)" using demo_can_mkdir by (simp add: can_mkdir_def)
  show ?thesis
    using after_mkdir_dirs(2) [OF rq, of zero_entry "replicate 64 zero_entry" demo_fs 1 3] demo_junk_ok demo_free_slot p
    by (simp add: demo_shell2_def demo_shell_junk_def junk_ok_def demo_shell_def mkdir_request_def)
qed

theorem find_is_breadth_first_witness:
  "\<exists>s' p e. find_command demo_shell_junk (codes ''find docs'') 9 demo_shell2 = Some (Inr s') \<and>
     tells demo_shell2 (found_text docs 4 p e) s' \<and> p = [(2, root_name)] \<and> de_name e = docs"
proof -
  let ?f = "disk demo_shell2"
  let ?e = "folder_entry zero_entry (mkdir_request demo_shell docs) 3"
  have e: "de_name ?e = docs" "de_attribute ?e = ATR_DIRECTORY"
    by (simp_all add: folder_entry_def mkdir_request_def)
  have target: "target_name (codes ''find docs'') 9 = docs"
    by (simp add: target_name_def docs_def codes_def upt_rec)
  have z: "de_attribute zero_entry \<noteq> ATR_DIRECTORY" by (simp add: zero_entry_def entry_of_def ATR_DIRECTORY_def)
  have two: "unat (ROOT_CLUSTER_NUMBER :: u32) = 2" by (simp add: ROOT_CLUSTER_NUMBER_def)
  have d2: "dir_at ?f 2 ! k = (if k = 1 then ?e else zero_entry)" if "1 \<le> k" "k < 64" for k
  proof -
    have "length demo_root = 64" using table_ok_dir_at [of demo_fs 2] by (simp add: table_ok_def del: table_ok_dir_at)
    then show ?thesis using that by (simp add: demo2_root demo_root_nth nth_list_update del: One_nat_def)
  qed
  have d3: "dir_at ?f 3 ! k = zero_entry" if "1 \<le> k" "k < 64" for k
    using that by (simp add: demo2_folder init_directory_table_nth)
  have named: "all_named ?f {3, 2}"
    using docs_facts(2) by (auto simp: all_named_def d2 d3 e z)
  have u: "[1..<DIR_ENTRIES] = 1 # [2..<DIR_ENTRIES]"
    by (simp add: DIR_ENTRIES_val upt_conv_Cons numeral_2_eq_2 del: upt_Suc)
  have "filter (\<lambda>k. de_attribute (dir_at ?f 2 ! k) = ATR_DIRECTORY) [1..<DIR_ENTRIES] = [1]"
    unfolding u using d2 [of 1] by (auto simp: filter_empty_conv d2 e z DIR_ENTRIES_val)
  then have "folders_in ?f root_location = [root_location @ [(entry_cluster (dir_at ?f 2 ! 1), docs)]]"
    using d2 [of 1] e by (simp add: folders_in_def folders_among_def two del: One_nat_def)
  moreover have "hit ?f docs root_location = Some 1"
    using docs_facts(2) by (auto simp: hit_def two find_upt_Some DIR_ENTRIES_val d2 e)
  ultimately have found: "search ?f docs 0 [root_location] = Some (Some (root_location, dir_at ?f 2 ! 1))"
    by (simp add: search.simps(2) Let_def two)
  have j: "queue_junk_ok demo_shell_junk"
    by (simp add: queue_junk_ok_def demo_shell_junk_def list_all_length node_shape_def demo_node_def)
  have t: "tree ?f {3, 2}" using demo2_located by (simp add: located_def)
  have ne: "docs \<noteq> root_name" by (simp add: docs_def root_name_def codes_def)
  obtain s' where "find_command demo_shell_junk (codes ''find docs'') 9 demo_shell2 = Some (Inr s')"
    "tells demo_shell2 (search_text docs 4 (Some (root_location, dir_at ?f 2 ! 1))) s'"
    using find_is_breadth_first [OF t named j, of 9 "codes ''find docs''"] found ne unfolding target by auto
  then show ?thesis by (auto simp: search_text_def d2 e ROOT_CLUSTER_NUMBER_def)
qed

end
