(* ===== verification/Tlb.thy ===== *)
theory Tlb
  imports Process
begin

text \<open>
  \<open>flush_single_tlb\<close> of \<^verbatim>\<open>src/src/paging.c\<close> and the translation cache of the processor, which
  the other theories leave out: the processor may use an entry of the current directory it has
  read before, until invlpg for that page or a load of CR3. Here every paging operation comes
  with what it does to the cache, and between operations the processor may read entries into
  it. As long as the current directory is not freed the cache agrees with it, so that leaving
  it out is sound; a process that destroys itself is the case where it does not.
\<close>

section \<open>The cache\<close>

type_synonym tlb = "nat \<Rightarrow> pde option"

definition flush_single_tlb :: "u32 \<Rightarrow> tlb \<Rightarrow> tlb" where
  "flush_single_tlb virtual_addr t = t(page_index virtual_addr := None)"

text \<open>A translation by the processor, with the cached entry where there is one.\<close>

definition look_up :: "page_directory \<Rightarrow> tlb \<Rightarrow> bool \<Rightarrow> u32 \<Rightarrow> u32 option" where
  "look_up d t user va =
     translate (case t (page_index va) of None \<Rightarrow> d | Some e \<Rightarrow> d[page_index va := e]) user va"

definition current_directory :: "layout \<Rightarrow> paging \<Rightarrow> page_directory res" where
  "current_directory L st = pd_get L st (paging_get_current_page_directory_addr st)"

text \<open>
  One operation, or the processor caching or dropping an entry. The current directory is not
  released, and a directory is used only when it is one.
\<close>

inductive mmu_step :: "layout \<Rightarrow> paging \<times> tlb \<Rightarrow> paging \<times> tlb \<Rightarrow> bool" for L where
  mmu_allocate: "i < 33 \<Longrightarrow> i = 32 \<or> page_directory_used st ! i \<Longrightarrow>
    paging_allocate_user_page_frame L (dir_addr L i) va st = Inr (r, st') \<Longrightarrow>
    mmu_step L (st, t) (st', flush_single_tlb va t)"
| mmu_free: "i < 33 \<Longrightarrow> i = 32 \<or> page_directory_used st ! i \<Longrightarrow> user_page (all_dirs st ! i ! page_index va) \<Longrightarrow>
    paging_free_user_page_frame L (dir_addr L i) va st = Inr (r, st') \<Longrightarrow>
    mmu_step L (st, t) (st', flush_single_tlb va t)"
| mmu_create: "paging_create_new_page_directory L st = (a, st') \<Longrightarrow> mmu_step L (st, t) (st', t)"
| mmu_release: "a \<noteq> paging_get_current_page_directory_addr st \<Longrightarrow>
    paging_free_page_directory L a st = (r, st') \<Longrightarrow> mmu_step L (st, t) (st', t)"
| mmu_use: "i < 33 \<Longrightarrow> i = 32 \<or> page_directory_used st ! i \<Longrightarrow>
    mmu_step L (st, t) (paging_use_page_directory (dir_addr L i) st, \<lambda>_. None)"
| mmu_fill: "current_directory L st = Inr d \<Longrightarrow> n < 1024 \<Longrightarrow> present_bit (flag (d ! n)) \<Longrightarrow>
    mmu_step L (st, t) (st, t(n := Some (d ! n)))"
| mmu_evict: "mmu_step L (st, t) (st, t(n := None))"

inductive_cases mmu_stepE: "mmu_step L (st, t) (st', t')"

section \<open>The invariant\<close>

text \<open>Directory \<open>i\<close> is current and in use, and every cached entry is one of its entries.\<close>

definition coherent_at :: "layout \<Rightarrow> nat \<Rightarrow> paging \<Rightarrow> tlb \<Rightarrow> bool" where
  "coherent_at L i st t \<longleftrightarrow> i < 33 \<and> paging_get_current_page_directory_addr st = dir_addr L i \<and>
     (i = 32 \<or> page_directory_used st ! i) \<and> (\<forall>n e. t n = Some e \<longrightarrow> n < 1024 \<and> all_dirs st ! i ! n = e)"

definition mmu_ok :: "layout \<Rightarrow> paging \<times> tlb \<Rightarrow> bool" where
  "mmu_ok L = (\<lambda>(st, t). paging_ok st \<and> (\<exists>i. coherent_at L i st t))"

lemma coherent_directory:
  assumes "coherent_at L i st t" and "layout_ok L" and "paging_ok st"
  shows "current_directory L st = Inr (all_dirs st ! i)"
  using assms pd_get_dir paging_ok_D(2) by (simp add: coherent_at_def current_directory_def)

lemma coherent_look_up:
  assumes "coherent_at L i st t"
  shows "look_up (all_dirs st ! i) t user va = translate (all_dirs st ! i) user va"
proof (cases "t (page_index va)")
  case (Some e)
  then have "all_dirs st ! i ! page_index va = e" using assms by (simp add: coherent_at_def)
  then show ?thesis using Some by (auto simp: look_up_def)
qed (simp add: look_up_def)

text \<open>An operation that keeps the cached entries of the current directory.\<close>

lemma coherent_kept:
  assumes "coherent_at L i st t" and "cr3 st' = cr3 st"
    and "i = 32 \<or> page_directory_used st ! i \<Longrightarrow> i < 33 \<Longrightarrow> i = 32 \<or> page_directory_used st' ! i"
    and "\<And>n e. t' n = Some e \<Longrightarrow> t n = Some e \<and> all_dirs st' ! i ! n = all_dirs st ! i ! n"
  shows "coherent_at L i st' t'"
  using assms by (simp add: coherent_at_def paging_get_current_page_directory_addr_def)

lemma dir_addr_above: "layout_ok L \<Longrightarrow> i < 33 \<Longrightarrow> KERNEL_VIRTUAL_ADDRESS_BASE < dir_addr L i"
  using pd_addr_above [of L i] by (auto simp: dir_addr_def layout_ok_def)

lemma update_entry_elsewhere:
  "length (page_directory_list st) = 32 \<Longrightarrow> j < 33 \<Longrightarrow> n \<noteq> page_index va \<Longrightarrow>
   (all_dirs st)[j := update_entry (all_dirs st ! j) pa va fl] ! i ! n = all_dirs st ! i ! n"
  by (cases "i = j") (simp_all add: update_entry_def)

lemma create_mmu_ok:
  assumes "mmu_ok L (st, t)" and "paging_create_new_page_directory L st = (a, st')"
  shows "mmu_ok L (st', t)"
proof (cases "first_clear (page_directory_used st) PAGING_DIRECTORY_TABLE_MAX_COUNT")
  case None
  then show ?thesis using assms by (simp add: create_None)
next
  case (Some j)
  obtain i where ok: "paging_ok st" and c: "coherent_at L i st t" using assms(1) by (auto simp: mmu_ok_def)
  have j: "j < 32" "\<not> page_directory_used st ! j" using Some by (auto simp: first_clear_Some page_constants)
  then have "i \<noteq> j" using c by (auto simp: coherent_at_def)
  have st': "st' = created j st" using assms(2) create_effect [OF ok Some, of L] by simp
  have "coherent_at L i st' t"
    by (rule coherent_kept [OF c]) (use paging_ok_D(2,3) [OF ok] \<open>i \<noteq> j\<close> j in \<open>auto simp: st' all_dirs_created nth_list_update\<close>)
  then show ?thesis using paging_ok_created [OF ok j(1)] by (auto simp: mmu_ok_def st')
qed

lemma release_mmu_ok:
  assumes L: "layout_ok L" and "mmu_ok L (st, t)" and "a \<noteq> paging_get_current_page_directory_addr st"
    and "paging_free_page_directory L a st = (r, st')"
  shows "mmu_ok L (st', t)"
proof (cases "pd_index L a")
  case None
  then show ?thesis using assms(2,4) by (simp add: paging_free_page_directory_def)
next
  case (Some j)
  obtain i where ok: "paging_ok st" and c: "coherent_at L i st t" using assms(2) by (auto simp: mmu_ok_def)
  have j: "j < 32" "a = pd_addr L j" using Some pd_index_lt by auto
  then have st': "st' = released j st" using assms(4) free_directory_effect [OF ok L j(1)] by simp
  have "i \<noteq> j" using assms(3) c j by (auto simp: coherent_at_def dir_addr_def)
  have dirs: "all_dirs st' ! i = all_dirs st ! i"
    using paging_ok_D(2) [OF ok] \<open>i \<noteq> j\<close> j(1) c by (auto simp: st' released_def all_dirs_def nth_append coherent_at_def)
  have "coherent_at L i st' t"
    by (rule coherent_kept [OF c]) (use \<open>i \<noteq> j\<close> dirs in \<open>auto simp: st' released_def\<close>)
  then show ?thesis using paging_ok_released [OF ok j(1)] by (auto simp: mmu_ok_def st')
qed

lemma mmu_step_ok:
  assumes "mmu_step L (st, t) (st', t')" and L: "layout_ok L" and "mmu_ok L (st, t)"
  shows "mmu_ok L (st', t')"
proof -
  obtain i where ok: "paging_ok st" and c: "coherent_at L i st t" using assms(3) by (auto simp: mmu_ok_def)
  note D = paging_ok_D [OF ok]
  show ?thesis
    using assms(1)
  proof cases
    case (mmu_allocate j va r)
    obtain f where f: "first_clear (page_frame_map st) PAGE_FRAME_MAX_COUNT = Some f"
      using mmu_allocate(4) allocate_no_frame by (metis not_None_eq sum.distinct(1))
    have st': "st' = allocated j va f st" using mmu_allocate(4) allocate_effect [OF ok L mmu_allocate(2) f] by simp
    have "coherent_at L i st' t'"
      by (rule coherent_kept [OF c])
        (use D(2) mmu_allocate(1,2) in \<open>auto simp: st' allocated_def flush_single_tlb_def update_entry_elsewhere split: if_splits\<close>)
    then show ?thesis using paging_ok_allocated [OF ok mmu_allocate(2,3) f] by (auto simp: mmu_ok_def st')
  next
    case (mmu_free j va r)
    then have b: "backed st j (page_index va) (unat (lower_address (all_dirs st ! j ! page_index va)))"
      by (simp add: backed_def)
    then have st': "st' = unmapped j va st"
      using mmu_free(5) free_effect [OF ok L mmu_free(2)] D(7) [OF b] by simp
    have "coherent_at L i st' t'"
      by (rule coherent_kept [OF c])
        (use D(2) mmu_free(1,2) in \<open>auto simp: st' unmapped_def flush_single_tlb_def update_entry_elsewhere split: if_splits\<close>)
    then show ?thesis using paging_ok_unmapped [OF ok mmu_free(2,3) b] by (auto simp: mmu_ok_def st')
  next
    case (mmu_create a)
    then show ?thesis using create_mmu_ok [OF assms(3)] by blast
  next
    case (mmu_release a r)
    then show ?thesis using release_mmu_ok [OF L assms(3)] by blast
  next
    case (mmu_use j)
    have "coherent_at L j st' t'"
      using mmu_use dir_addr_above [OF L mmu_use(3)]
      by (auto simp: coherent_at_def paging_get_current_page_directory_addr_def) (simp_all add: paging_use_page_directory_def)
    then show ?thesis using ok mmu_use(1) by (auto simp: mmu_ok_def paging_ok_use)
  next
    case (mmu_fill d n)
    then show ?thesis using ok c coherent_directory [OF c L ok] by (fastforce simp: mmu_ok_def coherent_at_def)
  next
    case (mmu_evict n)
    then show ?thesis using ok c by (fastforce simp: mmu_ok_def coherent_at_def)
  qed
qed

interpretation mmu: step_invariant "mmu_step L" "\<lambda>s. layout_ok L \<longrightarrow> mmu_ok L s" for L
  by unfold_locales (metis mmu_step_ok prod.collapse)

text \<open>Loading CR3 starts afresh.\<close>

lemma use_coherent:
  assumes "layout_ok L" and "paging_ok st" and "j < 33" and "j = 32 \<or> page_directory_used st ! j"
  shows "mmu_ok L (paging_use_page_directory (dir_addr L j) st, \<lambda>_. None)"
proof -
  have "coherent_at L j (paging_use_page_directory (dir_addr L j) st) (\<lambda>_. None)"
    using assms(3,4) dir_addr_above [OF assms(1,3)]
    by (auto simp: coherent_at_def paging_get_current_page_directory_addr_def) (simp_all add: paging_use_page_directory_def)
  then show ?thesis using assms(2) by (auto simp: mmu_ok_def paging_ok_use)
qed

section \<open>Processes and the cache\<close>

text \<open>A creation goes by these steps and ends with an empty cache.\<close>

lemma create_steps:
  assumes "create_ready L rq i f1 f2 r bs s" and "coherent_at L c (pg s) t"
  shows "\<exists>s'. process_create_user_process L rq s = Some (Inr (0, s')) \<and> (mmu_step L)\<^sup>*\<^sup>* (pg s, t) (pg s', \<lambda>_. None)"
proof -
  note F = create_ready_facts [OF assms(1)]
  have L: "layout_ok L" and ok: "paging_ok (pg s)" and fi: "first_clear (page_directory_used (pg s)) PAGING_DIRECTORY_TABLE_MAX_COUNT = Some i"
    using assms(1) by (auto simp: create_ready_def)
  have a: "dir_addr L i = pd_addr L i" and c: "c < 33" "c = 32 \<or> page_directory_used (pg s) ! c" and "c \<noteq> i"
    and cur: "cr3 (pg s) + KERNEL_VIRTUAL_ADDRESS_BASE = dir_addr L c"
    using F(1,2) assms(2) by (auto simp: dir_addr_def coherent_at_def paging_get_current_page_directory_addr_def)
  obtain m' where m: "read_through L rq (fs s) (space_after L rq i f1 f2 s) (pm s) = Some (Inr (r, m'))"
    using read_new_space [OF assms(1)] by blast
  let ?p1 = "created i (pg s)" and ?p2 = "paging_use_page_directory (pd_addr L i) (created i (pg s))"
  let ?p4 = "space_after L rq i f1 f2 s"
  obtain p3 b b' where al: "paging_allocate_user_page_frame L (dir_addr L i) (rq_buf rq) ?p2 = Inr (b, p3)"
    "paging_allocate_user_page_frame L (dir_addr L i) 0xBFFFFFFC p3 = Inr (b', ?p4)"
    using allocate_both [OF assms(1)] unfolding a by (auto simp: bindE_eq_Inr)
  have used: "page_directory_used ?p1 ! i" "page_directory_used ?p2 ! i" "page_directory_used p3 ! i"
    using F(1) paging_ok_D(3) [OF ok] al(1) allocate_effect [OF _ L, of ?p2 i] F(10)
    by (auto simp: paging_allocate_user_page_frame_def bindE_eq_Inr update_page_directory_entry_def pd_put_def split: option.splits if_splits)
  have last_used: "c = 32 \<or> page_directory_used ?p4 ! c"
    using c \<open>c \<noteq> i\<close> by (auto simp: space_after_def)
  have "(mmu_step L)\<^sup>*\<^sup>* (pg s, t) (?p1, t)"
    using mmu_create [of L "pg s" _ ?p1 t] create_effect [OF ok fi] by blast
  also have "mmu_step L (?p1, t) (?p2, \<lambda>_. None)"
    using mmu_use [of i ?p1 L t] F(1) used(1) a by simp
  also have "mmu_step L (?p2, \<lambda>_. None) (p3, flush_single_tlb (rq_buf rq) (\<lambda>_. None))"
    by (rule mmu_allocate [OF _ _ al(1)]) (use F(1) used(2) in auto)
  also have "mmu_step L (p3, flush_single_tlb (rq_buf rq) (\<lambda>_. None))
      (?p4, flush_single_tlb 0xBFFFFFFC (flush_single_tlb (rq_buf rq) (\<lambda>_. None)))"
    by (rule mmu_allocate [OF _ _ al(2)]) (use F(1) used(3) in auto)
  also have "mmu_step L (?p4, flush_single_tlb 0xBFFFFFFC (flush_single_tlb (rq_buf rq) (\<lambda>_. None)))
      (paging_use_page_directory (dir_addr L c) ?p4, \<lambda>_. None)"
    by (rule mmu_use [OF c(1) last_used])
  also have "paging_use_page_directory (dir_addr L c) ?p4 = ?p4\<lparr>cr3 := cr3 (pg s)\<rparr>"
    using dir_addr_above [OF L c(1)] cur [symmetric] by (simp add: paging_use_page_directory_def)
  finally show ?thesis using create_effect_process [OF assms(1) m] by auto
qed

section \<open>Properties\<close>

text \<open>
  C19. The translation cache is never stale. Starting with an empty cache and the kernel's tables,
  through any sequence of allocations and frees of pages, creations, releases and switches of
  directories, with the processor caching entries whenever it likes, every translation is the
  one of the current directory, as long as that directory is not released itself.
\<close>

theorem tlb_agrees:
  assumes "layout_ok L" and "(mmu_step L)\<^sup>*\<^sup>* (paging_start L, \<lambda>_. None) (st, t)"
  shows "\<exists>d. current_directory L st = Inr d \<and> (\<forall>user va. look_up d t user va = translate d user va)"
proof -
  have "mmu_ok L (paging_start L, \<lambda>_. None)"
    by (auto simp: mmu_ok_def paging_start_ok coherent_at_def paging_get_current_page_directory_addr_def intro!: exI [of _ 32])
      (simp_all add: paging_start_def dir_addr_def)
  then have "mmu_ok L (st, t)" using mmu.kept_by_steps [OF assms(2)] assms(1) by blast
  then obtain i where "paging_ok st" "coherent_at L i st t" by (auto simp: mmu_ok_def)
  then show ?thesis using coherent_directory [OF _ assms(1)] coherent_look_up by blast
qed

theorem tlb_agrees_witness:
  "\<exists>st t d. paging_allocate_user_page_frame demo_layout (dir_addr demo_layout 32) 0x400000 (paging_start demo_layout) = Inr (True, st) \<and>
     current_directory demo_layout st = Inr d \<and> (\<forall>user va. look_up d (flush_single_tlb 0x400000 t) user va = translate d user va) \<and>
     t 0x300 = Some kernel_pde"
proof -
  let ?st = "paging_start demo_layout"
  let ?t = "\<lambda>n. if n = 0x300 then Some kernel_pde else None"
  have cur: "current_directory demo_layout ?st = Inr (kernel_page_directory ?st)"
    by (simp add: current_directory_def pd_get_def paging_get_current_page_directory_addr_def paging_start_def)
      (simp add: demo_layout_def)
  have k: "kernel_page_directory ?st ! 0x300 = kernel_pde" by (simp add: paging_start_def blank_directory_def page_constants)
  obtain f where f: "first_clear (page_frame_map ?st) PAGE_FRAME_MAX_COUNT = Some f"
    using free_frame_exists [OF paging_start_ok, of demo_layout] by (auto simp: paging_start_def page_constants)
  have a: "paging_allocate_user_page_frame demo_layout (dir_addr demo_layout 32) 0x400000 ?st = Inr (True, allocated 32 0x400000 f ?st)"
    by (rule allocate_effect [OF paging_start_ok demo_layout_ok _ f]) simp
  have "mmu_step demo_layout (?st, \<lambda>_. None) (?st, (\<lambda>_. None)(0x300 := Some (kernel_page_directory ?st ! 0x300)))"
    by (rule mmu_fill [OF cur]) (simp_all add: k, simp add: kernel_pde_def)
  then have 1: "mmu_step demo_layout (?st, \<lambda>_. None) (?st, ?t)" by (simp add: k fun_upd_def)
  have 2: "mmu_step demo_layout (?st, ?t) (allocated 32 0x400000 f ?st, flush_single_tlb 0x400000 ?t)"
    by (rule mmu_allocate [OF _ _ a]) simp_all
  have "(mmu_step demo_layout)\<^sup>*\<^sup>* (?st, \<lambda>_. None) (allocated 32 0x400000 f ?st, flush_single_tlb 0x400000 ?t)"
    using 1 2 by (rule converse_rtranclp_into_rtranclp [OF _ r_into_rtranclp])
  from tlb_agrees [OF demo_layout_ok this] show ?thesis using a by (intro exI [of _ "allocated 32 0x400000 f ?st"] exI [of _ ?t]) auto
qed

text \<open>
  C36. A process that destroys itself loses the ground under the kernel. The directory that is
  freed is the current one and stays current: it has no entries left, not even the kernel's,
  and the cache is not flushed. Until the next switch the processor reaches exactly the pages
  it happens to have cached, and any other access, of the kernel's own code included, faults.
\<close>

theorem process_exit_unmaps_kernel:
  assumes "layout_ok L" and "paging_ok (pg s)" and "coherent_at L i (pg s) t" and "i < 32"
    and "process_destroy L p s = Inr (True, s')"
    and "find (\<lambda>q. pid (process_list s ! q) = p) [0..<PROCESS_COUNT_MAX] = Some q"
    and "page_directory_virtual_addr (pcontext (process_list s ! q)) = paging_get_current_page_directory_addr (pg s)"
  shows "current_directory L (pg s') = Inr blank_directory \<and> (\<forall>user va. translate blank_directory user va = None) \<and>
    (\<forall>user va. look_up blank_directory t user va =
       (if t (page_index va) = None then None else translate (all_dirs (pg s) ! i) user va))"
proof -
  have cur: "paging_get_current_page_directory_addr (pg s) = pd_addr L i"
    using assms(3,4) by (simp add: coherent_at_def dir_addr_def)
  have pg': "pg s' = released i (pg s)"
    using assms(5-7) cur free_directory_effect [OF assms(2,1,4)]
    by (auto simp: process_destroy_def Let_def split: if_splits)
  have "paging_get_current_page_directory_addr (pg s') = dir_addr L i"
    using cur assms(4) by (simp add: pg' released_def paging_get_current_page_directory_addr_def dir_addr_def)
  then have "current_directory L (pg s') = Inr (all_dirs (pg s') ! i)"
    using pd_get_dir [OF assms(1), of i "pg s'"] assms(4) paging_ok_D(2) [OF paging_ok_released [OF assms(2,4)]]
    by (simp add: current_directory_def pg')
  moreover have "all_dirs (pg s') ! i = blank_directory"
    using paging_ok_D(2) [OF assms(2)] assms(4) by (simp add: pg' released_def all_dirs_def nth_append)
  moreover have none: "translate blank_directory user va = None" for user va
    by (simp add: translate_def blank_nth zero_pde_def no_flags_def)
  moreover have "look_up blank_directory t user va = translate (all_dirs (pg s) ! i) user va" if "t (page_index va) = Some e" for user va e
  proof -
    have "all_dirs (pg s) ! i ! page_index va = e" using assms(3) that by (simp add: coherent_at_def)
    then show ?thesis using that by (simp add: look_up_def translate_def blank_directory_def page_constants)
  qed
  ultimately show ?thesis by (auto simp: look_up_def)
qed

text \<open>A process in slot 0 that runs in directory 0, with the kernel's page cached.\<close>

definition demo_alone :: sys where
  "demo_alone = demo_sys\<lparr>
     pg := paging_use_page_directory (pd_addr demo_layout 0) (created 0 (paging_start demo_layout)),
     process_list := (replicate 16 zero_pcb)[0 := zero_pcb\<lparr>pstate := PROCESS_STATE_RUNNING,
       pcontext := (pcontext zero_pcb)\<lparr>page_directory_virtual_addr := pd_addr demo_layout 0\<rparr>\<rparr>],
     active_process_count := 1\<rparr>"

theorem process_exit_unmaps_kernel_witness:
  "\<exists>s'. process_destroy demo_layout 0 demo_alone = Inr (True, s') \<and>
     current_directory demo_layout (pg s') = Inr blank_directory \<and>
     look_up blank_directory ((\<lambda>_. None)(0x300 := Some kernel_pde)) False 0xC0001000 = Some 0x1000 \<and>
     look_up blank_directory ((\<lambda>_. None)(0x300 := Some kernel_pde)) False 0x1000 = None"
proof -
  let ?t = "(\<lambda>_. None)(0x300 := Some kernel_pde) :: tlb"
  let ?st = "created 0 (paging_start demo_layout)"
  have len: "length (page_directory_list (paging_start demo_layout)) = 32" "length (page_directory_used (paging_start demo_layout)) = 32"
    by (simp_all add: paging_start_def page_constants)
  have ok: "paging_ok ?st" by (rule paging_ok_created [OF paging_start_ok]) simp
  have used: "page_directory_used ?st ! 0" using len by simp
  have a: "dir_addr demo_layout 0 = pd_addr demo_layout 0" by (simp add: dir_addr_def)
  have dirs: "all_dirs (pg demo_alone) ! 0 = blank_directory[0x300 := kernel_pde]"
    using len by (simp add: demo_alone_def all_dirs_created)
  have c: "coherent_at demo_layout 0 (pg demo_alone) ?t"
    using used dir_addr_above [OF demo_layout_ok, of 0]
    by (auto simp: coherent_at_def dirs a paging_get_current_page_directory_addr_def blank_directory_def page_constants)
      (simp_all add: demo_alone_def paging_use_page_directory_def)
  have cur: "paging_get_current_page_directory_addr (pg demo_alone) = pd_addr demo_layout 0"
    using c by (simp add: coherent_at_def a)
  have p: "pid (process_list demo_alone ! 0) = 0"
    "page_directory_virtual_addr (pcontext (process_list demo_alone ! 0)) = pd_addr demo_layout 0"
    by (simp_all add: demo_alone_def zero_pcb_def)
  have f: "find (\<lambda>q. pid (process_list demo_alone ! q) = 0) [0..<PROCESS_COUNT_MAX] = Some 0"
    by (simp add: find_pid_Some p)
  have free: "\<not> list_of_process demo_alone ! 0" by (simp add: demo_alone_def demo_sys_def)
  obtain s' where s': "process_destroy demo_layout 0 demo_alone = Inr (True, s')"
    using free f by (simp add: process_destroy_def PROCESS_COUNT_MAX_def)
  have i: "paging_ok (pg demo_alone)" using ok by (simp add: demo_alone_def paging_ok_use)
  note r = process_exit_unmaps_kernel [OF demo_layout_ok i c _ s' f, simplified p cur]
  have idx: "page_index 0xC0001000 = 0x300" "page_index 0x1000 = 0" by (simp_all add: page_index_nat)
  have "translate (all_dirs (pg demo_alone) ! 0) False 0xC0001000 = Some 0x1000"
    by (simp add: dirs translate_def idx blank_directory_def page_constants) (simp add: kernel_pde_def zero_pde_def)
  then show ?thesis using r s' by (auto simp: idx)
qed

end
