(* ===== verification/Device.thy ===== *)
theory Device
  imports Disk Cluster
begin

text \<open>
  \<^verbatim>\<open>src/src/fat32.c\<close> is linked with one of two pairs of \<open>read_blocks\<close> and \<open>write_blocks\<close>: those of
  the host tool, over an image in memory, and those of the kernel's disk driver. What it
  relies on of them is the locale \<open>block_device\<close>; it is interpreted on both, and the clusters
  written through either are those of the store that the file system is modelled over.
\<close>

section \<open>The contract\<close>

text \<open>A run of clusters written one after the other through a device's \<open>write_blocks\<close>.\<close>

fun write_run :: "(u8 list \<Rightarrow> u32 \<Rightarrow> u8 \<Rightarrow> 'd \<Rightarrow> 'd option) \<Rightarrow> (u32 \<times> u8 list) list \<Rightarrow> 'd \<Rightarrow> 'd option" where
  "write_run wr [] d = Some d"
| "write_run wr ((n, bs) # ws) d = Option.bind (wr bs (cluster_to_lba n) 4 d) (write_run wr ws)"

text \<open>
  A device in a state that is ready holds an image; a transfer within it of at least one block
  comes back, and leaves the device ready.
\<close>

locale block_device =
  fixes img :: "'d \<Rightarrow> image" and ready :: "'d \<Rightarrow> bool"
    and rd :: "u32 \<Rightarrow> u8 \<Rightarrow> 'd \<Rightarrow> (u8 list \<times> 'd) option"
    and wr :: "u8 list \<Rightarrow> u32 \<Rightarrow> u8 \<Rightarrow> 'd \<Rightarrow> 'd option"
  assumes rd_blocks: "ready d \<Longrightarrow> c \<noteq> 0 \<Longrightarrow> unat lba + unat c \<le> 8192 \<Longrightarrow>
      \<exists>d'. rd lba c d = Some (img_load (img d) (512 * unat lba) (512 * unat c), d') \<and> ready d' \<and> img d' = img d"
    and wr_blocks: "ready d \<Longrightarrow> c \<noteq> 0 \<Longrightarrow> unat lba + unat c \<le> 8192 \<Longrightarrow> 512 * unat c \<le> length bs \<Longrightarrow>
      \<exists>d'. wr bs lba c d = Some d' \<and> ready d' \<and> img d' = img_store (img d) (512 * unat lba) (take (512 * unat c) bs)"
begin

lemma rd_cluster:
  assumes "ready d" and "unat n < 2048"
  shows "\<exists>d'. rd (cluster_to_lba n) 4 d = Some (cluster_at (img d) (unat n), d') \<and> ready d' \<and> img d' = img d"
  using rd_blocks [OF assms(1), of 4 "cluster_to_lba n"] assms(2)
  by (simp add: cluster_to_lba_nat cluster_at_def CLUSTER_SIZE_val)

lemma wr_cluster:
  assumes "ready d" and "unat n < 2048" and "length bs = 2048"
  shows "\<exists>d'. wr bs (cluster_to_lba n) 4 d = Some d' \<and> ready d' \<and> img d' = set_cluster (img d) (unat n) bs"
  using wr_blocks [OF assms(1), of 4 "cluster_to_lba n" bs] assms(2,3)
  by (simp add: cluster_to_lba_nat set_cluster_def CLUSTER_SIZE_val)

lemma write_run_puts:
  assumes "ready d" and "\<forall>(n, bs) \<in> set ws. unat n < 2048 \<and> length bs = 2048"
  shows "\<exists>d'. write_run wr ws d = Some d' \<and> ready d' \<and> img d' = put_all set_cluster (map (apfst unat) ws) (img d)"
  using assms
proof (induction ws arbitrary: d)
  case Nil
  then show ?case by simp
next
  case (Cons w ws)
  obtain n bs where w: "w = (n, bs)" by (cases w)
  obtain d1 where d1: "wr bs (cluster_to_lba n) 4 d = Some d1" "ready d1" "img d1 = set_cluster (img d) (unat n) bs"
    using wr_cluster [OF Cons.prems(1), of n bs] Cons.prems(2) w by auto
  show ?case using Cons.IH [OF d1(2)] Cons.prems(2) d1 w by auto
qed

end

section \<open>The host tool\<close>

text \<open>\<open>None\<close> is a fault.\<close>

definition ok_value :: "'a res \<Rightarrow> 'a option" where
  "ok_value r = (case r of Inl _ \<Rightarrow> None | Inr x \<Rightarrow> Some x)"

lemma ok_value_simps [simp]: "ok_value (Inr x) = Some x" "ok_value (Inl e) = None"
  by (simp_all add: ok_value_def)

definition host_read :: "u32 \<Rightarrow> u8 \<Rightarrow> image \<Rightarrow> (u8 list \<times> image) option" where
  "host_read lba c im = map_option (\<lambda>bs. (bs, im)) (ok_value (read_blocks im lba c))"

definition host_write :: "u8 list \<Rightarrow> u32 \<Rightarrow> u8 \<Rightarrow> image \<Rightarrow> image option" where
  "host_write bs lba c im = ok_value (write_blocks im bs lba c)"

interpretation host: block_device "\<lambda>im. im" "\<lambda>_. True" host_read host_write
proof (unfold_locales, goal_cases)
  case (1 d c lba)
  then show ?case using read_blocks_loop_closed [OF 1(3) le0] by (simp add: host_read_def read_blocks_def)
next
  case (2 d c lba bs)
  then show ?case using write_blocks_loop_closed [OF 2(3,4) le0] by (simp add: host_write_def write_blocks_def)
qed

section \<open>The kernel's driver\<close>

text \<open>A state of the hardware: its ports, how a drive is seen in it, and where it is. It is ready
  when the drive is as documented and between transfers.\<close>

type_synonym 'd drive = "'d ata_bus \<times> ('d \<Rightarrow> ata) \<times> 'd"

definition drive_image :: "'d drive \<Rightarrow> image" where
  "drive_image = (\<lambda>(B, vw, d). medium (vw d))"

definition drive_ready :: "'d drive \<Rightarrow> bool" where
  "drive_ready = (\<lambda>(B, vw, d). ata_ok B vw \<and> todo (vw d) = Idle)"

definition drive_read :: "u32 \<Rightarrow> u8 \<Rightarrow> 'd drive \<Rightarrow> (u8 list \<times> 'd drive) option" where
  "drive_read lba c = (\<lambda>(B, vw, d). map_option (\<lambda>(bs, d'). (bs, (B, vw, d'))) (ata_read_blocks B lba c d))"

definition drive_write :: "u8 list \<Rightarrow> u32 \<Rightarrow> u8 \<Rightarrow> 'd drive \<Rightarrow> 'd drive option" where
  "drive_write bs lba c =
     (\<lambda>(B, vw, d). Option.bind (ata_write_blocks B bs lba c d) (\<lambda>r. map_option (\<lambda>d'. (B, vw, d')) (ok_value r)))"

interpretation drive: block_device drive_image drive_ready drive_read drive_write
proof (unfold_locales, goal_cases)
  case (1 s c lba)
  obtain B vw d where s: "s = (B, vw, d)" by (cases s)
  then show ?case
    using 1 ata_reads [of B vw d c lba] by (auto simp: drive_ready_def drive_read_def drive_image_def)
next
  case (2 s c lba bs)
  obtain B vw d where s: "s = (B, vw, d)" by (cases s)
  then show ?case
    using 2 ata_writes [of B vw d c lba bs] by (fastforce simp: drive_ready_def drive_write_def drive_image_def)
qed

section \<open>The clusters of the file system on either\<close>

lemma drive_run_same: "write_run drive_write ws (B, vw, d) = Some s \<Longrightarrow> \<exists>d'. s = (B, vw, d')"
proof (induction ws arbitrary: d)
  case (Cons w ws)
  obtain n bs where w: "w = (n, bs)" by (cases w)
  obtain s1 where s1: "drive_write bs (cluster_to_lba n) 4 (B, vw, d) = Some s1" "write_run drive_write ws s1 = Some s"
    using Cons.prems w by (auto simp: bind_eq_Some_conv)
  obtain d1 where "s1 = (B, vw, d1)" using s1(1) by (auto simp: drive_write_def bind_eq_Some_conv)
  then show ?case using Cons.IH s1(2) by blast
qed auto

text \<open>
  C16. A disk written by the host tool's block functions and one written by the kernel's driver
  from the same contents end the same: after any run of cluster writes within the 4 MiB both
  come back, hold the same image, and any cluster read from either is the last contents
  written to it, or what it was before.
\<close>

theorem drive_and_image_agree:
  assumes "ata_ok B vw" and "todo (vw d) = Idle" and "\<forall>(n, bs) \<in> set ws. unat n < 2048 \<and> length bs = 2048"
    and "unat e < 2048"
  defines "im \<equiv> put_all set_cluster (map (apfst unat) ws) (medium (vw d))"
  shows "write_run host_write ws (medium (vw d)) = Some im \<and> host_read (cluster_to_lba e) 4 im = Some (cluster_at im (unat e), im) \<and>
    (\<exists>d1 d2. write_run drive_write ws (B, vw, d) = Some (B, vw, d1) \<and> medium (vw d1) = im \<and> todo (vw d1) = Idle \<and>
       ata_read_blocks B (cluster_to_lba e) 4 d1 = Some (cluster_at im (unat e), d2) \<and> medium (vw d2) = im)"
proof -
  note fits = assms(3)
  have "\<exists>x. write_run host_write ws (medium (vw d)) = Some x \<and> x = im"
    using host.write_run_puts [OF TrueI fits, of "medium (vw d)"] by (simp add: im_def)
  moreover have "host_read (cluster_to_lba e) 4 im = Some (cluster_at im (unat e), im)"
    using host.rd_cluster [OF TrueI assms(4), of im] by auto
  moreover have r: "drive_ready (B, vw, d)" "drive_image (B, vw, d) = medium (vw d)"
    using assms(1,2) by (simp_all add: drive_ready_def drive_image_def)
  obtain s1 where s1: "write_run drive_write ws (B, vw, d) = Some s1" "drive_ready s1" "drive_image s1 = im"
    using drive.write_run_puts [OF r(1) fits] by (auto simp: r(2) im_def)
  moreover obtain d1 where d1: "s1 = (B, vw, d1)" using drive_run_same [OF s1(1)] by blast
  moreover have "\<exists>d2. ata_read_blocks B (cluster_to_lba e) 4 d1 = Some (cluster_at im (unat e), d2) \<and> medium (vw d2) = im"
    using drive.rd_cluster [OF s1(2) assms(4)] s1(3) by (auto simp: d1 drive_read_def drive_image_def)
  ultimately show ?thesis by (auto simp: drive_ready_def drive_image_def)
qed

theorem drive_and_image_agree_witness:
  "\<exists>d1 d2. write_run drive_write [(5, replicate 2048 7), (9, replicate 2048 8), (5, replicate 2048 6)] (demo_ata_bus, id, demo_ata) =
      Some (demo_ata_bus, id, d1) \<and>
    ata_read_blocks demo_ata_bus (cluster_to_lba 5) 4 d1 = Some (replicate 2048 6, d2)"
proof -
  let ?ws = "[(5, replicate 2048 7), (9, replicate 2048 8), (5, replicate 2048 6)] :: (u32 \<times> u8 list) list"
  have "todo (id demo_ata) = Idle" by (simp add: demo_ata_def)
  moreover have "\<forall>(n, bs) \<in> set ?ws. unat n < 2048 \<and> length bs = 2048" by simp
  moreover have "unat (5 :: u32) < 2048" by simp
  ultimately show ?thesis
    using drive_and_image_agree [OF demo_ata_ok, of demo_ata ?ws 5] by auto
qed

end
