(* ===== verification/ShellCalls.thy ===== *)
theory ShellCalls
  imports ClockProgram ShellWalk FatSpec
begin

text \<open>
  The shell's file operations are the kernel's system calls. \<open>Shell\<close> runs the operations of
  \<open>Fat32\<close> on a buffer at address 0 of a memory of its own; on the machine the buffer is
  somewhere in the shell's address space, the request is 23 bytes of it, the kernel works
  through the page directory and stores the return code at a third pointer. The file system
  does not care where a buffer is (\<open>moved\<close>), and a call does to the shell's memory what
  the operation does to the buffer.
\<close>

section \<open>Moving a buffer\<close>

text \<open>The contents of \<open>m\<close>, \<open>b\<close> bytes higher; a request whose buffer moved along.\<close>

definition moved :: "u32 \<Rightarrow> mem \<Rightarrow> mem" where
  "moved b m = (\<lambda>a. m (a - b))"

definition move_request :: "u32 \<Rightarrow> driver_request \<Rightarrow> driver_request" where
  "move_request b rq = rq\<lparr>rq_buf := rq_buf rq + b\<rparr>"

lemma moved_back [simp]: "moved (- b) (moved b m) = m" "moved b (moved (- b) m) = m"
  by (simp_all add: moved_def)

lemma moved_write: "mem_write (moved b m) (x + b) bs = moved b (mem_write m x bs)"
proof -
  have "a - (x + b) = a - b - x" for a :: u32 by simp
  then show ?thesis unfolding moved_def mem_write_def by presburger
qed

lemma moved_read [simp]: "mem_read (moved b m) (x + b) n = mem_read m x n"
  by (simp add: moved_def mem_read_def add.commute add.left_commute)

lemma moved_memset: "memset (moved b m) (x + b) c n = moved b (memset m x c n)"
  by (induction n) (auto simp: memset_def moved_def fun_eq_iff algebra_simps)

lemma move_request_sel [simp]:
  "rq_buf (move_request b rq) = rq_buf rq + b" "rq_name (move_request b rq) = rq_name rq" "rq_ext (move_request b rq) = rq_ext rq"
  "rq_parent_cluster_number (move_request b rq) = rq_parent_cluster_number rq" "rq_buffer_size (move_request b rq) = rq_buffer_size rq"
  by (simp_all add: move_request_def)

lemma move_request_back [simp]: "move_request (- b) (move_request b rq) = rq"
  by (simp add: move_request_def)

text \<open>The memory of a result.\<close>

definition moved_result :: "u32 \<Rightarrow> (int \<times> mem) res \<Rightarrow> (int \<times> mem) res" where
  "moved_result b = map_sum id (apsnd (moved b))"

lemma moved_result_simps [simp]:
  "moved_result b (Inl e) = Inl e" "moved_result b (Inr (r, m)) = Inr (r, moved b m)"
  by (simp_all add: moved_result_def)

lemma moved_result_back [simp]: "moved_result (- b) (moved_result b x) = x"
  by (cases x) auto

section \<open>Reading\<close>

lemma read_directory_moved:
  "read_directory (move_request b rq) f (moved b m) = moved_result b (read_directory rq f m)"
  by (auto simp: read_directory_def bindE_def Let_def moved_write split: sum.split option.split)

lemma read_loop_moved_Some:
  assumes "read_loop f sz buf n cs m = Some x"
  shows "read_loop f sz (buf + b) n cs (moved b m) = Some (moved_result b x)"
  using assms
proof (rule read_loop.raw_induct [rotated])
  fix rec f sz buf n cs m x
  assume IH: "\<And>f sz buf n cs m x. rec f sz buf n cs m = Some x \<Longrightarrow>
      read_loop f sz (buf + b) n cs (moved b m) = Some (moved_result b x)"
    and body: "(if cs * of_nat CLUSTER_MAP_SIZE > sz then Some (Inr (2, m))
      else (case read_clusters (storage f) n 1 of
              Inl e \<Rightarrow> Some (Inl e)
            | Inr bs \<Rightarrow>
                (case arr_get (cluster_map f) (unat n) of
                   Inl e \<Rightarrow> Some (Inl e)
                 | Inr nxt \<Rightarrow>
                     if nxt \<noteq> FAT32_FAT_END_OF_FILE
                     then rec f sz (buf + of_nat CLUSTER_SIZE) nxt (cs + 1) (mem_write m buf bs)
                     else Some (Inr (0, mem_write m buf bs))))) = Some x"
  have step: "buf + b + of_nat CLUSTER_SIZE = (buf + of_nat CLUSTER_SIZE) + b" by simp
  show "read_loop f sz (buf + b) n cs (moved b m) = Some (moved_result b x)"
    using body IH
    by (subst read_loop.simps) (auto simp: moved_write step simp del: add.assoc split: sum.splits if_splits)
qed

text \<open>Moving back gives the other direction, so the results agree, those that do not come included.\<close>

lemma read_loop_moved:
  "read_loop f sz (buf + b) n cs (moved b m) = map_option (moved_result b) (read_loop f sz buf n cs m)"
proof (cases "read_loop f sz buf n cs m")
  case (Some x)
  then show ?thesis by (simp add: read_loop_moved_Some)
next
  case None
  then have "read_loop f sz (buf + b) n cs (moved b m) \<noteq> Some y" for y
    using read_loop_moved_Some [of f sz "buf + b" n cs "moved b m" y "- b"] by auto
  then show ?thesis using None by (cases "read_loop f sz (buf + b) n cs (moved b m)") auto
qed

lemma fs_read_moved:
  "fs_read (move_request b rq) f (moved b m) = map_option (moved_result b) (fs_read rq f m)"
  by (simp add: fs_read_def Let_def read_loop_moved split: sum.split option.split)

section \<open>Writing\<close>

definition moved_env :: "u32 \<Rightarrow> write_env \<Rightarrow> write_env" where
  "moved_env b w = w\<lparr>we_mem := moved b (we_mem w)\<rparr>"

definition moved_end :: "u32 \<Rightarrow> int \<times> fat32 \<times> mem \<Rightarrow> int \<times> fat32 \<times> mem" where
  "moved_end b = apsnd (apsnd (moved b))"

definition moved_ctl :: "u32 \<Rightarrow> ((write_env, int \<times> fat32 \<times> mem) ctl) res \<Rightarrow> ((write_env, int \<times> fat32 \<times> mem) ctl) res" where
  "moved_ctl b = map_sum id (map_ctl (moved_env b) (moved_end b))"

lemma moved_env_sel [simp]:
  "we_fs (moved_env b w) = we_fs w" "we_mem (moved_env b w) = moved b (we_mem w)" "we_written (moved_env b w) = we_written w"
  "we_clust_before (moved_env b w) = we_clust_before w" "we_slot_available (moved_env b w) = we_slot_available w"
  by (simp_all add: moved_env_def)

lemma moved_end_simp [simp]: "moved_end b (r, f, m) = (r, f, moved b m)"
  by (simp add: moved_end_def)

lemma moved_ctl_simps [simp]:
  "moved_ctl b (Inl e) = Inl e" "moved_ctl b (Inr (Next w)) = Inr (Next (moved_env b w))"
  "moved_ctl b (Inr (Brk w)) = Inr (Brk (moved_env b w))" "moved_ctl b (Inr (Ret r)) = Inr (Ret (moved_end b r))"
  by (simp_all add: moved_ctl_def)

lemma write_file_entry_moved:
  "write_file_entry (move_request b rq) i (moved_env b w) = map_sum id (moved_env b) (write_file_entry rq i w)"
  by (auto simp: write_file_entry_def file_entry_def Let_def bindE_def moved_env_def split: option.split sum.split)

lemma write_file_cluster_moved:
  "write_file_cluster (move_request b rq) n i (moved_env b w) = moved_ctl b (write_file_cluster rq n i w)"
proof -
  define src where "src = rq_buf rq + we_written w * of_nat CLUSTER_SIZE"
  define tail where "tail = rq_buffer_size rq - we_written w * of_nat CLUSTER_SIZE"
  define m1 where "m1 = (if we_written w + 1 = n
    then memset (we_mem w) (src + tail) (int i) (unat (of_nat CLUSTER_SIZE * (we_written w + 1) - rq_buffer_size rq))
    else we_mem w)"
  have moved: "rq_buf rq + b + we_written w * of_nat CLUSTER_SIZE = src + b" "src + b + tail = (src + tail) + b"
    "(if c then moved b x else moved b y) = moved b (if c then x else y)" for c x y
    by (simp_all add: src_def)
  show ?thesis
    unfolding write_file_cluster_def Let_def moved_env_sel move_request_sel moved
      tail_def [symmetric] moved_memset moved_read src_def [symmetric] m1_def [symmetric]
    by (auto simp: bindE_def moved_env_def split: sum.split)
qed

lemma write_file_step_moved:
  "write_file_step (move_request b rq) n i (moved_env b w) = moved_ctl b (write_file_step rq n i w)"
  by (auto simp: write_file_step_def bindE_def write_file_entry_moved write_file_cluster_moved split: sum.split)

lemma forE_moved:
  assumes "\<And>i w. step' i (moved_env b w) = moved_ctl b (step i w)"
  shows "forE step' is (moved_env b w) = moved_ctl b (forE step is w)"
  by (induction "is" arbitrary: w) (auto simp: assms bindE_def split: sum.split ctl.split)

lemma write_file_while_moved_Some:
  assumes "write_file_while rq n w = Some x"
  shows "write_file_while (move_request b rq) n (moved_env b w) = Some (map_sum id (moved_end b) x)"
  using assms
proof (rule write_file_while.raw_induct [rotated])
  fix rec rq n w x
  assume IH: "\<And>rq n w x. rec rq n w = Some x \<Longrightarrow>
      write_file_while (move_request b rq) n (moved_env b w) = Some (map_sum id (moved_end b) x)"
    and body: "(if we_written w < n then
        (case forE (write_file_step rq n) [unat ROOT_CLUSTER_NUMBER..<CLUSTER_SIZE] w of
           Inl e \<Rightarrow> Some (Inl e)
         | Inr (Ret r) \<Rightarrow> Some (Inr r)
         | Inr (Next w') \<Rightarrow> rec rq n w'
         | Inr (Brk w') \<Rightarrow> rec rq n w')
      else Some (Inr (0, we_fs w, we_mem w))) = Some x"
  note round = forE_moved [of "write_file_step (move_request b rq) n" b "write_file_step rq n", OF write_file_step_moved]
  show "write_file_while (move_request b rq) n (moved_env b w) = Some (map_sum id (moved_end b) x)"
    using body IH by (subst write_file_while.simps) (auto simp: round split: sum.splits if_splits ctl.splits)
qed

lemma write_file_while_moved:
  "write_file_while (move_request b rq) n (moved_env b w) = map_option (map_sum id (moved_end b)) (write_file_while rq n w)"
proof (cases "write_file_while rq n w")
  case (Some x)
  then show ?thesis by (simp add: write_file_while_moved_Some)
next
  case None
  have undo: "moved_env (- b) (moved_env b w) = w" by (simp add: moved_env_def)
  have "write_file_while (move_request b rq) n (moved_env b w) \<noteq> Some y" for y
    using write_file_while_moved_Some [of "move_request b rq" n "moved_env b w" y "- b"] None unfolding undo by auto
  then show ?thesis using None by (cases "write_file_while (move_request b rq) n (moved_env b w)") auto
qed

lemma write_folder_moved: "write_folder j jt (move_request b rq) f = write_folder j jt rq f"
proof -
  have "write_folder_step j t (move_request b rq) = write_folder_step j t rq" for t
    by (intro ext) (simp only: write_folder_step_def folder_entry_def move_request_sel)
  then show ?thesis by (simp add: write_folder_def)
qed

lemma fs_write_moved:
  "fs_write j jt (move_request b rq) f (moved b m) = map_option (map_sum id (moved_end b)) (fs_write j jt rq f m)"
proof -
  have start: "\<lparr>we_fs = f1, we_mem = moved b m, we_written = 0, we_clust_before = 0, we_slot_available = False\<rparr> =
      moved_env b \<lparr>we_fs = f1, we_mem = m, we_written = 0, we_clust_before = 0, we_slot_available = False\<rparr>" for f1
    by (simp add: moved_env_def)
  show ?thesis
    by (auto simp: fs_write_def Let_def bindE_def start write_file_while_moved write_folder_moved split: sum.split)
qed

lemma fs_delete_moved: "fs_delete (move_request b rq) f = fs_delete rq f"
  by (simp only: fs_delete_def move_request_sel)

section \<open>What a write does to its buffer\<close>

text \<open>Only the rest of the last cluster, past the bytes to write, is overwritten.\<close>

definition padded :: "driver_request \<Rightarrow> mem \<Rightarrow> mem \<Rightarrow> bool" where
  "padded rq m m' \<longleftrightarrow> (\<forall>a. unat (a - rq_buf rq) < unat (rq_buffer_size rq) \<or>
     2048 * size_in_clusters (rq_buffer_size rq) \<le> unat (a - rq_buf rq) \<longrightarrow> m' a = m a)"

lemma padded_refl [simp]: "padded rq m m"
  by (simp add: padded_def)

lemma padded_trans: "padded rq m m1 \<Longrightarrow> padded rq m1 m2 \<Longrightarrow> padded rq m m2"
  by (simp add: padded_def)

lemma padding_length:
  "unat (of_nat CLUSTER_SIZE * clusters_needed sz - sz) = 2048 * size_in_clusters sz - unat sz"
proof -
  let ?n = "size_in_clusters sz"
  have b: "unat sz \<le> 2048 * ?n" "2048 * ?n < unat sz + 2048" "unat sz < 4294967296"
    using unsigned_less [of sz] by (auto simp: size_in_clusters_def)
  have "(of_nat CLUSTER_SIZE * clusters_needed sz - sz :: u32) = of_nat (2048 * ?n - unat sz)"
  proof -
    have "clusters_needed sz = of_nat ?n" by (simp flip: clusters_needed_unat)
    then show ?thesis using b(1) by (simp add: CLUSTER_SIZE_val of_nat_diff)
  qed
  moreover have "2048 * ?n - unat sz < 4294967296" using b by linarith
  ultimately show ?thesis by (simp only: unat_of_nat32)
qed

lemma clusters_space: "2048 * size_in_clusters sz \<le> 4294967296"
proof -
  have "unat sz < 4294967296" by simp
  then have "(unat sz + 2047) div 2048 \<le> 4294969342 div 2048" by (intro div_le_mono) linarith
  then show ?thesis by (simp add: size_in_clusters_def)
qed

lemma memset_padded:
  assumes "n = clusters_needed (rq_buffer_size rq)" and "a = rq_buf rq + rq_buffer_size rq"
  shows "padded rq m (memset m a c (unat (of_nat CLUSTER_SIZE * n - rq_buffer_size rq)))"
  unfolding padded_def
proof (intro allI impI)
  fix x
  let ?sz = "rq_buffer_size rq"
  define d where "d = x - rq_buf rq"
  define k where "k = 2048 * size_in_clusters ?sz"
  assume "unat (x - rq_buf rq) < unat ?sz \<or> 2048 * size_in_clusters ?sz \<le> unat (x - rq_buf rq)"
  then have x: "unat d < unat ?sz \<or> k \<le> unat d" by (simp only: d_def k_def)
  have n: "k \<le> 4294967296" unfolding k_def by (rule clusters_space)
  have xa: "x - a = d - ?sz" using assms(2) by (simp add: d_def)
  have "\<not> unat (d - ?sz) < k - unat ?sz"
    using x
  proof
    assume "unat d < unat ?sz"
    then have "unat (d - ?sz) = unat d + 4294967296 - unat ?sz" by (simp add: unat_sub_if')
    then show ?thesis using n by linarith
  next
    assume "k \<le> unat d"
    then show ?thesis using unat_sub_if' [of d ?sz] by (cases "unat ?sz \<le> unat d") simp_all
  qed
  then show "memset m a c (unat (of_nat CLUSTER_SIZE * n - ?sz)) x = m x"
    unfolding assms(1) padding_length k_def [symmetric] using n by (simp add: memset_closed mem_write_outside xa)
qed

lemma write_file_step_padded:
  assumes "write_file_step rq (clusters_needed (rq_buffer_size rq)) i w = Inr c"
  shows "case c of Next w' \<Rightarrow> padded rq (we_mem w) (we_mem w') | Brk w' \<Rightarrow> padded rq (we_mem w) (we_mem w')
    | Ret e \<Rightarrow> padded rq (we_mem w) (snd (snd e))"
proof -
  let ?n = "clusters_needed (rq_buffer_size rq)"
  have e: "we_mem w1 = we_mem w" if "write_file_entry rq i w = Inr w1" for w1
    using that by (auto simp: write_file_entry_def Let_def bindE_eq_Inr split: option.splits)
  have cl: "case c of Next w' \<Rightarrow> padded rq (we_mem w1) (we_mem w') | Brk w' \<Rightarrow> padded rq (we_mem w1) (we_mem w')
      | Ret e \<Rightarrow> padded rq (we_mem w1) (snd (snd e))"
    if "write_file_cluster rq ?n i w1 = Inr c" for w1
  proof -
    have tail: "rq_buf rq + x + (rq_buffer_size rq - x) = rq_buf rq + rq_buffer_size rq" for x by simp
    have "padded rq (we_mem w1)
      (if we_written w1 + 1 = ?n
       then memset (we_mem w1) (rq_buf rq + rq_buffer_size rq) (int i) (unat (of_nat CLUSTER_SIZE * (we_written w1 + 1) - rq_buffer_size rq))
       else we_mem w1)"
      by (simp add: memset_padded)
    then show ?thesis
      using that unfolding write_file_cluster_def Let_def tail by (auto simp: bindE_eq_Inr split: if_splits)
  qed
  have "c = Next w \<or> (\<exists>w1. we_mem w1 = we_mem w \<and>
      (c = Ret (-1, we_fs w1, we_mem w1) \<or> write_file_cluster rq ?n i w1 = Inr c))"
    using assms e by (auto simp: write_file_step_def bindE_eq_Inr split: if_splits)
  then show ?thesis
  proof (elim disjE exE conjE)
    fix w1 assume m: "we_mem w1 = we_mem w" and c: "write_file_cluster rq ?n i w1 = Inr c"
    show ?thesis using cl [OF c] unfolding m .
  qed simp_all
qed

lemma write_file_while_padded:
  assumes "write_file_while rq n w = Some x"
  shows "n = clusters_needed (rq_buffer_size rq) \<longrightarrow> (\<forall>r f m. x = Inr (r, f, m) \<longrightarrow> padded rq (we_mem w) m)"
  using assms
proof (rule write_file_while.raw_induct [rotated])
  fix rec rq n w x
  assume IH: "\<And>rq n w x. rec rq n w = Some x \<Longrightarrow>
      n = clusters_needed (rq_buffer_size rq) \<longrightarrow> (\<forall>r f m. x = Inr (r, f, m) \<longrightarrow> padded rq (we_mem w) m)"
    and body: "(if we_written w < n then
        (case forE (write_file_step rq n) [unat ROOT_CLUSTER_NUMBER..<CLUSTER_SIZE] w of
           Inl e \<Rightarrow> Some (Inl e)
         | Inr (Ret r) \<Rightarrow> Some (Inr r)
         | Inr (Next w') \<Rightarrow> rec rq n w'
         | Inr (Brk w') \<Rightarrow> rec rq n w')
      else Some (Inr (0, we_fs w, we_mem w))) = Some x"
  show "n = clusters_needed (rq_buffer_size rq) \<longrightarrow> (\<forall>r f m. x = Inr (r, f, m) \<longrightarrow> padded rq (we_mem w) m)"
  proof (intro impI allI)
    fix r f m
    assume n: "n = clusters_needed (rq_buffer_size rq)" and x: "x = Inr (r, f, m)"
    show "padded rq (we_mem w) m"
    proof (cases "we_written w < n")
      case True
      then obtain c where c: "forE (write_file_step rq n) [unat ROOT_CLUSTER_NUMBER..<CLUSTER_SIZE] w = Inr c"
        using body x by (auto split: sum.splits)
      have inv: "case c of Next w' \<Rightarrow> padded rq (we_mem w) (we_mem w') | Brk w' \<Rightarrow> padded rq (we_mem w) (we_mem w')
          | Ret e \<Rightarrow> padded rq (we_mem w) (snd (snd e))"
      proof (rule forE_invariant [OF c, where P = "\<lambda>w'. padded rq (we_mem w) (we_mem w')"])
        fix i s c
        assume "padded rq (we_mem w) (we_mem s)" and "write_file_step rq n i s = Inr c"
        then show "case c of Next s' \<Rightarrow> padded rq (we_mem w) (we_mem s') | Brk s' \<Rightarrow> padded rq (we_mem w) (we_mem s')
            | Ret e \<Rightarrow> padded rq (we_mem w) (snd (snd e))"
          using write_file_step_padded [of rq i s c] padded_trans [of rq "we_mem w" "we_mem s"] n by (cases c) simp_all
      qed simp
      show ?thesis
      proof (cases c)
        case (Next w')
        then show ?thesis using inv body c True x n IH [of rq n w' x] padded_trans [of rq "we_mem w" "we_mem w'" m] by simp
      next
        case (Brk w')
        then show ?thesis using inv body c True x n IH [of rq n w' x] padded_trans [of rq "we_mem w" "we_mem w'" m] by simp
      qed (use inv body c True x in simp)
    qed (use body x in simp)
  qed
qed

lemma fs_write_padded:
  assumes "fs_write j jt rq f m = Some (Inr (r, f', m'))"
  shows "padded rq m m'"
  using assms write_file_while_padded [of rq "clusters_needed (rq_buffer_size rq)"]
  by (fastforce simp: fs_write_def Let_def bindE_def split: if_splits sum.splits)

section \<open>A call in the shell's address space\<close>

definition user_memory :: "page_directory \<Rightarrow> 'd kernel \<Rightarrow> mem" where
  "user_memory d k = view d (pm (ksys k))"

text \<open>
  The shell is about to raise a call: \<open>rq\<close> is its request as \<open>Shell\<close> has it, with a buffer
  of a memory of its own; on the machine the request lies at \<open>p\<close>, the buffer starts \<open>b\<close>
  bytes up, and the return code goes to \<open>rc\<close>. What is uninitialised is what is there.
\<close>

definition calling :: "'d machine \<Rightarrow> page_directory \<Rightarrow> u32 \<Rightarrow> u32 \<Rightarrow> u32 \<Rightarrow> driver_request \<Rightarrow> junk \<Rightarrow> shell \<Rightarrow> 'd kernel \<Rightarrow> bool" where
  "calling M d p b rc rq j s k \<longleftrightarrow>
     user_directory (mlayout M) (ksys k) = Inr d \<and> frames_distinct d \<and> mapped d rc 1 \<and>
     user_request (mlayout M) p (ksys k) = Inr (move_request b rq) \<and> fs (ksys k) = disk s \<and>
     junk_mem j = (\<lambda>a. user_memory d k (a + b)) \<and> junk_entry j = mjunk M \<and> junk_table j = mjunk_table M"

text \<open>
  The call returned \<open>r\<close>: the code is at \<open>rc\<close>, the buffer of \<open>Shell\<close> as the call leaves it is
  the program's memory \<open>b\<close> bytes up wherever a page is mapped, the file system is \<open>f\<close>, and
  nothing else happened.
\<close>

definition returned :: "page_directory \<Rightarrow> u32 \<Rightarrow> u32 \<Rightarrow> int \<Rightarrow> fat32 \<Rightarrow> mem \<Rightarrow> 'd kernel \<Rightarrow> 'd kernel \<Rightarrow> bool" where
  "returned d b rc r f m k k' \<longleftrightarrow>
     user_memory d k' rc = of_int r \<and>
     (\<forall>a. a \<noteq> rc \<and> translate d False a \<noteq> None \<longrightarrow> user_memory d k' a = m (a - b)) \<and>
     fs (ksys k') = f \<and> kept d (ksys k) (ksys k') \<and> kbd k' = kbd k \<and> con k' = con k"

lemma calling_memory: "calling M d p b rc rq j s k \<Longrightarrow> view d (pm (ksys k)) = moved b (junk_mem j)"
  by (simp add: calling_def moved_def user_memory_def)

lemma view_commit:
  "frames_distinct d \<Longrightarrow> translate d False a \<noteq> None \<Longrightarrow> view d (commit d m vm) a = vm a"
  by (auto simp: view_def commit_mapped)

text \<open>A call that leaves the view \<open>moved b m\<close> and stores its code returns as the shell expects.\<close>

lemma file_call_answers:
  assumes c: "calling M d p b rc rq j s k" and run: "g (move_request b rq) (ksys k) = Some (Inr (r, t))"
    and t: "kept d (ksys k) t" "\<And>a. translate d False a \<noteq> None \<Longrightarrow> view d (pm t) a = m (a - b)"
  shows "\<exists>k'. file_call M (registers n p rc 0) k g = Some (Inr k') \<and> returned d b rc r (fs t) m k k'"
proof -
  have d: "user_directory (mlayout M) t = Inr d" "frames_distinct d" "mapped d rc 1"
    using c kept_directory [OF t(1)] by (simp_all add: calling_def)
  let ?t = "t\<lparr>pm := commit d (pm t) (mem_write (view d (pm t)) rc [of_int r])\<rparr>"
  have st: "user_store (mlayout M) rc [of_int r] t = Inr ?t" using d by (simp add: user_store_def)
  have at: "view d (pm ?t) a = (if a = rc then of_int r else m (a - b))" if "translate d False a \<noteq> None" for a
    using view_commit [OF d(2) that] t(2) [OF that] by (simp add: mem_write_def unat_eq_0)
  have rc: "translate d False rc \<noteq> None" using mapped_address [OF d(3), of 0] by auto
  have "file_call M (registers n p rc 0) k g = Some (Inr (k\<lparr>ksys := ?t\<rparr>))"
    using c run st by (simp add: file_call_def registers_def calling_def bindO_def with_sys_def return_code_def)
  moreover have "returned d b rc r (fs t) m k (k\<lparr>ksys := ?t\<rparr>)"
    using at at [OF rc] kept_trans [OF t(1) user_store_kept(1) [OF st d(1)]] by (simp add: returned_def user_memory_def)
  ultimately show ?thesis by blast
qed

lemma read_call_returns:
  assumes c: "calling M d p b rc rq j s k" and run: "read_file (junk_mem j) rq s = Some (Inr (r, m))"
    and room: "\<And>a. stores_to (move_request b rq) (disk s) a \<Longrightarrow> translate d True a \<noteq> None"
  shows "\<exists>k'. syscall M (registers 0 p rc 0) k = Some (Inr k') \<and> returned d b rc r (disk s) m k k'"
proof -
  let ?t = "(ksys k)\<lparr>pm := commit d (pm (ksys k)) (moved b m)\<rparr>"
  have d: "user_directory (mlayout M) (ksys k) = Inr d" "frames_distinct d" "fs (ksys k) = disk s"
    using c by (simp_all add: calling_def)
  have "fs_read (move_request b rq) (fs (ksys k)) (view d (pm (ksys k))) = Some (Inr (r, moved b m))"
    using run by (simp add: calling_memory [OF c] fs_read_moved d(3) read_file_def)
  then have "read_call (mlayout M) (move_request b rq) (ksys k) = Some (Inr (r, ?t))"
    using d room user_translate by (fastforce simp: read_call_def read_through_def user_directory_def bindO_def)
  then show ?thesis
    using file_call_answers [OF c, where g = "read_call (mlayout M)" and t = ?t and m = m and n = 0]
      view_commit [OF d(2)] d(3)
    by (simp add: syscall_def registers_def kept_commit moved_def)
qed

lemma read_directory_call_returns:
  assumes c: "calling M d p b rc rq j s k" and run: "read_directory rq (disk s) (junk_mem j) = Inr (r, m)"
    and room: "mapped d (rq_buf rq + b) CLUSTER_SIZE"
  shows "\<exists>k'. syscall M (registers 1 p rc 0) k = Some (Inr k') \<and> returned d b rc r (disk s) m k k'"
proof -
  let ?t = "(ksys k)\<lparr>pm := commit d (pm (ksys k)) (moved b m)\<rparr>"
  have d: "user_directory (mlayout M) (ksys k) = Inr d" "frames_distinct d" "fs (ksys k) = disk s"
    using c by (simp_all add: calling_def)
  have "read_directory_through (mlayout M) (move_request b rq) (ksys k) = Inr (r, ?t)"
    using run d room by (simp add: read_directory_through_def calling_memory [OF c] read_directory_moved)
  then show ?thesis
    using file_call_answers [OF c, where g = "\<lambda>rq s. Some (read_directory_through (mlayout M) rq s)" and t = ?t and m = m and n = 1]
      view_commit [OF d(2)] d(3)
    by (simp add: syscall_def registers_def kept_commit moved_def)
qed

lemma write_call_returns:
  assumes c: "calling M d p b rc rq j s k"
    and run: "fs_write (junk_entry j) (junk_table j) rq (disk s) (junk_mem j) = Some (Inr (r, f, m))"
    and room: "mapped d (rq_buf rq + b) (CLUSTER_SIZE * size_in_clusters (rq_buffer_size rq))"
  shows "\<exists>k'. syscall M (registers 2 p rc 0) k = Some (Inr k') \<and> returned d b rc r f m k k'"
proof -
  let ?t = "(ksys k)\<lparr>fs := f, pm := commit d (pm (ksys k)) (moved b m)\<rparr>"
  have d: "user_directory (mlayout M) (ksys k) = Inr d" "frames_distinct d" "fs (ksys k) = disk s"
    and j: "junk_entry j = mjunk M" "junk_table j = mjunk_table M"
    using c by (simp_all add: calling_def)
  have "write_through (mlayout M) (mjunk M) (mjunk_table M) (move_request b rq) (ksys k) = Some (Inr (r, ?t))"
    using run d room
    by (simp add: write_through_def Let_def calling_memory [OF c] fs_write_moved bindO_def clusters_needed_unat mult.commute flip: j)
  then show ?thesis
    using file_call_answers [OF c, where g = "write_through (mlayout M) (mjunk M) (mjunk_table M)" and t = ?t and m = m and n = 2]
      view_commit [OF d(2)] d(3)
    by (simp add: syscall_def registers_def kept_commit moved_def)
qed

lemma delete_call_returns:
  assumes c: "calling M d p b rc rq j s k" and run: "fs_delete rq (disk s) = Some (Inr (r, f))"
  shows "\<exists>k'. syscall M (registers 3 p rc 0) k = Some (Inr k') \<and> returned d b rc r f (junk_mem j) k k'"
proof -
  let ?t = "(ksys k)\<lparr>fs := f\<rparr>"
  have "delete_call (move_request b rq) (ksys k) = Some (Inr (r, ?t))"
    using run c by (simp add: delete_call_def fs_delete_moved bindO_def calling_def)
  then show ?thesis
    using file_call_answers [OF c, where g = delete_call and t = ?t and m = "junk_mem j" and n = 3] calling_memory [OF c]
    by (simp add: syscall_def registers_def kept_fs moved_def)
qed

lemma read_clusters_whole: "read_clusters im c 1 = Inr bs \<Longrightarrow> length bs = CLUSTER_SIZE"
proof -
  have "read_blocks_loop im l ks = Inr bs \<Longrightarrow> length bs = BLOCK_SIZE * length ks" for l ks bs
    by (induction ks arbitrary: bs) (auto simp: bindE_eq_Inr split: if_splits)
  then show "read_clusters im c 1 = Inr bs \<Longrightarrow> length bs = CLUSTER_SIZE"
    by (fastforce simp: read_clusters_def read_blocks_def CLUSTER_BLOCK_COUNT_def CLUSTER_SIZE_def)
qed

lemma list_call_returns:
  assumes c: "calling M d p b rc (table_request name parent) j s k"
    and run: "list_directory (junk_mem j) name parent s = Inr (r, t)"
    and room: "mapped d b CLUSTER_SIZE" "CLUSTER_SIZE \<le> unat (rc - b)"
  shows "\<exists>k' m. syscall M (registers 1 p rc 0) k = Some (Inr k') \<and> returned d b rc r (disk s) m k k' \<and>
    table_of (mem_read (user_memory d k') b CLUSTER_SIZE) = t \<and> (\<forall>a. CLUSTER_SIZE \<le> unat a \<longrightarrow> m a = junk_mem j a)"
proof -
  obtain m where m: "read_directory (table_request name parent) (disk s) (junk_mem j) = Inr (r, m)"
    "t = table_of (mem_read m 0 CLUSTER_SIZE)"
    using run by (auto simp: list_directory_def bindE_eq_Inr)
  have buf: "rq_buf (table_request name parent) = 0" by (simp add: table_request_def)
  obtain k' where k': "syscall M (registers 1 p rc 0) k = Some (Inr k')" "returned d b rc r (disk s) m k k'"
    using read_directory_call_returns [OF c m(1)] room(1) buf by auto
  have "mem_read (user_memory d k') b CLUSTER_SIZE = mem_read m 0 CLUSTER_SIZE"
  proof (rule nth_equalityI)
    fix i assume "i < length (mem_read (user_memory d k') b CLUSTER_SIZE)"
    then have i: "i < CLUSTER_SIZE" by simp
    have "b + of_nat i \<noteq> rc" using room(2) i by (auto simp: CLUSTER_SIZE_val unat_of_nat32)
    moreover have "translate d False (b + of_nat i) \<noteq> None" using mapped_address [OF room(1) i] by auto
    ultimately show "mem_read (user_memory d k') b CLUSTER_SIZE ! i = mem_read m 0 CLUSTER_SIZE ! i"
      using k'(2) i by (simp add: nth_mem_read returned_def)
  qed simp
  moreover have "m a = junk_mem j a" if a: "CLUSTER_SIZE \<le> unat a" for a
  proof -
    have "m = junk_mem j \<or> (\<exists>bs. length bs = CLUSTER_SIZE \<and> m = mem_write (junk_mem j) 0 bs)"
      using m(1) buf
      by (auto simp: read_directory_def Let_def bindE_eq_Inr dest: read_clusters_whole split: if_splits option.split_asm)
    then show ?thesis using a by (auto simp: mem_write_outside)
  qed
  ultimately show ?thesis using k' m(2) by auto
qed

lemma table_call_returns:
  assumes c: "calling M d p b rc rq j s k" and bs: "user_load (mlayout M) a CLUSTER_SIZE (ksys k) = Inr (table_bytes t)"
    and run: "write_table t cluster s = Inr s'"
  shows "syscall M (registers 14 a cluster 0) k = Some (Inr (k\<lparr>ksys := (ksys k)\<lparr>fs := disk s'\<rparr>\<rparr>))"
  using assms
  by (auto simp: syscall_def registers_def write_cluster_call_def write_table_def calling_def with_sys_def bindO_def bindE_eq_Inr)

text \<open>
  C9. The shell's operations on files are the kernel's system calls. Take a shell about to
  raise a call, with its request, its buffer and the place for the return code anywhere in
  its own pages (the user pages of its address space), and what is uninitialised in the model
  being what lies there. System calls 0 to 3 and 14 then do to the machine exactly what \<open>read_file\<close>, \<open>list_directory\<close>,
  \<open>write_file\<close>, \<open>delete_file\<close> and \<open>write_table\<close> do to the shell's state: the same return code, the
  same file system, the same buffer. A write overwrites nothing but the padding of its last
  cluster, a listing nothing but the table, and no byte outside the program's pages changes.
\<close>

theorem shell_calls_are_system_calls:
  assumes "calling M d p b rc rq j s k"
  shows "(\<forall>r m. read_file (junk_mem j) rq s = Some (Inr (r, m)) \<and>
        (\<forall>a. stores_to (move_request b rq) (disk s) a \<longrightarrow> translate d True a \<noteq> None) \<longrightarrow>
      (\<exists>k'. syscall M (registers 0 p rc 0) k = Some (Inr k') \<and> returned d b rc r (disk s) m k k')) \<and>
    (\<forall>name parent r t. rq = table_request name parent \<and> list_directory (junk_mem j) name parent s = Inr (r, t) \<and>
        mapped d b CLUSTER_SIZE \<and> CLUSTER_SIZE \<le> unat (rc - b) \<longrightarrow>
      (\<exists>k' m. syscall M (registers 1 p rc 0) k = Some (Inr k') \<and> returned d b rc r (disk s) m k k' \<and>
        table_of (mem_read (user_memory d k') b CLUSTER_SIZE) = t \<and> (\<forall>a. CLUSTER_SIZE \<le> unat a \<longrightarrow> m a = junk_mem j a))) \<and>
    (\<forall>r s'. write_file j rq (junk_mem j) s = Some (Inr (r, s')) \<and>
        mapped d (rq_buf rq + b) (CLUSTER_SIZE * size_in_clusters (rq_buffer_size rq)) \<longrightarrow>
      (\<exists>k' m. syscall M (registers 2 p rc 0) k = Some (Inr k') \<and> returned d b rc r (disk s') m k k' \<and> padded rq (junk_mem j) m)) \<and>
    (\<forall>r s'. delete_file rq s = Some (Inr (r, s')) \<longrightarrow>
      (\<exists>k'. syscall M (registers 3 p rc 0) k = Some (Inr k') \<and> returned d b rc r (disk s') (junk_mem j) k k')) \<and>
    (\<forall>a t cluster s'. user_load (mlayout M) a CLUSTER_SIZE (ksys k) = Inr (table_bytes t) \<and> write_table t cluster s = Inr s' \<longrightarrow>
      syscall M (registers 14 a cluster 0) k = Some (Inr (k\<lparr>ksys := (ksys k)\<lparr>fs := disk s'\<rparr>\<rparr>)))"
proof (intro conjI allI impI, goal_cases)
  case (1 r m)
  then show ?case using read_call_returns [OF assms] by simp
next
  case (2 name parent r t)
  then show ?case using list_call_returns [of M d p b rc name parent j s k r t] assms by simp
next
  case (3 r s')
  then obtain f m where w: "fs_write (junk_entry j) (junk_table j) rq (disk s) (junk_mem j) = Some (Inr (r, f, m))" "disk s' = f"
    by (auto simp: write_file_def bindO_eq)
  then show ?case using write_call_returns [OF assms w(1)] fs_write_padded [OF w(1)] 3 by auto
next
  case (4 r s')
  then show ?case using delete_call_returns [OF assms] by (auto simp: delete_file_def bindO_eq)
next
  case (5 a t cluster s')
  then show ?case using table_call_returns [OF assms] by simp
qed

section \<open>Listing the root directory\<close>

text \<open>The request of ls in the root, for the directory itself, as the 23 bytes in memory.\<close>

definition demo_call_bytes :: "u8 list" where
  "demo_call_bytes = [0x00, 0x10, 0, 0] @ root_name @ [0, 0, 0] @ [2, 0, 0, 0] @ [0x00, 0x08, 0, 0]"

lemma length_demo_call [simp]: "length demo_call_bytes = 23"
  by (simp add: demo_call_bytes_def root_name_def)

lemma demo_call_request: "request_of demo_call_bytes = move_request 0x1000 (table_request root_name 2)"
  by (simp add: request_of_def demo_call_bytes_def move_request_def table_request_def u32_of_bytes_def root_name_def CLUSTER_SIZE_val)

lemma demo_call_stored:
  "\<exists>k :: (u8 \<times> nat) kernel. user_load demo_layout 0x2000 23 (ksys k) = Inr demo_call_bytes \<and>
     user_directory demo_layout (ksys k) = Inr program_directory \<and> fs (ksys k) = demo_fs"
proof -
  let ?s = "(boot_sys demo_layout (\<lambda>_. 0) (\<lambda>_. 0))\<lparr>pg := program_paging, fs := demo_fs\<rparr>"
  have d: "user_directory demo_layout ?s = Inr program_directory" by (simp add: program_user_directory)
  have m: "mapped program_directory 0x2000 (length demo_call_bytes)" by (rule program_maps) simp_all
  obtain s where s: "user_load demo_layout 0x2000 (length demo_call_bytes) s = Inr demo_call_bytes"
    "kept program_directory ?s s" "fs s = fs ?s"
    using stored_is_loaded [OF d program_directory_distinct m] by auto
  have "user_directory demo_layout s = Inr program_directory" using kept_directory [OF s(2)] d by simp
  then show ?thesis using s by (intro exI [of _ "demo_clock_kernel\<lparr>ksys := s\<rparr>"]) simp
qed

theorem shell_calls_are_system_calls_witness:
  "\<exists>k k'. user_load demo_layout 0x2000 23 (ksys k) = Inr demo_call_bytes \<and>
     syscall demo_clock_machine (registers 1 0x2000 0x3000 0) k = Some (Inr k') \<and>
     user_memory program_directory k' 0x3000 = 0 \<and>
     table_of (mem_read (user_memory program_directory k') 0x1000 CLUSTER_SIZE) = demo_root"
proof -
  obtain k :: "(u8 \<times> nat) kernel" where k: "user_load demo_layout 0x2000 23 (ksys k) = Inr demo_call_bytes"
    "user_directory demo_layout (ksys k) = Inr program_directory" "fs (ksys k) = demo_fs"
    using demo_call_stored by blast
  define j where "j = \<lparr>junk_mem = (\<lambda>a. user_memory program_directory k (a + 0x1000)), junk_name = [], junk_dest = [], junk_paths = [], junk_temp = [], junk_word = 0,
    junk_entry = mjunk demo_clock_machine, junk_table = mjunk_table demo_clock_machine, junk_queue = [], junk_round = (\<lambda>_. (\<lambda>_. 0, 0))\<rparr>"
  define s where "s = \<lparr>CURRENT_DIR_CLUSTER_NUMBER = 2, CURRENT_DIR_PARENT_CLUSTER_NUMBER = 2, DEPTH = 0, DIR_PATH = [root_name],
    DIR_CLUSTERS = [2], clock_is_running = 0, disk = demo_fs, trace = []\<rparr>"
  have m: "mapped program_directory 0x3000 1" "mapped program_directory 0x1000 CLUSTER_SIZE"
    by (rule program_maps; simp add: CLUSTER_SIZE_val)+
  have c: "calling demo_clock_machine program_directory 0x2000 0x1000 0x3000 (table_request root_name 2) j s k"
    using k m program_directory_distinct
    by (simp add: calling_def j_def s_def user_request_def demo_call_request demo_clock_machine_def)
  have l: "list_directory (junk_mem j) root_name 2 s = Inr (0, demo_root)"
    using list_directory_found [of 2 s root_name "demo_root ! 0"]
    by (simp add: s_def demo_lookup_root demo_root_cluster) (simp add: demo_root_nth)
  show ?thesis
    using conjunct1 [OF conjunct2 [OF shell_calls_are_system_calls [OF c]]] l m k(1)
    by (fastforce simp: returned_def CLUSTER_SIZE_val)
qed

end
