(* ===== verification/Stubs.thy ===== *)
theory Stubs
  imports Interrupts Descriptors
begin

text \<open>
  The assembly between the processor and the C code: the interrupt stubs of
  \<^verbatim>\<open>src/src/header/interrupt/intsetup.s\<close>, the context switch of \<^verbatim>\<open>src/src/ctx_switch.s\<close>, the
  start of a program in \<^verbatim>\<open>src/src/crt0.s\<close> and the jump to user mode of
  \<^verbatim>\<open>src/src/kernel-entrypoint.s\<close>, instruction by instruction. A state is the registers, the
  selectors of code and stack, the flags and the stack as a function from addresses to
  double words: every access of the stubs is a double word a multiple of four away from the
  stack pointer. The address space is flat, so a selector matters only for its privilege.

  What processors do differently is a parameter: whether pushing a selector extends it with
  zeros or leaves the upper half of the double word, and the arithmetic flags.
\<close>

section \<open>The processor\<close>

record x86 =
  regs :: cpu_register
  ip :: u32
  code_seg :: u32
  stack_seg :: u32
  flag_reg :: u32
  words :: "u32 \<Rightarrow> u32"

record processor =
  zero_extends :: bool
  alu_flags :: "u32 \<Rightarrow> u32 \<Rightarrow> u32"

definition top :: "x86 \<Rightarrow> u32" where
  "top s = esp (regs s)"

definition push :: "u32 \<Rightarrow> x86 \<Rightarrow> x86" where
  "push v s = s\<lparr>regs := (regs s)\<lparr>esp := top s - 4\<rparr>, words := (words s)(top s - 4 := v)\<rparr>"

definition push_at :: "u32 \<Rightarrow> x86 \<Rightarrow> x86" where
  "push_at a s = push (words s a) s"

definition drop_words :: "u32 \<Rightarrow> x86 \<Rightarrow> x86" where
  "drop_words n s = s\<lparr>regs := (regs s)\<lparr>esp := top s + 4 * n\<rparr>\<rparr>"

definition dword :: "x86 \<Rightarrow> u32 \<Rightarrow> u32" where
  "dword s n = words s (top s + n)"

text \<open>A selector has 16 bits.\<close>

definition push_selector :: "processor \<Rightarrow> (cpu_register \<Rightarrow> u32) \<Rightarrow> x86 \<Rightarrow> x86" where
  "push_selector P sel s =
     push (if zero_extends P then sel (regs s) AND 0xFFFF
           else (words s (top s - 4) AND 0xFFFF0000) OR (sel (regs s) AND 0xFFFF)) s"

definition pop_reg :: "(u32 \<Rightarrow> cpu_register \<Rightarrow> cpu_register) \<Rightarrow> x86 \<Rightarrow> x86" where
  "pop_reg upd s = s\<lparr>regs := upd (dword s 0) ((regs s)\<lparr>esp := top s + 4\<rparr>)\<rparr>"

definition pushad :: "x86 \<Rightarrow> x86" where
  "pushad s = (let r = regs s in
     push (edi r) (push (esi r) (push (ebp r) (push (esp r) (push (ebx r) (push (edx r) (push (ecx r) (push (eax r) s))))))))"

definition popad :: "x86 \<Rightarrow> x86" where
  "popad s = s\<lparr>regs := (regs s)\<lparr>edi := dword s 0, esi := dword s 4, ebp := dword s 8, esp := top s + 32, ebx := dword s 16,
     edx := dword s 20, ecx := dword s 24, eax := dword s 28\<rparr>\<rparr>"

text \<open>
  A return from the kernel to user mode takes the stack from the stack too and clears the
  selectors of the kernel's segments, which user code may not hold.
\<close>

definition outer_selector :: "u32 \<Rightarrow> u32" where
  "outer_selector x =
     (if x AND 0xFFFC = ucast GDT_KERNEL_CODE_SEGMENT_SELECTOR \<or> x AND 0xFFFC = ucast GDT_KERNEL_DATA_SEGMENT_SELECTOR then 0 else x)"

definition iret :: "x86 \<Rightarrow> x86" where
  "iret s = (let r = regs s in
     if dword s 4 AND 3 = 0
     then s\<lparr>regs := r\<lparr>esp := top s + 12\<rparr>, ip := dword s 0, code_seg := dword s 4, flag_reg := dword s 8\<rparr>
     else s\<lparr>regs := r\<lparr>esp := dword s 12, gs := outer_selector (gs r), fs_seg := outer_selector (fs_seg r),
              es := outer_selector (es r), ds := outer_selector (ds r)\<rparr>,
            ip := dword s 0, code_seg := dword s 4, flag_reg := dword s 8, stack_seg := dword s 16\<rparr>)"

text \<open>
  An interrupt through a gate of the interrupt table: from user mode on the stack the task
  segment names (\<open>sp0\<close>), with interrupts off (and the trap, nested-task, resume and
  virtual-mode flags) and the kernel's code segment; \<open>handler\<close> is the address in the gate.
\<close>

definition raise_interrupt :: "u32 \<Rightarrow> u32 \<Rightarrow> x86 \<Rightarrow> x86" where
  "raise_interrupt sp0 handler s =
     (let s1 = (if code_seg s AND 3 = 0 then s
                else push (top s) (push (stack_seg s) (s\<lparr>regs := (regs s)\<lparr>esp := sp0\<rparr>, stack_seg := ucast GDT_KERNEL_DATA_SEGMENT_SELECTOR\<rparr>)));
          s2 = push (ip s) (push (code_seg s) (push (flag_reg s) s1))
      in s2\<lparr>ip := handler, code_seg := ucast GDT_KERNEL_CODE_SEGMENT_SELECTOR, flag_reg := flag_reg s AND NOT 0x34300\<rparr>)"

section \<open>The stubs\<close>

text \<open>Lines 15--52 of the common handler, up to the call of the C function.\<close>

definition save_registers :: "processor \<Rightarrow> x86 \<Rightarrow> x86" where
  "save_registers P s =
     pushad (push_selector P gs (push_selector P fs_seg (push_selector P es (push_selector P ds s))))"

definition user_stack_pointer :: "processor \<Rightarrow> x86 \<Rightarrow> x86" where
  "user_stack_pointer P s =
     (let r = dword s 52 AND 3;
          s1 = s\<lparr>regs := (regs s)\<lparr>eax := r\<rparr>, flag_reg := alu_flags P r (flag_reg s)\<rparr>
      in if r = 0 then s1
         else s1\<lparr>regs := (regs s1)\<lparr>eax := dword s 76\<rparr>, words := (words s)(top s + 20 := dword s 76)\<rparr>)"

definition kernel_segments :: "x86 \<Rightarrow> x86" where
  "kernel_segments s = s\<lparr>regs := (regs s)\<lparr>eax := (eax (regs s) AND 0xFFFF0000) OR 0x10, ds := 0x10, es := 0x10, fs_seg := 0x10, gs := 0x10\<rparr>\<rparr>"

definition restore_scratch :: "x86 \<Rightarrow> x86" where
  "restore_scratch s = s\<lparr>regs := (regs s)\<lparr>eax := dword s 0, esp := top s + 8\<rparr>, flag_reg := dword s 4\<rparr>"

definition call_generic_handler :: "processor \<Rightarrow> x86 \<Rightarrow> x86" where
  "call_generic_handler P s =
     (let s1 = save_registers P s;
          s2 = push (eax (regs s1)) (push (flag_reg s1) s1);
          s3 = restore_scratch (kernel_segments (user_stack_pointer P s2))
      in s3\<lparr>regs := (regs s3)\<lparr>ebp := top s3\<rparr>\<rparr>)"

definition interrupt_handler :: "processor \<Rightarrow> u32 \<Rightarrow> x86 \<Rightarrow> x86" where
  "interrupt_handler P n s = call_generic_handler P (push n (push 0 s))"

definition error_code_interrupt_handler :: "processor \<Rightarrow> u32 \<Rightarrow> x86 \<Rightarrow> x86" where
  "error_code_interrupt_handler P n s = call_generic_handler P (push n s)"

text \<open>Lines 54--72: back to what was interrupted.\<close>

definition generic_return :: "processor \<Rightarrow> x86 \<Rightarrow> x86" where
  "generic_return P s =
     (let s1 = pop_reg (\<lambda>v r. r\<lparr>ds := v AND 0xFFFF\<rparr>) (pop_reg (\<lambda>v r. r\<lparr>es := v AND 0xFFFF\<rparr>)
            (pop_reg (\<lambda>v r. r\<lparr>fs_seg := v AND 0xFFFF\<rparr>) (pop_reg (\<lambda>v r. r\<lparr>gs := v AND 0xFFFF\<rparr>) (popad s))))
      in iret ((drop_words 2 s1)\<lparr>flag_reg := alu_flags P (top s1 + 8) (flag_reg s1)\<rparr>))"

text \<open>The jump to user mode at the address its argument gives.\<close>

definition kernel_execute_user_program :: "x86 \<Rightarrow> x86" where
  "kernel_execute_user_program s =
     (let u = 0x20 OR 0x3; r = regs s; entry = dword s 4;
          s1 = s\<lparr>regs := r\<lparr>ds := u, es := u, fs_seg := u, gs := u, ecx := entry\<rparr>\<rparr>;
          s2 = push entry (push (0x18 OR 0x3) (push (flag_reg s) (push 0xBFFFFFFC (push u s1))))
      in iret (s2\<lparr>regs := (regs s2)\<lparr>eax := entry\<rparr>\<rparr>))"

text \<open>What the C function finds where its argument is.\<close>

definition registers_at :: "(u32 \<Rightarrow> u32) \<Rightarrow> u32 \<Rightarrow> cpu_register" where
  "registers_at w a = \<lparr>edi = w a, esi = w (a + 4), ebp = w (a + 8), esp = w (a + 12), ebx = w (a + 16), edx = w (a + 20),
     ecx = w (a + 24), eax = w (a + 28), gs = w (a + 32), fs_seg = w (a + 36), es = w (a + 40), ds = w (a + 44)\<rparr>"

definition frame_at :: "(u32 \<Rightarrow> u32) \<Rightarrow> u32 \<Rightarrow> interrupt_frame" where
  "frame_at w a = \<lparr>if_cpu = registers_at w a, int_number = w (a + 48), error_code = w (a + 52), if_eip = w (a + 56),
     if_cs = w (a + 60), if_eflags = w (a + 64)\<rparr>"

definition context_at :: "(u32 \<Rightarrow> u32) \<Rightarrow> u32 \<Rightarrow> cpu_context" where
  "context_at w a = \<lparr>cpu = registers_at w a, eip = w (a + 48), eflags = w (a + 52), page_directory_virtual_addr = w (a + 56)\<rparr>"

text \<open>The context switch: \<open>ecx\<close> points to its argument while the stack grows below it.\<close>

definition process_context_switch :: "x86 \<Rightarrow> x86" where
  "process_context_switch s =
     (let c = top s + 4;
          s1 = push_at (c + 48) (push (0x18 OR 0x3) (push_at (c + 52) (push_at (c + 12) (push (0x20 OR 0x3) s))));
          v = words s1
      in iret (s1\<lparr>regs := \<lparr>edi = v c, esi = v (c + 4), ebp = v (c + 8), esp = top s1, ebx = v (c + 16), edx = v (c + 20),
             ecx = v (c + 24), eax = v (c + 28), gs = v (c + 32) AND 0xFFFF, fs_seg = v (c + 36) AND 0xFFFF,
             es = v (c + 40) AND 0xFFFF, ds = v (c + 44) AND 0xFFFF\<rparr>\<rparr>))"

section \<open>Entry\<close>

lemmas stack_ops = push_def push_at_def top_def dword_def

text \<open>Registers as they are seen through 16-bit selectors.\<close>

definition low_selectors :: "cpu_register \<Rightarrow> cpu_register" where
  "low_selectors r = r\<lparr>gs := gs r AND 0xFFFF, fs_seg := fs_seg r AND 0xFFFF, es := es r AND 0xFFFF, ds := ds r AND 0xFFFF\<rparr>"

lemma selector_kept: "(if z then x AND 0xFFFF else (old AND 0xFFFF0000) OR (x AND 0xFFFF)) AND 0xFFFF = (x AND 0xFFFF :: u32)"
proof -
  have "(old AND NOT m OR (x AND m)) AND m = x AND m" for m :: u32 by (rule bit_word_eqI) (auto simp: bit_simps)
  then have "(old AND NOT 0xFFFF OR (x AND 0xFFFF)) AND 0xFFFF = x AND 0xFFFF" .
  moreover have "NOT 0xFFFF = (0xFFFF0000 :: u32)" by simp
  ultimately show ?thesis by (cases z) (simp_all only: if_True if_False and.assoc and.idem)
qed

definition user_state :: "x86 \<Rightarrow> bool" where
  "user_state s \<longleftrightarrow> code_seg s = 0x18 OR 0x3 \<and> stack_seg s = 0x20 OR 0x3 \<and> ds (regs s) AND 0x3 \<noteq> 0 \<and>
     (\<forall>sel \<in> {gs, fs_seg, es, ds}. sel (regs s) AND 0xFFFF = sel (regs s) \<and> outer_selector (sel (regs s)) = sel (regs s))"

lemma words_raise:
  assumes "code_seg s AND 3 \<noteq> 0"
  shows "raise_interrupt sp0 h s = s\<lparr>regs := (regs s)\<lparr>esp := sp0 - 20\<rparr>, ip := h, code_seg := 8, stack_seg := 16,
    flag_reg := flag_reg s AND NOT 0x34300,
    words := (words s)(sp0 - 4 := stack_seg s, sp0 - 8 := top s, sp0 - 12 := flag_reg s, sp0 - 16 := code_seg s, sp0 - 20 := ip s)\<rparr>"
  using assms by (simp add: raise_interrupt_def stack_ops selectors)

lemma words_save:
  "\<exists>vd ve vf vg. vd AND 0xFFFF = ds (regs s) AND 0xFFFF \<and> ve AND 0xFFFF = es (regs s) AND 0xFFFF \<and>
     vf AND 0xFFFF = fs_seg (regs s) AND 0xFFFF \<and> vg AND 0xFFFF = gs (regs s) AND 0xFFFF \<and>
     save_registers P s = s\<lparr>regs := (regs s)\<lparr>esp := top s - 48\<rparr>,
       words := (words s)(top s - 4 := vd, top s - 8 := ve, top s - 12 := vf, top s - 16 := vg,
         top s - 20 := eax (regs s), top s - 24 := ecx (regs s), top s - 28 := edx (regs s), top s - 32 := ebx (regs s),
         top s - 36 := top s - 16, top s - 40 := ebp (regs s), top s - 44 := esi (regs s), top s - 48 := edi (regs s))\<rparr>"
proof -
  let ?v = "\<lambda>a x. if zero_extends P then x AND 0xFFFF else (words s a AND 0xFFFF0000) OR (x AND 0xFFFF)"
  show ?thesis
    by (rule exI [of _ "?v (top s - 4) (ds (regs s))"], rule exI [of _ "?v (top s - 8) (es (regs s))"],
        rule exI [of _ "?v (top s - 12) (fs_seg (regs s))"], rule exI [of _ "?v (top s - 16) (gs (regs s))"])
      (simp add: selector_kept save_registers_def push_selector_def pushad_def stack_ops Let_def)
qed

lemma privilege_bits: "v AND 0xFFFF = x AND (0xFFFF :: u32) \<Longrightarrow> v AND 3 = x AND 3"
proof -
  assume e: "v AND 0xFFFF = x AND (0xFFFF :: u32)"
  have "y AND 3 = (y AND 0xFFFF) AND 3" for y :: u32 by (simp add: and.assoc)
  then show ?thesis using e by metis
qed

lemma words_generic:
  assumes "ds (regs s) AND 3 \<noteq> 0"
  shows "\<exists>vd ve vf vg. vd AND 0xFFFF = ds (regs s) AND 0xFFFF \<and> ve AND 0xFFFF = es (regs s) AND 0xFFFF \<and>
     vf AND 0xFFFF = fs_seg (regs s) AND 0xFFFF \<and> vg AND 0xFFFF = gs (regs s) AND 0xFFFF \<and>
     call_generic_handler P s = s\<lparr>regs := (regs s)\<lparr>ds := 16, es := 16, fs_seg := 16, gs := 16, esp := top s - 48, ebp := top s - 48\<rparr>,
       words := (words s)(top s - 4 := vd, top s - 8 := ve, top s - 12 := vf, top s - 16 := vg,
         top s - 20 := eax (regs s), top s - 24 := ecx (regs s), top s - 28 := edx (regs s), top s - 32 := ebx (regs s),
         top s - 36 := top s - 16, top s - 40 := ebp (regs s), top s - 44 := esi (regs s), top s - 48 := edi (regs s),
         top s - 52 := flag_reg s, top s - 56 := eax (regs s), top s - 36 := words s (20 + top s))\<rparr>"
proof -
  obtain vd ve vf vg where v: "vd AND 0xFFFF = ds (regs s) AND 0xFFFF" "ve AND 0xFFFF = es (regs s) AND 0xFFFF"
     "vf AND 0xFFFF = fs_seg (regs s) AND 0xFFFF" "vg AND 0xFFFF = gs (regs s) AND 0xFFFF"
     "save_registers P s = s\<lparr>regs := (regs s)\<lparr>esp := top s - 48\<rparr>,
       words := (words s)(top s - 4 := vd, top s - 8 := ve, top s - 12 := vf, top s - 16 := vg,
         top s - 20 := eax (regs s), top s - 24 := ecx (regs s), top s - 28 := edx (regs s), top s - 32 := ebx (regs s),
         top s - 36 := top s - 16, top s - 40 := ebp (regs s), top s - 44 := esi (regs s), top s - 48 := edi (regs s))\<rparr>"
    using words_save [of s P] by blast
  have "vd AND 3 \<noteq> 0" using privilege_bits [OF v(1)] assms by simp
  then have "call_generic_handler P s = s\<lparr>regs := (regs s)\<lparr>ds := 16, es := 16, fs_seg := 16, gs := 16, esp := top s - 48, ebp := top s - 48\<rparr>,
       words := (words s)(top s - 4 := vd, top s - 8 := ve, top s - 12 := vf, top s - 16 := vg,
         top s - 20 := eax (regs s), top s - 24 := ecx (regs s), top s - 28 := edx (regs s), top s - 32 := ebx (regs s),
         top s - 36 := top s - 16, top s - 40 := ebp (regs s), top s - 44 := esi (regs s), top s - 48 := edi (regs s),
         top s - 52 := flag_reg s, top s - 56 := eax (regs s), top s - 36 := words s (20 + top s))\<rparr>"
    unfolding call_generic_handler_def Let_def v(5)
    by (simp add: user_stack_pointer_def restore_scratch_def kernel_segments_def stack_ops Let_def)
  then show ?thesis using v(1-4) by blast
qed

text \<open>
  The entry from user mode: the C function finds the number, the instruction pointer, code
  segment and flags of the program and all its registers, its own stack pointer included;
  the stack pointer and segment the processor saved follow.
\<close>

lemma user_entry:
  fixes P :: processor and n sp0 h :: u32
  assumes "user_state s"
  defines "e \<equiv> interrupt_handler P n (raise_interrupt sp0 h s)"
  defines "f \<equiv> frame_at (words e) (top e)"
  shows "low_selectors (if_cpu f) = regs s" "int_number f = n" "error_code f = 0"
    "if_eip f = ip s" "if_cs f = code_seg s" "if_eflags f = flag_reg s"
    "top e = sp0 - 76" "dword e 68 = top s" "dword e 72 = stack_seg s" "code_seg e = 8" "stack_seg e = 16"
proof -
  have u: "code_seg s AND 3 \<noteq> 0" "ds (regs s) AND 3 \<noteq> 0"
    "gs (regs s) AND 0xFFFF = gs (regs s)" "fs_seg (regs s) AND 0xFFFF = fs_seg (regs s)"
    "es (regs s) AND 0xFFFF = es (regs s)" "ds (regs s) AND 0xFFFF = ds (regs s)"
    using assms(1) by (auto simp: user_state_def)
  let ?r = "push n (push 0 (raise_interrupt sp0 h s))"
  have r: "?r = s\<lparr>regs := (regs s)\<lparr>esp := sp0 - 28\<rparr>, ip := h, code_seg := 8, stack_seg := 16,
    flag_reg := flag_reg s AND NOT 0x34300,
    words := (words s)(sp0 - 4 := stack_seg s, sp0 - 8 := top s, sp0 - 12 := flag_reg s, sp0 - 16 := code_seg s, sp0 - 20 := ip s,
      sp0 - 24 := 0, sp0 - 28 := n)\<rparr>"
    unfolding words_raise [OF u(1)] by (simp add: stack_ops)
  have "ds (regs ?r) AND 3 \<noteq> 0" using u(2) by (simp add: r)
  then obtain vd ve vf vg where v: "vd AND 0xFFFF = ds (regs ?r) AND 0xFFFF" "ve AND 0xFFFF = es (regs ?r) AND 0xFFFF"
     "vf AND 0xFFFF = fs_seg (regs ?r) AND 0xFFFF" "vg AND 0xFFFF = gs (regs ?r) AND 0xFFFF"
     "call_generic_handler P ?r = ?r\<lparr>regs := (regs ?r)\<lparr>ds := 16, es := 16, fs_seg := 16, gs := 16, esp := top ?r - 48, ebp := top ?r - 48\<rparr>,
       words := (words ?r)(top ?r - 4 := vd, top ?r - 8 := ve, top ?r - 12 := vf, top ?r - 16 := vg,
         top ?r - 20 := eax (regs ?r), top ?r - 24 := ecx (regs ?r), top ?r - 28 := edx (regs ?r), top ?r - 32 := ebx (regs ?r),
         top ?r - 36 := top ?r - 16, top ?r - 40 := ebp (regs ?r), top ?r - 44 := esi (regs ?r), top ?r - 48 := edi (regs ?r),
         top ?r - 52 := flag_reg ?r, top ?r - 56 := eax (regs ?r), top ?r - 36 := words ?r (20 + top ?r))\<rparr>"
    using words_generic [of ?r P] by blast
  have e: "e = call_generic_handler P ?r" by (simp add: e_def interrupt_handler_def)
  show "int_number f = n" "error_code f = 0" "if_eip f = ip s" "if_cs f = code_seg s" "if_eflags f = flag_reg s"
    "top e = sp0 - 76" "dword e 68 = top s" "dword e 72 = stack_seg s" "code_seg e = 8" "stack_seg e = 16"
    unfolding f_def e v(5) unfolding r by (simp_all add: frame_at_def stack_ops)
  have "edi (if_cpu f) = edi (regs s)" "esi (if_cpu f) = esi (regs s)" "ebp (if_cpu f) = ebp (regs s)" "esp (if_cpu f) = esp (regs s)"
    "ebx (if_cpu f) = ebx (regs s)" "edx (if_cpu f) = edx (regs s)" "ecx (if_cpu f) = ecx (regs s)" "eax (if_cpu f) = eax (regs s)"
    "gs (if_cpu f) = vg" "fs_seg (if_cpu f) = vf" "es (if_cpu f) = ve" "ds (if_cpu f) = vd"
    unfolding f_def e v(5) unfolding r by (simp_all add: frame_at_def registers_at_def stack_ops)
  then show "low_selectors (if_cpu f) = regs s"
    using v(1-4) u(3-6) unfolding r by (simp add: low_selectors_def)
qed

text \<open>The context switch loads its argument, with the selectors of user mode.\<close>

lemma context_switch_effect:
  assumes "context_at (words k) (top k + 4) = ctx"
  shows "regs (process_context_switch k) = (let r = low_selectors (cpu ctx) in r\<lparr>gs := outer_selector (gs r),
      fs_seg := outer_selector (fs_seg r), es := outer_selector (es r), ds := outer_selector (ds r)\<rparr>)"
    "ip (process_context_switch k) = eip ctx" "code_seg (process_context_switch k) = 0x1B"
    "flag_reg (process_context_switch k) = eflags ctx" "stack_seg (process_context_switch k) = 0x23"
proof -
  define a where "a = top k"
  define v where "v = (words k)(a - 4 := 0x23, a - 8 := words k (16 + a), a - 12 := words k (56 + a),
    a - 16 := 0x1B, a - 20 := words k (52 + a))"
  have c: "edi (cpu ctx) = v (a + 4)" "esi (cpu ctx) = v (a + 4 + 4)" "ebp (cpu ctx) = v (a + 4 + 8)" "esp (cpu ctx) = v (a - 20 + 12)"
    "ebx (cpu ctx) = v (a + 4 + 16)" "edx (cpu ctx) = v (a + 4 + 20)" "ecx (cpu ctx) = v (a + 4 + 24)" "eax (cpu ctx) = v (a + 4 + 28)"
    "gs (cpu ctx) = v (a + 4 + 32)" "fs_seg (cpu ctx) = v (a + 4 + 36)" "es (cpu ctx) = v (a + 4 + 40)" "ds (cpu ctx) = v (a + 4 + 44)"
    "eip ctx = v (a - 20)" "eflags ctx = v (a - 20 + 8)" "v (a - 20 + 4) = 0x1B" "v (a - 20 + 16) = 0x23"
    unfolding assms [symmetric] v_def by (simp_all add: context_at_def registers_at_def a_def)
  have s1: "push_at (a + 4 + 48) (push (0x18 OR 0x3) (push_at (a + 4 + 52) (push_at (a + 4 + 12) (push (0x20 OR 0x3) k)))) =
      k\<lparr>regs := (regs k)\<lparr>esp := a - 20\<rparr>, words := v\<rparr>"
    by (simp add: stack_ops v_def a_def)
  have sw: "process_context_switch k = iret (k\<lparr>regs := (low_selectors (cpu ctx))\<lparr>esp := a - 20\<rparr>, words := v\<rparr>)"
    unfolding process_context_switch_def Let_def a_def [symmetric] s1
    by (rule arg_cong [where f = iret], cases "cpu ctx") (use c in \<open>simp add: low_selectors_def top_def del: add.assoc\<close>)
  show "regs (process_context_switch k) = (let r = low_selectors (cpu ctx) in r\<lparr>gs := outer_selector (gs r),
      fs_seg := outer_selector (fs_seg r), es := outer_selector (es r), ds := outer_selector (ds r)\<rparr>)"
    "ip (process_context_switch k) = eip ctx" "code_seg (process_context_switch k) = 0x1B"
    "flag_reg (process_context_switch k) = eflags ctx" "stack_seg (process_context_switch k) = 0x23"
    unfolding sw iret_def Let_def dword_def top_def using c(4,15,16) by (simp_all add: c(1-3,5-14) low_selectors_def)
qed

definition same_program :: "x86 \<Rightarrow> x86 \<Rightarrow> bool" where
  "same_program t s \<longleftrightarrow> regs t = regs s \<and> ip t = ip s \<and> code_seg t = code_seg s \<and> stack_seg t = stack_seg s \<and> flag_reg t = flag_reg s"

lemma user_selectors:
  assumes "user_state s"
  shows "(regs s)\<lparr>gs := outer_selector (gs (regs s)), fs_seg := outer_selector (fs_seg (regs s)),
      es := outer_selector (es (regs s)), ds := outer_selector (ds (regs s))\<rparr> = regs s"
    "code_seg s = 0x1B" "stack_seg s = 0x23"
  using assms by (auto simp: user_state_def)

lemma context_resumes:
  assumes "user_state s" and "low_selectors (cpu ctx) = regs s" "eip ctx = ip s" "eflags ctx = flag_reg s"
    and "context_at (words k) (top k + 4) = ctx"
  shows "same_program (process_context_switch k) s"
  unfolding context_switch_effect [OF assms(5)] same_program_def Let_def assms(2) user_selectors [OF assms(1)]
  using assms(3,4) by simp

lemma execute_user_effect:
  "user_state (kernel_execute_user_program s)" "ip (kernel_execute_user_program s) = dword s 4"
  "esp (regs (kernel_execute_user_program s)) = 0xBFFFFFFC" "flag_reg (kernel_execute_user_program s) = flag_reg s"
  by (simp_all add: kernel_execute_user_program_def iret_def Let_def stack_ops user_state_def outer_selector_def selectors)

section \<open>Return without a switch\<close>

text \<open>The frame as the C function was given it, and as it leaves it.\<close>

lemma pop_reg_at: "pop_reg upd (t\<lparr>regs := r\<rparr>) = t\<lparr>regs := upd (words t (esp r)) (r\<lparr>esp := esp r + 4\<rparr>)\<rparr>"
  by (simp add: pop_reg_def stack_ops)

lemma popad_at: "popad t = t\<lparr>regs := (registers_at (words t) (top t))\<lparr>esp := top t + 32, gs := gs (regs t), fs_seg := fs_seg (regs t),
    es := es (regs t), ds := ds (regs t)\<rparr>\<rparr>"
proof -
  have "(regs t)\<lparr>edi := i, esi := j, ebp := b, esp := sp, ebx := x, edx := d, ecx := c, eax := a\<rparr> =
      \<lparr>edi = i, esi = j, ebp = b, esp = sp, ebx = x, edx = d, ecx = c, eax = a,
       gs = gs (regs t), fs_seg = fs_seg (regs t), es = es (regs t), ds = ds (regs t)\<rparr>" for i j b sp x d c a
    by (cases "regs t") simp
  then show ?thesis by (simp add: popad_def stack_ops registers_at_def)
qed

lemma popped:
  "pop_reg (\<lambda>v r. r\<lparr>ds := v AND 0xFFFF\<rparr>) (pop_reg (\<lambda>v r. r\<lparr>es := v AND 0xFFFF\<rparr>)
     (pop_reg (\<lambda>v r. r\<lparr>fs_seg := v AND 0xFFFF\<rparr>) (pop_reg (\<lambda>v r. r\<lparr>gs := v AND 0xFFFF\<rparr>) (popad t)))) =
   t\<lparr>regs := (low_selectors (if_cpu (frame_at (words t) (top t))))\<lparr>esp := top t + 48\<rparr>\<rparr>"
  unfolding popad_at pop_reg_at by (simp add: registers_at_def frame_at_def low_selectors_def add.assoc)

lemma return_effect:
  assumes "low_selectors (if_cpu (frame_at (words t) (top t))) = r" and "if_cs (frame_at (words t) (top t)) AND 3 \<noteq> 0"
  shows "regs (generic_return P t) = r\<lparr>esp := dword t 68, gs := outer_selector (gs r), fs_seg := outer_selector (fs_seg r),
      es := outer_selector (es r), ds := outer_selector (ds r)\<rparr>"
    "ip (generic_return P t) = if_eip (frame_at (words t) (top t))"
    "code_seg (generic_return P t) = if_cs (frame_at (words t) (top t))"
    "flag_reg (generic_return P t) = if_eflags (frame_at (words t) (top t))"
    "stack_seg (generic_return P t) = dword t 72"
proof -
  have a: "esp (regs t) + 56 = 56 + esp (regs t)" "esp (regs t) + 60 = 60 + esp (regs t)" "esp (regs t) + 64 = 64 + esp (regs t)"
    "esp (regs t) + 68 = 68 + esp (regs t)" "esp (regs t) + 72 = 72 + esp (regs t)" by simp_all
  note ops = generic_return_def iret_def Let_def dword_def drop_words_def top_def frame_at_def
  show "regs (generic_return P t) = r\<lparr>esp := dword t 68, gs := outer_selector (gs r), fs_seg := outer_selector (fs_seg r),
      es := outer_selector (es r), ds := outer_selector (ds r)\<rparr>"
    "ip (generic_return P t) = if_eip (frame_at (words t) (top t))"
    "code_seg (generic_return P t) = if_cs (frame_at (words t) (top t))"
    "flag_reg (generic_return P t) = if_eflags (frame_at (words t) (top t))"
    "stack_seg (generic_return P t) = dword t 72"
    using assms(2) unfolding generic_return_def popped assms(1) by (simp_all add: ops a)
qed

text \<open>
  An interrupt that does not switch is invisible to the program. Whatever the C function
  does to registers and flags, if the stack pointer is back and the nineteen double words
  from the frame on are as they were, the return goes to the program with every register,
  selector and flag as at the interrupt.
\<close>

theorem interrupt_transparent:
  assumes "user_state s" and "e = interrupt_handler P n (raise_interrupt sp0 h s)"
    and "frame_at (words t) (top t) = frame_at (words e) (top e)" "dword t 68 = dword e 68" "dword t 72 = dword e 72"
  shows "same_program (generic_return P' t) s"
proof -
  note f = assms(3-5)
  note E = user_entry [OF assms(1), of P n sp0 h, folded assms(2)]
  have "if_cs (frame_at (words t) (top t)) AND 3 \<noteq> 0" using E(5) user_selectors(2) [OF assms(1)] by (simp add: f)
  note R = return_effect [OF E(1) [folded f(1)] this, of P']
  show ?thesis
    unfolding same_program_def R unfolding f E(4-6,8,9) using user_selectors(1) [OF assms(1)] by (simp add: top_def)
qed

section \<open>A process goes on where it was interrupted\<close>

text \<open>
  C8. Preemption is invisible. The processor, the stub, the C code and the context switch
  together: a process running a user program is interrupted by the timer. Under timer
  interrupts only, whatever the others compute, it is switched to again within fifteen
  further interrupts, and the switch resumes it with every register, selector and flag and
  the instruction pointer it had, in its own address space.
\<close>

theorem process_resumes:
  assumes "running (process_list y) i" and "length (process_list y) = 16" and "user_state s"
    and "frames = frame_at (words e) (top e) # others" and "e = interrupt_handler P 0x20 (raise_interrupt sp0 h s)"
    and "length others = 15" and "KERNEL_VIRTUAL_ADDRESS_BASE < paging_get_current_page_directory_addr (pg y)"
  shows "\<exists>k z y' ctx. k \<le> 15 \<and> ticks (take k frames) y = Some z \<and> timer_interrupt (frames ! k) z = Some (y', ctx) \<and>
    running (process_list y') i \<and>
    (\<forall>t. context_at (words t) (top t + 4) = ctx \<longrightarrow> same_program (process_context_switch t) s) \<and>
    paging_get_current_page_directory_addr (pg y') = paging_get_current_page_directory_addr (pg y)"
proof -
  let ?f = "frame_at (words e) (top e)"
  let ?c = "saved_context ?f y"
  let ?ps = "(process_list y)[i := (process_list y ! i)\<lparr>pcontext := ?c\<rparr>]"
  let ?n = "next_ready (process_list y) i"
  have i: "i < 16" using assms(1) by (simp add: running_def)
  have n: "?n < 16" by (rule next_ready_lt [OF i])
  note T = timer_effect [OF assms(1,2), where f = ?f]
  let ?y1 = "y\<lparr>process_list := switched i ?ps,
      pg := paging_use_page_directory (page_directory_virtual_addr (pcontext (?ps ! ?n))) (pg y)\<rparr>"
  have E: "low_selectors (cpu ?c) = regs s" "eip ?c = ip s" "eflags ?c = flag_reg s"
    using user_entry(1,4,6) [OF assms(3), of P "0x20" sp0 h] by (simp_all add: saved_context_def assms(5))
  have loads: "\<forall>t. context_at (words t) (top t + 4) = ?c \<longrightarrow> same_program (process_context_switch t) s"
    using context_resumes [OF assms(3) E] by blast
  have own: "paging_get_current_page_directory_addr (paging_use_page_directory (page_directory_virtual_addr ?c) p) =
      paging_get_current_page_directory_addr (pg y)" for p
    using assms(7) by (simp add: saved_context_def paging_get_current_page_directory_addr_def paging_use_page_directory_def)
  have run1: "running (process_list ?y1) ?n" using switched_running [OF T(2,3)] T(4) by simp
  show ?thesis
  proof (cases "?n = i")
    case True
    then show ?thesis
      using T(1) run1 loads own [of "pg y"] i assms(2,4) by (intro exI [of _ 0] exI [of _ y] exI [of _ ?y1] exI [of _ ?c]) simp
  next
    case False
    have j: "pstate (process_list ?y1 ! i) = PROCESS_STATE_READY" "pcontext (process_list ?y1 ! i) = ?c"
      using switched_nth [OF T(3) i i] T(4) False assms(2) i by simp_all
    have len1: "length (process_list ?y1) = 16" using T(3) by simp
    have a: "ahead ?n i \<le> 15" using False n i by (auto simp: ahead_def)
    then have "ahead ?n i \<le> length others" using assms(6) by simp
    from comes_back [OF run1 len1 i False [symmetric] j(1) this]
    obtain k z y' where k: "k < ahead ?n i" "ticks (take k others) ?y1 = Some z" "timer_interrupt (others ! k) z = Some (y', ?c)"
      "running (process_list y') i" "pg y' = paging_use_page_directory (page_directory_virtual_addr ?c) (pg z)"
      unfolding j(2) by blast
    have "ticks (take (Suc k) frames) y = Some z" using k(2) T(1) by (simp add: assms(4))
    moreover have "timer_interrupt (frames ! Suc k) z = Some (y', ?c)" using k(3) by (simp add: assms(4))
    moreover have "Suc k \<le> 15" using k(1) a by simp
    ultimately show ?thesis using k(4) loads own [of "pg z"] unfolding k(5) [symmetric] by metis
  qed
qed

definition demo_user :: x86 where
  "demo_user = \<lparr>regs = zero_cpu\<lparr>eax := 7, esp := 0xBFFFFF00, ds := 0x23, es := 0x23\<rparr>, ip = 0x1234, code_seg = 0x1B,
     stack_seg = 0x23, flag_reg = 0x202, words = (\<lambda>_. 0)\<rparr>"

lemma demo_user_state: "user_state demo_user"
  by (simp add: user_state_def demo_user_def zero_cpu_def outer_selector_def selectors)

theorem process_resumes_witness:
  "\<exists>k z y' ctx. k \<le> 15 \<and> running (process_list y') 0 \<and>
     timer_interrupt ((frame_at (words (interrupt_handler \<lparr>zero_extends = False, alu_flags = (\<lambda>_ f. f)\<rparr> 0x20
         (raise_interrupt 0xC0200000 0xC0005000 demo_user))) 0xC01FFFB4 # replicate 15 demo_frame) ! k) z = Some (y', ctx) \<and>
     (\<forall>t. context_at (words t) (top t + 4) = ctx \<longrightarrow> same_program (process_context_switch t) demo_user)"
proof -
  let ?e = "interrupt_handler \<lparr>zero_extends = False, alu_flags = (\<lambda>_ f. f)\<rparr> 0x20 (raise_interrupt 0xC0200000 0xC0005000 demo_user)"
  have t: "top ?e = 0xC01FFFB4" using user_entry(7) [OF demo_user_state] by simp
  have b: "KERNEL_VIRTUAL_ADDRESS_BASE < paging_get_current_page_directory_addr (pg demo_pair)"
    by (simp add: demo_pair_def demo_sys_def paging_start_def demo_layout_def paging_get_current_page_directory_addr_def KERNEL_VIRTUAL_ADDRESS_BASE_def)
  show ?thesis
    using process_resumes [OF demo_pair_running(1,2) demo_user_state refl refl _ b,
        where others = "replicate 15 demo_frame" and P = "\<lparr>zero_extends = False, alu_flags = (\<lambda>_ f. f)\<rparr>" and ?sp0.0 = "0xC0200000" and h = "0xC0005000"]
    unfolding t by fastforce
qed

section \<open>The end of a program\<close>

text \<open>
  \<open>_start\<close> after \<open>main\<close> has returned its value in \<open>eax\<close>: the registers system call 9 is
  raised with.
\<close>

definition program_exit :: "cpu_register \<Rightarrow> cpu_register" where
  "program_exit r = r\<lparr>ebx := eax r, eax := 9\<rparr>"

text \<open>
  System call 9 takes the number in \<open>ebx\<close> for a process to destroy, but \<open>_start\<close> puts the
  value of \<open>main\<close> there: a program that returns 0 in slot \<open>i\<close> destroys the process numbered 0,
  the shell, and is itself still the running process.
\<close>

theorem main_return_destroys:
  assumes "running (process_list (ksys k)) i" and "length (process_list (ksys k)) = 16"
    and "unat (eax r) < 16" "unat (eax r) \<noteq> i" "\<not> list_of_process (ksys k) ! unat (eax r)"
    and "find (\<lambda>q. pid (process_list (ksys k) ! q) = eax r) [0..<PROCESS_COUNT_MAX] = Some q"
  shows "\<exists>k'. syscall M (program_exit r) k = Some (Inr k') \<and> process_list (ksys k') ! unat (eax r) = zero_pcb \<and>
    process_list (ksys k') ! i = process_list (ksys k) ! i \<and> running (process_list (ksys k')) i"
proof -
  obtain y where y: "process_destroy (mlayout M) (eax r) (ksys k) = Inr (True, y)"
    "process_list y = (process_list (ksys k))[unat (eax r) := zero_pcb]"
    using assms(3,5,6) by (simp add: process_destroy_def PROCESS_COUNT_MAX_def word_le_nat_alt)
  have "syscall M (program_exit r) k = Some (Inr (k\<lparr>ksys := y\<rparr>))"
    using y(1) by (simp add: syscall_def program_exit_def with_sys_def bindO_def Let_def)
  moreover have "running (process_list y) i"
  proof -
    have "pstate (process_list y ! j) = (if j = unat (eax r) then NO_PROCESS else pstate (process_list (ksys k) ! j))" if "j < 16" for j
      using that assms(2,3) y(2) by (simp add: nth_list_update zero_pcb_def)
    then show ?thesis using assms(1,4) by (simp add: running_def)
  qed
  ultimately show ?thesis using y(2) assms(2-4) by simp
qed

end
