(* ===== verification/Spec2Isabelle.thy ===== *)
theory Spec2Isabelle
  imports FatDelete FatDemo FatMount FatSpec FatWrite Interrupts Descriptors Disk ShellMove ShellLine ClockProgram KernelSteps HostTool KernelReturns ShellReturns Typing ShellFind Tlb Device ShellCalls Stubs
begin

text \<open>
  A verification development for JatOS, a 32-bit x86 teaching operating system in C: boot
  tables, interrupts, text display and keyboard, a FAT32-like file system, paging, processes,
  a round-robin scheduler, system calls, and as user programs a shell and a clock.

  \<^bold>\<open>Program and theories.\<close> The names of definitions are those of the C functions and constants
  where HOL allows it; \<open>read\<close>, \<open>write\<close> and \<open>delete\<close> of the file system are \<open>fs_read\<close>,
  \<open>fs_write\<close> and \<open>fs_delete\<close>, \<open>in\<close> is \<open>in_port\<close>.

  \<^item> \<open>Prelude\<close>: machine words, faults, bounds-checked arrays, counted loops, memory, and the locale
    \<open>step_invariant\<close>, interpreted for the calls of the file system and of paging and for the
    kernel's steps.
  \<^item> \<open>CString\<close>: \<^verbatim>\<open>src/src/stdlib/string.c\<close>.
  \<^item> \<open>Storage\<close>: the block device of \<^verbatim>\<open>src/src/external-inserter.c\<close>, a 4 MiB image.
  \<^item> \<open>Cluster\<close>: clusters of four blocks (\<^verbatim>\<open>src/src/fat32.c\<close>). The locale \<open>cluster_store\<close> is
    what the file system relies on of them; its interpretation \<open>cstore\<close> discharges it.
  \<^item> \<open>FatTypes\<close>: the structures of \<^verbatim>\<open>src/src/header/filesystem/fat32.h\<close> and their bytes.
  \<^item> \<open>Fat32\<close>: the operations of \<^verbatim>\<open>src/src/fat32.c\<close>, written as the code has them.
    \<open>FatChain\<close> (cluster chains), \<open>FatWrite\<close> (what the write loop computes), \<open>FatSpec\<close> (read and
    write), \<open>FatDelete\<close> and \<open>FatMount\<close> (formatting, mounting, power cuts) hold the theory of
    it, \<open>FatDemo\<close> a concrete file system for the witnesses.
  \<^item> \<open>Slots\<close>: the locale \<open>slot_pool\<close> of a pool with used flags; \<open>Paging\<close>
    (\<^verbatim>\<open>src/src/paging.c\<close>) interprets it for the page frames and for the page directories.
    \<open>Tlb\<close> adds the translation cache of the processor.
  \<^item> \<open>Process\<close> (\<^verbatim>\<open>src/src/process.c\<close>) and \<open>Scheduler\<close> (\<^verbatim>\<open>src/src/scheduler.c\<close> and the timer
    interrupt).
  \<^item> \<open>Ports\<close> (\<^verbatim>\<open>src/src/portio.c\<close> and the interrupt controllers of \<^verbatim>\<open>src/src/interrupt.c\<close>),
    \<open>Console\<close> (\<^verbatim>\<open>src/src/framebuffer.c\<close>), \<open>Keyboard\<close> (\<^verbatim>\<open>src/src/keyboard.c\<close>), \<open>Cmos\<close>
    (\<^verbatim>\<open>src/src/cmos.c\<close>), \<open>Descriptors\<close> (\<^verbatim>\<open>src/src/gdt.c\<close>, \<^verbatim>\<open>src/src/idt.c\<close>, the task state).
  \<^item> \<open>Interrupts\<close>: the system calls and the interrupt handler of \<^verbatim>\<open>src/src/interrupt.c\<close>, over
    the state of all the components.
  \<^item> \<open>Disk\<close>: the ATA driver \<^verbatim>\<open>src/src/disk.c\<close> over a drive behind the ports, shown to be the
    block device of \<open>Storage\<close>. The locale \<open>block_device\<close> of \<open>Device\<close> is what \<open>fat32.c\<close> relies
    on of either; it is interpreted on both.
  \<^item> \<open>Shell\<close> (variables, prompt, ls, cd, cat, mkdir, rm), \<open>ShellLogo\<close> (the picture) and
    \<open>ShellCommands\<close> (find, kill, cp, mv, exec, the line editor and the dispatch):
    \<^verbatim>\<open>src/src/user-shell.c\<close>. Their theory is \<open>ShellLocation\<close> (the current directory and its
    parent), \<open>ShellWalk\<close> (cd), \<open>ShellFolders\<close> (mkdir and ls), \<open>ShellFiles\<close> (rm, cp, cat) and
    \<open>ShellMove\<close> (mv).
    \<open>ShellLine\<close> compares the loop of the shell with an interpreter of lines, \<open>ShellFind\<close> the
    search with a breadth-first search of the tree of directories.
  \<^item> \<open>Typing\<close>: from the key to the command: the keyboard, its interrupt and a polling program
    as an abstract terminal, and the shell behind it.
  \<^item> \<open>Stubs\<close>: the interrupt stubs, the context switch, the jump to user mode and the end of a
    program (\<^verbatim>\<open>src/src/header/interrupt/intsetup.s\<close>, \<^verbatim>\<open>src/src/ctx_switch.s\<close>,
    \<^verbatim>\<open>src/src/kernel-entrypoint.s\<close>, \<^verbatim>\<open>src/src/crt0.s\<close>), and preemption as the program sees it.
  \<^item> \<open>ShellCalls\<close>: the shell's operations on files and the system calls behind them.
  \<^item> \<open>Boot\<close>: \<^verbatim>\<open>src/src/kernel.c\<close>, the set-up as a composition of the components.
  \<^item> \<open>KernelSteps\<close>: the kernel as a state machine whose steps are interrupts, user programs and
    devices, its invariant and the isolation of the address spaces.
  \<^item> \<open>HostTool\<close>: the main function of \<^verbatim>\<open>src/src/external-inserter.c\<close>, and the tool and the kernel
    together.
  \<^item> \<open>FatReturns\<close>, \<open>KernelReturns\<close>, \<open>ShellReturns\<close>: the operations of the file system, the
    interrupt handler and the commands of the shell come back, whatever chains the allocation
    table holds behind its first entry and whatever the directories hold but for some sizes
    close to 2 to the 31 and 2 to the 32.
  \<^item> \<open>ClockProgram\<close>: \<^verbatim>\<open>src/src/user-clock.c\<close>, run on the kernel of \<open>Interrupts\<close>.

  \<^bold>\<open>State and effects.\<close> Each component's variables are a record, each function a definition
  that takes and returns it. An execution that indexes an array out of its bounds,
  dereferences NULL, overruns an object, touches an unmapped page, follows a program's pointer
  into the kernel's own page or leaves the storage is
  \<open>Inl\<close> of a \<open>fault\<close>. Loops that may not end are partial functions with values in \<open>option\<close>;
  termination is then a theorem. Hardware is a parameter: a \<open>bus\<close> says what the port
  instructions do to a device state, and predicates (\<open>pic_ok\<close>, \<open>crtc_ok\<close>, \<open>display_bus\<close>,
  \<open>rtc_ok\<close>, \<open>ata_ok\<close>) state the documented behaviour of a device, each with an instance that satisfies
  it. The addresses of kernel objects are the parameter \<open>layout\<close>.

  \<^bold>\<open>What is shown.\<close> The file system: every return code and every branch of its operations,
  what is written is read back, a write or delete leaves the others alone, deletion undoes
  writing, and the cached table survives power cuts between calls whose directory is not one
  of the two reserved clusters. Paging: no frame is shared, the
  counter is exact, allocation maps what it should. Processes and scheduling: loading,
  context saving, round robin as a refinement of the first ready process in cyclic order,
  no starvation. Display, keyboard, clock and descriptor tables: what the user sees and
  what the processor reads. System calls: memory isolation and who may change what. The ATA
  driver refines the block device. The shell: its variables agree with its path whatever is
  typed, cd follows the tree of directories, mkdir extends it, and what cat, cp, rm and mv do
  to the files, its loop is an interpreter of lines, what is typed at the keyboard reaches it, and find is a
  breadth-first search. The operations on files the shell is modelled over are the system calls
  of the kernel in the shell's address space. A program interrupted by the timer goes on,
  through stub, scheduler and context switch, as if nothing had happened. Booting starts the shell in its own
  address space, and it is the shell the host tool put on the disk; from then on every step
  keeps the kernel's invariant, no byte is open to two address spaces and no process changes
  the memory of another, as long as no system call is given a pointer into the kernel's page. The
  clock program shows the hour and the minute right and the seconds doubly decoded. Every loop comes back when the first
  entry of the allocation table has its reserved value and no size is so close to 2 to the 32
  that rounding it up wraps around, or, where cat counts in an \<open>int\<close>, to 2 to the 31. Where
  the code fails its purpose the theorems state what it does: the overrun of \<open>read\<close>, the
  scan past the allocation table, the stack overrun of deleting a folder, the directory in a
  reserved cluster, the lost frames and the overwritten slot of processes, the doubly decoded
  seconds, the empty cell that scancode 0 writes.

  \<^bold>\<open>Modelling decisions.\<close> The text memory of the display and the variables of the kernel are
  separate from physical memory. A system call reaches them through a pointer into the page at
  3 GB, for which the code does not check; in the model such a call is the fault
  \<open>Kernel_Access\<close>: a pointer of a program is followed only into user pages. What the theorems say
  of system calls is therefore said of calls whose pointers stay there. The
  translation cache is left out but in \<open>Tlb\<close>, which shows when that is sound. The \<open>float\<close> arithmetic of \<open>ceil_div\<close> is rounding of rationals to 24
  significant bits. The storage of the file system is the block device of the host tool.
  Fields and objects the code leaves uninitialised come from arguments (\<open>junk\<close>), each object
  its own. The shell's stack is one page of 4 MiB: an array of variable length that does not fit
  is a fault, one that fits occupies a multiple of 16 bytes (\<open>array_room\<close>), the alignment the
  compiler keeps. The shell is
  modelled over the file system operations: its system calls for files are those operations,
  with the buffer of a request at address 0 of a memory of its own (\<open>ShellCalls\<close> proves that this
  is what the system calls do), and every other call is an event of its trace; names are their eight bytes. Its loops that only pass time have no
  effect. Interrupts are not interleaved with the set-up. The clock program runs through
  \<open>syscall\<close> and its own address space.

  The host tool runs over a record of files and output; its decimal numbers are of any size.

  In \<open>Stubs\<close> the stack is a function from addresses to double words, the address space is flat,
  the C function between the stub's two halves is the model of it, and what processors do
  differently is a parameter.

  \<^bold>\<open>Not modelled.\<close> Of the kernel's entry in assembly the control registers, the multiboot header
  and the instructions that load the descriptor tables: \<open>Boot\<close> starts from what they leave and
  records the instructions. The linker scripts and the build files are not code of the system;
  of \<^verbatim>\<open>src/src/cmos.c\<close> the function \<open>init_cmos\<close> has an empty body.
\<close>

end
